(* ===== verification/Prelude.thy ===== *)
theory Prelude
  imports Main "HOL-Library.Char_ord" "HOL-Library.List_Lexorder" "HOL-Library.Product_Lexorder"
begin

text \<open>
  Shared vocabulary of the development: the error values of the Go sources and the result type
  of a fallible call, tables as lists of rows with their lookup and update, the identifier
  patterns that several packages check, the loops over a list that keep a set of seen keys, and
  the locales for state machines (a step relation with an invariant or with a preorder).
  Strings are byte strings, as Go strings are; they are ordered bytewise.
\<close>

named_theorems table_simps \<open>lookups and updates of tables kept as lists of rows\<close>

section \<open>Errors and results\<close>

text \<open>
  The sentinel errors of the packages \<open>domain\<close> and \<open>postgres\<close>, an error made by
  \<open>errors.New\<close> (\<open>Err\<close>), one that wraps another with a message (\<open>Wrap\<close>), two joined by
  \<open>errors.Join\<close>, and a failure that the database reports for a statement (\<open>DbError\<close>).
\<close>

datatype error =
    Err string
  | DbError string
  | ErrConflict
  | ErrNotFound
  | ErrStaleFence
  | ErrLeaseUnavailable
  | ErrPublicationNotReady
  | ErrSnapshotCASConflict
  | ErrPersistentIntegrity
  | ErrGraphReadBudget
  | ErrInvalidSparseGeneration
  | ErrLexicalInputTooLarge
  | ErrLexicalTermTooLong
  | ErrLexicalTooManyTerms
  | Wrap string error
  | Joined error error

type_synonym 'a result = "error + 'a"

fun errors_is :: "error \<Rightarrow> error \<Rightarrow> bool" where
  "errors_is (Wrap m e) target = (Wrap m e = target \<or> errors_is e target)"
| "errors_is (Joined a b) target = (Joined a b = target \<or> errors_is a target \<or> errors_is b target)"
| "errors_is e target = (e = target)"

definition bind_result :: "'a result \<Rightarrow> ('a \<Rightarrow> 'b result) \<Rightarrow> 'b result" where
  "bind_result x f = (case x of Inl e \<Rightarrow> Inl e | Inr a \<Rightarrow> f a)"

lemma bind_result_simps [simp]:
  "bind_result (Inl e) f = Inl e" "bind_result (Inr a) f = f a"
  by (simp_all add: bind_result_def)

lemma bind_result_Inr_iff:
  "bind_result x f = Inr b \<longleftrightarrow> (\<exists>a. x = Inr a \<and> f a = Inr b)"
  by (cases x) simp_all

text \<open>A guard that returns an error early: the call succeeds when the guard does not hold.\<close>

lemma guard_Inr_iff: "(if P then Inl e else x) = Inr b \<longleftrightarrow> \<not> P \<and> x = Inr b"
  by simp

text \<open>An error that is wrapped on its way out.\<close>

lemma wrapped_Inr_iff:
  "(case x of Inl e \<Rightarrow> Inl (f e) | Inr u \<Rightarrow> y u) = Inr b \<longleftrightarrow> (\<exists>u. x = Inr u \<and> y u = Inr b)"
  by (cases x) simp_all

lemma bind_result_Inl_iff:
  "bind_result x f = Inl e \<longleftrightarrow> x = Inl e \<or> (\<exists>a. x = Inr a \<and> f a = Inl e)"
  by (cases x) simp_all

definition succeeded :: "'a result \<times> 'b \<Rightarrow> bool" where
  "succeeded x = (case fst x of Inr _ \<Rightarrow> True | Inl _ \<Rightarrow> False)"

lemma succeeded_ex: "succeeded x \<Longrightarrow> \<exists>a. x = (Inr a, snd x)"
  by (cases x) (auto simp: succeeded_def split: sum.splits)

section \<open>Tables as lists of rows\<close>

definition row_of :: "('r \<Rightarrow> 'k) \<Rightarrow> 'k \<Rightarrow> 'r list \<Rightarrow> 'r option" where
  "row_of key k rows = find (\<lambda>r. key r = k) rows"

definition update_row :: "('r \<Rightarrow> 'k) \<Rightarrow> 'k \<Rightarrow> ('r \<Rightarrow> 'r) \<Rightarrow> 'r list \<Rightarrow> 'r list" where
  "update_row key k f rows = map (\<lambda>r. if key r = k then f r else r) rows"

definition update_rows :: "('r \<Rightarrow> 'k) \<Rightarrow> 'k list \<Rightarrow> ('r \<Rightarrow> 'r) \<Rightarrow> 'r list \<Rightarrow> 'r list" where
  "update_rows key ks f rows = map (\<lambda>r. if key r \<in> set ks then f r else r) rows"

lemma row_of_Nil [table_simps]: "row_of key k [] = None"
  by (simp add: row_of_def)

lemma row_of_Cons [table_simps]:
  "row_of key k (r # rows) = (if key r = k then Some r else row_of key k rows)"
  by (simp add: row_of_def)

lemma row_of_Some: "row_of key k rows = Some r \<Longrightarrow> key r = k \<and> r \<in> set rows"
  by (auto simp: row_of_def find_Some_iff)

lemma row_of_key: "row_of key k rows = Some r \<Longrightarrow> key r = k"
  by (auto dest: row_of_Some)

lemma row_of_mem: "row_of key k rows = Some r \<Longrightarrow> r \<in> set rows"
  by (auto dest: row_of_Some)

lemma row_of_None_iff: "row_of key k rows = None \<longleftrightarrow> (\<forall>r \<in> set rows. key r \<noteq> k)"
  by (auto simp: row_of_def find_None_iff)

lemma row_of_distinct:
  "distinct (map key rows) \<Longrightarrow> r \<in> set rows \<Longrightarrow> row_of key (key r) rows = Some r"
  by (induction rows) (auto simp: table_simps)

lemma row_of_append [table_simps]:
  "row_of key k (rows @ rows') =
     (case row_of key k rows of None \<Rightarrow> row_of key k rows' | Some r \<Rightarrow> Some r)"
  by (induction rows) (simp_all add: table_simps)

lemma row_of_map:
  assumes "\<And>r. key (f r) = key r"
  shows "row_of key k (map f rows) = map_option f (row_of key k rows)"
  using assms by (induction rows) (simp_all add: table_simps)

lemma row_of_update_row [table_simps]:
  assumes "\<And>r. key (f r) = key r"
  shows "row_of key k (update_row key k' f rows) =
    (if k = k' then map_option f (row_of key k rows) else row_of key k rows)"
  using assms by (induction rows) (auto simp: update_row_def table_simps)

lemma row_of_update_rows [table_simps]:
  assumes "\<And>r. key (f r) = key r"
  shows "row_of key k (update_rows key ks f rows) =
    (if k \<in> set ks then map_option f (row_of key k rows) else row_of key k rows)"
  using assms by (induction rows) (auto simp: update_rows_def table_simps)

lemma map_key_update_row [table_simps]:
  assumes "\<And>r. key' (f r) = key' r"
  shows "map key' (update_row key k f rows) = map key' rows"
  using assms by (simp add: update_row_def)

lemma map_key_update_rows [table_simps]:
  assumes "\<And>r. key' (f r) = key' r"
  shows "map key' (update_rows key ks f rows) = map key' rows"
  using assms by (simp add: update_rows_def)

lemma set_update_row:
  "r' \<in> set (update_row key k f rows) \<Longrightarrow>
     (r' \<in> set rows \<and> key r' \<noteq> k) \<or> (\<exists>r \<in> set rows. key r = k \<and> r' = f r)"
  by (auto simp: update_row_def split: if_splits)

lemma set_update_rows:
  "r' \<in> set (update_rows key ks f rows) \<Longrightarrow>
     (r' \<in> set rows \<and> key r' \<notin> set ks) \<or> (\<exists>r \<in> set rows. key r \<in> set ks \<and> r' = f r)"
  by (auto simp: update_rows_def split: if_splits)

text \<open>The first row of a selection in a given order (\<open>ORDER BY\<close> with \<open>LIMIT 1\<close>).\<close>

definition first_row :: "('r \<Rightarrow> 'k::linorder) \<Rightarrow> ('r \<Rightarrow> bool) \<Rightarrow> 'r list \<Rightarrow> 'r option" where
  "first_row ord P rows =
     (case sort_key ord (filter P rows) of [] \<Rightarrow> None | r # _ \<Rightarrow> Some r)"

lemma first_row_Some: "first_row ord P rows = Some r \<Longrightarrow> r \<in> set rows \<and> P r"
proof -
  assume "first_row ord P rows = Some r"
  then obtain rs where "sort_key ord (filter P rows) = r # rs"
    by (auto simp: first_row_def split: list.splits)
  then have "r \<in> set (sort_key ord (filter P rows))" by simp
  then show ?thesis by simp
qed

lemma first_row_least:
  assumes "first_row ord P rows = Some r" and "r' \<in> set rows" and "P r'"
  shows "ord r \<le> ord r'"
proof -
  from assms(1) obtain rs where s: "sort_key ord (filter P rows) = r # rs"
    by (auto simp: first_row_def split: list.splits)
  from assms(2,3) have "r' \<in> set (sort_key ord (filter P rows))" by simp
  moreover have "sorted (map ord (sort_key ord (filter P rows)))" by (rule sorted_sort_key)
  ultimately show ?thesis using s by auto
qed

lemma first_row_None_iff: "first_row ord P rows = None \<longleftrightarrow> (\<forall>r \<in> set rows. \<not> P r)"
proof -
  have "first_row ord P rows = None \<longleftrightarrow> sort_key ord (filter P rows) = []"
    by (simp add: first_row_def split: list.splits)
  also have "\<dots> \<longleftrightarrow> set (sort_key ord (filter P rows)) = {}"
    by (simp only: set_empty)
  also have "\<dots> \<longleftrightarrow> (\<forall>r \<in> set rows. \<not> P r)" by auto
  finally show ?thesis .
qed

section \<open>Identifier patterns\<close>

definition is_digit :: "char \<Rightarrow> bool" where
  "is_digit c \<longleftrightarrow> CHR ''0'' \<le> c \<and> c \<le> CHR ''9''"

definition is_alnum :: "char \<Rightarrow> bool" where
  "is_alnum c \<longleftrightarrow> (CHR ''A'' \<le> c \<and> c \<le> CHR ''Z'') \<or> (CHR ''a'' \<le> c \<and> c \<le> CHR ''z'') \<or> is_digit c"

definition is_id_tail :: "char \<Rightarrow> bool" where
  "is_id_tail c \<longleftrightarrow> is_alnum c \<or> c = CHR ''.'' \<or> c = CHR ''_'' \<or> c = CHR '':'' \<or> c = CHR ''-''"

definition is_lower_hex :: "char \<Rightarrow> bool" where
  "is_lower_hex c \<longleftrightarrow> is_digit c \<or> (CHR ''a'' \<le> c \<and> c \<le> CHR ''f'')"

fun storageIDPattern :: "string \<Rightarrow> bool" where
  "storageIDPattern [] = False"
| "storageIDPattern (c # cs) = (is_alnum c \<and> length cs \<le> 255 \<and> list_all is_id_tail cs)"

definition sha256Pattern :: "string \<Rightarrow> bool" where
  "sha256Pattern s \<longleftrightarrow> length s = 64 \<and> list_all is_lower_hex s"

lemma storageIDPattern_nonempty: "storageIDPattern s \<Longrightarrow> s \<noteq> []"
  by auto

section \<open>State machines\<close>

text \<open>
  A step relation that keeps an invariant: every state of a run that starts in the invariant
  satisfies it.
\<close>

locale invariant_system =
  fixes inv :: "'s \<Rightarrow> bool" and step :: "'s \<Rightarrow> 's \<Rightarrow> bool"
  assumes inv_step: "inv s \<Longrightarrow> step s t \<Longrightarrow> inv t"
begin

lemma inv_run: "step\<^sup>*\<^sup>* s t \<Longrightarrow> inv s \<Longrightarrow> inv t"
  by (induction rule: rtranclp_induct) (auto intro: inv_step)

end

text \<open>
  A step relation whose steps are contained in a preorder, from states that satisfy an
  invariant: a run relates its first and its last state.
\<close>

locale evolving_system = invariant_system inv step
  for inv :: "'s \<Rightarrow> bool" and step :: "'s \<Rightarrow> 's \<Rightarrow> bool" +
  fixes evolves :: "'s \<Rightarrow> 's \<Rightarrow> bool"
  assumes evolves_refl: "evolves s s"
    and evolves_trans: "evolves s t \<Longrightarrow> evolves t u \<Longrightarrow> evolves s u"
    and evolves_step: "inv s \<Longrightarrow> step s t \<Longrightarrow> evolves s t"
begin

lemma evolves_run:
  assumes "step\<^sup>*\<^sup>* s t" and "inv s"
  shows "evolves s t"
  using assms
proof (induction rule: rtranclp_induct)
  case base
  show ?case by (rule evolves_refl)
next
  case (step t u)
  then have "inv t" by (blast intro: inv_run)
  with step show ?case by (blast intro: evolves_trans evolves_step)
qed

end

end
