(* ===== verification/Float64.thy ===== *)
theory Float64
  imports Complex_Main Prelude "HOL-Library.Log_Nat"
begin

text \<open>
  Go's \<open>float64\<close>: the finite values as rationals, the two infinities and the not-a-number value,
  with IEEE 754 binary64 rounding to nearest, ties to even. Signed zeros are identified: no
  modelled code distinguishes them.
\<close>

datatype float64 = NaN | PosInf | NegInf | Fin rat

definition is_nan :: "float64 \<Rightarrow> bool" where
  "is_nan x \<longleftrightarrow> x = NaN"

definition is_inf :: "float64 \<Rightarrow> bool" where
  "is_inf x \<longleftrightarrow> x = PosInf \<or> x = NegInf"

fun float_lt :: "float64 \<Rightarrow> float64 \<Rightarrow> bool" where
  "float_lt (Fin a) (Fin b) = (a < b)"
| "float_lt NegInf PosInf = True"
| "float_lt NegInf (Fin b) = True"
| "float_lt (Fin a) PosInf = True"
| "float_lt _ _ = False"

fun float_eq :: "float64 \<Rightarrow> float64 \<Rightarrow> bool" where
  "float_eq NaN _ = False"
| "float_eq _ NaN = False"
| "float_eq x y = (x = y)"

definition float_le :: "float64 \<Rightarrow> float64 \<Rightarrow> bool" where
  "float_le x y \<longleftrightarrow> float_lt x y \<or> float_eq x y"

text \<open>Powers of two with an integer exponent, and the binary exponent of a positive rational.\<close>

definition pow2 :: "int \<Rightarrow> rat" where
  "pow2 e = (if 0 \<le> e then 2 ^ nat e else 1 / 2 ^ nat (- e))"

definition binary_exponent :: "rat \<Rightarrow> int" where
  "binary_exponent x =
     (let (p, q) = quotient_of x; e = bitlen p - bitlen q in if pow2 e \<le> x then e else e - 1)"

definition round_half_even :: "rat \<Rightarrow> int" where
  "round_half_even x =
     (let n = \<lfloor>x\<rfloor>; d = x - of_int n in
      if d < 1 / 2 then n else if 1 / 2 < d then n + 1 else if even n then n else n + 1)"

definition round_magnitude :: "rat \<Rightarrow> float64" where
  "round_magnitude x =
     (if x = 0 then Fin 0
      else let u = max (binary_exponent x - 52) (- 1074);
               v = of_int (round_half_even (x / pow2 u)) * pow2 u
           in if pow2 1024 \<le> v then PosInf else Fin v)"

fun float_neg :: "float64 \<Rightarrow> float64" where
  "float_neg NaN = NaN"
| "float_neg PosInf = NegInf"
| "float_neg NegInf = PosInf"
| "float_neg (Fin x) = Fin (- x)"

definition round64 :: "rat \<Rightarrow> float64" where
  "round64 x = (if x < 0 then float_neg (round_magnitude (- x)) else round_magnitude x)"

fun float_add :: "float64 \<Rightarrow> float64 \<Rightarrow> float64" where
  "float_add (Fin a) (Fin b) = round64 (a + b)"
| "float_add NaN _ = NaN"
| "float_add _ NaN = NaN"
| "float_add PosInf NegInf = NaN"
| "float_add NegInf PosInf = NaN"
| "float_add PosInf _ = PosInf"
| "float_add _ PosInf = PosInf"
| "float_add NegInf _ = NegInf"
| "float_add _ NegInf = NegInf"

text \<open>Division by a finite nonzero value, the only division the modelled code performs.\<close>

fun float_div :: "float64 \<Rightarrow> rat \<Rightarrow> float64" where
  "float_div (Fin a) b = round64 (a / b)"
| "float_div NaN b = NaN"
| "float_div PosInf b = (if b < 0 then NegInf else PosInf)"
| "float_div NegInf b = (if b < 0 then PosInf else NegInf)"

section \<open>The order on values that are not NaN\<close>

lemma float_lt_irrefl [simp]: "\<not> float_lt x x"
  by (cases x) simp_all

lemma float_lt_trans: "float_lt x y \<Longrightarrow> float_lt y z \<Longrightarrow> float_lt x z"
  by (cases x; cases y; cases z) auto

lemma float_lt_asym: "float_lt x y \<Longrightarrow> \<not> float_lt y x"
  by (cases x; cases y) auto

lemma float_eq_iff: "\<not> is_nan x \<Longrightarrow> \<not> is_nan y \<Longrightarrow> float_eq x y \<longleftrightarrow> x = y"
  by (cases x; cases y) (auto simp: is_nan_def)

lemma float_total:
  "\<not> is_nan x \<Longrightarrow> \<not> is_nan y \<Longrightarrow> float_lt x y \<or> x = y \<or> float_lt y x"
  by (cases x; cases y) (auto simp: is_nan_def)

lemma pow2_pos [simp]: "0 < pow2 e"
  by (simp add: pow2_def)

lemma round_half_even_nonneg: "0 \<le> x \<Longrightarrow> 0 \<le> round_half_even x"
  by (auto simp: round_half_even_def Let_def)

lemma round_half_even_mono: "x \<le> y \<Longrightarrow> round_half_even x \<le> round_half_even y"
proof (cases "\<lfloor>x\<rfloor> = \<lfloor>y\<rfloor>")
  case True
  assume "x \<le> y"
  with True show ?thesis by (auto simp: round_half_even_def Let_def)
next
  case False
  assume "x \<le> y"
  then have "\<lfloor>x\<rfloor> \<le> \<lfloor>y\<rfloor>" by (rule floor_mono)
  with False have "\<lfloor>x\<rfloor> + 1 \<le> \<lfloor>y\<rfloor>" by simp
  moreover have "round_half_even x \<le> \<lfloor>x\<rfloor> + 1" and "\<lfloor>y\<rfloor> \<le> round_half_even y"
    by (auto simp: round_half_even_def Let_def)
  ultimately show ?thesis by simp
qed

lemma round_magnitude_nonneg: "0 \<le> x \<Longrightarrow> \<not> float_lt (round_magnitude x) (Fin 0)"
  by (auto simp: round_magnitude_def Let_def not_less
      intro!: mult_nonneg_nonneg less_imp_le [OF pow2_pos] divide_nonneg_pos round_half_even_nonneg)

lemma round64_not_nan: "\<not> is_nan (round64 x)"
  by (auto simp: round64_def round_magnitude_def is_nan_def Let_def)

end
