(* ===== verification/Contract.thy ===== *)
theory Contract
  imports Float64
begin

text \<open>
  The messages of the wire contract that the modelled code reads: the generated Go structs of
  \<open>gen/regulagraph/v1\<close> as records, their enumerations as datatypes. A sub-message that the code
  tests for nil is an option; one that the contract requires and the code reads without a test is
  a plain field. Fields that no modelled code inspects are kept in one opaque field (\<open>..._rest\<close>),
  so that equality of records is \<open>proto.Equal\<close>. The encoding of a message and the reflective
  reading of it belong to the protobuf runtime and are parameters (\<open>codec\<close>).
\<close>

section \<open>Jobs\<close>

datatype job_operation =
    JOB_OPERATION_UNSPECIFIED | JOB_OPERATION_INGEST | JOB_OPERATION_UPDATE | JOB_OPERATION_REBUILD

datatype job_state =
    JOB_STATE_UNSPECIFIED | JOB_STATE_QUEUED | JOB_STATE_RUNNING | JOB_STATE_WAITING_REVIEW
  | JOB_STATE_STAGED | JOB_STATE_VALIDATING | JOB_STATE_PUBLISHING | JOB_STATE_SUCCEEDED
  | JOB_STATE_RETRY_WAIT | JOB_STATE_FAILED | JOB_STATE_CANCELLED

datatype job_stage =
    JOB_STAGE_UNSPECIFIED | JOB_STAGE_ACQUIRE | JOB_STAGE_PARSE | JOB_STAGE_STRUCTURE
  | JOB_STAGE_EXTRACT | JOB_STAGE_RESOLVE | JOB_STAGE_ASSEMBLE | JOB_STAGE_INDEX
  | JOB_STAGE_BIND | JOB_STAGE_CHUNK

text \<open>An enumeration of the wire is open: a number without a name is kept as such.\<close>

datatype completion_status =
    COMPLETION_STATUS_UNSPECIFIED | COMPLETION_STATUS_SUCCEEDED | COMPLETION_STATUS_FAILED
  | COMPLETION_STATUS_CANCELLED | COMPLETION_STATUS_NUMBER int

primrec job_operation_number :: "job_operation \<Rightarrow> int" where
  "job_operation_number JOB_OPERATION_UNSPECIFIED = 0"
| "job_operation_number JOB_OPERATION_INGEST = 1"
| "job_operation_number JOB_OPERATION_UPDATE = 2"
| "job_operation_number JOB_OPERATION_REBUILD = 3"

primrec job_state_number :: "job_state \<Rightarrow> int" where
  "job_state_number JOB_STATE_UNSPECIFIED = 0"
| "job_state_number JOB_STATE_QUEUED = 1"
| "job_state_number JOB_STATE_RUNNING = 2"
| "job_state_number JOB_STATE_WAITING_REVIEW = 3"
| "job_state_number JOB_STATE_STAGED = 4"
| "job_state_number JOB_STATE_VALIDATING = 5"
| "job_state_number JOB_STATE_PUBLISHING = 6"
| "job_state_number JOB_STATE_SUCCEEDED = 7"
| "job_state_number JOB_STATE_RETRY_WAIT = 8"
| "job_state_number JOB_STATE_FAILED = 9"
| "job_state_number JOB_STATE_CANCELLED = 10"

record record_meta =
  m_schema_version :: nat
  m_corpus_id :: string
  m_record_id :: string
  m_visibility :: "(nat \<times> nat option) option"

record producer_manifest =
  pd_software :: string
  pd_build :: string
  pd_schema_version :: nat
  pd_config_hash :: "string option"
  pd_input_hashes :: "string list"
  pd_rest :: string

record checkpoint =
  ck_meta :: "record_meta option"
  ck_job_id :: string
  ck_stage :: job_stage
  ck_completed_batch_keys :: "string list"
  ck_artifact_hashes :: "string list"
  ck_fence :: nat
  ck_terminal_status :: completion_status
  ck_manifest :: "producer_manifest option"

record ingestion_request =
  ir_corpus_id :: string
  ir_operation :: job_operation
  ir_idempotency_key :: string
  ir_rest :: string

record artifact_ref =
  ar_artifact_id :: string
  ar_content_hash :: "string option"
  ar_storage_key :: string
  ar_byte_size :: nat
  ar_media_type :: string
  ar_schema_version :: nat

record process_batch_request =
  pq_request_id :: string
  pq_corpus_id :: string
  pq_job_id :: string
  pq_attempt :: nat
  pq_lease_fence :: nat
  pq_stages :: "job_stage list"
  pq_rest :: string

record process_batch_response =
  ps_request_id :: string
  ps_job_id :: string
  ps_attempt :: nat
  ps_fence :: nat
  ps_checkpoint :: "checkpoint option"
  ps_document_batch :: "artifact_ref option"
  ps_graph_delta :: "artifact_ref option"
  ps_index_batch :: "artifact_ref option"
  ps_extraction_batch :: "artifact_ref option"
  ps_resolution_batch :: "artifact_ref option"
  ps_status :: completion_status
  ps_errors :: "string list"

section \<open>Inference\<close>

datatype model_task =
    MODEL_TASK_UNSPECIFIED | MODEL_TASK_EMBED | MODEL_TASK_RERANK | MODEL_TASK_EXTRACT
  | MODEL_TASK_RESOLVE | MODEL_TASK_SUMMARIZE | MODEL_TASK_GENERATE | MODEL_TASK_OCR

record model_manifest =
  mm_task :: model_task
  mm_dimensions :: "nat option"
  mm_max_tokens :: nat
  mm_rest :: string

record embed_request =
  eq_request_id :: string
  eq_model :: model_manifest
  eq_item_ids :: "string list"
  eq_rest :: string

text \<open>An embedding result carries a vector or an error.\<close>

record embedding_result =
  er_item_id :: string
  er_embedding :: "string list option"
  er_rest :: string

record embed_response =
  es_request_id :: string
  es_model :: model_manifest
  es_results :: "embedding_result list"
  es_rest :: string

record rerank_request =
  rq_request_id :: string
  rq_model :: model_manifest
  rq_pair_ids :: "string list"
  rq_rest :: string

record truncation_info =
  tr_truncated :: bool
  tr_original_tokens :: nat
  tr_retained_tokens :: nat

record rerank_score =
  rk_score :: float64
  rk_input_tokens :: nat
  rk_truncation :: "truncation_info option"

text \<open>A result carries a score or an error.\<close>

record rerank_result =
  rr_pair_id :: string
  rr_score :: "rerank_score option"
  rr_error :: "string option"

record rerank_response =
  rs_request_id :: string
  rs_model :: model_manifest
  rs_results :: "rerank_result list"
  rs_rest :: string

section \<open>Publication\<close>

datatype snapshot_state =
    SNAPSHOT_STATE_STAGING | SNAPSHOT_STATE_VALIDATING | SNAPSHOT_STATE_READY
  | SNAPSHOT_STATE_PUBLISHED | SNAPSHOT_STATE_ABORTING | SNAPSHOT_STATE_ABORTED
  | SNAPSHOT_STATE_RETIRED

datatype backend_kind =
    BACKEND_KIND_UNSPECIFIED | BACKEND_KIND_POSTGRES | BACKEND_KIND_NEO4J
  | BACKEND_KIND_QDRANT | BACKEND_KIND_ARTIFACTS

datatype severity =
    SEVERITY_UNSPECIFIED | SEVERITY_INFO | SEVERITY_WARNING | SEVERITY_ERROR

record snapshot_ref =
  sr_corpus_id :: string
  sr_snapshot_id :: string
  sr_sequence :: nat
  sr_manifest_hash :: string
  sr_representation_generation :: string

record counts =
  n_expected :: nat
  n_accepted :: nat
  n_rejected :: nat

record backend_generation =
  bg_backend :: backend_kind
  bg_generation :: string
  bg_expected_counts :: counts
  bg_operations_checksum :: string

record backend_receipt =
  br_publication_id :: string
  br_backend :: backend_kind
  br_generation :: string
  br_operations_checksum :: string
  br_counts :: counts
  br_durable_ack :: bool
  br_search_ready :: bool
  br_fence :: nat

record publication_manifest =
  pm_meta :: record_meta
  pm_snapshot_ref :: snapshot_ref
  pm_parent_ref :: "snapshot_ref option"
  pm_backend_generations :: "backend_generation list"
  pm_acknowledgements :: "backend_receipt list"
  pm_report_valid :: bool
  pm_report_issues :: "severity list"
  pm_fence :: nat
  pm_rest :: string

section \<open>Retrieval, evidence and answers\<close>

datatype completeness =
    COMPLETENESS_UNSPECIFIED | COMPLETENESS_COMPLETE | COMPLETENESS_PARTIAL | COMPLETENESS_NONE

datatype semantic_status =
    SEMANTIC_STATUS_UNSPECIFIED | SEMANTIC_STATUS_COMPLETE | SEMANTIC_STATUS_PARTIAL
  | SEMANTIC_STATUS_ABSTAIN | SEMANTIC_STATUS_CONFLICT | SEMANTIC_STATUS_NEEDS_CLARIFICATION

datatype support_status =
    SUPPORT_STATUS_UNSPECIFIED | SUPPORT_STATUS_SUPPORTED | SUPPORT_STATUS_UNSUPPORTED
  | SUPPORT_STATUS_CONFLICTED | SUPPORT_STATUS_UNREVIEWED

datatype temporal_mode =
    TEMPORAL_MODE_UNSPECIFIED | TEMPORAL_MODE_CURRENT | TEMPORAL_MODE_AS_OF | TEMPORAL_MODE_COMPARE

datatype date_knowledge =
    DATE_KNOWLEDGE_UNSPECIFIED | DATE_KNOWLEDGE_KNOWN | DATE_KNOWLEDGE_UNKNOWN
  | DATE_KNOWLEDGE_CONFLICT | DATE_KNOWLEDGE_UNBOUNDED

datatype observation_status =
    OBSERVATION_STATUS_UNSPECIFIED | OBSERVATION_STATUS_COMPLETE | OBSERVATION_STATUS_PARTIAL
  | OBSERVATION_STATUS_FAILED | OBSERVATION_STATUS_NOT_MODIFIED

record calendar_date =
  d_year :: int
  d_month :: nat
  d_day :: nat

datatype legal_status =
    LEGAL_STATUS_UNSPECIFIED | LEGAL_STATUS_UNKNOWN | LEGAL_STATUS_ACTIVE | LEGAL_STATUS_REPEALED
  | LEGAL_STATUS_NOT_YET_EFFECTIVE | LEGAL_STATUS_CONFLICT

primrec legal_status_string :: "legal_status \<Rightarrow> string" where
  "legal_status_string LEGAL_STATUS_UNSPECIFIED = ''LEGAL_STATUS_UNSPECIFIED''"
| "legal_status_string LEGAL_STATUS_UNKNOWN = ''LEGAL_STATUS_UNKNOWN''"
| "legal_status_string LEGAL_STATUS_ACTIVE = ''LEGAL_STATUS_ACTIVE''"
| "legal_status_string LEGAL_STATUS_REPEALED = ''LEGAL_STATUS_REPEALED''"
| "legal_status_string LEGAL_STATUS_NOT_YET_EFFECTIVE = ''LEGAL_STATUS_NOT_YET_EFFECTIVE''"
| "legal_status_string LEGAL_STATUS_CONFLICT = ''LEGAL_STATUS_CONFLICT''"

record text_span =
  sp_artifact_id :: string
  sp_start_byte :: nat
  sp_end_byte :: nat

record page_locator =
  pl_source_blob_id :: string
  pl_rest :: string

record source_version_ref =
  sv_source_blob_id :: string
  sv_provision_version_id :: string
  sv_regulation_id :: string

section \<open>Documents\<close>

datatype review_state =
    REVIEW_STATE_UNSPECIFIED | REVIEW_STATE_UNREVIEWED | REVIEW_STATE_APPROVED
  | REVIEW_STATE_REJECTED | REVIEW_STATE_QUARANTINED

datatype identity_status =
    IDENTITY_STATUS_UNSPECIFIED | IDENTITY_STATUS_UNRESOLVED | IDENTITY_STATUS_VERIFIED
  | IDENTITY_STATUS_CONFLICT

datatype document_kind =
    DOCUMENT_KIND_UNSPECIFIED | DOCUMENT_KIND_REGULATION | DOCUMENT_KIND_DRAFT
  | DOCUMENT_KIND_GUIDANCE | DOCUMENT_KIND_FAQ | DOCUMENT_KIND_JUDGMENT | DOCUMENT_KIND_EXPLANATION

primrec document_kind_number :: "document_kind \<Rightarrow> nat" where
  "document_kind_number DOCUMENT_KIND_UNSPECIFIED = 0"
| "document_kind_number DOCUMENT_KIND_REGULATION = 1"
| "document_kind_number DOCUMENT_KIND_DRAFT = 2"
| "document_kind_number DOCUMENT_KIND_GUIDANCE = 3"
| "document_kind_number DOCUMENT_KIND_FAQ = 4"
| "document_kind_number DOCUMENT_KIND_JUDGMENT = 5"
| "document_kind_number DOCUMENT_KIND_EXPLANATION = 6"

datatype structure_kind =
    STRUCTURE_KIND_UNSPECIFIED | STRUCTURE_KIND_DOCUMENT | STRUCTURE_KIND_CHAPTER
  | STRUCTURE_KIND_PART | STRUCTURE_KIND_ARTICLE | STRUCTURE_KIND_PARAGRAPH | STRUCTURE_KIND_ITEM
  | STRUCTURE_KIND_TABLE | STRUCTURE_KIND_CELL | STRUCTURE_KIND_ANNEX | STRUCTURE_KIND_EXPLANATION

primrec structure_kind_number :: "structure_kind \<Rightarrow> nat" where
  "structure_kind_number STRUCTURE_KIND_UNSPECIFIED = 0"
| "structure_kind_number STRUCTURE_KIND_DOCUMENT = 1"
| "structure_kind_number STRUCTURE_KIND_CHAPTER = 2"
| "structure_kind_number STRUCTURE_KIND_PART = 3"
| "structure_kind_number STRUCTURE_KIND_ARTICLE = 4"
| "structure_kind_number STRUCTURE_KIND_PARAGRAPH = 5"
| "structure_kind_number STRUCTURE_KIND_ITEM = 6"
| "structure_kind_number STRUCTURE_KIND_TABLE = 7"
| "structure_kind_number STRUCTURE_KIND_CELL = 8"
| "structure_kind_number STRUCTURE_KIND_ANNEX = 9"
| "structure_kind_number STRUCTURE_KIND_EXPLANATION = 10"

datatype named_value_value = NV_Text string | NV_Number float64 | NV_Boolean bool | NV_None

record named_value =
  nv_name :: string
  nv_value :: named_value_value

record source_blob =
  sb_meta :: "record_meta option"
  sb_rest :: string

record source_observation =
  so_meta :: "record_meta option"
  so_status :: observation_status
  so_metadata_hash :: "string option"
  so_source_blob_id :: "string option"
  so_portal_metadata :: "named_value list"
  so_rest :: string

record page_result =
  pr_spans :: "text_span list"
  pr_rest :: string

record text_artifact =
  ta_meta :: "record_meta option"
  ta_source_blob_id :: string
  ta_normalized_text_ref :: "artifact_ref option"
  ta_page_results :: "page_result list"
  ta_rest :: string

record structure_node =
  sn_meta :: "record_meta option"
  sn_kind :: structure_kind
  sn_label :: string
  sn_parent_id :: "string option"
  sn_ordered_children :: "string list"
  sn_source_spans :: "text_span list"
  sn_page_locators :: "page_locator list"
  sn_rest :: string

record provision =
  pv_meta :: "record_meta option"
  pv_regulation_id :: string
  pv_structural_path :: "string list"
  pv_parent_provision_id :: "string option"
  pv_lineage_refs :: "string list"

record date_assertion =
  da_knowledge :: date_knowledge
  da_rest :: string

record legal_interval =
  li_start :: "date_assertion option"
  li_end :: "date_assertion option"

record provision_version =
  vn_meta :: "record_meta option"
  vn_provision_id :: string
  vn_text_ref :: "artifact_ref option"
  vn_spans :: "text_span list"
  vn_legal_interval :: "legal_interval option"
  vn_legal_status :: legal_status
  vn_supporting_events :: "string list"
  vn_review_state :: review_state
  vn_rest :: string

record token_usage =
  tu_input_tokens :: nat
  tu_output_tokens :: nat
  tu_tokenizer_id :: string

record chunk =
  cn_meta :: "record_meta option"
  cn_provision_version_refs :: "string list"
  cn_text_span :: "text_span option"
  cn_structure_node_refs :: "string list"
  cn_parent_refs :: "string list"
  cn_exception_refs :: "string list"
  cn_token_counts :: "token_usage list"
  cn_rest :: string

record metadata_assertion =
  ma_field :: string
  ma_value :: string
  ma_observation_refs :: "string list"
  ma_review_state :: review_state

record document_edition =
  ed_meta :: "record_meta option"
  ed_regulation_id :: "string option"
  ed_source_refs :: "string list"
  ed_language :: string
  ed_document_kind :: document_kind
  ed_metadata_assertions :: "metadata_assertion list"
  ed_rest :: string

record regulation =
  rg_meta :: "record_meta option"
  rg_kind :: string
  rg_issuer_id :: string
  rg_jurisdiction :: string
  rg_official_number :: string
  rg_year :: nat
  rg_title :: string
  rg_identity_status :: identity_status

record legal_change_event =
  lc_meta :: "record_meta option"
  lc_amending_source :: "source_version_ref option"
  lc_affected_provisions :: "string list"
  lc_replacement_spans :: "text_span list"
  lc_rest :: string

record validation_issue =
  vi_code :: string
  vi_severity :: severity
  vi_record_id :: string
  vi_field_path :: string
  vi_evidence_refs :: "string list"
  vi_disposition :: string

record dependency =
  dp_dependency_id :: string
  dp_fingerprint :: "string option"

record lookup_scope_revision =
  ls_scope_id :: string
  ls_revision :: nat
  ls_empty_result :: bool

record dependency_manifest =
  dm_artifact_id :: string
  dm_dependencies :: "dependency list"
  dm_producer_manifest :: "producer_manifest option"
  dm_lookup_scope_revisions :: "lookup_scope_revision list"

record document_batch =
  db_meta :: "record_meta option"
  db_sources :: "source_blob list"
  db_text_artifacts :: "text_artifact list"
  db_structures :: "structure_node list"
  db_provisions :: "provision list"
  db_versions :: "provision_version list"
  db_chunks :: "chunk list"
  db_issues :: "validation_issue list"
  db_dependency_manifest :: "dependency_manifest option"
  db_completeness :: completeness
  db_editions :: "document_edition list"
  db_regulations :: "regulation list"
  db_observations :: "source_observation list"
  db_changes :: "legal_change_event list"
  db_rest :: string

record review_item =
  ri_meta :: record_meta
  ri_kind :: string
  ri_proposed_values :: "named_value list"
  ri_evidence_refs :: "string list"
  ri_status :: review_state
  ri_revision :: nat

section \<open>Assertions\<close>

datatype assertion_origin =
    ASSERTION_ORIGIN_UNSPECIFIED | ASSERTION_ORIGIN_EXPLICIT | ASSERTION_ORIGIN_INFERRED

text \<open>The value of a qualifier; \<open>QV_None\<close> when the field is not set.\<close>

datatype qualifier_value =
    QV_CanonicalId string | QV_Literal string | QV_Date date_assertion | QV_Number float64
  | QV_MentionId string | QV_None

record qualifier =
  qu_predicate_id :: string
  qu_value :: qualifier_value

text \<open>
  In a list of mentions or assertions, \<open>None\<close> stands for a nil entry and for one without its record
  metadata, which every reader treats alike.
\<close>

record relation_assertion =
  ra_meta :: record_meta
  ra_subject_id :: string
  ra_object_id :: string
  ra_predicate_id :: string
  ra_qualifiers :: "qualifier option list"
  ra_exception_refs :: "string list"
  ra_origin :: assertion_origin
  ra_ontology_version :: string
  ra_rest :: string

record mention =
  mn_meta :: record_meta
  mn_candidate_type :: string
  mn_rest :: string

record extraction_batch =
  xb_mentions :: "mention option list"
  xb_assertions :: "relation_assertion option list"
  xb_ontology_version :: string
  xb_rest :: string

end
