(* ===== verification/Utf8.thy ===== *)
theory Utf8
  imports Prelude
begin

text \<open>
  The parts of Go's \<open>unicode/utf8\<close> that the sources use, on byte strings: the length of a valid
  encoded code point at the start of a string, decoding, validity and rune starts; and the span
  check \<open>CheckUTF8Span\<close> of \<open>domain/wire.go\<close>.
\<close>

abbreviation byte :: "char \<Rightarrow> nat" where
  "byte c \<equiv> of_char c"

definition continuation :: "char \<Rightarrow> bool" where
  "continuation c \<longleftrightarrow> 128 \<le> byte c \<and> byte c \<le> 191"

definition RuneStart :: "char \<Rightarrow> bool" where
  "RuneStart c \<longleftrightarrow> \<not> continuation c"

text \<open>The width of the valid encoding at the start of the string; \<open>None\<close> if there is none.\<close>

fun rune_width :: "string \<Rightarrow> nat option" where
  "rune_width [] = None"
| "rune_width (a # s) =
     (if byte a < 128 then Some 1
      else case s of [] \<Rightarrow> None | b # s' \<Rightarrow>
        (if 194 \<le> byte a \<and> byte a \<le> 223 then (if continuation b then Some 2 else None)
         else case s' of [] \<Rightarrow> None | c # s'' \<Rightarrow>
           (if 224 \<le> byte a \<and> byte a \<le> 239 then
              (if continuation b \<and> continuation c \<and> (byte a = 224 \<longrightarrow> 160 \<le> byte b) \<and>
                  (byte a = 237 \<longrightarrow> byte b \<le> 159) then Some 3 else None)
            else case s'' of [] \<Rightarrow> None | d # _ \<Rightarrow>
              (if 240 \<le> byte a \<and> byte a \<le> 244 \<and> continuation b \<and> continuation c \<and> continuation d \<and>
                  (byte a = 240 \<longrightarrow> 144 \<le> byte b) \<and> (byte a = 244 \<longrightarrow> byte b \<le> 143)
               then Some 4 else None))))"

lemma rune_width_bounds:
  "rune_width s = Some n \<Longrightarrow> 1 \<le> n \<and> n \<le> length s"
  by (cases s) (auto split: if_splits list.splits)

function utf8_valid :: "string \<Rightarrow> bool" where
  "utf8_valid s = (if s = [] then True else
     case rune_width s of None \<Rightarrow> False | Some n \<Rightarrow> utf8_valid (drop n s))"
  by pat_completeness auto
termination
proof (relation "measure length")
  fix s :: string and n
  assume "s \<noteq> []" and "rune_width s = Some n"
  with rune_width_bounds [of s n] show "(drop n s, s) \<in> measure length" by simp
qed simp

declare utf8_valid.simps [simp del]

text \<open>
  \<open>DecodeRuneInString\<close>: the code point and its width; \<open>U+FFFD\<close> with width 1 where the encoding is
  invalid and with width 0 at the end of the string.
\<close>

definition DecodeRune :: "string \<Rightarrow> nat \<times> nat" where
  "DecodeRune s =
     (case rune_width s of
        None \<Rightarrow> (65533, if s = [] then 0 else 1)
      | Some n \<Rightarrow>
          (if n = 1 then byte (s ! 0)
           else if n = 2 then (byte (s ! 0) - 192) * 64 + (byte (s ! 1) - 128)
           else if n = 3 then (byte (s ! 0) - 224) * 4096 + (byte (s ! 1) - 128) * 64 + (byte (s ! 2) - 128)
           else (byte (s ! 0) - 240) * 262144 + (byte (s ! 1) - 128) * 4096
                + (byte (s ! 2) - 128) * 64 + (byte (s ! 3) - 128), n))"

text \<open>The runes that a Go loop over a string visits.\<close>

function runes_of :: "string \<Rightarrow> nat list" where
  "runes_of s = (if s = [] then [] else (case DecodeRune s of (r, n) \<Rightarrow> r # runes_of (drop n s)))"
  by pat_completeness auto
termination
  by (relation "measure length") (auto simp: DecodeRune_def dest: rune_width_bounds split: option.splits)

declare runes_of.simps [simp del]

text \<open>The encoding of a rune (\<open>WriteRune\<close>).\<close>

definition encode_rune :: "nat \<Rightarrow> string" where
  "encode_rune r =
     (if r < 128 then [char_of r]
      else if r < 2048 then [char_of (192 + r div 64), char_of (128 + r mod 64)]
      else if 55296 \<le> r \<and> r \<le> 57343 \<or> 1114111 < r then [char_of (239 :: nat), char_of (191 :: nat), char_of (189 :: nat)]
      else if r < 65536 then [char_of (224 + r div 4096), char_of (128 + r div 64 mod 64), char_of (128 + r mod 64)]
      else [char_of (240 + r div 262144), char_of (128 + r div 4096 mod 64), char_of (128 + r div 64 mod 64),
            char_of (128 + r mod 64)])"

lemma encode_rune_nonempty [simp]: "encode_rune r \<noteq> []"
  by (simp add: encode_rune_def)

definition CheckUTF8Span :: "string \<Rightarrow> nat \<Rightarrow> nat \<Rightarrow> unit result" where
  "CheckUTF8Span text start stop =
     (if \<not> utf8_valid text \<or> start > stop \<or> stop > length text
      then Inl (Err ''invalid UTF-8 text/span bounds'')
      else if start < length text \<and> \<not> RuneStart (text ! start) \<or>
              stop < length text \<and> \<not> RuneStart (text ! stop)
      then Inl (Err ''span splits UTF-8 code point'')
      else Inr ())"

section \<open>Valid text splits at rune starts\<close>

lemma utf8_valid_Nil [simp]: "utf8_valid []"
  by (simp add: utf8_valid.simps)

lemma utf8_valid_step:
  "s \<noteq> [] \<Longrightarrow> utf8_valid s \<longleftrightarrow> (\<exists>n. rune_width s = Some n \<and> utf8_valid (drop n s))"
  by (simp add: utf8_valid.simps [of s] split: option.splits)

lemma rune_width_append: "rune_width s = Some n \<Longrightarrow> rune_width (s @ t) = Some n"
  by (cases s) (auto split: if_splits list.splits)

lemma rune_width_take: "rune_width s = Some n \<Longrightarrow> n \<le> k \<Longrightarrow> rune_width (take k s) = Some n"
  by (cases s; cases k; cases "k - 1"; cases "k - 2"; cases "k - 3")
     (auto split: if_splits list.splits simp: numeral_eq_Suc)

lemma nth_continuation:
  assumes "rune_width s = Some n" and "0 < i" and "i < n"
  shows "continuation (s ! i)"
proof -
  have "i = 1 \<or> i = 2 \<or> i = 3"
    using assms by (cases s) (auto split: if_splits list.splits)
  then show ?thesis
    using assms by (cases s) (auto split: if_splits list.splits simp: numeral_eq_Suc)
qed

lemma utf8_valid_append: "utf8_valid s \<Longrightarrow> utf8_valid t \<Longrightarrow> utf8_valid (s @ t)"
proof (induction s rule: utf8_valid.induct)
  case (1 s)
  show ?case
  proof (cases "s = []")
    case True
    with 1 show ?thesis by simp
  next
    case False
    with "1.prems"(1) obtain n where n: "rune_width s = Some n" "utf8_valid (drop n s)"
      by (auto simp: utf8_valid_step)
    with False 1 have "utf8_valid (drop n s @ t)" by simp
    moreover have "drop n (s @ t) = drop n s @ t"
      using rune_width_bounds [OF n(1)] by simp
    ultimately show ?thesis
      using False rune_width_append [OF n(1)] by (auto simp: utf8_valid_step)
  qed
qed

text \<open>A cut at a rune start (or at the end) leaves two valid pieces.\<close>

lemma utf8_valid_cut:
  assumes "utf8_valid s" and "k \<le> length s" and "k < length s \<Longrightarrow> RuneStart (s ! k)"
  shows "utf8_valid (take k s) \<and> utf8_valid (drop k s)"
  using assms
proof (induction s arbitrary: k rule: utf8_valid.induct)
  case (1 s)
  show ?case
  proof (cases "s = [] \<or> k = 0")
    case True
    with 1 show ?thesis by auto
  next
    case False
    with "1.prems"(1) obtain n where n: "rune_width s = Some n" "utf8_valid (drop n s)"
      by (auto simp: utf8_valid_step)
    note b = rune_width_bounds [OF n(1)]
    have "n \<le> k"
    proof (rule ccontr)
      assume "\<not> n \<le> k"
      with False n b have "continuation (s ! k)" and "k < length s"
        by (auto intro: nth_continuation)
      with "1.prems"(3) show False by (simp add: RuneStart_def)
    qed
    with "1.IH" [OF _ n, of "k - n"] False "1.prems" b
    have "utf8_valid (take (k - n) (drop n s)) \<and> utf8_valid (drop (k - n) (drop n s))"
      by (auto simp: add.commute)
    moreover have "take (k - n) (drop n s) = drop n (take k s)" by (simp add: drop_take)
    moreover have "rune_width (take k s) = Some n" using n(1) \<open>n \<le> k\<close> by (rule rune_width_take)
    moreover have "take k s \<noteq> []" using False by simp
    ultimately show ?thesis using \<open>n \<le> k\<close> by (auto simp: utf8_valid_step)
  qed
qed

lemma CheckUTF8Span_Inr_iff:
  "CheckUTF8Span text start stop = Inr () \<longleftrightarrow>
     utf8_valid text \<and> start \<le> stop \<and> stop \<le> length text \<and>
     (start < length text \<longrightarrow> RuneStart (text ! start)) \<and>
     (stop < length text \<longrightarrow> RuneStart (text ! stop))"
  by (auto simp: CheckUTF8Span_def)

lemma first_rune_start: "utf8_valid s \<Longrightarrow> s \<noteq> [] \<Longrightarrow> RuneStart (s ! 0)"
  by (cases s) (auto simp: utf8_valid_step RuneStart_def continuation_def split: if_splits list.splits)

text \<open>
  \<open>CheckUTF8Span\<close> accepts a byte span exactly when it lies in the text and cuts it into
  three pieces (before, inside, after) that are each valid UTF-8: an accepted span never splits a
  code point, and no span with valid pieces is refused.
\<close>

theorem CheckUTF8Span_pieces:
  "CheckUTF8Span text start stop = Inr () \<longleftrightarrow>
     start \<le> stop \<and> stop \<le> length text \<and> utf8_valid (take start text) \<and>
     utf8_valid (drop start (take stop text)) \<and> utf8_valid (drop stop text)"
  (is "?l \<longleftrightarrow> ?r")
proof
  assume ?l
  then have l: "utf8_valid text" "start \<le> stop" "stop \<le> length text"
    "start < length text \<Longrightarrow> RuneStart (text ! start)" "stop < length text \<Longrightarrow> RuneStart (text ! stop)"
    by (simp_all add: CheckUTF8Span_Inr_iff)
  have outer: "utf8_valid (take stop text)" "utf8_valid (drop stop text)"
    using utf8_valid_cut [OF l(1,3,5)] by simp_all
  have "utf8_valid (take start (take stop text)) \<and> utf8_valid (drop start (take stop text))"
    by (rule utf8_valid_cut [OF outer(1)]) (use l in \<open>auto simp: nth_take\<close>)
  then show ?r using l(2,3) outer(2) by (simp add: min_def)
next
  assume r: ?r
  have "text = take start text @ drop start (take stop text) @ drop stop text"
    using r by (metis append_take_drop_id append_assoc min.absorb2 take_take min.commute)
  then have valid: "utf8_valid text" using r by (metis utf8_valid_append)
  have stop: "RuneStart (text ! stop)" if "stop < length text"
    using first_rune_start [of "drop stop text"] r that by simp
  have "RuneStart (text ! start)" if "start < length text"
  proof (cases "start = stop")
    case True
    with stop that show ?thesis by simp
  next
    case False
    with r have "drop start (take stop text) \<noteq> []" and "drop start (take stop text) ! 0 = text ! start" by auto
    with first_rune_start r show ?thesis by metis
  qed
  with valid stop r show ?l by (simp add: CheckUTF8Span_Inr_iff)
qed

end
