(* ===== verification/Wire.thy ===== *)
theory Wire
  imports Contract Utf8
begin

text \<open>
  The boundary validation of \<open>domain/wire.go\<close>. A message is the tree that protobuf reflection
  gives: its fields with their kind, presence, declared rules and values, its oneofs, and what
  the type switch of \<open>validateSemantics\<close> reads of the concrete message (\<open>sem\<close>, one constructor per
  case). \<open>ValidateWire\<close> walks the tree with an item budget, a depth bound and the corpus in
  force; \<open>parse_url\<close> stands for \<open>url.Parse\<close>.
\<close>

section \<open>Messages as reflection shows them\<close>

datatype field_kind =
    StringKind | EnumKind | MessageKind | FloatingKind | UnsignedKind | SignedKind | OtherKind

record field_rules =
  r_required :: bool
  r_ascii_id :: bool
  r_sha256 :: bool
  r_positive :: bool
  r_finite :: bool
  r_probability :: bool
  r_unique :: bool
  r_min_items :: nat

record url =
  u_scheme :: string
  u_host :: string
  u_user :: bool

datatype sem =
    SemTimestamp bool
  | SemCalendarDate calendar_date
  | SemDateAssertion date_knowledge bool nat
  | SemLegalInterval "calendar_date option" "calendar_date option"
  | SemVisibility nat "nat option"
  | SemTextSpan nat nat
  | SemAnswerTextSpan nat nat
  | SemBoundingBox float64 float64 float64 float64
  | SemArtifactRef string
  | SemRequestContext bool string "string option"
  | SemSourceObservation bool observation_status bool bool
  | SemSourceBlob nat string nat string
  | SemTemporalScope temporal_mode bool nat
  | SemDenseVector nat nat
  | SemSparseVector "nat list" nat
  | SemCounts nat nat nat
  | SemTruncationInfo bool nat nat
  | SemGraphPath nat nat nat
  | SemEvidenceBundle "(string \<times> snapshot_ref \<times> string) list" snapshot_ref string completeness nat completion_status
  | SemContextBundle "string list" "string list" completeness nat
  | SemCitation bool bool string
  | SemAnswer string string string "(string \<times> nat \<times> nat) list" "string list list" semantic_status nat completion_status
  | SemAnswerEvent "(string \<times> completion_status) option" string
  | SemUpdatePlan "string list" "string list"
  | SemModelManifest model_task bool
  | SemEmbedBatchRequest model_task "string list"
  | SemRerankBatchRequest model_task "string list"
  | SemGateResult bool nat bool nat
  | SemOther

datatype wire_value =
    VString string
  | VEnum int bool
  | VMessage wire_message
  | VFloat float64
  | VUint nat
  | VInt int
  | VOther string
and wire_field =
    WireField (f_name: string) (f_full: string) (f_kind: field_kind) (f_list: bool)
      (f_presence: bool) (f_has: bool) (f_rules: field_rules) (f_values: "wire_value list")
and wire_message =
    WireMessage (wm_name: string) (wm_fields: "wire_field list")
      (wm_oneofs: "(string \<times> bool \<times> bool) list") (wm_sem: sem)

record WireLimits =
  MaxBytes :: int
  MaxDepth :: int
  MaxItems :: int

definition DefaultWireLimits :: WireLimits where
  "DefaultWireLimits = \<lparr>MaxBytes = 16777216, MaxDepth = 64, MaxItems = 100000\<rparr>"

section \<open>Rules of one concrete message\<close>

definition dateNumber :: "calendar_date \<Rightarrow> int" where
  "dateNumber d = d_year d * 10000 + int (d_month d) * 100 + int (d_day d)"

definition leap_year :: "int \<Rightarrow> bool" where
  "leap_year y \<longleftrightarrow> y mod 4 = 0 \<and> (y mod 100 \<noteq> 0 \<or> y mod 400 = 0)"

definition days_in_month :: "int \<Rightarrow> nat \<Rightarrow> nat" where
  "days_in_month y m =
     (if m = 2 then (if leap_year y then 29 else 28)
      else if m \<in> {4, 6, 9, 11} then 30 else 31)"

text \<open>
  \<open>time.Date\<close> normalises a day or month out of range into another date, so the comparison of the
  source succeeds exactly for the dates of the calendar.
\<close>

definition calendar_date_ok :: "calendar_date \<Rightarrow> bool" where
  "calendar_date_ok d \<longleftrightarrow>
     d_year d \<le> 9999 \<and> 1 \<le> d_month d \<and> d_month d \<le> 12 \<and>
     1 \<le> d_day d \<and> d_day d \<le> days_in_month (d_year d) (d_month d)"

text \<open>\<open>path.Clean\<close> for slash-separated paths, on the list of path elements.\<close>

fun split_slash :: "string \<Rightarrow> string list" where
  "split_slash [] = [[]]"
| "split_slash (c # s) =
     (if c = CHR ''/'' then [] # split_slash s
      else case split_slash s of [] \<Rightarrow> [[c]] | e # es \<Rightarrow> (c # e) # es)"

fun clean_elements :: "bool \<Rightarrow> string list \<Rightarrow> string list \<Rightarrow> string list" where
  "clean_elements rooted out [] = rev out"
| "clean_elements rooted out (e # es) =
     (if e = '''' \<or> e = ''.'' then clean_elements rooted out es
      else if e = ''..'' then
        (case out of
           [] \<Rightarrow> clean_elements rooted (if rooted then [] else [''..'']) es
         | o' # os \<Rightarrow> clean_elements rooted (if o' = ''..'' then ''..'' # out else os) es)
      else clean_elements rooted (e # out) es)"

fun join_slash :: "string list \<Rightarrow> string" where
  "join_slash [] = ''''"
| "join_slash [e] = e"
| "join_slash (e # es) = e @ ''/'' @ join_slash es"

definition path_clean :: "string \<Rightarrow> string" where
  "path_clean p =
     (let rooted = (case p of c # _ \<Rightarrow> c = CHR ''/'' | [] \<Rightarrow> False);
          body = join_slash (clean_elements rooted [] (split_slash p))
      in if p = '''' then ''.''
         else if rooted then ''/'' @ body
         else if body = '''' then ''.'' else body)"

definition has_prefix :: "string \<Rightarrow> string \<Rightarrow> bool" where
  "has_prefix p s \<longleftrightarrow> take (length p) s = p"

definition storage_key_ok :: "string \<Rightarrow> bool" where
  "storage_key_ok k \<longleftrightarrow>
     \<not> (CHR 0x5C \<in> set k \<or> has_prefix ''/'' k \<or> path_clean k \<noteq> k \<or> has_prefix ''../'' k \<or>
        k = ''..'' \<or> k = ''.'' \<or> CHR '':'' \<in> set k)"

fun strictly_sorted :: "nat list \<Rightarrow> bool" where
  "strictly_sorted (a # b # xs) = (a < b \<and> strictly_sorted (b # xs))"
| "strictly_sorted _ = True"

fun check_spans :: "string \<Rightarrow> string list \<Rightarrow> (string \<times> nat \<times> nat) list \<Rightarrow> unit result" where
  "check_spans text seen [] = Inr ()"
| "check_spans text seen ((c, a, b) # cs) =
     (if c \<in> set seen then Inl (Err ''Answer: duplicate claim'')
      else bind_result (CheckUTF8Span text a b) (\<lambda>_. check_spans text (c # seen) cs))"

fun check_evidence_items ::
    "snapshot_ref \<Rightarrow> string \<Rightarrow> string list \<Rightarrow> (string \<times> snapshot_ref \<times> string) list \<Rightarrow> unit result" where
  "check_evidence_items snapshot corpus seen [] = Inr ()"
| "check_evidence_items snapshot corpus seen ((i, s, c) # items) =
     (if i \<in> set seen then Inl (Err ''EvidenceBundle: duplicate evidence ID'')
      else if s \<noteq> snapshot \<or> c \<noteq> corpus then Inl (Err ''EvidenceBundle: mixed evidence snapshots/corpora'')
      else check_evidence_items snapshot corpus (i # seen) items)"

definition bad :: "bool \<Rightarrow> string \<Rightarrow> unit result" where
  "bad b msg = (if b then Inl (Err msg) else Inr ())"

fun validateSemantics :: "(string \<Rightarrow> url option) \<Rightarrow> sem \<Rightarrow> unit result" where
  "validateSemantics parse_url (SemTimestamp valid) = bad (\<not> valid) ''Timestamp: invalid timestamp''"
| "validateSemantics parse_url (SemCalendarDate d) =
     bad (\<not> calendar_date_ok d) ''CalendarDate: invalid calendar date''"
| "validateSemantics parse_url (SemDateAssertion k value alternatives) =
     (if k = DATE_KNOWLEDGE_KNOWN \<and> (\<not> value \<or> alternatives > 0)
      then Inl (Err ''DateAssertion: known date requires one value'')
      else if k \<noteq> DATE_KNOWLEDGE_KNOWN \<and> value
      then Inl (Err ''DateAssertion: unknown/conflict/unbounded cannot have a resolved value'')
      else if k = DATE_KNOWLEDGE_CONFLICT then
        bad (alternatives < 2) ''DateAssertion: conflict requires alternatives''
      else bad (alternatives > 0) ''DateAssertion: alternatives require conflict status'')"
| "validateSemantics parse_url (SemLegalInterval s e) =
     (case (s, e) of
        (Some a, Some b) \<Rightarrow> bad (dateNumber a \<ge> dateNumber b) ''LegalInterval: empty or reversed legal interval''
      | _ \<Rightarrow> Inr ())"
| "validateSemantics parse_url (SemVisibility from to_seq) =
     (case to_seq of Some t \<Rightarrow> bad (t \<le> from) ''Visibility: invalid visibility interval'' | None \<Rightarrow> Inr ())"
| "validateSemantics parse_url (SemTextSpan a b) = bad (b < a) ''TextSpan: reversed byte span''"
| "validateSemantics parse_url (SemAnswerTextSpan a b) = bad (b < a) ''AnswerTextSpan: reversed answer span''"
| "validateSemantics parse_url (SemBoundingBox x0 y0 x1 y1) =
     bad (float_lt x1 x0 \<or> float_lt y1 y0) ''BoundingBox: reversed bounding box''"
| "validateSemantics parse_url (SemArtifactRef key) =
     bad (\<not> storage_key_ok key) ''ArtifactRef: storage key must be a relative artifact key''"
| "validateSemantics parse_url (SemRequestContext deadline corpus snapshot) =
     (if \<not> deadline then Inl (Err ''RequestContext: invalid deadline timestamp'')
      else case snapshot of
        Some c \<Rightarrow> bad (corpus \<noteq> c) ''RequestContext: context/snapshot corpus mismatch''
      | None \<Rightarrow> Inr ())"
| "validateSemantics parse_url (SemSourceObservation fetched status blob err) =
     (if \<not> fetched then Inl (Err ''SourceObservation: invalid observation timestamp'')
      else bad (status = OBSERVATION_STATUS_COMPLETE \<and> (\<not> blob \<or> err))
        ''SourceObservation: complete observation requires blob and no error'')"
| "validateSemantics parse_url (SemSourceBlob blob_size sha ref_size ref_sha) =
     bad (blob_size \<noteq> ref_size \<or> sha \<noteq> ref_sha) ''SourceBlob: blob/artifact mismatch''"
| "validateSemantics parse_url (SemTemporalScope mode effective compare) =
     (if mode = TEMPORAL_MODE_AS_OF \<and> \<not> effective then Inl (Err ''TemporalScope: AS_OF requires effective date'')
      else if mode = TEMPORAL_MODE_COMPARE then
        bad (compare < 2 \<or> effective) ''TemporalScope: COMPARE requires date list''
      else bad (compare > 0) ''TemporalScope: compare dates outside COMPARE'')"
| "validateSemantics parse_url (SemDenseVector n dims) = bad (n \<noteq> dims) ''DenseVector: dense dimension mismatch''"
| "validateSemantics parse_url (SemSparseVector indices n) =
     (if length indices \<noteq> n then Inl (Err ''SparseVector: sparse length mismatch'')
      else bad (\<not> strictly_sorted indices) ''SparseVector: sparse indices not strictly sorted'')"
| "validateSemantics parse_url (SemCounts e a r) =
     bad (a > e \<or> r \<noteq> e - a) ''Counts: counts do not balance''"
| "validateSemantics parse_url (SemTruncationInfo truncated original retained) =
     bad (retained > original \<or> \<not> truncated \<and> retained \<noteq> original) ''TruncationInfo: inconsistent truncation''"
| "validateSemantics parse_url (SemGraphPath nodes edges supports) =
     bad (nodes \<noteq> edges + 1 \<or> supports \<noteq> edges) ''GraphPath: path edge/node/support cardinality mismatch''"
| "validateSemantics parse_url (SemEvidenceBundle items snapshot corpus coverage missing status) =
     bind_result (check_evidence_items snapshot corpus [] items) (\<lambda>_.
       bad (coverage = COMPLETENESS_COMPLETE \<and> (missing > 0 \<or> status \<noteq> COMPLETION_STATUS_SUCCEEDED))
         ''EvidenceBundle: incomplete evidence marked complete'')"
| "validateSemantics parse_url (SemContextBundle ids blocks coverage omitted) =
     (if length ids \<noteq> length blocks then Inl (Err ''ContextBundle: context block mismatch'')
      else if blocks \<noteq> ids then Inl (Err ''ContextBundle: context order mismatch'')
      else bad (coverage = COMPLETENESS_COMPLETE \<and> omitted > 0) ''ContextBundle: omitted evidence marked complete'')"
| "validateSemantics parse_url (SemCitation has_span has_locator source_url) =
     (if \<not> has_span \<and> \<not> has_locator then Inl (Err ''Citation: citation requires locator'')
      else case parse_url source_url of
        None \<Rightarrow> Inl (Err ''Citation: invalid citation URL'')
      | Some u \<Rightarrow> bad (u_scheme u \<noteq> ''https'' \<and> u_scheme u \<noteq> ''http'' \<or> u_host u = '''')
          ''Citation: invalid citation URL'')"
| "validateSemantics parse_url (SemAnswer corpus snapshot_corpus text claims citations status missing completion) =
     (if corpus \<noteq> snapshot_corpus then Inl (Err ''Answer: answer corpus mismatch'')
      else bind_result (check_spans text [] claims) (\<lambda>_.
        if list_ex (list_ex (\<lambda>c. c \<notin> fst ` set claims)) citations
        then Inl (Err ''Answer: citation references unknown claim'')
        else bad (status = SEMANTIC_STATUS_COMPLETE \<and> (missing > 0 \<or> completion \<noteq> COMPLETION_STATUS_SUCCEEDED))
          ''Answer: incomplete answer marked complete''))"
| "validateSemantics parse_url (SemAnswerEvent final request) =
     (case final of
        Some (r, c) \<Rightarrow> bad (r \<noteq> request \<or> c \<noteq> COMPLETION_STATUS_SUCCEEDED) ''AnswerEvent: invalid FINAL event''
      | None \<Rightarrow> Inr ())"
| "validateSemantics parse_url (SemUpdatePlan reuse recompute) =
     bad (list_ex (\<lambda>i. i \<in> set reuse) recompute) ''UpdatePlan: reuse/recompute overlap''"
| "validateSemantics parse_url (SemModelManifest task dims) =
     bad (task = MODEL_TASK_EMBED \<and> \<not> dims) ''ModelManifest: embedding requires dimensions''"
| "validateSemantics parse_url (SemEmbedBatchRequest task ids) =
     (if task \<noteq> MODEL_TASK_EMBED then Inl (Err ''EmbedBatchRequest: wrong embedding model task'')
      else bad (\<not> distinct ids) ''EmbedBatchRequest: duplicate batch item ID'')"
| "validateSemantics parse_url (SemRerankBatchRequest task ids) =
     (if task \<noteq> MODEL_TASK_RERANK then Inl (Err ''RerankBatchRequest: wrong reranker model task'')
      else bad (\<not> distinct ids) ''RerankBatchRequest: duplicate pair ID'')"
| "validateSemantics parse_url (SemGateResult pass denominator estimate raw) =
     bad (pass \<and> (denominator = 0 \<or> \<not> estimate \<or> raw = 0)) ''GateResult: PASS requires samples, estimate, raw evidence''"
| "validateSemantics parse_url SemOther = Inr ()"

section \<open>The walk over a message tree\<close>

definition opaque_ascii_id :: "string \<Rightarrow> bool" where
  "opaque_ascii_id s \<longleftrightarrow> s \<noteq> [] \<and> length s \<le> 256 \<and> list_all (\<lambda>c. 33 \<le> byte c \<and> byte c \<le> 126) s"

fun numeric_of :: "wire_value \<Rightarrow> float64" where
  "numeric_of (VFloat x) = x"
| "numeric_of (VUint n) = round64 (of_nat n)"
| "numeric_of (VInt i) = round64 (of_int i)"
| "numeric_of _ = Fin 0"

definition numeric_ok :: "field_rules \<Rightarrow> wire_value \<Rightarrow> bool" where
  "numeric_ok r v \<longleftrightarrow>
     (r_positive r \<or> r_finite r \<or> r_probability r \<longrightarrow>
       (let n = numeric_of v in
        \<not> (is_nan n \<or> is_inf n \<or> r_positive r \<and> float_le n (Fin 0) \<or>
           r_probability r \<and> (float_lt n (Fin 0) \<or> float_lt (Fin 1) n))))"

text \<open>The scalar checks of one value, in the order of the source.\<close>

definition check_scalar :: "wire_field \<Rightarrow> wire_value \<Rightarrow> unit result" where
  "check_scalar f v =
     (let r = f_rules f; path = f_full f in
      if (case v of VString s \<Rightarrow> f_kind f = StringKind \<and> \<not> utf8_valid s | _ \<Rightarrow> False)
      then Inl (Err (path @ '': invalid UTF-8''))
      else if (case v of VString s \<Rightarrow> f_kind f = StringKind \<and> r_ascii_id r \<and> \<not> opaque_ascii_id s | _ \<Rightarrow> False)
      then Inl (Err (path @ '': invalid opaque ASCII ID''))
      else if (case v of VString s \<Rightarrow> f_kind f = StringKind \<and> r_sha256 r \<and> \<not> sha256Pattern s | _ \<Rightarrow> False)
      then Inl (Err (path @ '': invalid SHA-256''))
      else if (case v of VEnum n known \<Rightarrow> f_kind f = EnumKind \<and> r_required r \<and> (n = 0 \<or> \<not> known) | _ \<Rightarrow> False)
      then Inl (Err (path @ '': invalid required enum''))
      else if \<not> numeric_ok r v then Inl (Err (path @ '': numeric constraint''))
      else if f_name f = ''schema_version'' \<and> v \<noteq> VUint 1
      then Inl (Err (path @ '': unsupported schema version''))
      else Inr ())"

text \<open>
  The corpus a message names itself: its field \<open>corpus_id\<close>, else that of the first of its
  sub-messages \<open>meta\<close>, \<open>context\<close>, \<open>batch\<close> that names one.
\<close>

fun string_value :: "wire_value list \<Rightarrow> string" where
  "string_value (VString s # _) = s"
| "string_value _ = []"

fun wireCorpus :: "wire_message \<Rightarrow> string"
  and field_corpus :: "string \<Rightarrow> wire_field list \<Rightarrow> string"
  and value_corpus :: "wire_value list \<Rightarrow> string" where
  "wireCorpus (WireMessage n fs os s) =
     (case find (\<lambda>f. f_name f = ''corpus_id'') fs of
        Some f \<Rightarrow> string_value (f_values f)
      | None \<Rightarrow>
          (if field_corpus ''meta'' fs \<noteq> [] then field_corpus ''meta'' fs
           else if field_corpus ''context'' fs \<noteq> [] then field_corpus ''context'' fs
           else field_corpus ''batch'' fs))"
| "field_corpus name [] = []"
| "field_corpus name (WireField n full k l p h r vs # fs) =
     (if n = name then (if k = MessageKind \<and> h then value_corpus vs else [])
      else field_corpus name fs)"
| "value_corpus (VMessage m # vs) = wireCorpus m"
| "value_corpus _ = []"

declare wireCorpus.simps [simp del]

function (sequential) walk :: "(string \<Rightarrow> url option) \<Rightarrow> int \<Rightarrow> wire_message \<Rightarrow> int \<Rightarrow> string \<Rightarrow> int \<Rightarrow> int result"
  and walk_fields :: "(string \<Rightarrow> url option) \<Rightarrow> int \<Rightarrow> wire_field list \<Rightarrow> int \<Rightarrow> string \<Rightarrow> int \<Rightarrow> int result"
  and walk_values :: "(string \<Rightarrow> url option) \<Rightarrow> int \<Rightarrow> wire_field \<Rightarrow> wire_value list \<Rightarrow> wire_value list \<Rightarrow>
    int \<Rightarrow> string \<Rightarrow> int \<Rightarrow> int result" where
  "walk pu max_depth (WireMessage n fs os s) depth corpus remaining =
     (let own = wireCorpus (WireMessage n fs os s); corpus' = (if own \<noteq> [] then own else corpus) in
      if own \<noteq> [] \<and> corpus \<noteq> [] \<and> corpus \<noteq> own then Inl (Err ''nested corpus mismatch'')
      else if depth > max_depth then Inl (Err ''wire nesting exceeds depth limit'')
      else bind_result (walk_fields pu max_depth fs depth corpus' remaining) (\<lambda>remaining'.
        case find (\<lambda>(_, synthetic, is_set). \<not> synthetic \<and> \<not> is_set) os of
          Some (o', _, _) \<Rightarrow> Inl (Err (o' @ '': oneof required''))
        | None \<Rightarrow> bind_result (validateSemantics pu s) (\<lambda>_. Inr remaining')))"
| "walk_fields pu max_depth [] depth corpus remaining = Inr remaining"
| "walk_fields pu max_depth (WireField n full k l p h r vs # fs) depth corpus remaining =
     (let f = WireField n full k l p h r vs;
          remaining' = (if l then remaining - int (length vs) else remaining) in
      if r_required r \<and> \<not> h then Inl (Err (full @ '': required''))
      else if l \<and> remaining' < 0 then Inl (Err ''wire item limit exceeded'')
      else if l \<and> length vs < r_min_items r then Inl (Err (full @ '': too few items''))
      else bind_result
        (if l \<or> \<not> p \<or> h then walk_values pu max_depth f [] vs depth corpus remaining' else Inr remaining')
        (walk_fields pu max_depth fs depth corpus))"
| "walk_values pu max_depth f seen [] depth corpus remaining = Inr remaining"
| "walk_values pu max_depth f seen (v # vs) depth corpus remaining =
     (if r_unique (f_rules f) \<and> v \<in> set seen then Inl (Err (f_full f @ '': duplicate value''))
      else case v of
        VMessage m \<Rightarrow>
          (if remaining - 1 < 0 then Inl (Err ''wire item limit exceeded'')
           else bind_result (walk pu max_depth m (depth + 1) corpus (remaining - 1))
             (walk_values pu max_depth f (v # seen) vs depth corpus))
      | _ \<Rightarrow> bind_result (check_scalar f v) (\<lambda>_.
               walk_values pu max_depth f (v # seen) vs depth corpus remaining))"
  by pat_completeness auto
termination
  by (relation "measure (\<lambda>x. case x of
        Inl (_, _, m, _) \<Rightarrow> size m
      | Inr (Inl (_, _, fs, _)) \<Rightarrow> size_list size fs
      | Inr (Inr (_, _, _, _, vs, _)) \<Rightarrow> size_list size vs)") simp_all

text \<open>
  \<open>None\<close> is the nil message; the third argument is \<open>proto.Size\<close> of the message.
\<close>

definition ValidateWire :: "(string \<Rightarrow> url option) \<Rightarrow> wire_message option \<Rightarrow> int \<Rightarrow> WireLimits \<Rightarrow> unit result" where
  "ValidateWire pu message proto_size limits =
     (case message of None \<Rightarrow> Inl (Err ''nil wire message'') | Some m \<Rightarrow>
      if MaxBytes limits \<le> 0 \<or> MaxDepth limits \<le> 0 \<or> MaxItems limits \<le> 0
      then Inl (Err ''invalid wire limits'')
      else if proto_size > MaxBytes limits then Inl (Err ''wire payload exceeds byte limit'')
      else bind_result (walk pu (MaxDepth limits) m 0 [] (MaxItems limits)) (\<lambda>_. Inr ()))"

section \<open>What an accepted message satisfies\<close>

text \<open>
  A declarative reading of the rules, without budget or order: the number of items a message
  counts, and the predicate that every visited value, field and sub-message meets its rules
  within the levels that are left and under the corpus in force.
\<close>

definition scalar_spec :: "wire_field \<Rightarrow> wire_value \<Rightarrow> bool" where
  "scalar_spec f v \<longleftrightarrow> check_scalar f v = Inr ()"

primrec message_items :: "wire_message \<Rightarrow> nat"
  and field_items :: "wire_field \<Rightarrow> nat"
  and value_items :: "wire_value \<Rightarrow> nat" where
  "message_items (WireMessage n fs os s) = sum_list (map field_items fs)"
| "field_items (WireField n full k l p h r vs) =
     (if l then length vs else 0) + (if l \<or> \<not> p \<or> h then sum_list (map value_items vs) else 0)"
| "value_items (VMessage m) = 1 + message_items m"
| "value_items (VString s) = 0"
| "value_items (VEnum i b) = 0"
| "value_items (VFloat x) = 0"
| "value_items (VUint i) = 0"
| "value_items (VInt i) = 0"
| "value_items (VOther s) = 0"

primrec message_spec :: "wire_message \<Rightarrow> (string \<Rightarrow> url option) \<Rightarrow> int \<Rightarrow> string \<Rightarrow> bool"
  and field_spec :: "wire_field \<Rightarrow> (string \<Rightarrow> url option) \<Rightarrow> int \<Rightarrow> string \<Rightarrow> bool"
  and value_spec :: "wire_value \<Rightarrow> wire_field \<Rightarrow> (string \<Rightarrow> url option) \<Rightarrow> int \<Rightarrow> string \<Rightarrow> bool" where
  "message_spec (WireMessage n fs os s) = (\<lambda>pu levels corpus.
     (let own = wireCorpus (WireMessage n fs os s) in
      (own \<noteq> [] \<and> corpus \<noteq> [] \<longrightarrow> own = corpus) \<and> 0 \<le> levels \<and>
      list_all (\<lambda>g. g pu levels (if own \<noteq> [] then own else corpus)) (map field_spec fs) \<and>
      list_all (\<lambda>(_, synthetic, is_set). synthetic \<or> is_set) os \<and>
      validateSemantics pu s = Inr ()))"
| "field_spec (WireField n full k l p h r vs) = (\<lambda>pu levels corpus.
     (r_required r \<longrightarrow> h) \<and> (l \<longrightarrow> r_min_items r \<le> length vs) \<and>
     (l \<or> \<not> p \<or> h \<longrightarrow>
        (r_unique r \<longrightarrow> distinct vs) \<and>
        list_all (\<lambda>g. g (WireField n full k l p h r vs) pu levels corpus) (map value_spec vs)))"
| "value_spec (VMessage m) = (\<lambda>f pu levels corpus. message_spec m pu (levels - 1) corpus)"
| "value_spec (VString s) = (\<lambda>f pu levels corpus. scalar_spec f (VString s))"
| "value_spec (VEnum i b) = (\<lambda>f pu levels corpus. scalar_spec f (VEnum i b))"
| "value_spec (VFloat x) = (\<lambda>f pu levels corpus. scalar_spec f (VFloat x))"
| "value_spec (VUint i) = (\<lambda>f pu levels corpus. scalar_spec f (VUint i))"
| "value_spec (VInt i) = (\<lambda>f pu levels corpus. scalar_spec f (VInt i))"
| "value_spec (VOther s) = (\<lambda>f pu levels corpus. scalar_spec f (VOther s))"

lemma oneof_case_Inr:
  "(case find (\<lambda>(_, synthetic, is_set). \<not> synthetic \<and> \<not> is_set) os of
      Some (x, _, _) \<Rightarrow> Inl (g x) | None \<Rightarrow> y) = Inr r \<longleftrightarrow>
   list_all (\<lambda>(_, synthetic, is_set). synthetic \<or> is_set) os \<and> y = Inr r"
  by (induction os) (auto split: option.splits)

lemma walk_iff:
  "0 \<le> remaining \<Longrightarrow> walk pu max_depth m depth corpus remaining = Inr r \<longleftrightarrow>
     r = remaining - int (message_items m) \<and> 0 \<le> r \<and> message_spec m pu (max_depth - depth) corpus"
  "0 \<le> remaining \<Longrightarrow> walk_fields pu max_depth fs depth corpus remaining = Inr r \<longleftrightarrow>
     r = remaining - int (sum_list (map field_items fs)) \<and> 0 \<le> r \<and>
     list_all (\<lambda>f. field_spec f pu (max_depth - depth) corpus) fs"
  "0 \<le> remaining \<Longrightarrow> walk_values pu max_depth f seen vs depth corpus remaining = Inr r \<longleftrightarrow>
     r = remaining - int (sum_list (map value_items vs)) \<and> 0 \<le> r \<and>
     (r_unique (f_rules f) \<longrightarrow> distinct vs \<and> set seen \<inter> set vs = {}) \<and>
     list_all (\<lambda>v. value_spec v f pu (max_depth - depth) corpus) vs"
proof (induction pu max_depth m depth corpus remaining
    and pu max_depth fs depth corpus remaining
    and pu max_depth f seen vs depth corpus remaining
    arbitrary: r and r and r rule: walk_walk_fields_walk_values.induct)
  case (1 pu max_depth n fs os s depth corpus remaining)
  let ?own = "wireCorpus (WireMessage n fs os s)"
  let ?c = "if ?own \<noteq> [] then ?own else corpus"
  show ?case
  proof (cases "(?own \<noteq> [] \<and> corpus \<noteq> [] \<and> corpus \<noteq> ?own) \<or> depth > max_depth")
    case True
    then show ?thesis by (auto simp: Let_def)
  next
    case False
    then have "walk_fields pu max_depth fs depth ?c remaining = Inr a \<longleftrightarrow>
        a = remaining - int (sum_list (map field_items fs)) \<and> 0 \<le> a \<and>
        list_all (\<lambda>f. field_spec f pu (max_depth - depth) ?c) fs" for a
      using "1.IH" [OF refl refl] "1.prems" by blast
    with False show ?thesis
      by (auto simp: Let_def bind_result_Inr_iff oneof_case_Inr list_all_iff)
  qed
next
  case (2 pu max_depth depth corpus remaining)
  then show ?case by auto
next
  case (3 pu max_depth n full k l p h ru vs fs depth corpus remaining)
  let ?f = "WireField n full k l p h ru vs"
  let ?rem = "if l then remaining - int (length vs) else remaining"
  show ?case
  proof (cases "(r_required ru \<and> \<not> h) \<or> (l \<and> ?rem < 0) \<or> (l \<and> length vs < r_min_items ru)")
    case True
    then show ?thesis by (auto simp: Let_def not_less)
  next
    case False
    with 3 show ?thesis
      by (cases "l \<or> \<not> p \<or> h") (auto simp: Let_def bind_result_Inr_iff not_less list_all_iff)
  qed
next
  case (4 pu max_depth f seen depth corpus remaining)
  then show ?case by auto
next
  case (5 pu max_depth f seen v vs depth corpus remaining)
  show ?case 
  proof (cases "r_unique (f_rules f) \<and> v \<in> set seen")
    case True
    then show ?thesis by auto
  next
    case False
    note IH = 5(1,2) [OF False]
    with 5(3-) False show ?thesis
      by (cases v) (auto simp: scalar_spec_def bind_result_Inr_iff diff_diff_eq)
  qed
qed

lemma ValidateWire_Inr_iff:
  "ValidateWire pu (Some m) sz limits = Inr () \<longleftrightarrow>
     0 < MaxBytes limits \<and> 0 < MaxDepth limits \<and> 0 < MaxItems limits \<and> sz \<le> MaxBytes limits \<and>
     int (message_items m) \<le> MaxItems limits \<and> message_spec m pu (MaxDepth limits) []"
  by (auto simp: ValidateWire_def bind_result_Inr_iff walk_iff not_le)

lemma ValidateWire_nil: "ValidateWire pu None sz limits = Inl (Err ''nil wire message'')"
  by (simp add: ValidateWire_def)


text \<open>The sub-messages the walk visits, the message itself first.\<close>

primrec message_parts :: "wire_message \<Rightarrow> wire_message list"
  and field_parts :: "wire_field \<Rightarrow> wire_message list"
  and value_parts :: "wire_value \<Rightarrow> wire_message list" where
  "message_parts (WireMessage n fs os s) = WireMessage n fs os s # concat (map field_parts fs)"
| "field_parts (WireField n full k l p h r vs) =
     (if l \<or> \<not> p \<or> h then concat (map value_parts vs) else [])"
| "value_parts (VMessage m) = message_parts m"
| "value_parts (VString s) = []"
| "value_parts (VEnum i b) = []"
| "value_parts (VFloat x) = []"
| "value_parts (VUint i) = []"
| "value_parts (VInt i) = []"
| "value_parts (VOther s) = []"

text \<open>Every visited sub-message meets the rules under the corpus in force at the top.\<close>

definition part_ok :: "(string \<Rightarrow> url option) \<Rightarrow> string \<Rightarrow> wire_message \<Rightarrow> bool" where
  "part_ok pu corpus m \<longleftrightarrow>
     (\<exists>levels corpus'. message_spec m pu levels corpus' \<and> (corpus \<noteq> [] \<longrightarrow> corpus' = corpus))"

lemma message_spec_parts:
  "value_spec v f' pu levels corpus \<Longrightarrow> m' \<in> set (value_parts v) \<Longrightarrow> part_ok pu corpus m'"
  "field_spec f pu levels corpus \<Longrightarrow> m' \<in> set (field_parts f) \<Longrightarrow> part_ok pu corpus m'"
  "message_spec m pu levels corpus \<Longrightarrow> m' \<in> set (message_parts m) \<Longrightarrow> part_ok pu corpus m'"
proof (induction v and f and m arbitrary: f' levels corpus and levels corpus and levels corpus)
  case (WireField n full k l p h r vs)
  then show ?case by (auto simp: list_all_iff split: if_splits)
next
  case (WireMessage n fs os s)
  let ?own = "wireCorpus (WireMessage n fs os s)"
  show ?case
  proof (cases "m' = WireMessage n fs os s")
    case True
    with WireMessage.prems(1) show ?thesis unfolding part_ok_def by blast
  next
    case False
    with WireMessage.prems(2) obtain f where f: "f \<in> set fs" "m' \<in> set (field_parts f)" by auto
    from WireMessage.prems(1) f(1)
    have "field_spec f pu levels (if ?own \<noteq> [] then ?own else corpus)"
      and eq: "?own \<noteq> [] \<Longrightarrow> corpus \<noteq> [] \<Longrightarrow> ?own = corpus"
      by (auto simp: Let_def list_all_iff)
    with WireMessage.IH f have "part_ok pu (if ?own \<noteq> [] then ?own else corpus) m'" by blast
    with eq show ?thesis by (auto simp: part_ok_def split: if_splits)
  qed
qed simp_all

lemma part_ok_corpus: "part_ok pu corpus m \<Longrightarrow> corpus \<noteq> [] \<Longrightarrow> wireCorpus m = [] \<or> wireCorpus m = corpus"
  by (cases m) (auto simp: part_ok_def Let_def)

lemma part_ok_semantics: "part_ok pu corpus m \<Longrightarrow> validateSemantics pu (wm_sem m) = Inr ()"
  by (cases m) (auto simp: part_ok_def Let_def)

lemma message_spec_own:
  "message_spec m pu levels [] \<Longrightarrow> message_spec m pu levels (wireCorpus m)"
  by (cases m; cases "wireCorpus m = []") (auto simp: Let_def)

text \<open>
  Corpus isolation and semantic closure: in a message that \<open>ValidateWire\<close> accepts, every
  visited sub-message that names a corpus names the corpus of the whole message, and every
  sub-message passes the cross-field rules of its type (\<open>validateSemantics\<close>).
\<close>

theorem ValidateWire_parts:
  assumes "ValidateWire pu (Some m) sz limits = Inr ()"
    and "wireCorpus m \<noteq> []" and "m' \<in> set (message_parts m)"
  shows "(wireCorpus m' = [] \<or> wireCorpus m' = wireCorpus m) \<and> validateSemantics pu (wm_sem m') = Inr ()"
proof -
  have "message_spec m pu (MaxDepth limits) []"
    using assms(1) by (simp add: ValidateWire_Inr_iff)
  then have "message_spec m pu (MaxDepth limits) (wireCorpus m)" by (rule message_spec_own)
  then have "part_ok pu (wireCorpus m) m'" using assms(3) by (rule message_spec_parts(3))
  with assms(2) show ?thesis by (blast dest: part_ok_corpus part_ok_semantics)
qed

definition ex_corpus_field :: wire_field where
  "ex_corpus_field = WireField ''corpus_id'' ''regulagraph.v1.RecordMeta.corpus_id'' StringKind False False True
     \<lparr>r_required = True, r_ascii_id = True, r_sha256 = False, r_positive = False, r_finite = False,
      r_probability = False, r_unique = False, r_min_items = 0\<rparr> [VString ''corpus-1'']"

definition ex_meta :: wire_message where
  "ex_meta = WireMessage ''regulagraph.v1.RecordMeta'' [ex_corpus_field] [] SemOther"

definition ex_record :: wire_message where
  "ex_record = WireMessage ''regulagraph.v1.Checkpoint''
     [WireField ''meta'' ''regulagraph.v1.Checkpoint.meta'' MessageKind False True True
       \<lparr>r_required = True, r_ascii_id = False, r_sha256 = False, r_positive = False, r_finite = False,
        r_probability = False, r_unique = False, r_min_items = 0\<rparr> [VMessage ex_meta]] [] SemOther"

theorem ValidateWire_parts_witness:
  "ValidateWire (\<lambda>_. None) (Some ex_record) 20 DefaultWireLimits = Inr () \<and>
   wireCorpus ex_record = ''corpus-1'' \<and>
   (wireCorpus ex_meta = [] \<or> wireCorpus ex_meta = wireCorpus ex_record)"
proof -
  have v: "ValidateWire (\<lambda>_. None) (Some ex_record) 20 DefaultWireLimits = Inr ()"
    "wireCorpus ex_record = ''corpus-1''" "ex_meta \<in> set (message_parts ex_record)"
    by code_simp+
  then have "wireCorpus ex_record \<noteq> []" by simp
  from ValidateWire_parts [OF v(1) this v(3)] v show ?thesis by simp
qed

end
