(* ===== verification/Store.thy ===== *)
theory Store
  imports Wire
begin

text \<open>
  The PostgreSQL tables that the job and publication code of \<open>adapters/postgres\<close> reads and writes,
  as lists of rows, with the columns the code uses. A nullable column is an option. The clock is
  read once per statement and passed in; \<open>text\<close> is compared bytewise. Statements are atomic: a
  statement or transaction that fails leaves the tables unchanged. Protobuf encoding and
  reflection and SHA-256 are parameters (\<open>codec\<close>).
\<close>

section \<open>Parameters from outside the repository\<close>

text \<open>
  Encoding, decoding, reflection and size of one message type (the protobuf runtime), the
  hexadecimal SHA-256 digest of a byte string, URL parsing and the Unicode case table.
\<close>

record 'm codec =
  c_marshal :: "'m \<Rightarrow> string"
  c_unmarshal :: "string \<Rightarrow> 'm option"
  c_reflect :: "'m \<Rightarrow> wire_message"
  c_size :: "'m \<Rightarrow> int"

record host =
  sha256hex :: "string \<Rightarrow> string"
  url_parse :: "string \<Rightarrow> url option"
  to_lower :: "nat \<Rightarrow> nat"

definition validate_wire :: "host \<Rightarrow> 'm codec \<Rightarrow> 'm \<Rightarrow> unit result" where
  "validate_wire h c m = ValidateWire (url_parse h) (Some (c_reflect c m)) (c_size c m) DefaultWireLimits"

text \<open>\<open>DecodeWire\<close>: the byte limit, decoding, then validation.\<close>

definition DecodeWire :: "host \<Rightarrow> 'm codec \<Rightarrow> string \<Rightarrow> WireLimits \<Rightarrow> 'm result" where
  "DecodeWire h c raw limits =
     (if MaxBytes limits \<le> 0 \<or> MaxDepth limits \<le> 0 \<or> MaxItems limits \<le> 0
      then Inl (Err ''invalid wire limits'')
      else if int (length raw) > MaxBytes limits then Inl (Err ''wire payload exceeds byte limit'')
      else case c_unmarshal c raw of
        None \<Rightarrow> Inl (Err ''proto: cannot parse'')
      | Some m \<Rightarrow> bind_result (ValidateWire (url_parse h) (Some (c_reflect c m)) (c_size c m) limits)
                    (\<lambda>_. Inr m))"

section \<open>Rows\<close>

datatype timestamp = NegInfinity | At int

definition ts_le :: "timestamp \<Rightarrow> int \<Rightarrow> bool" where
  "ts_le t now = (case t of NegInfinity \<Rightarrow> True | At x \<Rightarrow> x \<le> now)"

record job_row =
  j_job_id :: string
  j_corpus_id :: string
  j_operation :: job_operation
  j_state :: job_state
  j_stage :: job_stage
  j_input_fingerprint :: string
  j_idempotency_key :: string
  j_request_hash :: string
  j_request_payload :: string
  j_base_snapshot_id :: "string option"
  j_latest_checkpoint_id :: "string option"
  j_attempt :: nat
  j_stage_attempt :: nat
  j_max_attempts :: nat
  j_lease_owner :: "string option"
  j_lease_fence :: nat
  j_lease_expires_at :: "int option"
  j_next_attempt_at :: timestamp
  j_cancellation_requested :: bool
  j_created_at :: int
  j_updated_at :: int

record checkpoint_row =
  cp_checkpoint_id :: string
  cp_job_id :: string
  cp_stage :: job_stage
  cp_fence :: nat
  cp_payload :: string
  cp_payload_hash :: string
  cp_terminal_status :: "completion_status option"

record corpus_row =
  co_corpus_id :: string
  co_active_snapshot_id :: "string option"
  co_next_snapshot_sequence :: nat
  co_publisher_fence :: nat

record snapshot_row =
  s_snapshot_id :: string
  s_corpus_id :: string
  s_sequence :: nat
  s_parent_snapshot_id :: "string option"
  s_publication_id :: string
  s_job_id :: "string option"
  s_fence :: nat
  s_state :: snapshot_state
  s_manifest_payload :: "string option"
  s_manifest_hash :: "string option"
  s_representation_generation :: "string option"

record backend_row =
  b_publication_id :: string
  b_backend :: backend_kind
  b_generation :: string
  b_operations_checksum :: string
  b_expected_count :: nat

record receipt_row =
  rc_publication_id :: string
  rc_backend :: backend_kind
  rc_payload :: string

datatype operation_status = Planned | Applied | Compensated

record operation_row =
  o_operation_key :: string
  o_publication_id :: string
  o_backend :: backend_kind
  o_payload_hash :: string
  o_fence :: nat
  o_status :: operation_status

record outbox_row =
  x_event_id :: string
  x_topic :: string
  x_aggregate_id :: string
  x_publication_id :: string
  x_snapshot_id :: string

record read_lease_row =
  l_lease_id :: string
  l_corpus_id :: string
  l_snapshot_id :: string
  l_owner_id :: string
  l_expires_at :: int

record index_inventory_row =
  ii_publication_id :: string
  ii_corpus_id :: string
  ii_fence :: nat
  ii_job_count :: nat

record index_assignment_row =
  ia_job_id :: string
  ia_publication_id :: string
  ia_source_job_id :: string

record index_source_row =
  is_publication_id :: string
  is_snapshot_payload :: string
  is_snapshot_hash :: string

record db =
  jobs :: "job_row list"
  job_checkpoints :: "checkpoint_row list"
  corpus_state :: "corpus_row list"
  snapshots :: "snapshot_row list"
  publication_backends :: "backend_row list"
  backend_receipts :: "receipt_row list"
  publication_operations :: "operation_row list"
  outbox_events :: "outbox_row list"
  snapshot_read_leases :: "read_lease_row list"
  index_job_inventories :: "index_inventory_row list"
  index_job_assignments :: "index_assignment_row list"
  graph_job_assignments :: "string list"
  index_source_snapshots :: "index_source_row list"

definition empty_db :: db where
  "empty_db = \<lparr>jobs = [], job_checkpoints = [], corpus_state = [], snapshots = [],
     publication_backends = [], backend_receipts = [], publication_operations = [],
     outbox_events = [], snapshot_read_leases = [], index_job_inventories = [],
     index_job_assignments = [], graph_job_assignments = [], index_source_snapshots = []\<rparr>"

section \<open>Constraints of the tables\<close>

text \<open>The identifier check of \<open>corpus_state\<close> admits 128 characters, half of what the code admits.\<close>

definition corpus_id_check :: "string \<Rightarrow> bool" where
  "corpus_id_check s \<longleftrightarrow> storageIDPattern s \<and> length s \<le> 128"

text \<open>The ranges of the integer columns of \<open>jobs\<close> that an update can leave.\<close>

definition job_check :: "job_row \<Rightarrow> bool" where
  "job_check r \<longleftrightarrow> j_state r \<noteq> JOB_STATE_UNSPECIFIED \<and> j_operation r \<noteq> JOB_OPERATION_UNSPECIFIED \<and>
     j_stage_attempt r \<le> 100 \<and> int (j_attempt r) < 2147483648 \<and>
     int (j_lease_fence r) < 9223372036854775808 \<and>
     1 \<le> j_max_attempts r \<and> j_max_attempts r \<le> 100"

abbreviation job_of :: "db \<Rightarrow> string \<Rightarrow> job_row option" where
  "job_of d i \<equiv> row_of j_job_id i (jobs d)"

abbreviation checkpoint_of :: "db \<Rightarrow> string \<Rightarrow> checkpoint_row option" where
  "checkpoint_of d i \<equiv> row_of cp_checkpoint_id i (job_checkpoints d)"

abbreviation corpus_of :: "db \<Rightarrow> string \<Rightarrow> corpus_row option" where
  "corpus_of d i \<equiv> row_of co_corpus_id i (corpus_state d)"

abbreviation publication_of :: "db \<Rightarrow> string \<Rightarrow> snapshot_row option" where
  "publication_of d i \<equiv> row_of s_publication_id i (snapshots d)"

abbreviation snapshot_of :: "db \<Rightarrow> string \<Rightarrow> snapshot_row option" where
  "snapshot_of d i \<equiv> row_of s_snapshot_id i (snapshots d)"

abbreviation ensure_corpus_row :: "string \<Rightarrow> corpus_row" where
  "ensure_corpus_row c \<equiv> \<lparr>co_corpus_id = c, co_active_snapshot_id = None,
     co_next_snapshot_sequence = 1, co_publisher_fence = 0\<rparr>"

text \<open>\<open>INSERT INTO corpus_state(corpus_id) ... ON CONFLICT (corpus_id) DO NOTHING\<close>.\<close>

definition ensure_corpus :: "string \<Rightarrow> db \<Rightarrow> db result" where
  "ensure_corpus c d =
     (if corpus_of d c \<noteq> None then Inr d
      else if \<not> corpus_id_check c then Inl (DbError ''corpus_state_corpus_id_check'')
      else Inr (d\<lparr>corpus_state := corpus_state d @ [ensure_corpus_row c]\<rparr>))"

definition nullif_empty :: "string \<Rightarrow> string option" where
  "nullif_empty s = (if s = [] then None else Some s)"

definition null_string :: "string option \<Rightarrow> string" where
  "null_string x = (case x of None \<Rightarrow> [] | Some s \<Rightarrow> s)"

lemma null_string_nullif [simp]: "null_string (nullif_empty s) = s"
  by (simp add: null_string_def nullif_empty_def)

lemma nullif_null_string: "x \<noteq> Some [] \<Longrightarrow> nullif_empty (null_string x) = x"
  by (cases x) (auto simp: null_string_def nullif_empty_def)

end
