(* ===== verification/Jobs.thy ===== *)
theory Jobs
  imports Store
begin

text \<open>
  The durable job store: the transition rules of \<open>domain/operations.go\<close> and the statements of
  \<open>adapters/postgres/jobs.go\<close> (submit, the claims, lease renewal, completion, checkpoints,
  transitions) with the claim of \<open>index_job_claim.go\<close>. Each SQL statement is one definition on the
  tables; an operation that runs several statements composes them. \<open>locked\<close> is the set of rows that
  other transactions hold (\<open>SKIP LOCKED\<close>), \<open>now\<close> the clock of the statement, durations are
  microseconds unless said otherwise.
\<close>

section \<open>Transition rules and pipeline order\<close>

fun AllowedJobTransition :: "job_state \<Rightarrow> job_state \<Rightarrow> bool" where
  "AllowedJobTransition JOB_STATE_RUNNING target =
     (target = JOB_STATE_WAITING_REVIEW \<or> target = JOB_STATE_STAGED \<or> target = JOB_STATE_RETRY_WAIT \<or>
      target = JOB_STATE_FAILED \<or> target = JOB_STATE_CANCELLED)"
| "AllowedJobTransition JOB_STATE_STAGED target = (target = JOB_STATE_VALIDATING \<or> target = JOB_STATE_FAILED)"
| "AllowedJobTransition JOB_STATE_VALIDATING target = (target = JOB_STATE_PUBLISHING \<or> target = JOB_STATE_FAILED)"
| "AllowedJobTransition _ target = False"

text \<open>\<open>None\<close> is the second result false of the source.\<close>

fun JobStageRank :: "job_stage \<Rightarrow> nat option" where
  "JobStageRank JOB_STAGE_ACQUIRE = Some 1"
| "JobStageRank JOB_STAGE_PARSE = Some 2"
| "JobStageRank JOB_STAGE_STRUCTURE = Some 3"
| "JobStageRank JOB_STAGE_BIND = Some 4"
| "JobStageRank JOB_STAGE_CHUNK = Some 5"
| "JobStageRank JOB_STAGE_EXTRACT = Some 6"
| "JobStageRank JOB_STAGE_RESOLVE = Some 7"
| "JobStageRank JOB_STAGE_ASSEMBLE = Some 8"
| "JobStageRank JOB_STAGE_INDEX = Some 9"
| "JobStageRank JOB_STAGE_UNSPECIFIED = None"

definition JobStagePrecedesOrEquals :: "job_stage \<Rightarrow> job_stage \<Rightarrow> bool" where
  "JobStagePrecedesOrEquals l r =
     (case (JobStageRank l, JobStageRank r) of (Some a, Some b) \<Rightarrow> a \<le> b | _ \<Rightarrow> False)"

section \<open>Records handed to callers\<close>

record JobIntent =
  JobID :: string
  CorpusID :: string
  Operation :: job_operation
  InitialStage :: job_stage
  InputFingerprint :: string
  IdempotencyKey :: string
  RequestHash :: string
  RequestPayload :: string
  BaseSnapshotID :: string

record JobRecord =
  jr_job_id :: string
  jr_corpus_id :: string
  jr_operation :: job_operation
  jr_state :: job_state
  jr_stage :: job_stage
  jr_input_fingerprint :: string
  jr_idempotency_key :: string
  jr_request_hash :: string
  jr_base_snapshot_id :: string
  jr_latest_checkpoint_id :: string
  jr_attempt :: nat
  jr_stage_attempt :: nat
  jr_lease_owner :: string
  jr_lease_fence :: nat
  jr_lease_expires_at :: "int option"
  jr_cancellation_requested :: bool
  jr_created_at :: int
  jr_updated_at :: int

text \<open>The zero time of a missing lease expiry is \<open>None\<close>.\<close>

definition scanJob :: "job_row \<Rightarrow> JobRecord" where
  "scanJob r = \<lparr>jr_job_id = j_job_id r, jr_corpus_id = j_corpus_id r, jr_operation = j_operation r,
     jr_state = j_state r, jr_stage = j_stage r, jr_input_fingerprint = j_input_fingerprint r,
     jr_idempotency_key = j_idempotency_key r, jr_request_hash = j_request_hash r,
     jr_base_snapshot_id = null_string (j_base_snapshot_id r),
     jr_latest_checkpoint_id = null_string (j_latest_checkpoint_id r),
     jr_attempt = j_attempt r, jr_stage_attempt = j_stage_attempt r,
     jr_lease_owner = null_string (j_lease_owner r), jr_lease_fence = j_lease_fence r,
     jr_lease_expires_at = j_lease_expires_at r,
     jr_cancellation_requested = j_cancellation_requested r,
     jr_created_at = j_created_at r, jr_updated_at = j_updated_at r\<rparr>"

section \<open>Submission\<close>

definition new_job_row :: "JobIntent \<Rightarrow> int \<Rightarrow> job_row" where
  "new_job_row i now = \<lparr>j_job_id = JobID i, j_corpus_id = CorpusID i, j_operation = Operation i,
     j_state = JOB_STATE_QUEUED, j_stage = InitialStage i,
     j_input_fingerprint = InputFingerprint i, j_idempotency_key = IdempotencyKey i,
     j_request_hash = RequestHash i, j_request_payload = RequestPayload i,
     j_base_snapshot_id = nullif_empty (BaseSnapshotID i), j_latest_checkpoint_id = None,
     j_attempt = 0, j_stage_attempt = 0, j_max_attempts = 8, j_lease_owner = None,
     j_lease_fence = 0, j_lease_expires_at = None, j_next_attempt_at = NegInfinity,
     j_cancellation_requested = False, j_created_at = now, j_updated_at = now\<rparr>"

definition job_by_key :: "db \<Rightarrow> string \<Rightarrow> string \<Rightarrow> job_row option" where
  "job_by_key d corpus key = row_of (\<lambda>r. (j_corpus_id r, j_idempotency_key r)) (corpus, key) (jobs d)"

text \<open>The checks of the request before any statement runs.\<close>

definition validate_intent :: "host \<Rightarrow> ingestion_request codec \<Rightarrow> JobIntent \<Rightarrow> unit result" where
  "validate_intent h c i =
     (if \<not> storageIDPattern (JobID i) \<or> \<not> storageIDPattern (CorpusID i) \<or>
         \<not> storageIDPattern (IdempotencyKey i) \<or> \<not> sha256Pattern (InputFingerprint i) \<or>
         \<not> sha256Pattern (RequestHash i) \<or> Operation i = JOB_OPERATION_UNSPECIFIED \<or>
         RequestPayload i = []
      then Inl (Err ''invalid job intent'')
      else if sha256hex h (RequestPayload i) \<noteq> RequestHash i
      then Inl (Err ''request payload hash mismatch'')
      else case c_unmarshal c (RequestPayload i) of
        None \<Rightarrow> Inl (Err ''decode ingestion request payload'')
      | Some request \<Rightarrow>
          (case validate_wire h c request of
             Inl e \<Rightarrow> Inl (Wrap ''validate ingestion request payload'' e)
           | Inr _ \<Rightarrow>
               if ir_corpus_id request \<noteq> CorpusID i \<or> ir_operation request \<noteq> Operation i \<or>
                  ir_idempotency_key request \<noteq> IdempotencyKey i
               then Inl (Err ''job intent differs from persisted request payload'')
               else if sha256hex h (c_marshal c (request\<lparr>ir_idempotency_key := []\<rparr>)) \<noteq> InputFingerprint i
               then Inl (Err ''input fingerprint does not match request semantics'')
               else Inr ()))"

text \<open>
  The transaction: the corpus row, the insert with \<open>ON CONFLICT (corpus_id,idempotency_key)
  DO NOTHING\<close>, and the replay of an existing request. The pair is the record and whether it was
  reused.
\<close>

definition SubmitJob ::
    "host \<Rightarrow> ingestion_request codec \<Rightarrow> JobIntent \<Rightarrow> int \<Rightarrow> db \<Rightarrow> (JobRecord \<times> bool) result \<times> db" where
  "SubmitJob h c i now d =
     (case validate_intent h c i of
        Inl e \<Rightarrow> (Inl e, d)
      | Inr _ \<Rightarrow>
          (case ensure_corpus (CorpusID i) d of
             Inl e \<Rightarrow> (Inl (Wrap ''ensure corpus'' e), d)
           | Inr d' \<Rightarrow>
               (case job_by_key d' (CorpusID i) (IdempotencyKey i) of
                  Some r \<Rightarrow>
                    if j_request_hash r \<noteq> RequestHash i
                    then (Inl (Wrap ''idempotency key reused with a different request'' ErrConflict), d)
                    else (Inr (scanJob r, True), d')
                | None \<Rightarrow>
                    if job_of d' (JobID i) \<noteq> None
                    then (Inl (Wrap ''submit job'' (DbError ''jobs_pkey'')), d)
                    else (Inr (scanJob (new_job_row i now), False),
                          d'\<lparr>jobs := jobs d' @ [new_job_row i now]\<rparr>))))"

section \<open>Statements of the claims\<close>

definition lease_expired :: "int \<Rightarrow> job_row \<Rightarrow> bool" where
  "lease_expired now r = (case j_lease_expires_at r of None \<Rightarrow> False | Some e \<Rightarrow> e < now)"

definition lease_current :: "int \<Rightarrow> job_row \<Rightarrow> bool" where
  "lease_current now r = (case j_lease_expires_at r of None \<Rightarrow> False | Some e \<Rightarrow> now \<le> e)"

text \<open>The latest checkpoint of the row exists, is of the given stage and has a terminal status.\<close>

definition terminal_checkpoint :: "db \<Rightarrow> job_row \<Rightarrow> job_stage \<Rightarrow> bool" where
  "terminal_checkpoint d r stage =
     (case j_latest_checkpoint_id r of
        None \<Rightarrow> False
      | Some i \<Rightarrow> list_ex (\<lambda>c. cp_checkpoint_id c = i \<and> cp_stage c = stage \<and>
                    cp_terminal_status c \<noteq> None) (job_checkpoints d))"

definition update_job :: "string \<Rightarrow> (job_row \<Rightarrow> job_row) \<Rightarrow> db \<Rightarrow> db" where
  "update_job i f d = d\<lparr>jobs := update_row j_job_id i f (jobs d)\<rparr>"

definition update_jobs :: "string list \<Rightarrow> (job_row \<Rightarrow> job_row) \<Rightarrow> db \<Rightarrow> db" where
  "update_jobs is f d = d\<lparr>jobs := update_rows j_job_id is f (jobs d)\<rparr>"

text \<open>\<open>ORDER BY created_at, job_id FOR UPDATE SKIP LOCKED LIMIT 1\<close>.\<close>

definition claimable :: "(job_row \<Rightarrow> bool) \<Rightarrow> string set \<Rightarrow> db \<Rightarrow> job_row option" where
  "claimable P locked d =
     first_row (\<lambda>r. (j_created_at r, j_job_id r)) (\<lambda>r. P r \<and> j_job_id r \<notin> locked) (jobs d)"

text \<open>\<open>ORDER BY updated_at, job_id FOR UPDATE SKIP LOCKED LIMIT 64\<close>.\<close>

definition batch_of :: "(job_row \<Rightarrow> bool) \<Rightarrow> string set \<Rightarrow> db \<Rightarrow> string list" where
  "batch_of P locked d =
     map j_job_id (take 64 (sort_key (\<lambda>r. (j_updated_at r, j_job_id r))
       (filter (\<lambda>r. P r \<and> j_job_id r \<notin> locked) (jobs d))))"

text \<open>The update of a claimed row, returning it; no row is \<open>ErrLeaseUnavailable\<close>.\<close>

definition exec_claim ::
    "string \<Rightarrow> job_row option \<Rightarrow> (job_row \<Rightarrow> job_row) \<Rightarrow> db \<Rightarrow> JobRecord result \<times> db" where
  "exec_claim what candidate f d =
     (case candidate of
        None \<Rightarrow> (Inl ErrLeaseUnavailable, d)
      | Some r \<Rightarrow>
          if job_check (f r) then (Inr (scanJob (f r)), update_job (j_job_id r) f d)
          else (Inl (Wrap what (DbError ''jobs_check'')), d))"

definition abandoned :: "job_stage \<Rightarrow> int \<Rightarrow> job_row \<Rightarrow> bool" where
  "abandoned stage now r \<longleftrightarrow>
     j_stage r = stage \<and> j_cancellation_requested r \<and>
     (j_state r \<in> {JOB_STATE_QUEUED, JOB_STATE_RETRY_WAIT, JOB_STATE_STAGED} \<or>
      j_state r = JOB_STATE_RUNNING \<and> lease_expired now r)"

definition finalizeAbandonedCancellations :: "job_stage \<Rightarrow> string set \<Rightarrow> int \<Rightarrow> db \<Rightarrow> db" where
  "finalizeAbandonedCancellations stage locked now d =
     update_jobs (batch_of (abandoned stage now) locked d)
       (\<lambda>r. r\<lparr>j_state := JOB_STATE_CANCELLED, j_lease_owner := None, j_lease_expires_at := None,
              j_next_attempt_at := NegInfinity, j_updated_at := now\<rparr>) d"

definition exhausted :: "db \<Rightarrow> job_stage \<Rightarrow> int \<Rightarrow> job_row \<Rightarrow> bool" where
  "exhausted d stage now r \<longleftrightarrow>
     j_stage r = stage \<and> j_max_attempts r \<le> j_stage_attempt r \<and>
     (j_state r = JOB_STATE_RETRY_WAIT \<or> j_state r = JOB_STATE_RUNNING \<and> lease_expired now r) \<and>
     \<not> terminal_checkpoint d r stage"

definition fail_exhausted_row :: "int \<Rightarrow> job_row \<Rightarrow> job_row" where
  "fail_exhausted_row now r =
     r\<lparr>j_state := (if j_cancellation_requested r then JOB_STATE_CANCELLED else JOB_STATE_FAILED),
       j_lease_owner := None, j_lease_expires_at := None, j_updated_at := now\<rparr>"

definition finalizeExhausted :: "job_stage \<Rightarrow> string set \<Rightarrow> int \<Rightarrow> db \<Rightarrow> db" where
  "finalizeExhausted stage locked now d =
     update_jobs (batch_of (exhausted d stage now) locked d) (fail_exhausted_row now) d"

text \<open>The columns that every claim sets: attempt, owner, fence and lease.\<close>

definition grant_lease :: "string \<Rightarrow> int \<Rightarrow> int \<Rightarrow> job_row \<Rightarrow> job_row" where
  "grant_lease owner duration now r =
     r\<lparr>j_attempt := j_attempt r + 1, j_lease_owner := Some owner, j_lease_fence := j_lease_fence r + 1,
       j_lease_expires_at := Some (now + duration), j_updated_at := now\<rparr>"

section \<open>The claims\<close>

definition owned_stages :: "job_stage set" where
  "owned_stages = {JOB_STAGE_PARSE, JOB_STAGE_STRUCTURE, JOB_STAGE_BIND, JOB_STAGE_CHUNK,
     JOB_STAGE_EXTRACT, JOB_STAGE_RESOLVE}"

definition ClaimJob_select :: "db \<Rightarrow> int \<Rightarrow> job_row \<Rightarrow> bool" where
  "ClaimJob_select d now r \<longleftrightarrow>
     \<not> j_cancellation_requested r \<and> j_stage r \<notin> owned_stages \<and>
     j_job_id r \<notin> ia_job_id ` set (index_job_assignments d) \<and>
     j_job_id r \<notin> set (graph_job_assignments d) \<and>
     (j_state r = JOB_STATE_QUEUED \<or>
      j_state r = JOB_STATE_RETRY_WAIT \<and> ts_le (j_next_attempt_at r) now \<and>
        j_stage_attempt r < j_max_attempts r \<or>
      j_state r \<in> {JOB_STATE_RUNNING, JOB_STATE_STAGED, JOB_STATE_VALIDATING, JOB_STATE_PUBLISHING} \<and>
        lease_expired now r)"

definition ClaimJob_update :: "string \<Rightarrow> int \<Rightarrow> int \<Rightarrow> job_row \<Rightarrow> job_row" where
  "ClaimJob_update owner duration now r =
     (grant_lease owner duration now r)
       \<lparr>j_state := (if j_state r \<in> {JOB_STATE_QUEUED, JOB_STATE_RETRY_WAIT}
                    then JOB_STATE_RUNNING else j_state r),
        j_stage_attempt := j_stage_attempt r + 1\<rparr>"

definition valid_claim :: "string \<Rightarrow> int \<Rightarrow> bool" where
  "valid_claim owner duration \<longleftrightarrow> storageIDPattern owner \<and> 0 < duration"

definition claim_refused :: "JobRecord result" where
  "claim_refused = Inl (Err ''valid owner and positive lease duration required'')"

definition ClaimJob :: "string \<Rightarrow> int \<Rightarrow> string set \<Rightarrow> int \<Rightarrow> db \<Rightarrow> JobRecord result \<times> db" where
  "ClaimJob owner duration locked now d =
     (if \<not> valid_claim owner duration then (claim_refused, d)
      else exec_claim ''claim job'' (claimable (ClaimJob_select d now) locked d)
             (ClaimJob_update owner duration now) d)"

text \<open>Retry of a stage: due and within budget, or finished and only to be recovered.\<close>

definition retry_ready :: "db \<Rightarrow> job_stage \<Rightarrow> int \<Rightarrow> job_row \<Rightarrow> bool" where
  "retry_ready d stage now r \<longleftrightarrow>
     (j_stage_attempt r < j_max_attempts r \<or> terminal_checkpoint d r stage) \<and>
     (j_state r = JOB_STATE_RETRY_WAIT \<and> ts_le (j_next_attempt_at r) now \<or>
      j_state r = JOB_STATE_RUNNING \<and> lease_expired now r)"

definition succeeded_checkpoint :: "db \<Rightarrow> job_row \<Rightarrow> job_stage \<Rightarrow> bool" where
  "succeeded_checkpoint d r stage =
     (case j_latest_checkpoint_id r of
        None \<Rightarrow> False
      | Some i \<Rightarrow> list_ex (\<lambda>c. cp_checkpoint_id c = i \<and> cp_job_id c = j_job_id r \<and> cp_stage c = stage \<and>
                    cp_terminal_status c = Some COMPLETION_STATUS_SUCCEEDED) (job_checkpoints d))"

definition handoff_ready :: "db \<Rightarrow> job_stage \<Rightarrow> job_stage \<Rightarrow> job_row \<Rightarrow> bool" where
  "handoff_ready d previous target r \<longleftrightarrow>
     j_stage r = previous \<and> j_state r = JOB_STATE_STAGED \<and>
     (target = JOB_STAGE_RESOLVE \<longrightarrow> succeeded_checkpoint d r previous)"

definition handoff_select :: "db \<Rightarrow> job_stage \<Rightarrow> job_stage \<Rightarrow> int \<Rightarrow> job_row \<Rightarrow> bool" where
  "handoff_select d previous target now r \<longleftrightarrow>
     \<not> j_cancellation_requested r \<and>
     (handoff_ready d previous target r \<or> j_stage r = target \<and> retry_ready d target now r)"

definition handoff_update ::
    "db \<Rightarrow> job_stage \<Rightarrow> job_stage \<Rightarrow> string \<Rightarrow> int \<Rightarrow> int \<Rightarrow> job_row \<Rightarrow> job_row" where
  "handoff_update d previous target owner duration now r =
     (grant_lease owner duration now r)
       \<lparr>j_state := JOB_STATE_RUNNING, j_stage := target,
        j_stage_attempt :=
          (if j_stage r = previous \<and> j_state r = JOB_STATE_STAGED then 1
           else if terminal_checkpoint d r target then j_stage_attempt r
           else j_stage_attempt r + 1)\<rparr>"

definition adjacent_stages :: "job_stage \<Rightarrow> job_stage \<Rightarrow> bool" where
  "adjacent_stages previous target =
     (case (JobStageRank previous, JobStageRank target) of
        (Some a, Some b) \<Rightarrow> b = a + 1 | _ \<Rightarrow> False)"

definition handoff_claim ::
    "string \<Rightarrow> int \<Rightarrow> job_stage \<Rightarrow> job_stage \<Rightarrow> string set \<Rightarrow> int \<Rightarrow> db \<Rightarrow> JobRecord result \<times> db" where
  "handoff_claim owner duration previous target locked now d =
     exec_claim ''claim job'' (claimable (handoff_select d previous target now) locked d)
       (handoff_update d previous target owner duration now) d"

text \<open>
  The three statements of \<open>claimHandoffJob\<close>; each takes its own lock set and clock reading, since
  other transactions may run between them.
\<close>

definition claimHandoffJob ::
    "string \<Rightarrow> int \<Rightarrow> job_stage \<Rightarrow> job_stage \<Rightarrow> (string set \<times> int) \<Rightarrow> (string set \<times> int) \<Rightarrow>
     (string set \<times> int) \<Rightarrow> db \<Rightarrow> JobRecord result \<times> db" where
  "claimHandoffJob owner duration previous target e1 e2 e3 d =
     (if \<not> valid_claim owner duration then (claim_refused, d)
      else if \<not> adjacent_stages previous target
      then (Inl (Err ''handoff stages must be adjacent in pipeline order''), d)
      else handoff_claim owner duration previous target (fst e3) (snd e3)
             (finalizeExhausted target (fst e2) (snd e2)
               (finalizeAbandonedCancellations target (fst e1) (snd e1) d)))"

definition ClaimStructureJob where
  "ClaimStructureJob owner duration = claimHandoffJob owner duration JOB_STAGE_PARSE JOB_STAGE_STRUCTURE"

definition ClaimBindJob where
  "ClaimBindJob owner duration = claimHandoffJob owner duration JOB_STAGE_STRUCTURE JOB_STAGE_BIND"

definition ClaimChunkJob where
  "ClaimChunkJob owner duration = claimHandoffJob owner duration JOB_STAGE_BIND JOB_STAGE_CHUNK"

definition ClaimExtractJob where
  "ClaimExtractJob owner duration = claimHandoffJob owner duration JOB_STAGE_CHUNK JOB_STAGE_EXTRACT"

definition ClaimResolveJob where
  "ClaimResolveJob owner duration = claimHandoffJob owner duration JOB_STAGE_EXTRACT JOB_STAGE_RESOLVE"

definition parse_select :: "db \<Rightarrow> int \<Rightarrow> job_row \<Rightarrow> bool" where
  "parse_select d now r \<longleftrightarrow>
     \<not> j_cancellation_requested r \<and> j_stage r = JOB_STAGE_PARSE \<and>
     (j_state r = JOB_STATE_QUEUED \<or> retry_ready d JOB_STAGE_PARSE now r)"

definition stage_update :: "db \<Rightarrow> job_stage \<Rightarrow> string \<Rightarrow> int \<Rightarrow> int \<Rightarrow> job_row \<Rightarrow> job_row" where
  "stage_update d stage owner duration now r =
     (grant_lease owner duration now r)
       \<lparr>j_state := JOB_STATE_RUNNING,
        j_stage_attempt := (if terminal_checkpoint d r stage then j_stage_attempt r
                            else j_stage_attempt r + 1)\<rparr>"

definition parse_claim :: "string \<Rightarrow> int \<Rightarrow> string set \<Rightarrow> int \<Rightarrow> db \<Rightarrow> JobRecord result \<times> db" where
  "parse_claim owner duration locked now d =
     exec_claim ''claim PARSE job'' (claimable (parse_select d now) locked d)
       (stage_update d JOB_STAGE_PARSE owner duration now) d"

definition ClaimParseJob ::
    "string \<Rightarrow> int \<Rightarrow> (string set \<times> int) \<Rightarrow> (string set \<times> int) \<Rightarrow> (string set \<times> int) \<Rightarrow> db \<Rightarrow>
     JobRecord result \<times> db" where
  "ClaimParseJob owner duration e1 e2 e3 d =
     (if \<not> valid_claim owner duration then (claim_refused, d)
      else parse_claim owner duration (fst e3) (snd e3)
             (finalizeExhausted JOB_STAGE_PARSE (fst e2) (snd e2)
               (finalizeAbandonedCancellations JOB_STAGE_PARSE (fst e1) (snd e1) d)))"

text \<open>
  INDEX work belongs to an inventory: the publication must be live under its fence and the source
  job uncancelled.
\<close>

definition index_assignment_live :: "db \<Rightarrow> job_row \<Rightarrow> bool" where
  "index_assignment_live d r \<longleftrightarrow>
     list_ex (\<lambda>a. ia_job_id a = j_job_id r \<and>
       list_ex (\<lambda>i. ii_publication_id i = ia_publication_id a \<and> ii_corpus_id i = j_corpus_id r \<and>
         list_ex (\<lambda>s. s_publication_id s = ii_publication_id i \<and> s_fence s = ii_fence i \<and>
           s_state s \<in> {SNAPSHOT_STATE_STAGING, SNAPSHOT_STATE_VALIDATING}) (snapshots d) \<and>
         list_ex (\<lambda>c. co_corpus_id c = ii_corpus_id i \<and> co_publisher_fence c = ii_fence i) (corpus_state d) \<and>
         list_ex (\<lambda>src. j_job_id src = ia_source_job_id a \<and> \<not> j_cancellation_requested src) (jobs d))
        (index_job_inventories d)) (index_job_assignments d)"

definition index_select :: "db \<Rightarrow> int \<Rightarrow> job_row \<Rightarrow> bool" where
  "index_select d now r \<longleftrightarrow>
     \<not> j_cancellation_requested r \<and> j_stage r = JOB_STAGE_INDEX \<and> index_assignment_live d r \<and>
     (j_state r = JOB_STATE_QUEUED \<or> retry_ready d JOB_STAGE_INDEX now r)"

definition index_claim :: "string \<Rightarrow> int \<Rightarrow> string set \<Rightarrow> int \<Rightarrow> db \<Rightarrow> JobRecord result \<times> db" where
  "index_claim owner duration locked now d =
     exec_claim ''claim INDEX job'' (claimable (index_select d now) locked d)
       (stage_update d JOB_STAGE_INDEX owner duration now) d"

definition finalizeExhaustedIndex :: "string set \<Rightarrow> int \<Rightarrow> db \<Rightarrow> db" where
  "finalizeExhaustedIndex locked now d =
     update_jobs (batch_of (\<lambda>r. exhausted d JOB_STAGE_INDEX now r \<and>
         j_job_id r \<in> ia_job_id ` set (index_job_assignments d)) locked d) (fail_exhausted_row now) d"

definition ClaimIndexJob ::
    "string \<Rightarrow> int \<Rightarrow> (string set \<times> int) \<Rightarrow> (string set \<times> int) \<Rightarrow> (string set \<times> int) \<Rightarrow> db \<Rightarrow>
     JobRecord result \<times> db" where
  "ClaimIndexJob owner duration e1 e2 e3 d =
     (if \<not> valid_claim owner duration then (claim_refused, d)
      else index_claim owner duration (fst e3) (snd e3)
             (finalizeExhaustedIndex (fst e2) (snd e2)
               (finalizeAbandonedCancellations JOB_STAGE_INDEX (fst e1) (snd e1) d)))"

section \<open>Operations of the lease holder\<close>

text \<open>
  The row that a worker's statement addresses: its job, held by this owner under this fence and
  not expired. A fence of the wire is converted to a signed 64 bit column value; a value out of
  that range matches no row, as no row has such a fence.
\<close>

definition held_by :: "string \<Rightarrow> nat \<Rightarrow> int \<Rightarrow> job_row \<Rightarrow> bool" where
  "held_by owner fence now r \<longleftrightarrow>
     j_lease_owner r = Some owner \<and> j_lease_fence r = fence \<and> lease_current now r"

definition live_states :: "job_state set" where
  "live_states = {JOB_STATE_RUNNING, JOB_STATE_STAGED, JOB_STATE_VALIDATING, JOB_STATE_PUBLISHING}"

definition RenewLease :: "string \<Rightarrow> string \<Rightarrow> nat \<Rightarrow> int \<Rightarrow> int \<Rightarrow> db \<Rightarrow> int result \<times> db" where
  "RenewLease job owner fence duration now d =
     (if duration \<le> 0 \<or> fence = 0 then (Inl (Err ''positive fence and lease duration required''), d)
      else case job_of d job of
        None \<Rightarrow> (Inl ErrStaleFence, d)
      | Some r \<Rightarrow>
          if held_by owner fence now r \<and> j_state r \<in> live_states \<and> \<not> j_cancellation_requested r
          then (Inr (now + duration),
                update_job job (\<lambda>r. r\<lparr>j_lease_expires_at := Some (now + duration), j_updated_at := now\<rparr>) d)
          else (Inl ErrStaleFence, d))"

definition CancellationRequested :: "string \<Rightarrow> string \<Rightarrow> nat \<Rightarrow> int \<Rightarrow> db \<Rightarrow> bool result" where
  "CancellationRequested job owner fence now d =
     (if \<not> storageIDPattern job \<or> \<not> storageIDPattern owner \<or> fence = 0
      then Inl (Err ''valid job, owner, and fence required'')
      else case job_of d job of
        None \<Rightarrow> Inl ErrStaleFence
      | Some r \<Rightarrow>
          if held_by owner fence now r \<and> j_state r \<in> live_states
          then Inr (j_cancellation_requested r) else Inl ErrStaleFence)"

text \<open>The states whose entry gives up the lease: \<open>$5::smallint IN (3,7,8,9,10)\<close>.\<close>

definition releases_lease :: "job_state \<Rightarrow> bool" where
  "releases_lease s \<longleftrightarrow> job_state_number s \<in> {3, 7, 8, 9, 10}"

definition valid_completion :: "string \<Rightarrow> string \<Rightarrow> nat \<Rightarrow> job_state \<Rightarrow> int \<Rightarrow> bool" where
  "valid_completion job owner fence desired retryDelay \<longleftrightarrow>
     storageIDPattern job \<and> storageIDPattern owner \<and> fence \<noteq> 0 \<and>
     AllowedJobTransition JOB_STATE_RUNNING desired \<and> 0 \<le> retryDelay \<and>
     (desired = JOB_STATE_RETRY_WAIT \<longleftrightarrow> retryDelay \<noteq> 0)"

text \<open>The delay is a duration in nanoseconds; a positive one waits at least a microsecond.\<close>

definition retryMicroseconds :: "int \<Rightarrow> int" where
  "retryMicroseconds retryDelay =
     (if 0 < retryDelay \<and> retryDelay div 1000 = 0 then 1 else retryDelay div 1000)"

definition completion_update :: "db \<Rightarrow> job_state \<Rightarrow> int \<Rightarrow> int \<Rightarrow> job_row \<Rightarrow> job_row" where
  "completion_update d desired retryDelay now r =
     (let budget = j_stage_attempt r < j_max_attempts r \<or> terminal_checkpoint d r (j_stage r);
          release = j_cancellation_requested r \<or> releases_lease desired
      in r\<lparr>j_state := (if j_cancellation_requested r then JOB_STATE_CANCELLED
                       else if desired = JOB_STATE_RETRY_WAIT \<and> \<not> budget then JOB_STATE_FAILED
                       else desired),
           j_updated_at := now,
           j_next_attempt_at :=
             (if \<not> j_cancellation_requested r \<and> desired = JOB_STATE_RETRY_WAIT \<and> budget
              then At (now + retryMicroseconds retryDelay) else NegInfinity),
           j_lease_owner := (if release then None else j_lease_owner r),
           j_lease_expires_at := (if release then None else j_lease_expires_at r)\<rparr>)"

definition CompleteWorkerAttempt ::
    "string \<Rightarrow> string \<Rightarrow> nat \<Rightarrow> job_state \<Rightarrow> int \<Rightarrow> int \<Rightarrow> db \<Rightarrow> job_state result \<times> db" where
  "CompleteWorkerAttempt job owner fence desired retryDelay now d =
     (if \<not> valid_completion job owner fence desired retryDelay
      then (Inl (Err ''valid worker completion identity and state required''), d)
      else case job_of d job of
        None \<Rightarrow> (Inl ErrStaleFence, d)
      | Some r \<Rightarrow>
          if held_by owner fence now r \<and> j_state r = JOB_STATE_RUNNING
          then (Inr (j_state (completion_update d desired retryDelay now r)),
                update_job job (completion_update d desired retryDelay now) d)
          else (Inl ErrStaleFence, d))"

definition transition_update :: "job_state \<Rightarrow> int \<Rightarrow> job_row \<Rightarrow> job_row" where
  "transition_update target now r =
     r\<lparr>j_state := target, j_updated_at := now,
       j_lease_owner := (if releases_lease target then None else j_lease_owner r),
       j_lease_expires_at := (if releases_lease target then None else j_lease_expires_at r)\<rparr>"

definition TransitionJob ::
    "string \<Rightarrow> string \<Rightarrow> nat \<Rightarrow> job_state \<Rightarrow> job_state \<Rightarrow> int \<Rightarrow> db \<Rightarrow> unit result \<times> db" where
  "TransitionJob job owner fence expected target now d =
     (if \<not> AllowedJobTransition expected target
      then (Inl (Wrap ''job transition is not workflow-owned or allowed'' ErrConflict), d)
      else case job_of d job of
        None \<Rightarrow> (Inl ErrStaleFence, d)
      | Some r \<Rightarrow>
          if held_by owner fence now r \<and> j_state r = expected \<and>
             (\<not> j_cancellation_requested r \<or> target = JOB_STATE_CANCELLED)
          then (Inr (), update_job job (transition_update target now) d)
          else (Inl ErrStaleFence, d))"

section \<open>Checkpoints\<close>

definition terminal_column :: "completion_status \<Rightarrow> completion_status option" where
  "terminal_column s = (if s = COMPLETION_STATUS_UNSPECIFIED then None else Some s)"

text \<open>
  The insert with \<open>ON CONFLICT (checkpoint_id) DO NOTHING\<close>: the second component tells whether a
  row was written. The identifier check and the second unique constraint of the table refuse the
  statement.
\<close>

definition insert_checkpoint :: "checkpoint_row \<Rightarrow> db \<Rightarrow> (bool \<times> db) result" where
  "insert_checkpoint c d =
     (if \<not> storageIDPattern (cp_checkpoint_id c) then Inl (DbError ''job_checkpoints_checkpoint_id_check'')
      else if checkpoint_of d (cp_checkpoint_id c) \<noteq> None then Inr (False, d)
      else if list_ex (\<lambda>c'. cp_job_id c' = cp_job_id c \<and> cp_stage c' = cp_stage c \<and>
                 cp_fence c' = cp_fence c \<and> cp_payload_hash c' = cp_payload_hash c) (job_checkpoints d)
      then Inl (DbError ''job_checkpoints_job_id_stage_fence_payload_hash_key'')
      else Inr (True, d\<lparr>job_checkpoints := job_checkpoints d @ [c]\<rparr>))"

definition advance_checkpoint :: "checkpoint \<Rightarrow> string \<Rightarrow> int \<Rightarrow> db \<Rightarrow> db" where
  "advance_checkpoint ck i now d =
     update_job (ck_job_id ck)
       (\<lambda>r. if j_lease_fence r = ck_fence ck
            then r\<lparr>j_stage := ck_stage ck, j_latest_checkpoint_id := Some i, j_updated_at := now\<rparr>
            else r) d"

definition checkpoint_row_of :: "host \<Rightarrow> checkpoint codec \<Rightarrow> checkpoint \<Rightarrow> record_meta \<Rightarrow> checkpoint_row" where
  "checkpoint_row_of h c ck meta =
     \<lparr>cp_checkpoint_id = m_record_id meta, cp_job_id = ck_job_id ck, cp_stage = ck_stage ck,
      cp_fence = ck_fence ck, cp_payload = c_marshal c ck, cp_payload_hash = sha256hex h (c_marshal c ck),
      cp_terminal_status = terminal_column (ck_terminal_status ck)\<rparr>"

text \<open>
  \<open>afterSave\<close> is the callback of stage-owned metadata; it may change any table or fail. The
  statements run in the transaction of the caller: a failure means that the caller rolls back.
\<close>

definition saveCheckpointTx ::
    "host \<Rightarrow> checkpoint codec \<Rightarrow> checkpoint option \<Rightarrow> string \<Rightarrow> (db \<Rightarrow> db result) option \<Rightarrow> int \<Rightarrow> db \<Rightarrow>
     db result" where
  "saveCheckpointTx h c checkpoint owner afterSave now d =
     (case checkpoint of
        None \<Rightarrow> Inl (Err ''complete checkpoint required'')
      | Some ck \<Rightarrow>
          (case ck_meta ck of
             None \<Rightarrow> Inl (Err ''complete checkpoint required'')
           | Some meta \<Rightarrow>
               if ck_job_id ck = [] \<or> ck_fence ck = 0 then Inl (Err ''complete checkpoint required'')
               else if ck_terminal_status ck \<notin> {COMPLETION_STATUS_UNSPECIFIED,
                 COMPLETION_STATUS_SUCCEEDED, COMPLETION_STATUS_FAILED, COMPLETION_STATUS_CANCELLED}
               then Inl (Err ''valid checkpoint terminal status required'')
               else (case job_of d (ck_job_id ck) of
                  None \<Rightarrow> Inl ErrStaleFence
                | Some r \<Rightarrow>
                    if \<not> (held_by owner (ck_fence ck) now r \<and> j_state r = JOB_STATE_RUNNING \<and>
                           j_corpus_id r = m_corpus_id meta)
                    then Inl ErrStaleFence
                    else if \<not> JobStagePrecedesOrEquals (j_stage r) (ck_stage ck)
                    then Inl (Wrap ''checkpoint stage regressed'' ErrConflict)
                    else (case insert_checkpoint (checkpoint_row_of h c ck meta) d of
                       Inl e \<Rightarrow> Inl (Wrap ''insert checkpoint'' e)
                     | Inr (written, d') \<Rightarrow>
                         if \<not> written \<and> map_option cp_payload_hash (checkpoint_of d' (m_record_id meta)) \<noteq>
                              Some (sha256hex h (c_marshal c ck))
                         then Inl (Wrap ''checkpoint id reused with different bytes'' ErrConflict)
                         else (case afterSave of
                            None \<Rightarrow> Inr (advance_checkpoint ck (m_record_id meta) now d')
                          | Some f \<Rightarrow> f (advance_checkpoint ck (m_record_id meta) now d'))))))"

definition saveCheckpoint ::
    "host \<Rightarrow> checkpoint codec \<Rightarrow> checkpoint option \<Rightarrow> string \<Rightarrow> (db \<Rightarrow> db result) option \<Rightarrow> int \<Rightarrow> db \<Rightarrow>
     unit result \<times> db" where
  "saveCheckpoint h c ck owner afterSave now d =
     (case saveCheckpointTx h c ck owner afterSave now d of
        Inl e \<Rightarrow> (Inl e, d) | Inr d' \<Rightarrow> (Inr (), d'))"

definition SaveCheckpoint ::
    "host \<Rightarrow> checkpoint codec \<Rightarrow> checkpoint option \<Rightarrow> string \<Rightarrow> int \<Rightarrow> db \<Rightarrow> unit result \<times> db" where
  "SaveCheckpoint h c ck owner now d = saveCheckpoint h c ck owner None now d"

section \<open>Reading back\<close>

definition LoadIngestionRequest ::
    "host \<Rightarrow> ingestion_request codec \<Rightarrow> string \<Rightarrow> db \<Rightarrow> ingestion_request result" where
  "LoadIngestionRequest h c job d =
     (case job_of d job of
        None \<Rightarrow> Inl (Wrap ''claimed job request is missing'' ErrPersistentIntegrity)
      | Some r \<Rightarrow>
          if sha256hex h (j_request_payload r) \<noteq> j_request_hash r
          then Inl (Wrap ''persisted ingestion request checksum mismatch''
                      (Joined ErrConflict ErrPersistentIntegrity))
          else case c_unmarshal c (j_request_payload r) of
            None \<Rightarrow> Inl (Wrap ''decode persisted ingestion request''
                           (Joined (Err ''proto: cannot parse'') ErrPersistentIntegrity))
          | Some request \<Rightarrow>
              (case validate_wire h c request of
                 Inl e \<Rightarrow> Inl (Wrap ''validate persisted ingestion request'' (Joined e ErrPersistentIntegrity))
               | Inr _ \<Rightarrow> Inr request))"

text \<open>A payload over 16 MiB is read as NULL, an empty byte string in Go.\<close>

definition LoadLatestCheckpoint :: "host \<Rightarrow> checkpoint codec \<Rightarrow> string \<Rightarrow> db \<Rightarrow> checkpoint result" where
  "LoadLatestCheckpoint h c job d =
     (case Option.bind (job_of d job)
             (\<lambda>r. Option.bind (j_latest_checkpoint_id r) (checkpoint_of d)) of
        None \<Rightarrow> Inl ErrNotFound
      | Some row \<Rightarrow>
          let payload = (if int (length (cp_payload row)) \<le> 16777216 then cp_payload row else [])
          in if sha256hex h payload \<noteq> cp_payload_hash row
             then Inl (Wrap ''persisted checkpoint checksum mismatch'' (Joined ErrConflict ErrPersistentIntegrity))
             else case c_unmarshal c payload of
               None \<Rightarrow> Inl (Wrap ''decode persisted checkpoint''
                              (Joined (Err ''proto: cannot parse'') ErrPersistentIntegrity))
             | Some ck \<Rightarrow>
                 (case validate_wire h c ck of
                    Inl e \<Rightarrow> Inl (Wrap ''validate persisted checkpoint'' (Joined e ErrPersistentIntegrity))
                  | Inr _ \<Rightarrow>
                      if cp_terminal_status row \<noteq> terminal_column (ck_terminal_status ck)
                      then Inl (Wrap ''persisted checkpoint terminal status mismatch'' ErrPersistentIntegrity)
                      else Inr ck))"

section \<open>Evolution of a row\<close>

definition stage_rank :: "job_stage \<Rightarrow> nat" where
  "stage_rank s = (case JobStageRank s of None \<Rightarrow> 0 | Some n \<Rightarrow> n)"

definition terminal_states :: "job_state set" where
  "terminal_states = {JOB_STATE_SUCCEEDED, JOB_STATE_FAILED, JOB_STATE_CANCELLED}"

text \<open>What a request fixes for the life of its job.\<close>

definition job_identity ::
    "job_row \<Rightarrow> string \<times> string \<times> job_operation \<times> string \<times> string \<times> string \<times> string \<times> string option \<times> nat \<times> int" where
  "job_identity r = (j_job_id r, j_corpus_id r, j_operation r, j_input_fingerprint r, j_idempotency_key r,
     j_request_hash r, j_request_payload r, j_base_snapshot_id r, j_max_attempts r, j_created_at r)"

definition job_evolves :: "job_row \<Rightarrow> job_row \<Rightarrow> bool" where
  "job_evolves r r' \<longleftrightarrow>
     job_identity r' = job_identity r \<and>
     j_lease_fence r \<le> j_lease_fence r' \<and>
     stage_rank (j_stage r) \<le> stage_rank (j_stage r') \<and>
     (j_cancellation_requested r \<longrightarrow> j_cancellation_requested r') \<and>
     (j_state r \<in> terminal_states \<longrightarrow> j_state r' = j_state r) \<and>
     (j_cancellation_requested r \<longrightarrow> j_state r' = j_state r \<or> j_state r' = JOB_STATE_CANCELLED) \<and>
     (j_state r' = JOB_STATE_QUEUED \<longrightarrow> j_state r = JOB_STATE_QUEUED)"

lemma job_evolves_refl [simp]: "job_evolves r r"
  by (simp add: job_evolves_def)

lemma job_evolves_trans: "job_evolves r s \<Longrightarrow> job_evolves s t \<Longrightarrow> job_evolves r t"
  unfolding job_evolves_def
  by (elim conjE, intro conjI impI) (metis order_trans)+

lemma job_identity_simps:
  "job_identity r' = job_identity r \<Longrightarrow> j_job_id r' = j_job_id r"
  "job_identity r' = job_identity r \<Longrightarrow> j_corpus_id r' = j_corpus_id r"
  "job_identity r' = job_identity r \<Longrightarrow> j_idempotency_key r' = j_idempotency_key r"
  by (simp_all add: job_identity_def)

text \<open>The lease columns agree with the state; a job in the queue has not been tried.\<close>

definition row_ok :: "job_row \<Rightarrow> bool" where
  "row_ok r \<longleftrightarrow>
     (j_lease_owner r = None \<longleftrightarrow> j_lease_expires_at r = None) \<and>
     (j_state r = JOB_STATE_RUNNING \<longrightarrow> j_lease_owner r \<noteq> None \<and> 0 < j_lease_fence r) \<and>
     (j_state r \<notin> live_states \<longrightarrow> j_lease_owner r = None) \<and>
     (j_state r = JOB_STATE_QUEUED \<longrightarrow> j_stage_attempt r = 0) \<and>
     j_attempt r = j_lease_fence r \<and> 1 \<le> j_max_attempts r"

definition row_step :: "job_row \<Rightarrow> job_row \<Rightarrow> bool" where
  "row_step r r' \<longleftrightarrow> job_evolves r r' \<and> (row_ok r \<longrightarrow> row_ok r')"

lemma row_step_refl [simp]: "row_step r r"
  by (simp add: row_step_def)

lemmas row_step_defs = row_step_def job_evolves_def job_identity_def row_ok_def live_states_def
  terminal_states_def

section \<open>The invariant of the tables\<close>

definition job_inv :: "db \<Rightarrow> bool" where
  "job_inv d \<longleftrightarrow>
     distinct (map j_job_id (jobs d)) \<and>
     distinct (map (\<lambda>r. (j_corpus_id r, j_idempotency_key r)) (jobs d)) \<and>
     distinct (map cp_checkpoint_id (job_checkpoints d)) \<and>
     list_all row_ok (jobs d) \<and>
     list_all (\<lambda>r. case j_latest_checkpoint_id r of None \<Rightarrow> True
                | Some i \<Rightarrow> checkpoint_of d i \<noteq> None) (jobs d)"

definition jobs_evolve :: "db \<Rightarrow> db \<Rightarrow> bool" where
  "jobs_evolve d d' \<longleftrightarrow>
     (\<forall>i r. job_of d i = Some r \<longrightarrow> (\<exists>r'. job_of d' i = Some r' \<and> job_evolves r r')) \<and>
     (\<forall>i c. checkpoint_of d i = Some c \<longrightarrow> checkpoint_of d' i = Some c)"

lemma jobs_evolve_refl [simp]: "jobs_evolve d d"
  by (auto simp: jobs_evolve_def)

lemma jobs_evolve_trans: "jobs_evolve d e \<Longrightarrow> jobs_evolve e f \<Longrightarrow> jobs_evolve d f"
  unfolding jobs_evolve_def by (meson job_evolves_trans)

text \<open>From a state in the invariant a statement stays in it and only lets rows evolve.\<close>

definition keeps :: "db \<Rightarrow> db \<Rightarrow> bool" where
  "keeps d d' \<longleftrightarrow> (job_inv d \<longrightarrow> job_inv d' \<and> jobs_evolve d d')"

lemma keepsI: "(job_inv d \<Longrightarrow> job_inv d' \<and> jobs_evolve d d') \<Longrightarrow> keeps d d'"
  by (simp add: keeps_def)

lemma keeps_refl [simp]: "keeps d d"
  by (simp add: keeps_def)

lemma keeps_trans: "keeps d e \<Longrightarrow> keeps e f \<Longrightarrow> keeps d f"
  by (auto simp: keeps_def intro: jobs_evolve_trans)

lemma keeps_same: "jobs d' = jobs d \<Longrightarrow> job_checkpoints d' = job_checkpoints d \<Longrightarrow> keeps d d'"
  by (simp add: keeps_def job_inv_def jobs_evolve_def cong: option.case_cong)

text \<open>A statement that rewrites rows one by one, each along \<open>row_step\<close>.\<close>

lemma keeps_map:
  assumes jobs: "jobs d' = map g (jobs d)" and cps: "job_checkpoints d' = job_checkpoints d"
    and step: "\<And>r. r \<in> set (jobs d) \<Longrightarrow> row_step r (g r)"
    and latest: "\<And>r i. r \<in> set (jobs d) \<Longrightarrow> j_latest_checkpoint_id (g r) = Some i \<Longrightarrow>
        j_latest_checkpoint_id r = Some i \<or> checkpoint_of d i \<noteq> None"
  shows "keeps d d'"
proof (rule keepsI)
  assume inv: "job_inv d"
  have ident: "job_identity (g r) = job_identity r" if "r \<in> set (jobs d)" for r
    using step [OF that] by (simp add: row_step_def job_evolves_def)
  have ids: "map j_job_id (jobs d') = map j_job_id (jobs d)"
    by (simp add: jobs job_identity_simps [OF ident])
  have keys: "map (\<lambda>r. (j_corpus_id r, j_idempotency_key r)) (jobs d') =
      map (\<lambda>r. (j_corpus_id r, j_idempotency_key r)) (jobs d)"
    by (simp add: jobs job_identity_simps [OF ident])
  have ok: "list_all row_ok (jobs d')"
    using inv step by (auto simp: jobs job_inv_def list_all_iff row_step_def)
  have latest': "list_all (\<lambda>r. case j_latest_checkpoint_id r of None \<Rightarrow> True
      | Some i \<Rightarrow> checkpoint_of d' i \<noteq> None) (jobs d')"
    using inv latest by (fastforce simp: jobs cps job_inv_def list_all_iff split: option.splits)
  have "job_inv d'"
    using inv ids keys ok latest' cps by (simp add: job_inv_def)
  moreover have "jobs_evolve d d'"
  proof -
    have "\<exists>r'. job_of d' i = Some r' \<and> job_evolves r r'" if "job_of d i = Some r" for i r
    proof -
      have r: "r \<in> set (jobs d)" "j_job_id r = i" using that by (auto dest: row_of_Some)
      have "g r \<in> set (jobs d')" by (simp add: jobs r)
      moreover have "distinct (map j_job_id (jobs d'))" using inv ids by (simp add: job_inv_def)
      ultimately have "row_of j_job_id (j_job_id (g r)) (jobs d') = Some (g r)"
        by (rule row_of_distinct [rotated])
      then show ?thesis
        using job_identity_simps(1) [OF ident [OF r(1)]] r(2) step [OF r(1)] by (simp add: row_step_def)
    qed
    then show ?thesis by (simp add: jobs_evolve_def cps)
  qed
  ultimately show "job_inv d' \<and> jobs_evolve d d'" ..
qed

lemma keeps_update_job:
  assumes "\<And>r. r \<in> set (jobs d) \<Longrightarrow> j_job_id r = i \<Longrightarrow>
      row_step r (f r) \<and> j_latest_checkpoint_id (f r) = j_latest_checkpoint_id r"
  shows "keeps d (update_job i f d)"
  using assms by (intro keeps_map [where g = "\<lambda>r. if j_job_id r = i then f r else r"])
    (auto simp: update_job_def update_row_def split: if_splits)

lemma keeps_update_jobs:
  assumes "\<And>r. r \<in> set (jobs d) \<Longrightarrow> j_job_id r \<in> set is \<Longrightarrow>
      row_step r (f r) \<and> j_latest_checkpoint_id (f r) = j_latest_checkpoint_id r"
  shows "keeps d (update_jobs is f d)"
  using assms by (intro keeps_map [where g = "\<lambda>r. if j_job_id r \<in> set is then f r else r"])
    (auto simp: update_jobs_def update_rows_def split: if_splits)

lemma job_of_unique:
  assumes "job_inv d" "r \<in> set (jobs d)" "r' \<in> set (jobs d)" "j_job_id r = j_job_id r'"
  shows "r = r'"
  using assms row_of_distinct [of j_job_id "jobs d"] by (metis job_inv_def option.inject)

lemma keeps_update_of:
  assumes "job_of d i = Some r" "row_step r (f r)" "j_latest_checkpoint_id (f r) = j_latest_checkpoint_id r"
  shows "keeps d (update_job i f d)"
proof (cases "job_inv d")
  case True
  then show ?thesis using assms job_of_unique [OF True] row_of_Some [OF assms(1)]
    by (intro keeps_update_job) metis
qed (simp add: keeps_def)

lemma batch_of_select:
  assumes "job_inv d" "r \<in> set (jobs d)" "j_job_id r \<in> set (batch_of P locked d)"
  shows "P r"
proof -
  from assms(3) obtain r' where "r' \<in> set (jobs d)" "P r'" "j_job_id r' = j_job_id r"
    by (auto simp: batch_of_def dest!: in_set_takeD)
  then show ?thesis using job_of_unique [OF assms(1,2)] by metis
qed

lemma keeps_update_batch:
  assumes "\<And>r. P r \<Longrightarrow> row_step r (f r) \<and> j_latest_checkpoint_id (f r) = j_latest_checkpoint_id r"
  shows "keeps d (update_jobs (batch_of P locked d) f d)"
proof (cases "job_inv d")
  case True
  then show ?thesis using assms batch_of_select [OF True] by (intro keeps_update_jobs) blast
qed (simp add: keeps_def)

section \<open>The statements follow the rows\<close>

lemma stage_rank_adjacent: "adjacent_stages p t \<Longrightarrow> stage_rank t = stage_rank p + 1"
  by (simp add: adjacent_stages_def stage_rank_def split: option.splits)

lemma stage_rank_precedes: "JobStagePrecedesOrEquals l r \<Longrightarrow> stage_rank l \<le> stage_rank r"
  by (simp add: JobStagePrecedesOrEquals_def stage_rank_def split: option.splits)

text \<open>
  The contract of a claim: which rows its statement selects, and that its update grants the lease
  and beyond that changes only state, stage and stage attempt.
\<close>

locale lease_claim =
  fixes sel :: "db \<Rightarrow> int \<Rightarrow> job_row \<Rightarrow> bool"
    and upd :: "db \<Rightarrow> string \<Rightarrow> int \<Rightarrow> int \<Rightarrow> job_row \<Rightarrow> job_row"
  assumes sel_uncancelled: "sel d now r \<Longrightarrow> \<not> j_cancellation_requested r"
    and sel_state: "sel d now r \<Longrightarrow> j_state r \<in> {JOB_STATE_QUEUED, JOB_STATE_RETRY_WAIT} \<union> live_states"
    and sel_running: "sel d now r \<Longrightarrow> j_state r = JOB_STATE_RUNNING \<Longrightarrow> lease_expired now r"
    and sel_retry: "sel d now r \<Longrightarrow> j_state r = JOB_STATE_RETRY_WAIT \<Longrightarrow> ts_le (j_next_attempt_at r) now"
    and upd_columns: "\<exists>state stage tries. upd d owner duration now r =
          (grant_lease owner duration now r)\<lparr>j_state := state, j_stage := stage, j_stage_attempt := tries\<rparr>"
    and upd_state: "sel d now r \<Longrightarrow> j_state (upd d owner duration now r) \<in> live_states"
    and upd_stage: "sel d now r \<Longrightarrow>
          stage_rank (j_stage r) \<le> stage_rank (j_stage (upd d owner duration now r))"
begin

lemma upd_row_step: "sel d now r \<Longrightarrow> row_step r (upd d owner duration now r)"
proof -
  assume sel: "sel d now r"
  obtain state stage tries where eq: "upd d owner duration now r =
      (grant_lease owner duration now r)\<lparr>j_state := state, j_stage := stage, j_stage_attempt := tries\<rparr>"
    using upd_columns by blast
  have "state \<in> live_states" "stage_rank (j_stage r) \<le> stage_rank stage"
    using upd_state [OF sel, of owner duration] upd_stage [OF sel, of owner duration] by (simp_all add: eq)
  then show ?thesis using sel_uncancelled [OF sel] sel_state [OF sel]
    by (auto simp: eq row_step_defs grant_lease_def)
qed

lemma upd_lease:
  "j_lease_fence (upd d owner duration now r) = j_lease_fence r + 1"
  "j_lease_owner (upd d owner duration now r) = Some owner"
  "j_lease_expires_at (upd d owner duration now r) = Some (now + duration)"
  "j_latest_checkpoint_id (upd d owner duration now r) = j_latest_checkpoint_id r"
  "j_job_id (upd d owner duration now r) = j_job_id r"
  "j_cancellation_requested (upd d owner duration now r) = j_cancellation_requested r"
  using upd_columns [of d owner duration now r] by (auto simp: grant_lease_def)

lemma claim_keeps:
  "keeps d (snd (exec_claim what (claimable (sel d now) locked d) (upd d owner duration now) d))"
proof (cases "claimable (sel d now) locked d")
  case (Some r)
  then have r: "r \<in> set (jobs d)" "sel d now r"
    by (auto simp: claimable_def dest: first_row_Some)
  have "keeps d (update_job (j_job_id r) (upd d owner duration now) d)"
  proof (cases "job_inv d")
    case True
    then have "job_of d (j_job_id r) = Some r" using r(1) by (simp add: job_inv_def row_of_distinct)
    then show ?thesis by (rule keeps_update_of) (simp_all add: upd_row_step [OF r(2)] upd_lease)
  qed (simp add: keeps_def)
  then show ?thesis by (simp add: exec_claim_def Some)
qed (simp add: exec_claim_def)

text \<open>
  A successful claim: the row was selected, it is the oldest selected one that no other
  transaction holds, and it is handed out under the next fence.
\<close>

lemma claim_grants:
  assumes "exec_claim what (claimable (sel d now) locked d) (upd d owner duration now) d = (Inr rec, d')"
    and "job_inv d"
  obtains r where "job_of d (j_job_id r) = Some r" "sel d now r" "j_job_id r \<notin> locked"
    "rec = scanJob (upd d owner duration now r)"
    "job_of d' (j_job_id r) = Some (upd d owner duration now r)"
    "\<forall>r' \<in> set (jobs d). sel d now r' \<and> j_job_id r' \<notin> locked \<longrightarrow>
       (j_created_at r, j_job_id r) \<le> (j_created_at r', j_job_id r')"
proof -
  from assms(1) obtain r where r: "claimable (sel d now) locked d = Some r"
    "rec = scanJob (upd d owner duration now r)" "d' = update_job (j_job_id r) (upd d owner duration now) d"
    by (auto simp: exec_claim_def split: option.splits if_splits)
  have sel: "r \<in> set (jobs d)" "sel d now r" "j_job_id r \<notin> locked"
    using r(1) by (auto simp: claimable_def dest: first_row_Some)
  have old: "job_of d (j_job_id r) = Some r"
    using sel(1) assms(2) by (simp add: job_inv_def row_of_distinct)
  have new: "job_of d' (j_job_id r) = Some (upd d owner duration now r)"
    by (simp add: r(3) update_job_def table_simps upd_lease old)
  have "\<forall>r' \<in> set (jobs d). sel d now r' \<and> j_job_id r' \<notin> locked \<longrightarrow>
       (j_created_at r, j_job_id r) \<le> (j_created_at r', j_job_id r')"
    using r(1) first_row_least [of "\<lambda>r. (j_created_at r, j_job_id r)"]
    by (auto simp only: claimable_def)
  from that [OF old sel(2,3) r(2) new this] show thesis .
qed

lemma claim_not_before:
  assumes "exec_claim what (claimable (sel d now) locked d) (upd d owner duration now) d = (Inr rec, d')"
    and "job_inv d" "job_of d job = Some r" "j_state r = JOB_STATE_RETRY_WAIT" "\<not> ts_le (j_next_attempt_at r) now"
  shows "jr_job_id rec \<noteq> job"
proof -
  obtain x where x: "job_of d (j_job_id x) = Some x" "sel d now x" "rec = scanJob (upd d owner duration now x)"
    using claim_grants [OF assms(1,2)] by metis
  have "jr_job_id rec = j_job_id x" by (simp add: x(3) scanJob_def upd_lease)
  then show ?thesis using x(1) sel_retry [OF x(2)] assms(3-5) by auto
qed

lemma claim_unavailable:
  "fst (exec_claim what (claimable (sel d now) locked d) (upd d owner duration now) d) = Inl ErrLeaseUnavailable \<longleftrightarrow>
     (\<forall>r \<in> set (jobs d). sel d now r \<longrightarrow> j_job_id r \<in> locked)"
proof -
  have "claimable (sel d now) locked d = None \<longleftrightarrow> (\<forall>r \<in> set (jobs d). sel d now r \<longrightarrow> j_job_id r \<in> locked)"
    by (auto simp: claimable_def first_row_None_iff)
  then show ?thesis by (auto simp: exec_claim_def split: option.splits)
qed

end

lemmas claim_defs = ClaimJob_select_def ClaimJob_update_def parse_select_def retry_ready_def stage_update_def
  index_select_def handoff_select_def handoff_ready_def handoff_update_def

interpretation generic: lease_claim ClaimJob_select "\<lambda>d. ClaimJob_update"
proof unfold_locales
  fix d owner duration now r
  show "\<exists>state stage tries. ClaimJob_update owner duration now r =
      (grant_lease owner duration now r)\<lparr>j_state := state, j_stage := stage, j_stage_attempt := tries\<rparr>"
    by (rule exI [of _ "j_state (ClaimJob_update owner duration now r)"], rule exI [of _ "j_stage r"],
        rule exI [of _ "j_stage_attempt r + 1"]) (simp add: ClaimJob_update_def grant_lease_def)
qed (auto simp: claim_defs live_states_def grant_lease_def)

lemma stage_claim_contract:
  assumes sel: "\<And>d now r. sel d now r \<Longrightarrow> \<not> j_cancellation_requested r \<and>
      (j_state r = JOB_STATE_QUEUED \<or> retry_ready d stage now r)"
  shows "lease_claim sel (\<lambda>d. stage_update d stage)"
proof
  fix d owner duration now r
  show "\<exists>state stage' tries. stage_update d stage owner duration now r =
      (grant_lease owner duration now r)\<lparr>j_state := state, j_stage := stage', j_stage_attempt := tries\<rparr>"
    by (rule exI [of _ JOB_STATE_RUNNING], rule exI [of _ "j_stage r"],
        rule exI [of _ "j_stage_attempt (stage_update d stage owner duration now r)"])
      (simp add: stage_update_def grant_lease_def)
qed (auto dest!: sel simp: retry_ready_def live_states_def stage_update_def grant_lease_def)

interpretation parse: lease_claim parse_select "\<lambda>d. stage_update d JOB_STAGE_PARSE"
  by (rule stage_claim_contract) (auto simp: parse_select_def)

interpretation index: lease_claim index_select "\<lambda>d. stage_update d JOB_STAGE_INDEX"
  by (rule stage_claim_contract) (auto simp: index_select_def)

lemma handoff_claim_contract:
  assumes "adjacent_stages p t"
  shows "lease_claim (\<lambda>d. handoff_select d p t) (\<lambda>d. handoff_update d p t)"
proof
  fix d owner duration now r
  show "\<exists>state stage tries. handoff_update d p t owner duration now r =
      (grant_lease owner duration now r)\<lparr>j_state := state, j_stage := stage, j_stage_attempt := tries\<rparr>"
    by (rule exI [of _ JOB_STATE_RUNNING], rule exI [of _ t],
        rule exI [of _ "j_stage_attempt (handoff_update d p t owner duration now r)"])
      (simp add: handoff_update_def grant_lease_def)
qed (use stage_rank_adjacent [OF assms] in
    \<open>auto simp: handoff_select_def handoff_ready_def retry_ready_def live_states_def handoff_update_def grant_lease_def\<close>)

interpretation structure_handoff: lease_claim "\<lambda>d. handoff_select d JOB_STAGE_PARSE JOB_STAGE_STRUCTURE"
    "\<lambda>d. handoff_update d JOB_STAGE_PARSE JOB_STAGE_STRUCTURE"
  by (rule handoff_claim_contract) (simp add: adjacent_stages_def)

interpretation bind_handoff: lease_claim "\<lambda>d. handoff_select d JOB_STAGE_STRUCTURE JOB_STAGE_BIND"
    "\<lambda>d. handoff_update d JOB_STAGE_STRUCTURE JOB_STAGE_BIND"
  by (rule handoff_claim_contract) (simp add: adjacent_stages_def)

interpretation chunk_handoff: lease_claim "\<lambda>d. handoff_select d JOB_STAGE_BIND JOB_STAGE_CHUNK"
    "\<lambda>d. handoff_update d JOB_STAGE_BIND JOB_STAGE_CHUNK"
  by (rule handoff_claim_contract) (simp add: adjacent_stages_def)

interpretation extract_handoff: lease_claim "\<lambda>d. handoff_select d JOB_STAGE_CHUNK JOB_STAGE_EXTRACT"
    "\<lambda>d. handoff_update d JOB_STAGE_CHUNK JOB_STAGE_EXTRACT"
  by (rule handoff_claim_contract) (simp add: adjacent_stages_def)

interpretation resolve_handoff: lease_claim "\<lambda>d. handoff_select d JOB_STAGE_EXTRACT JOB_STAGE_RESOLVE"
    "\<lambda>d. handoff_update d JOB_STAGE_EXTRACT JOB_STAGE_RESOLVE"
  by (rule handoff_claim_contract) (simp add: adjacent_stages_def)

text \<open>The other statements.\<close>

lemma keeps_finalizeAbandonedCancellations: "keeps d (finalizeAbandonedCancellations stage locked now d)"
  unfolding finalizeAbandonedCancellations_def
  by (rule keeps_update_batch) (auto simp: abandoned_def row_step_defs)

lemma fail_exhausted_row_step: "exhausted d stage now r \<Longrightarrow> row_step r (fail_exhausted_row now r)"
  by (auto simp: exhausted_def fail_exhausted_row_def row_step_defs)

lemma keeps_finalizeExhausted: "keeps d (finalizeExhausted stage locked now d)"
  unfolding finalizeExhausted_def
  by (rule keeps_update_batch) (auto simp: fail_exhausted_row_step, simp add: fail_exhausted_row_def)

lemma keeps_finalizeExhaustedIndex: "keeps d (finalizeExhaustedIndex locked now d)"
  unfolding finalizeExhaustedIndex_def
  by (rule keeps_update_batch) (auto simp: fail_exhausted_row_step, simp add: fail_exhausted_row_def)

lemma keeps_RenewLease: "keeps d (snd (RenewLease job owner fence duration now d))"
proof -
  have "row_step r (r\<lparr>j_lease_expires_at := Some (now + duration), j_updated_at := now\<rparr>)"
    if "held_by owner fence now r" for r
    using that by (auto simp: held_by_def row_step_defs)
  then show ?thesis by (auto simp: RenewLease_def split: option.splits intro!: keeps_update_of)
qed

lemma AllowedJobTransition_states:
  "AllowedJobTransition s t \<Longrightarrow> s \<in> {JOB_STATE_RUNNING, JOB_STATE_STAGED, JOB_STATE_VALIDATING} \<and>
     t \<notin> {JOB_STATE_QUEUED, JOB_STATE_RUNNING, JOB_STATE_SUCCEEDED, JOB_STATE_UNSPECIFIED}"
  by (cases s) auto

lemma live_or_releases: "s \<in> live_states \<or> releases_lease s \<or> s = JOB_STATE_QUEUED \<or> s = JOB_STATE_UNSPECIFIED"
  by (cases s) (simp_all add: live_states_def releases_lease_def)

lemma completion_row_step:
  assumes "held_by owner fence now r" "j_state r = JOB_STATE_RUNNING" "AllowedJobTransition JOB_STATE_RUNNING desired"
  shows "row_step r (completion_update d desired retryDelay now r)"
  using assms live_or_releases [of desired]
  by (auto simp: row_step_defs completion_update_def Let_def releases_lease_def held_by_def)

lemma transition_row_step:
  assumes "held_by owner fence now r" "AllowedJobTransition (j_state r) target"
    "\<not> j_cancellation_requested r \<or> target = JOB_STATE_CANCELLED"
  shows "row_step r (transition_update target now r)"
  using assms AllowedJobTransition_states [OF assms(2)] live_or_releases [of target]
  by (auto simp: row_step_defs transition_update_def held_by_def releases_lease_def)

lemma keeps_CompleteWorkerAttempt:
  "keeps d (snd (CompleteWorkerAttempt job owner fence desired retryDelay now d))"
proof (cases "job_of d job")
  case (Some r)
  show ?thesis
  proof (cases "valid_completion job owner fence desired retryDelay \<and> held_by owner fence now r \<and>
      j_state r = JOB_STATE_RUNNING")
    case True
    then have "row_step r (completion_update d desired retryDelay now r)"
      by (auto simp: valid_completion_def intro: completion_row_step)
    with Some have "keeps d (update_job job (completion_update d desired retryDelay now) d)"
      by (rule keeps_update_of) (simp add: completion_update_def Let_def)
    with True Some show ?thesis by (simp add: CompleteWorkerAttempt_def)
  qed (auto simp: CompleteWorkerAttempt_def Some)
qed (simp add: CompleteWorkerAttempt_def)

lemma keeps_TransitionJob: "keeps d (snd (TransitionJob job owner fence expected target now d))"
proof -
  have "keeps d (update_job job (transition_update target now) d)"
    if "job_of d job = Some r" "held_by owner fence now r" "AllowedJobTransition (j_state r) target"
      "\<not> j_cancellation_requested r \<or> target = JOB_STATE_CANCELLED" for r
    using that(1) by (rule keeps_update_of)
      (auto simp: transition_update_def transition_row_step [OF that(2-4), unfolded transition_update_def])
  then show ?thesis by (auto simp: TransitionJob_def split: option.splits)
qed

lemma keeps_SubmitJob: "keeps d (snd (SubmitJob h c i now d))"
proof -
  have ensure: "jobs d' = jobs d \<and> job_checkpoints d' = job_checkpoints d"
    if "ensure_corpus corpus d = Inr d'" for corpus d'
    using that by (auto simp: ensure_corpus_def split: if_splits)
  have new: "keeps d (d'\<lparr>jobs := jobs d' @ [new_job_row i now]\<rparr>)"
    if d': "jobs d' = jobs d" "job_checkpoints d' = job_checkpoints d"
      and fresh: "job_by_key d' (CorpusID i) (IdempotencyKey i) = None" "job_of d' (JobID i) = None" for d'
  proof (rule keepsI)
    assume inv: "job_inv d"
    have "row_ok (new_job_row i now)" by (simp add: row_ok_def new_job_row_def live_states_def)
    with inv fresh d' have "job_inv (d'\<lparr>jobs := jobs d' @ [new_job_row i now]\<rparr>)"
      by (auto simp: job_inv_def job_by_key_def row_of_None_iff new_job_row_def list_all_iff
          split: option.splits)
    moreover have "jobs_evolve d (d'\<lparr>jobs := jobs d' @ [new_job_row i now]\<rparr>)"
      by (auto simp: jobs_evolve_def d' table_simps)
    ultimately show "job_inv (d'\<lparr>jobs := jobs d' @ [new_job_row i now]\<rparr>) \<and>
        jobs_evolve d (d'\<lparr>jobs := jobs d' @ [new_job_row i now]\<rparr>)" ..
  qed
  show ?thesis
    by (auto simp: SubmitJob_def split: sum.splits option.splits dest!: ensure intro: new keeps_same)
qed

lemma insert_checkpoint_Inr:
  assumes "insert_checkpoint c d = Inr (written, d')"
  shows "d' = d \<and> \<not> written \<and> checkpoint_of d (cp_checkpoint_id c) \<noteq> None \<or>
    d' = d\<lparr>job_checkpoints := job_checkpoints d @ [c]\<rparr> \<and> written \<and> checkpoint_of d (cp_checkpoint_id c) = None"
  using assms by (auto simp: insert_checkpoint_def split: if_splits)

lemma keeps_insert_checkpoint:
  assumes "insert_checkpoint c d = Inr (written, d')"
  shows "keeps d d'"
proof (rule keepsI)
  assume inv: "job_inv d"
  have mono: "checkpoint_of d' i = Some x" if "checkpoint_of d i = Some x" for i x
    using insert_checkpoint_Inr [OF assms] that by (auto simp: table_simps)
  have jobs: "jobs d' = jobs d" using insert_checkpoint_Inr [OF assms] by auto
  have "distinct (map cp_checkpoint_id (job_checkpoints d'))"
    using insert_checkpoint_Inr [OF assms] inv by (auto simp: job_inv_def row_of_None_iff) metis
  moreover have "list_all (\<lambda>r. case j_latest_checkpoint_id r of None \<Rightarrow> True
      | Some i \<Rightarrow> checkpoint_of d' i \<noteq> None) (jobs d')"
    using inv mono by (fastforce simp: job_inv_def jobs list_all_iff split: option.splits)
  ultimately have "job_inv d'" using inv by (simp add: job_inv_def jobs)
  with mono show "job_inv d' \<and> jobs_evolve d d'" by (auto simp: jobs_evolve_def jobs)
qed

text \<open>What a saved checkpoint has passed, and the state it leaves.\<close>

lemma saveCheckpointTx_Inr:
  assumes "saveCheckpointTx h c checkpoint owner None now d = Inr d'"
  obtains ck meta r written d1 where "checkpoint = Some ck" "ck_meta ck = Some meta"
    "job_of d (ck_job_id ck) = Some r" "held_by owner (ck_fence ck) now r" "j_state r = JOB_STATE_RUNNING"
    "j_corpus_id r = m_corpus_id meta" "JobStagePrecedesOrEquals (j_stage r) (ck_stage ck)"
    "insert_checkpoint (checkpoint_row_of h c ck meta) d = Inr (written, d1)"
    "map_option cp_payload_hash (checkpoint_of d1 (m_record_id meta)) = Some (sha256hex h (c_marshal c ck))"
    "d' = advance_checkpoint ck (m_record_id meta) now d1" "ck_fence ck \<noteq> 0"
    "ck_terminal_status ck \<in> {COMPLETION_STATUS_UNSPECIFIED,
       COMPLETION_STATUS_SUCCEEDED, COMPLETION_STATUS_FAILED, COMPLETION_STATUS_CANCELLED}"
proof -
  note * = assms [unfolded saveCheckpointTx_def]
  from * obtain ck where ck: "checkpoint = Some ck" by (auto split: option.splits)
  from * ck obtain meta where meta: "ck_meta ck = Some meta" by (auto split: option.splits)
  from * ck meta obtain r where r: "job_of d (ck_job_id ck) = Some r"
    by (auto split: option.splits if_splits)
  from * ck meta r obtain written d1 where ins: "insert_checkpoint (checkpoint_row_of h c ck meta) d = Inr (written, d1)"
    by (auto split: if_splits sum.splits)
  have hash: "map_option cp_payload_hash (checkpoint_of d1 (m_record_id meta)) = Some (sha256hex h (c_marshal c ck))"
    if "written" using insert_checkpoint_Inr [OF ins] that
    by (auto simp: table_simps checkpoint_row_of_def)
  show thesis
    by (rule that [OF ck meta r _ _ _ _ ins])
      (use * ck meta r ins hash in \<open>auto split: if_splits\<close>)
qed

lemma keeps_SaveCheckpoint: "keeps d (snd (SaveCheckpoint h c ck owner now d))"
proof (cases "saveCheckpointTx h c ck owner None now d")
  case (Inr d')
  then show ?thesis
  proof (rule saveCheckpointTx_Inr)
    fix k meta r written d1
    assume ck: "job_of d (ck_job_id k) = Some r" "held_by owner (ck_fence k) now r"
      "j_state r = JOB_STATE_RUNNING" "JobStagePrecedesOrEquals (j_stage r) (ck_stage k)"
      and ins: "insert_checkpoint (checkpoint_row_of h c k meta) d = Inr (written, d1)"
      and d': "d' = advance_checkpoint k (m_record_id meta) now d1"
      and hash: "map_option cp_payload_hash (checkpoint_of d1 (m_record_id meta)) = Some (sha256hex h (c_marshal c k))"
    have jobs: "jobs d1 = jobs d" using insert_checkpoint_Inr [OF ins] by auto
    have "keeps d1 d'"
    proof (cases "job_inv d1")
      case True
      have only: "x = r" if "x \<in> set (jobs d1)" "j_job_id x = ck_job_id k" for x
        using job_of_unique [OF True] that row_of_Some [OF ck(1)] jobs by metis
      have step: "row_step r (r\<lparr>j_stage := ck_stage k, j_latest_checkpoint_id := Some (m_record_id meta), j_updated_at := now\<rparr>)"
        using ck stage_rank_precedes [OF ck(4)] by (auto simp: row_step_defs)
      show ?thesis unfolding d' advance_checkpoint_def update_job_def
        by (rule keeps_map [where g = "\<lambda>r. if j_job_id r = ck_job_id k then if j_lease_fence r = ck_fence k
              then r\<lparr>j_stage := ck_stage k, j_latest_checkpoint_id := Some (m_record_id meta), j_updated_at := now\<rparr>
              else r else r"])
          (use only step hash in \<open>auto simp: update_row_def split: if_splits\<close>)
    qed (simp add: keeps_def)
    with keeps_insert_checkpoint [OF ins] show ?thesis
      by (auto simp: SaveCheckpoint_def saveCheckpoint_def Inr intro: keeps_trans)
  qed
qed (simp add: SaveCheckpoint_def saveCheckpoint_def)

section \<open>The job store as a state machine\<close>

text \<open>
  Every statement of the store, with any arguments, lock sets and clock readings; the request for
  cancellation, which a client writes; and any change of the other tables.
\<close>

inductive job_step :: "host \<Rightarrow> ingestion_request codec \<Rightarrow> checkpoint codec \<Rightarrow> db \<Rightarrow> db \<Rightarrow> bool"
  for h :: host and ci :: "ingestion_request codec" and cc :: "checkpoint codec" where
  submit: "job_step h ci cc d (snd (SubmitJob h ci i now d))"
| claim: "job_step h ci cc d (snd (ClaimJob owner duration locked now d))"
| abandon: "job_step h ci cc d (finalizeAbandonedCancellations stage locked now d)"
| exhaust: "job_step h ci cc d (finalizeExhausted stage locked now d)"
| exhaust_index: "job_step h ci cc d (finalizeExhaustedIndex locked now d)"
| handoff: "adjacent_stages p t \<Longrightarrow> job_step h ci cc d (snd (handoff_claim owner duration p t locked now d))"
| parse: "job_step h ci cc d (snd (parse_claim owner duration locked now d))"
| index: "job_step h ci cc d (snd (index_claim owner duration locked now d))"
| renew: "job_step h ci cc d (snd (RenewLease job owner fence duration now d))"
| complete: "job_step h ci cc d (snd (CompleteWorkerAttempt job owner fence desired retryDelay now d))"
| save: "job_step h ci cc d (snd (SaveCheckpoint h cc ck owner now d))"
| transition: "job_step h ci cc d (snd (TransitionJob job owner fence expected target now d))"
| cancel: "job_step h ci cc d (update_job job (\<lambda>r. r\<lparr>j_cancellation_requested := True\<rparr>) d)"
| other: "jobs d' = jobs d \<Longrightarrow> job_checkpoints d' = job_checkpoints d \<Longrightarrow> job_step h ci cc d d'"

inductive_cases job_stepE: "job_step h ci cc d d'"

lemma job_step_keeps: "job_step h ci cc d d' \<Longrightarrow> keeps d d'"
proof (induction rule: job_step.induct)
  case (claim d owner duration locked now)
  then show ?case using generic.claim_keeps by (simp add: ClaimJob_def)
next
  case (handoff p t d owner duration locked now)
  then show ?case unfolding handoff_claim_def by (rule lease_claim.claim_keeps [OF handoff_claim_contract])
next
  case (parse d owner duration locked now)
  then show ?case unfolding parse_claim_def by (rule parse.claim_keeps)
next
  case (index d owner duration locked now)
  then show ?case unfolding index_claim_def by (rule index.claim_keeps)
next
  case (cancel d job)
  then show ?case by (rule keeps_update_job) (auto simp: row_step_defs)
qed (simp_all add: keeps_SubmitJob keeps_finalizeAbandonedCancellations keeps_finalizeExhausted
    keeps_finalizeExhaustedIndex keeps_RenewLease keeps_CompleteWorkerAttempt keeps_SaveCheckpoint
    keeps_TransitionJob keeps_same)

interpretation job_store: evolving_system job_inv "job_step h ci cc" jobs_evolve
  for h ci cc
  by unfold_locales (auto dest: job_step_keeps simp: keeps_def intro: jobs_evolve_trans)

lemma job_inv_empty: "job_inv empty_db"
  by (simp add: job_inv_def empty_db_def)

text \<open>The composed claims are runs of their statements.\<close>

lemma three_steps: "r a b \<Longrightarrow> r b c \<Longrightarrow> r c e \<Longrightarrow> r\<^sup>*\<^sup>* a e"
  by (meson converse_rtranclp_into_rtranclp r_into_rtranclp)

lemma claimHandoffJob_run:
  "(job_step h ci cc)\<^sup>*\<^sup>* d (snd (claimHandoffJob owner duration p t e1 e2 e3 d))"
  by (auto simp: claimHandoffJob_def
      intro: three_steps [where r = "job_step h ci cc", OF job_step.abandon job_step.exhaust job_step.handoff])

lemma ClaimParseJob_run: "(job_step h ci cc)\<^sup>*\<^sup>* d (snd (ClaimParseJob owner duration e1 e2 e3 d))"
  by (auto simp: ClaimParseJob_def
      intro: three_steps [where r = "job_step h ci cc", OF job_step.abandon job_step.exhaust job_step.parse])

lemma ClaimIndexJob_run: "(job_step h ci cc)\<^sup>*\<^sup>* d (snd (ClaimIndexJob owner duration e1 e2 e3 d))"
  by (auto simp: ClaimIndexJob_def
      intro: three_steps [where r = "job_step h ci cc", OF job_step.abandon job_step.exhaust_index job_step.index])

section \<open>Fencing\<close>

text \<open>A caller whose fence is not the current one of the row gets an error and changes nothing.\<close>

lemma stale_fence_refused:
  assumes "job_of d job = Some r" "fence \<noteq> j_lease_fence r"
  shows "\<exists>e. RenewLease job owner fence duration now d = (Inl e, d)"
    and "\<exists>e. CompleteWorkerAttempt job owner fence desired retryDelay now d = (Inl e, d)"
    and "\<exists>e. TransitionJob job owner fence expected target now d = (Inl e, d)"
    and "\<exists>e. CancellationRequested job owner fence now d = Inl e"
    and "ck_job_id ck = job \<Longrightarrow> ck_fence ck = fence \<Longrightarrow>
      \<exists>e. SaveCheckpoint h c (Some ck) owner now d = (Inl e, d)"
  using assms
  by (auto simp: RenewLease_def CompleteWorkerAttempt_def TransitionJob_def CancellationRequested_def
      SaveCheckpoint_def saveCheckpoint_def saveCheckpointTx_def held_by_def split: option.splits)

lemma fence_monotone:
  assumes "(job_step h ci cc)\<^sup>*\<^sup>* d d'" "job_inv d" "job_of d job = Some r"
  obtains r' where "job_of d' job = Some r'" "job_evolves r r'"
  using job_store.evolves_run [OF assms(1,2)] assms(3) by (auto simp: jobs_evolve_def) (metis that)


section \<open>Claims\<close>

text \<open>The finalizers end jobs; a row that is not in a terminal state afterwards was not touched.\<close>

lemma job_of_update_jobs:
  assumes "\<And>r. j_job_id (f r) = j_job_id r"
  shows "job_of (update_jobs is f d) i = (if i \<in> set is then map_option f (job_of d i) else job_of d i)"
  using assms by (simp add: update_jobs_def table_simps)

lemma finalizers_only_end:
  assumes "job_of (finalizeExhausted stage l2 t2 (finalizeAbandonedCancellations stage l1 t1 d)) i = Some r"
    and "j_state r \<notin> terminal_states"
  shows "job_of d i = Some r"
proof -
  have end2: "j_state (fail_exhausted_row t r) \<in> terminal_states" for t r
    by (simp add: fail_exhausted_row_def terminal_states_def)
  have id2: "j_job_id (fail_exhausted_row t r) = j_job_id r" for t r by (simp add: fail_exhausted_row_def)
  have "job_of (finalizeAbandonedCancellations stage l1 t1 d) i = Some r"
    using assms end2 unfolding finalizeExhausted_def
    by (auto simp: job_of_update_jobs [OF id2] split: if_splits)
  then show ?thesis using assms(2)
    by (auto simp: finalizeAbandonedCancellations_def job_of_update_jobs terminal_states_def split: if_splits)
qed

lemma finalizers_checkpoints:
  "terminal_checkpoint (finalizeExhausted stage l2 t2 (finalizeAbandonedCancellations stage l1 t1 d)) =
   terminal_checkpoint d"
  by (intro ext) (simp add: terminal_checkpoint_def finalizeExhausted_def finalizeAbandonedCancellations_def
      update_jobs_def cong: option.case_cong)

lemma finalizers_inv:
  "job_inv d \<Longrightarrow> job_inv (finalizeExhausted stage l2 t2 (finalizeAbandonedCancellations stage l1 t1 d))"
  using keeps_trans [OF keeps_finalizeAbandonedCancellations keeps_finalizeExhausted] by (auto simp: keeps_def)

lemma retry_ready_states:
  "retry_ready d stage now r \<Longrightarrow> j_state r = JOB_STATE_RETRY_WAIT \<or> j_state r = JOB_STATE_RUNNING \<and> lease_expired now r"
  by (auto simp: retry_ready_def)

lemma stage_update_budget:
  assumes "row_ok r" "j_state r = JOB_STATE_QUEUED \<or> retry_ready d stage now r"
  shows "j_stage_attempt (stage_update d stage owner duration now r) \<le> j_max_attempts r \<or>
    terminal_checkpoint d r stage \<and> j_stage_attempt (stage_update d stage owner duration now r) = j_stage_attempt r"
  using assms by (auto simp: stage_update_def row_ok_def retry_ready_def)

lemma scanJob_id: "jr_job_id (scanJob r) = j_job_id r"
  by (simp add: scanJob_def)

lemma stage_update_state:
  "j_state (stage_update d stage owner duration now r) = JOB_STATE_RUNNING"
  by (simp add: stage_update_def)

text \<open>
  A successful PARSE claim hands out one job: it was an uncancelled PARSE job that was
  queued, waiting for a retry, or running under an expired lease (never one that is running under
  a live lease); the caller becomes its only lease holder under the next fence; and the attempt
  is within the budget of the job unless the stage has already finished and only its result is
  to be recovered.
\<close>

theorem ClaimParseJob_grants:
  assumes "job_inv d" and "ClaimParseJob owner duration e1 e2 e3 d = (Inr rec, d')"
  shows "\<exists>r r'. job_of d (jr_job_id rec) = Some r \<and> job_of d' (jr_job_id rec) = Some r' \<and> rec = scanJob r' \<and>
    \<not> j_cancellation_requested r \<and> j_stage r = JOB_STAGE_PARSE \<and>
    (j_state r = JOB_STATE_QUEUED \<or> j_state r = JOB_STATE_RETRY_WAIT \<or>
     j_state r = JOB_STATE_RUNNING \<and> lease_expired (snd e3) r) \<and>
    j_state r' = JOB_STATE_RUNNING \<and> j_lease_fence r' = j_lease_fence r + 1 \<and>
    held_by owner (j_lease_fence r') (snd e3) r' \<and>
    (j_stage_attempt r' \<le> j_max_attempts r \<or>
     terminal_checkpoint d r JOB_STAGE_PARSE \<and> j_stage_attempt r' = j_stage_attempt r)"
proof -
  define e where "e = finalizeExhausted JOB_STAGE_PARSE (fst e2) (snd e2)
    (finalizeAbandonedCancellations JOB_STAGE_PARSE (fst e1) (snd e1) d)"
  have ok: "valid_claim owner duration" and claim: "parse_claim owner duration (fst e3) (snd e3) e = (Inr rec, d')"
    using assms(2) by (auto simp: ClaimParseJob_def e_def claim_refused_def split: if_splits)
  have inv: "job_inv e" using finalizers_inv [OF assms(1)] by (simp add: e_def)
  obtain r where r: "job_of e (j_job_id r) = Some r" "parse_select e (snd e3) r"
    "rec = scanJob (stage_update e JOB_STAGE_PARSE owner duration (snd e3) r)"
    "job_of d' (j_job_id r) = Some (stage_update e JOB_STAGE_PARSE owner duration (snd e3) r)"
    using parse.claim_grants [OF claim [unfolded parse_claim_def] inv] by metis
  have sel: "\<not> j_cancellation_requested r" "j_stage r = JOB_STAGE_PARSE"
    "j_state r = JOB_STATE_QUEUED \<or> retry_ready e JOB_STAGE_PARSE (snd e3) r"
    using r(2) by (auto simp: parse_select_def)
  have state: "j_state r = JOB_STATE_QUEUED \<or> j_state r = JOB_STATE_RETRY_WAIT \<or>
     j_state r = JOB_STATE_RUNNING \<and> lease_expired (snd e3) r" using sel(3) retry_ready_states by blast
  then have old: "job_of d (j_job_id r) = Some r"
    using finalizers_only_end [OF r(1) [unfolded e_def]] by (auto simp: terminal_states_def)
  have "row_ok r" using old assms(1) by (auto simp: job_inv_def list_all_iff dest: row_of_mem)
  note budget = stage_update_budget [OF this sel(3), of owner duration]
  have eq: "terminal_checkpoint e = terminal_checkpoint d" by (simp add: e_def finalizers_checkpoints)
  have id: "jr_job_id rec = j_job_id r" by (simp add: r(3) scanJob_def parse.upd_lease)
  have held: "held_by owner (j_lease_fence r + 1) (snd e3) (stage_update e JOB_STAGE_PARSE owner duration (snd e3) r)"
    using ok by (simp add: held_by_def parse.upd_lease lease_current_def valid_claim_def)
  show ?thesis
    unfolding id using old r(3,4) sel(1,2) state budget held eq
    by (intro exI [of _ r] exI [of _ "stage_update e JOB_STAGE_PARSE owner duration (snd e3) r"])
      (simp add: parse.upd_lease stage_update_state)
qed


lemma handoff_update_budget:
  assumes "row_ok r" "handoff_select d p t now r" "p \<noteq> t"
  shows "j_stage_attempt (handoff_update d p t owner duration now r) \<le> j_max_attempts r \<or>
    terminal_checkpoint d r t \<and>
    j_stage_attempt (handoff_update d p t owner duration now r) = j_stage_attempt r"
  using assms by (auto simp: handoff_update_def row_ok_def handoff_select_def handoff_ready_def retry_ready_def)

lemma handoff_update_state:
  "j_state (handoff_update d p t owner duration now r) = JOB_STATE_RUNNING"
  "j_stage (handoff_update d p t owner duration now r) = t"
  "j_stage r = p \<Longrightarrow> j_state r = JOB_STATE_STAGED \<Longrightarrow>
     j_stage_attempt (handoff_update d p t owner duration now r) = 1"
  by (simp_all add: handoff_update_def)

lemma adjacent_distinct: "adjacent_stages p t \<Longrightarrow> p \<noteq> t"
  by (auto simp: adjacent_stages_def split: option.splits)

text \<open>
  A successful handoff claim between two adjacent stages takes a job that its previous
  stage has staged, and moves it to the next stage with a fresh attempt counter, or retries one
  that is already in the target stage, within its attempt budget. In both cases the job was not
  cancelled, is now running for the caller, and has the next fence, so the previous holder is
  fenced off even while its lease has not expired. The RESOLVE handoff also has a successful
  checkpoint of EXTRACT.
\<close>

theorem claimHandoffJob_grants:
  assumes "job_inv d" and "claimHandoffJob owner duration p t e1 e2 e3 d = (Inr rec, d')"
  shows "\<exists>r r'. job_of d (jr_job_id rec) = Some r \<and> job_of d' (jr_job_id rec) = Some r' \<and> rec = scanJob r' \<and>
    \<not> j_cancellation_requested r \<and> j_state r' = JOB_STATE_RUNNING \<and> j_stage r' = t \<and>
    (j_stage r = p \<and> j_state r = JOB_STATE_STAGED \<and> j_stage_attempt r' = 1 \<and>
       (t = JOB_STAGE_RESOLVE \<longrightarrow> succeeded_checkpoint d r p) \<or>
     j_stage r = t \<and> (j_state r = JOB_STATE_RETRY_WAIT \<or>
       j_state r = JOB_STATE_RUNNING \<and> lease_expired (snd e3) r)) \<and>
    j_lease_fence r' = j_lease_fence r + 1 \<and> held_by owner (j_lease_fence r') (snd e3) r' \<and>
    (j_stage_attempt r' \<le> j_max_attempts r \<or>
     terminal_checkpoint d r t \<and> j_stage_attempt r' = j_stage_attempt r)"
proof -
  define e where "e = finalizeExhausted t (fst e2) (snd e2) (finalizeAbandonedCancellations t (fst e1) (snd e1) d)"
  have ok: "valid_claim owner duration" "adjacent_stages p t"
    and claim: "handoff_claim owner duration p t (fst e3) (snd e3) e = (Inr rec, d')"
    using assms(2) by (auto simp: claimHandoffJob_def e_def claim_refused_def split: if_splits)
  note contract = handoff_claim_contract [OF ok(2)]
  have inv: "job_inv e" using finalizers_inv [OF assms(1)] by (simp add: e_def)
  obtain r where r: "job_of e (j_job_id r) = Some r" "handoff_select e p t (snd e3) r"
    "rec = scanJob (handoff_update e p t owner duration (snd e3) r)"
    "job_of d' (j_job_id r) = Some (handoff_update e p t owner duration (snd e3) r)"
    using lease_claim.claim_grants [OF contract claim [unfolded handoff_claim_def] inv] by metis
  have cps: "job_checkpoints e = job_checkpoints d"
    by (simp add: e_def finalizeExhausted_def finalizeAbandonedCancellations_def update_jobs_def)
  have eq: "terminal_checkpoint e = terminal_checkpoint d" "succeeded_checkpoint e = succeeded_checkpoint d"
    by (auto intro!: ext simp: terminal_checkpoint_def succeeded_checkpoint_def cps cong: option.case_cong)
  have origin: "j_stage r = p \<and> j_state r = JOB_STATE_STAGED \<and> (t = JOB_STAGE_RESOLVE \<longrightarrow> succeeded_checkpoint d r p) \<or>
      j_stage r = t \<and> (j_state r = JOB_STATE_RETRY_WAIT \<or> j_state r = JOB_STATE_RUNNING \<and> lease_expired (snd e3) r)"
    using r(2) retry_ready_states by (auto simp: handoff_select_def handoff_ready_def eq)
  then have old: "job_of d (j_job_id r) = Some r"
    using finalizers_only_end [OF r(1) [unfolded e_def]] by (auto simp: terminal_states_def)
  have "row_ok r" using old assms(1) by (auto simp: job_inv_def list_all_iff dest: row_of_mem)
  note budget = handoff_update_budget [OF this r(2) adjacent_distinct [OF ok(2)], of owner duration, unfolded eq]
  note lease = lease_claim.upd_lease [OF contract]
  have id: "jr_job_id rec = j_job_id r" by (simp add: r(3) scanJob_def lease)
  have held: "held_by owner (j_lease_fence r + 1) (snd e3) (handoff_update e p t owner duration (snd e3) r)"
    using ok by (simp add: held_by_def lease lease_current_def valid_claim_def)
  have "\<not> j_cancellation_requested r" using r(2) by (simp add: handoff_select_def)
  then show ?thesis
    unfolding id using old r(3,4) origin budget held adjacent_distinct [OF ok(2)]
    by (intro exI [of _ r] exI [of _ "handoff_update e p t owner duration (snd e3) r"])
      (auto simp: lease handoff_update_state)
qed

lemma claimHandoffJob_granted:
  assumes "job_inv d" and "claimHandoffJob owner duration p t e1 e2 e3 d = (Inr rec, d')"
  obtains r' where "job_of d' (jr_job_id rec) = Some r'" "rec = scanJob r'"
proof -
  define e where "e = finalizeExhausted t (fst e2) (snd e2) (finalizeAbandonedCancellations t (fst e1) (snd e1) d)"
  have ok: "adjacent_stages p t" and claim: "handoff_claim owner duration p t (fst e3) (snd e3) e = (Inr rec, d')"
    using assms(2) by (auto simp: claimHandoffJob_def e_def claim_refused_def split: if_splits)
  note contract = handoff_claim_contract [OF ok]
  have "job_inv e" using finalizers_inv [OF assms(1)] by (simp add: e_def)
  then show thesis
    using lease_claim.claim_grants [OF contract claim [unfolded handoff_claim_def]] that
    by (metis scanJob_id lease_claim.upd_lease(5) [OF contract])
qed

text \<open>
  Claim C25. Every state the store reaches from the empty one satisfies the invariant of its
  tables: job identifiers and idempotency keys are unique, a running job has an owner, an expiry
  and a positive fence, a job that is not running, staged, validating or publishing has no lease,
  a queued job has not been attempted, and the latest checkpoint of a job exists.
\<close>

theorem reachable_job_inv:
  assumes "(job_step h ci cc)\<^sup>*\<^sup>* empty_db d"
  shows "job_inv d"
  using assms job_inv_empty by (rule job_store.inv_run)

text \<open>
  Claim C8. Over any run of the store a job is never lost or rewritten: its request stays what was
  submitted, its fence never decreases, its pipeline stage never regresses, a requested
  cancellation stays requested and from then on the state can only become CANCELLED, SUCCEEDED,
  FAILED and CANCELLED are final, a job never returns to the queue, and stored checkpoints are
  immutable.
\<close>

theorem jobs_evolve_run:
  assumes "(job_step h ci cc)\<^sup>*\<^sup>* d d'" and "job_inv d"
  shows "jobs_evolve d d'"
  using assms by (rule job_store.evolves_run)

text \<open>
  Claim C2. Fencing: once a handoff claim has returned a job under some fence, then whatever the
  store does afterwards, a worker that holds an older fence of that job is refused: renewal,
  completion, transition, checkpoint and the cancellation query fail and leave the tables as
  they are.
\<close>

theorem older_fence_refused:
  assumes "job_inv d" and "claimHandoffJob owner duration p t e1 e2 e3 d = (Inr rec, d1)"
    and "(job_step h ci cc)\<^sup>*\<^sup>* d1 d2" and "old < jr_lease_fence rec" and "job = jr_job_id rec"
    and "ck_job_id ck = job" and "ck_fence ck = old"
  shows "(\<exists>e. RenewLease job w old dur now d2 = (Inl e, d2)) \<and>
    (\<exists>e. CompleteWorkerAttempt job w old desired delay now d2 = (Inl e, d2)) \<and>
    (\<exists>e. TransitionJob job w old expected target now d2 = (Inl e, d2)) \<and>
    (\<exists>e. SaveCheckpoint h cc (Some ck) w now d2 = (Inl e, d2)) \<and>
    (\<exists>e. CancellationRequested job w old now d2 = Inl e)"
proof -
  obtain r1 where r1: "job_of d1 job = Some r1" "rec = scanJob r1"
    using claimHandoffJob_granted [OF assms(1,2)] assms(5) by metis
  have "(job_step h ci cc)\<^sup>*\<^sup>* d d1"
    using claimHandoffJob_run [of h ci cc d owner duration p t e1 e2 e3] assms(2) by simp
  then have "job_inv d1" using assms(1) by (rule job_store.inv_run)
  then obtain r2 where r2: "job_of d2 job = Some r2" "job_evolves r1 r2"
    using fence_monotone [OF assms(3)] r1(1) by metis
  have "old \<noteq> j_lease_fence r2" using assms(4) r1(2) r2(2) by (auto simp: scanJob_def job_evolves_def)
  from stale_fence_refused [OF r2(1) this] assms(6,7) show ?thesis by blast
qed

section \<open>Submission\<close>

lemma row_of_row_unique:
  assumes "distinct (map key rows)" "r \<in> set rows" "key r = k"
  shows "row_of key k rows = Some r"
  using row_of_distinct [OF assms(1,2)] assms(3) by simp

lemma SubmitJob_Inr:
  assumes "SubmitJob h ci i now d = (Inr (rec, reused), d1)"
  obtains r where "validate_intent h ci i = Inr ()" "r \<in> set (jobs d1)" "rec = scanJob r"
    "j_corpus_id r = CorpusID i" "j_idempotency_key r = IdempotencyKey i" "j_request_hash r = RequestHash i"
    "\<not> reused \<Longrightarrow> r = new_job_row i now"
proof -
  from assms obtain d' where d': "validate_intent h ci i = Inr ()" "ensure_corpus (CorpusID i) d = Inr d'"
    by (auto simp: SubmitJob_def split: sum.splits)
  show thesis
  proof (cases "job_by_key d' (CorpusID i) (IdempotencyKey i)")
    case None
    with assms d' show ?thesis
      by (intro that [of "new_job_row i now"]) (auto simp: SubmitJob_def new_job_row_def split: if_splits)
  next
    case (Some r)
    then have "r \<in> set (jobs d')" "(j_corpus_id r, j_idempotency_key r) = (CorpusID i, IdempotencyKey i)"
      by (auto simp: job_by_key_def dest: row_of_Some)
    with assms d' Some show ?thesis
      by (intro that [of r]) (auto simp: SubmitJob_def split: if_splits)
  qed
qed

lemma submitted_row_later:
  assumes "job_inv d" and "SubmitJob h ci i now d = (Inr (rec, reused), d1)" and "(job_step h ci cc)\<^sup>*\<^sup>* d1 d2"
  obtains r r2 where "rec = scanJob r" "job_of d2 (jr_job_id rec) = Some r2" "job_identity r2 = job_identity r"
    "job_by_key d2 (CorpusID i) (IdempotencyKey i) = Some r2" "j_request_hash r = RequestHash i"
    "validate_intent h ci i = Inr ()" "\<not> reused \<Longrightarrow> r = new_job_row i now"
proof -
  obtain r where r: "validate_intent h ci i = Inr ()" "r \<in> set (jobs d1)" "rec = scanJob r"
    "j_corpus_id r = CorpusID i" "j_idempotency_key r = IdempotencyKey i" "j_request_hash r = RequestHash i"
    "\<not> reused \<Longrightarrow> r = new_job_row i now"
    using SubmitJob_Inr [OF assms(2)] by metis
  have "job_step h ci cc d d1" using job_step.submit [of h ci cc d i now] assms(2) by simp
  then have inv: "job_inv d1" "job_inv d2"
    using assms(1,3) by (blast intro: job_store.inv_step job_store.inv_run)+
  have "job_of d1 (jr_job_id rec) = Some r"
    using r(2,3) inv(1) by (simp add: scanJob_id job_inv_def row_of_distinct)
  then obtain r2 where r2: "job_of d2 (jr_job_id rec) = Some r2" "job_evolves r r2"
    using fence_monotone [OF assms(3) inv(1)] by metis
  then have ident: "job_identity r2 = job_identity r" by (simp add: job_evolves_def)
  have "job_by_key d2 (CorpusID i) (IdempotencyKey i) = Some r2"
    unfolding job_by_key_def using inv(2) row_of_mem [OF r2(1)] job_identity_simps [OF ident] r(4,5)
    by (intro row_of_row_unique) (auto simp: job_inv_def)
  from that [OF r(3) r2(1) ident this r(6,1,7)] show thesis .
qed

text \<open>
  Claim C36. An idempotency key names one request of a corpus: once a request has been submitted,
  then after any run of the store a valid request with the same key returns the same job and adds
  nothing when its bytes are the same, and fails with a conflict, changing nothing, when they
  differ.
\<close>

theorem SubmitJob_idempotent:
  assumes "job_inv d" and "SubmitJob h ci i now d = (Inr (rec, reused), d1)"
    and "(job_step h ci cc)\<^sup>*\<^sup>* d1 d2" and "corpus_of d2 (CorpusID i) \<noteq> None"
    and "validate_intent h ci i' = Inr ()" "CorpusID i' = CorpusID i" "IdempotencyKey i' = IdempotencyKey i"
  shows "(RequestHash i' = RequestHash i \<longrightarrow>
       (\<exists>rec2. SubmitJob h ci i' now2 d2 = (Inr (rec2, True), d2) \<and> jr_job_id rec2 = jr_job_id rec)) \<and>
    (RequestHash i' \<noteq> RequestHash i \<longrightarrow>
       (\<exists>e. SubmitJob h ci i' now2 d2 = (Inl e, d2) \<and> errors_is e ErrConflict))"
proof -
  obtain r r2 where r: "rec = scanJob r" "job_of d2 (jr_job_id rec) = Some r2" "job_identity r2 = job_identity r"
    "job_by_key d2 (CorpusID i) (IdempotencyKey i) = Some r2" "j_request_hash r = RequestHash i"
    using submitted_row_later [OF assms(1-3)] by metis
  have "jr_job_id (scanJob r2) = jr_job_id rec" "j_request_hash r2 = RequestHash i"
    using r(1,3,5) by (simp_all add: scanJob_id job_identity_def)
  then show ?thesis using assms(4-7) r(4) by (simp add: SubmitJob_def ensure_corpus_def)
qed

text \<open>
  The request that a job was created with can be loaded in every later state: it decodes,
  is valid, belongs to the corpus, operation and key of the intent, and its fingerprint is the
  hash of the request without the key.
\<close>

theorem submitted_request_loads:
  assumes "job_inv d" and "SubmitJob h ci i now d = (Inr (rec, False), d1)" and "(job_step h ci cc)\<^sup>*\<^sup>* d1 d2"
  shows "\<exists>request. LoadIngestionRequest h ci (JobID i) d2 = Inr request \<and>
    c_unmarshal ci (RequestPayload i) = Some request \<and> ir_corpus_id request = CorpusID i \<and>
    ir_operation request = Operation i \<and> ir_idempotency_key request = IdempotencyKey i \<and>
    sha256hex h (c_marshal ci (request\<lparr>ir_idempotency_key := []\<rparr>)) = InputFingerprint i"
proof -
  obtain r r2 where r: "rec = scanJob r" "job_of d2 (jr_job_id rec) = Some r2" "job_identity r2 = job_identity r"
    "validate_intent h ci i = Inr ()" "r = new_job_row i now"
    using submitted_row_later [OF assms] by metis
  have r2: "job_of d2 (JobID i) = Some r2" "j_request_payload r2 = RequestPayload i" "j_request_hash r2 = RequestHash i"
    using r(1,2,3,5) by (simp_all add: scanJob_id job_identity_def new_job_row_def)
  show ?thesis using r(4)
    by (auto simp: LoadIngestionRequest_def r2 validate_intent_def split: if_splits option.splits sum.splits)
qed

section \<open>Completion, retries and checkpoints\<close>

text \<open>
  The completion of an attempt: the caller was the lease holder of a running job; a
  requested cancellation wins over every result; otherwise the desired state is entered, except
  that a retry beyond the attempt budget fails the job (unless the stage has finished and only its
  result is missing); every state but STAGED gives up the lease.
\<close>

theorem CompleteWorkerAttempt_outcome:
  assumes "CompleteWorkerAttempt job owner fence desired retryDelay now d = (Inr s, d')"
  shows "\<exists>r r'. job_of d job = Some r \<and> job_of d' job = Some r' \<and> s = j_state r' \<and>
    held_by owner fence now r \<and> j_state r = JOB_STATE_RUNNING \<and> AllowedJobTransition JOB_STATE_RUNNING s \<and>
    (j_cancellation_requested r \<longrightarrow> s = JOB_STATE_CANCELLED) \<and>
    (\<not> j_cancellation_requested r \<and> desired \<noteq> JOB_STATE_RETRY_WAIT \<longrightarrow> s = desired) \<and>
    (\<not> j_cancellation_requested r \<and> desired = JOB_STATE_RETRY_WAIT \<longrightarrow>
       s = (if j_stage_attempt r < j_max_attempts r \<or> terminal_checkpoint d r (j_stage r)
            then JOB_STATE_RETRY_WAIT else JOB_STATE_FAILED)) \<and>
    (s \<noteq> JOB_STATE_STAGED \<longrightarrow> j_lease_owner r' = None \<and> j_lease_expires_at r' = None)"
proof -
  obtain r where r: "valid_completion job owner fence desired retryDelay" "job_of d job = Some r"
    "held_by owner fence now r" "j_state r = JOB_STATE_RUNNING"
    "s = j_state (completion_update d desired retryDelay now r)"
    "d' = update_job job (completion_update d desired retryDelay now) d"
    using assms by (auto simp: CompleteWorkerAttempt_def split: if_splits option.splits)
  have id: "j_job_id (completion_update d desired retryDelay now x) = j_job_id x" for x
    by (simp add: completion_update_def Let_def)
  have new: "job_of d' job = Some (completion_update d desired retryDelay now r)"
    by (simp add: r(6) update_job_def table_simps id r(2))
  have allowed: "AllowedJobTransition JOB_STATE_RUNNING desired" using r(1) unfolding valid_completion_def by blast
  define b where "b = (j_stage_attempt r < j_max_attempts r \<or> terminal_checkpoint d r (j_stage r))"
  have s: "s = (if j_cancellation_requested r then JOB_STATE_CANCELLED
      else if desired = JOB_STATE_RETRY_WAIT \<and> \<not> b then JOB_STATE_FAILED else desired)"
    by (simp add: r(5) b_def completion_update_def Let_def)
  have lease: "releases_lease desired \<or> j_cancellation_requested r \<Longrightarrow>
      j_lease_owner (completion_update d desired retryDelay now r) = None \<and>
      j_lease_expires_at (completion_update d desired retryDelay now r) = None"
    by (auto simp: completion_update_def Let_def)
  have "releases_lease desired \<or> desired = JOB_STATE_STAGED"
    using allowed by (cases desired) (simp_all add: releases_lease_def)
  then have "s \<noteq> JOB_STATE_STAGED \<Longrightarrow> releases_lease desired \<or> j_cancellation_requested r"
    by (auto simp: s)
  note lease' = lease [OF this]
  have "AllowedJobTransition JOB_STATE_RUNNING s" using allowed by (auto simp: s)
  moreover have "(j_cancellation_requested r \<longrightarrow> s = JOB_STATE_CANCELLED) \<and>
    (\<not> j_cancellation_requested r \<and> desired \<noteq> JOB_STATE_RETRY_WAIT \<longrightarrow> s = desired) \<and>
    (\<not> j_cancellation_requested r \<and> desired = JOB_STATE_RETRY_WAIT \<longrightarrow>
       s = (if b then JOB_STATE_RETRY_WAIT else JOB_STATE_FAILED))"
    by (simp add: s)
  ultimately show ?thesis using r(2-5) new lease' unfolding b_def by blast
qed

text \<open>
  A job sent to retry with a delay is not handed out by any claim before the delay, at
  least a microsecond, has passed.
\<close>

theorem retry_not_before:
  assumes "job_inv d" and "CompleteWorkerAttempt job owner fence JOB_STATE_RETRY_WAIT delay now d = (Inr JOB_STATE_RETRY_WAIT, d1)"
    and "t < now + max 1 (delay div 1000)"
  shows "(\<forall>rec d2. parse_claim w duration locked t d1 = (Inr rec, d2) \<longrightarrow> jr_job_id rec \<noteq> job) \<and>
    (\<forall>rec d2. index_claim w duration locked t d1 = (Inr rec, d2) \<longrightarrow> jr_job_id rec \<noteq> job) \<and>
    (\<forall>rec d2 p s. adjacent_stages p s \<longrightarrow> handoff_claim w duration p s locked t d1 = (Inr rec, d2) \<longrightarrow> jr_job_id rec \<noteq> job) \<and>
    (\<forall>rec d2. ClaimJob w duration locked t d1 = (Inr rec, d2) \<longrightarrow> jr_job_id rec \<noteq> job)"
proof -
  obtain r where r: "valid_completion job owner fence JOB_STATE_RETRY_WAIT delay" "job_of d job = Some r"
    "JOB_STATE_RETRY_WAIT = j_state (completion_update d JOB_STATE_RETRY_WAIT delay now r)"
    "d1 = update_job job (completion_update d JOB_STATE_RETRY_WAIT delay now) d"
    using assms by (auto simp: CompleteWorkerAttempt_def split: if_splits option.splits)
  have id: "j_job_id (completion_update d JOB_STATE_RETRY_WAIT delay now x) = j_job_id x" for x
    by (simp add: completion_update_def Let_def)
  have new: "job_of d1 job = Some (completion_update d JOB_STATE_RETRY_WAIT delay now r)"
    by (simp add: r(4) update_job_def table_simps id r(2))
  have "0 < delay" using r(1) by (simp add: valid_completion_def)
  then have micro: "retryMicroseconds delay = max 1 (delay div 1000)"
    by (auto simp: retryMicroseconds_def)
  have state: "j_state (completion_update d JOB_STATE_RETRY_WAIT delay now r) = JOB_STATE_RETRY_WAIT"
    "\<not> ts_le (j_next_attempt_at (completion_update d JOB_STATE_RETRY_WAIT delay now r)) t"
    using r(3) assms(3) by (auto simp: completion_update_def Let_def ts_le_def micro split: if_splits)
  have inv: "job_inv d1"
    using keeps_CompleteWorkerAttempt [of d job owner fence JOB_STATE_RETRY_WAIT delay now] assms(1,2)
    by (simp add: keeps_def)
  show ?thesis
    using generic.claim_not_before [OF _ inv new state] parse.claim_not_before [OF _ inv new state]
      index.claim_not_before [OF _ inv new state]
      lease_claim.claim_not_before [OF handoff_claim_contract _ inv new state]
    unfolding parse_claim_def index_claim_def handoff_claim_def ClaimJob_def claim_refused_def
    by (auto split: if_splits) blast
qed


text \<open>
  A saved checkpoint with a fresh identifier is what the next load of the latest
  checkpoint returns, provided that the protobuf runtime decodes what it has encoded, the encoded
  message is within the 16 MiB bound of the reader and the message is valid on the wire. The stage
  of the job is then the stage of the checkpoint.
\<close>

theorem checkpoint_round_trip:
  assumes "SaveCheckpoint h c (Some ck) owner now d = (Inr (), d')"
    and "ck_meta ck = Some meta" and "checkpoint_of d (m_record_id meta) = None"
    and "c_unmarshal c (c_marshal c ck) = Some ck" and "int (length (c_marshal c ck)) \<le> 16777216"
    and "validate_wire h c ck = Inr ()"
  shows "LoadLatestCheckpoint h c (ck_job_id ck) d' = Inr ck \<and>
    map_option j_stage (job_of d' (ck_job_id ck)) = Some (ck_stage ck)"
proof -
  have tx: "saveCheckpointTx h c (Some ck) owner None now d = Inr d'"
    using assms(1) by (auto simp: SaveCheckpoint_def saveCheckpoint_def split: sum.splits)
  obtain r written d1 where r: "job_of d (ck_job_id ck) = Some r" "held_by owner (ck_fence ck) now r"
    and ins: "insert_checkpoint (checkpoint_row_of h c ck meta) d = Inr (written, d1)"
    and d': "d' = advance_checkpoint ck (m_record_id meta) now d1"
    using saveCheckpointTx_Inr [OF tx] assms(2) by (metis option.inject)
  have id: "cp_checkpoint_id (checkpoint_row_of h c ck meta) = m_record_id meta" by (simp add: checkpoint_row_of_def)
  have d1: "d1 = d\<lparr>job_checkpoints := job_checkpoints d @ [checkpoint_row_of h c ck meta]\<rparr>"
    using insert_checkpoint_Inr [OF ins] assms(3) by (auto simp: id)
  have cp: "checkpoint_of d' (m_record_id meta) = Some (checkpoint_row_of h c ck meta)"
    by (simp add: d' advance_checkpoint_def update_job_def d1 table_simps assms(3) id)
  have job: "job_of d' (ck_job_id ck) =
      Some (r\<lparr>j_stage := ck_stage ck, j_latest_checkpoint_id := Some (m_record_id meta), j_updated_at := now\<rparr>)"
    using r by (simp add: d' advance_checkpoint_def update_job_def d1 table_simps held_by_def)
  show ?thesis using assms(4-6)
    by (simp add: LoadLatestCheckpoint_def job cp checkpoint_row_of_def)
qed


section \<open>Cancelled work ends\<close>


section \<open>Concrete runs\<close>

text \<open>Inputs at which the theorems above are applied.\<close>

definition ex_host :: host where
  "ex_host = \<lparr>sha256hex = (\<lambda>_. replicate 64 CHR ''0''), url_parse = (\<lambda>_. None), to_lower = (\<lambda>r. r)\<rparr>"

definition ex_message :: wire_message where
  "ex_message = WireMessage ''regulagraph.v1.Checkpoint'' [] [] SemOther"

definition ex_request :: ingestion_request where
  "ex_request = \<lparr>ir_corpus_id = ''c'', ir_operation = JOB_OPERATION_INGEST, ir_idempotency_key = ''k'',
     ir_rest = []\<rparr>"

definition ex_request_codec :: "ingestion_request codec" where
  "ex_request_codec = \<lparr>c_marshal = (\<lambda>m. ''x''), c_unmarshal = (\<lambda>_. Some ex_request),
     c_reflect = (\<lambda>_. ex_message), c_size = (\<lambda>_. 1)\<rparr>"

definition ex_intent :: JobIntent where
  "ex_intent = \<lparr>JobID = ''j'', CorpusID = ''c'', Operation = JOB_OPERATION_INGEST,
     InitialStage = JOB_STAGE_PARSE, InputFingerprint = replicate 64 CHR ''0'', IdempotencyKey = ''k'',
     RequestHash = replicate 64 CHR ''0'', RequestPayload = ''x'', BaseSnapshotID = []\<rparr>"

definition ex_checkpoint :: checkpoint where
  "ex_checkpoint = \<lparr>ck_meta = Some \<lparr>m_schema_version = 1, m_corpus_id = ''c'', m_record_id = ''cp'', m_visibility = None\<rparr>,
     ck_job_id = ''j'', ck_stage = JOB_STAGE_PARSE, ck_completed_batch_keys = [], ck_artifact_hashes = [],
     ck_fence = 1, ck_terminal_status = COMPLETION_STATUS_SUCCEEDED, ck_manifest = None\<rparr>"

definition ex_checkpoint_codec :: "checkpoint codec" where
  "ex_checkpoint_codec = \<lparr>c_marshal = (\<lambda>_. ''y''), c_unmarshal = (\<lambda>_. Some ex_checkpoint),
     c_reflect = (\<lambda>_. ex_message), c_size = (\<lambda>_. 1)\<rparr>"

definition ex_submitted :: db where
  "ex_submitted = snd (SubmitJob ex_host ex_request_codec ex_intent 0 empty_db)"

definition ex_running :: db where
  "ex_running = snd (ClaimParseJob ''w'' 10 ({}, 1) ({}, 1) ({}, 1) ex_submitted)"

definition ex_saved :: db where
  "ex_saved = snd (SaveCheckpoint ex_host ex_checkpoint_codec (Some ex_checkpoint) ''w'' 2 ex_running)"

definition ex_staged :: db where
  "ex_staged = snd (CompleteWorkerAttempt ''j'' ''w'' 1 JOB_STATE_STAGED 0 3 ex_saved)"

lemma ex_submit:
  "SubmitJob ex_host ex_request_codec ex_intent 0 empty_db =
     (Inr (scanJob (new_job_row ex_intent 0), False), ex_submitted)"
  by code_simp

lemma ex_states_inv: "job_inv ex_submitted" "job_inv ex_running" "job_inv ex_saved" "job_inv ex_staged"
  by code_simp+

lemma ex_claims:
  "succeeded (ClaimParseJob ''w'' 10 ({}, 1) ({}, 1) ({}, 1) ex_submitted)"
  "succeeded (claimHandoffJob ''v'' 10 JOB_STAGE_PARSE JOB_STAGE_STRUCTURE ({}, 4) ({}, 4) ({}, 4) ex_staged)"
  by code_simp+

theorem ClaimParseJob_grants_witness:
  "\<exists>rec d' r r'. ClaimParseJob ''w'' 10 ({}, 1) ({}, 1) ({}, 1) ex_submitted = (Inr rec, d') \<and>
     job_of ex_submitted (jr_job_id rec) = Some r \<and> job_of d' (jr_job_id rec) = Some r' \<and>
     j_state r' = JOB_STATE_RUNNING \<and> j_lease_fence r' = j_lease_fence r + 1"
  using succeeded_ex [OF ex_claims(1)] ClaimParseJob_grants [OF ex_states_inv(1)] by metis

theorem claimHandoffJob_grants_witness:
  "\<exists>rec d' r r'. claimHandoffJob ''v'' 10 JOB_STAGE_PARSE JOB_STAGE_STRUCTURE ({}, 4) ({}, 4) ({}, 4) ex_staged = (Inr rec, d') \<and>
     job_of ex_staged (jr_job_id rec) = Some r \<and> job_of d' (jr_job_id rec) = Some r' \<and>
     j_stage r' = JOB_STAGE_STRUCTURE \<and> j_lease_fence r' = j_lease_fence r + 1"
  using succeeded_ex [OF ex_claims(2)] claimHandoffJob_grants [OF ex_states_inv(4)] by metis

theorem reachable_job_inv_witness:
  "(job_step ex_host ex_request_codec ex_checkpoint_codec)\<^sup>*\<^sup>* empty_db ex_submitted \<and> job_inv ex_submitted"
proof -
  have run: "(job_step ex_host ex_request_codec ex_checkpoint_codec)\<^sup>*\<^sup>* empty_db ex_submitted"
    unfolding ex_submitted_def by (intro r_into_rtranclp job_step.submit)
  with reachable_job_inv [OF run] show ?thesis by simp
qed

lemma ex_save_run: "(job_step ex_host ex_request_codec ex_checkpoint_codec)\<^sup>*\<^sup>* ex_running ex_saved"
  unfolding ex_saved_def by (intro r_into_rtranclp job_step.save)

lemma ex_claim_run: "(job_step ex_host ex_request_codec ex_checkpoint_codec)\<^sup>*\<^sup>* ex_submitted ex_running"
  unfolding ex_running_def by (rule ClaimParseJob_run)

theorem jobs_evolve_run_witness:
  "(job_step ex_host ex_request_codec ex_checkpoint_codec)\<^sup>*\<^sup>* ex_running ex_saved \<and> ex_running \<noteq> ex_saved \<and>
     jobs_evolve ex_running ex_saved"
proof -
  have "ex_running \<noteq> ex_saved" by code_simp
  with ex_save_run jobs_evolve_run [OF ex_save_run ex_states_inv(2)] show ?thesis by blast
qed

theorem older_fence_refused_witness:
  "\<exists>rec d1. claimHandoffJob ''v'' 10 JOB_STAGE_PARSE JOB_STAGE_STRUCTURE ({}, 4) ({}, 4) ({}, 4) ex_staged = (Inr rec, d1) \<and>
     (\<exists>e. RenewLease ''j'' ''w'' 1 10 5 d1 = (Inl e, d1)) \<and>
     (\<exists>e. SaveCheckpoint ex_host ex_checkpoint_codec (Some ex_checkpoint) ''w'' 5 d1 = (Inl e, d1))"
proof -
  define C where "C = claimHandoffJob ''v'' 10 JOB_STAGE_PARSE JOB_STAGE_STRUCTURE ({}, 4) ({}, 4) ({}, 4) ex_staged"
  have rec: "map_sum id (\<lambda>r. (jr_lease_fence r, jr_job_id r)) (fst C) = Inr (2, ''j'')"
    unfolding C_def by code_simp
  then obtain rec where c: "C = (Inr rec, snd C)" "jr_lease_fence rec = 2" "jr_job_id rec = ''j''"
    by (cases C; cases "fst C") auto
  have ck: "ck_job_id ex_checkpoint = ''j''" "ck_fence ex_checkpoint = 1" by code_simp+
  have "1 < jr_lease_fence rec" "''j'' = jr_job_id rec" using c by simp_all
  note older_fence_refused [OF ex_states_inv(4) c(1) [unfolded C_def] rtranclp.rtrancl_refl this ck]
  with c(1) show ?thesis unfolding C_def by metis
qed

theorem SubmitJob_idempotent_witness:
  "\<exists>rec2. SubmitJob ex_host ex_request_codec ex_intent 9 ex_running = (Inr (rec2, True), ex_running) \<and>
     jr_job_id rec2 = ''j''"
proof -
  have "corpus_of ex_running (CorpusID ex_intent) \<noteq> None" "validate_intent ex_host ex_request_codec ex_intent = Inr ()"
    "jr_job_id (scanJob (new_job_row ex_intent 0)) = ''j''"
    by code_simp+
  then show ?thesis
    using SubmitJob_idempotent [OF job_inv_empty ex_submit ex_claim_run _ _ refl refl, of 9] by simp
qed

theorem submitted_request_loads_witness:
  "LoadIngestionRequest ex_host ex_request_codec ''j'' ex_running = Inr ex_request"
  using submitted_request_loads [OF job_inv_empty ex_submit ex_claim_run]
  by (auto simp: ex_intent_def ex_request_codec_def)

theorem CompleteWorkerAttempt_outcome_witness:
  "\<exists>r r'. job_of ex_saved ''j'' = Some r \<and> job_of ex_staged ''j'' = Some r' \<and>
     j_state r = JOB_STATE_RUNNING \<and> j_state r' = JOB_STATE_STAGED"
proof -
  have "CompleteWorkerAttempt ''j'' ''w'' 1 JOB_STATE_STAGED 0 3 ex_saved = (Inr JOB_STATE_STAGED, ex_staged)"
    by code_simp
  from CompleteWorkerAttempt_outcome [OF this] show ?thesis by metis
qed

theorem retry_not_before_witness:
  "\<exists>d1. CompleteWorkerAttempt ''j'' ''w'' 1 JOB_STATE_RETRY_WAIT 5000 3 ex_running = (Inr JOB_STATE_RETRY_WAIT, d1) \<and>
     (\<forall>rec d2. parse_claim ''v'' 10 {} 7 d1 = (Inr rec, d2) \<longrightarrow> jr_job_id rec \<noteq> ''j'')"
proof -
  have c: "CompleteWorkerAttempt ''j'' ''w'' 1 JOB_STATE_RETRY_WAIT 5000 3 ex_running =
      (Inr JOB_STATE_RETRY_WAIT, snd (CompleteWorkerAttempt ''j'' ''w'' 1 JOB_STATE_RETRY_WAIT 5000 3 ex_running))"
    by code_simp
  have "(7::int) < 3 + max 1 (5000 div 1000)" by simp
  from retry_not_before [OF ex_states_inv(2) c this] c show ?thesis by blast
qed

theorem checkpoint_round_trip_witness:
  "LoadLatestCheckpoint ex_host ex_checkpoint_codec ''j'' ex_saved = Inr ex_checkpoint"
proof -
  have s: "SaveCheckpoint ex_host ex_checkpoint_codec (Some ex_checkpoint) ''w'' 2 ex_running = (Inr (), ex_saved)"
    by code_simp
  have m: "ck_meta ex_checkpoint = Some \<lparr>m_schema_version = 1, m_corpus_id = ''c'', m_record_id = ''cp'', m_visibility = None\<rparr>"
    "checkpoint_of ex_running (m_record_id \<lparr>m_schema_version = 1, m_corpus_id = ''c'', m_record_id = ''cp'', m_visibility = None\<rparr>) = None"
    "c_unmarshal ex_checkpoint_codec (c_marshal ex_checkpoint_codec ex_checkpoint) = Some ex_checkpoint"
    "int (length (c_marshal ex_checkpoint_codec ex_checkpoint)) \<le> 16777216"
    "validate_wire ex_host ex_checkpoint_codec ex_checkpoint = Inr ()" "ck_job_id ex_checkpoint = ''j''"
    by code_simp+
  show ?thesis using checkpoint_round_trip [OF s m(1-5)] m(6) by simp
qed

definition ex_worn :: job_row where
  "ex_worn = (new_job_row ex_intent 0)\<lparr>j_stage := JOB_STAGE_ACQUIRE, j_state := JOB_STATE_RUNNING, j_attempt := 100,
     j_stage_attempt := 100, j_lease_owner := Some ''w'', j_lease_fence := 100, j_lease_expires_at := Some 5\<rparr>"



end
