(* ===== verification/Boundaries.thy ===== *)
theory Boundaries
  imports Store "HOL-Library.Word"
begin

text \<open>
  The guards of \<open>domain/boundaries.go\<close> and the batch checks of \<open>domain/wire.go\<close> that bind a response
  to the request it answers: worker responses, rerank and embedding batches, backend receipts of
  a publication, and the sequence of events of an answer stream. The three batch checks share one
  loop, which deletes every answered key from the expected ones; its contract is the locale
  \<open>expected_loop\<close>.
\<close>

section \<open>Worker responses\<close>

fun containsStage :: "job_stage list \<Rightarrow> job_stage \<Rightarrow> bool" where
  "containsStage [] expected = False"
| "containsStage (stage # stages) expected = (stage = expected \<or> containsStage stages expected)"

definition responseArtifacts :: "process_batch_response \<Rightarrow> artifact_ref list" where
  "responseArtifacts response =
     concat (map (\<lambda>x. case x of None \<Rightarrow> [] | Some a \<Rightarrow> [a])
       [ps_document_batch response, ps_graph_delta response, ps_index_batch response,
        ps_extraction_batch response, ps_resolution_batch response])"

fun bind_outputs :: "string list \<Rightarrow> string list \<Rightarrow> artifact_ref list \<Rightarrow> bool" where
  "bind_outputs (k # ks) (h # hs) (a # as) =
     (ar_content_hash a \<noteq> None \<and> k = ar_artifact_id a \<and> Some h = ar_content_hash a \<and> bind_outputs ks hs as)"
| "bind_outputs [] [] [] = True"
| "bind_outputs _ _ _ = False"

definition check_checkpoint :: "process_batch_request \<Rightarrow> process_batch_response \<Rightarrow> checkpoint \<Rightarrow> unit result" where
  "check_checkpoint req res ck =
     (if ck_job_id ck \<noteq> pq_job_id req \<or> ck_fence ck \<noteq> pq_lease_fence req \<or>
         map_option m_corpus_id (ck_meta ck) \<noteq> Some (pq_corpus_id req)
      then Inl (Err ''checkpoint context/fence mismatch'')
      else if ck_terminal_status ck = COMPLETION_STATUS_UNSPECIFIED \<or> ck_terminal_status ck \<noteq> ps_status res
      then Inl (Err ''checkpoint terminal status does not match worker response'')
      else if \<not> containsStage (pq_stages req) (ck_stage ck) then Inl (Err ''checkpoint stage was not requested'')
      else if length (ck_completed_batch_keys ck) \<noteq> length (responseArtifacts res) \<or>
              length (ck_artifact_hashes ck) \<noteq> length (responseArtifacts res)
      then Inl (Err ''checkpoint output cardinality mismatch'')
      else if \<not> bind_outputs (ck_completed_batch_keys ck) (ck_artifact_hashes ck) (responseArtifacts res)
      then Inl (Err ''checkpoint output binding mismatch'')
      else Inr ())"

definition check_outputs :: "process_batch_request \<Rightarrow> process_batch_response \<Rightarrow> unit result" where
  "check_outputs req res =
     (if ps_document_batch res \<noteq> None \<and> \<not> containsStage (pq_stages req) JOB_STAGE_PARSE \<and>
         \<not> containsStage (pq_stages req) JOB_STAGE_STRUCTURE \<and> \<not> containsStage (pq_stages req) JOB_STAGE_CHUNK
      then Inl (Err ''document batch returned without requested PARSE, STRUCTURE, or CHUNK stage'')
      else if ps_graph_delta res \<noteq> None \<and> \<not> containsStage (pq_stages req) JOB_STAGE_ASSEMBLE
      then Inl (Err ''graph delta returned without requested ASSEMBLE stage'')
      else if ps_index_batch res \<noteq> None \<and> \<not> containsStage (pq_stages req) JOB_STAGE_INDEX
      then Inl (Err ''index batch returned without requested INDEX stage'')
      else if ps_extraction_batch res \<noteq> None \<and> \<not> containsStage (pq_stages req) JOB_STAGE_EXTRACT
      then Inl (Err ''extraction batch returned without requested EXTRACT stage'')
      else if ps_resolution_batch res \<noteq> None \<and> \<not> containsStage (pq_stages req) JOB_STAGE_RESOLVE
      then Inl (Err ''resolution batch returned without requested RESOLVE stage'')
      else if ps_status res = COMPLETION_STATUS_SUCCEEDED \<and>
              (ps_errors res \<noteq> [] \<or> ps_document_batch res = None \<and> ps_graph_delta res = None \<and>
               ps_index_batch res = None \<and> ps_extraction_batch res = None \<and> ps_resolution_batch res = None)
      then Inl (Err ''successful worker response requires output and no errors'')
      else Inr ())"

text \<open>The worker is the Rust process; what it returns is checked before any use.\<close>

definition VerifyWorkerResponse ::
    "host \<Rightarrow> process_batch_request codec \<Rightarrow> process_batch_response codec \<Rightarrow>
     process_batch_request \<Rightarrow> process_batch_response \<Rightarrow> unit result" where
  "VerifyWorkerResponse h cq cs req res =
     bind_result (validate_wire h cq req) (\<lambda>_.
     bind_result (validate_wire h cs res) (\<lambda>_.
     if pq_request_id req \<noteq> ps_request_id res \<or> pq_job_id req \<noteq> ps_job_id res \<or>
        pq_attempt req \<noteq> ps_attempt res \<or> pq_lease_fence req \<noteq> ps_fence res
     then Inl (Err ''stale or mismatched worker response'')
     else bind_result (case ps_checkpoint res of None \<Rightarrow> Inr () | Some ck \<Rightarrow> check_checkpoint req res ck) (\<lambda>_.
     check_outputs req res)))"

section \<open>Batches\<close>

fun rerank_loop :: "string list \<Rightarrow> string list \<Rightarrow> string list result" where
  "rerank_loop expected [] = Inr expected"
| "rerank_loop expected (p # ps) =
     (if p \<notin> set expected then Inl (Err ''unexpected/duplicate rerank result'')
      else rerank_loop (removeAll p expected) ps)"

definition VerifyRerankResults ::
    "host \<Rightarrow> rerank_request codec \<Rightarrow> rerank_response codec \<Rightarrow> rerank_request \<Rightarrow> rerank_response \<Rightarrow> unit result" where
  "VerifyRerankResults h cq cs req res =
     bind_result (validate_wire h cq req) (\<lambda>_.
     bind_result (validate_wire h cs res) (\<lambda>_.
     if rq_request_id req \<noteq> rs_request_id res \<or> rq_model req \<noteq> rs_model res
     then Inl (Err ''rerank response context/model mismatch'')
     else bind_result (rerank_loop (rq_pair_ids req) (map rr_pair_id (rs_results res))) (\<lambda>expected.
     if expected \<noteq> [] then Inl (Err ''missing rerank results'') else Inr ())))"

text \<open>The length of a vector is compared after conversion to 32 bits.\<close>

definition dimension_ok :: "model_manifest \<Rightarrow> embedding_result \<Rightarrow> bool" where
  "dimension_ok model x =
     (case er_embedding x of None \<Rightarrow> True
      | Some values \<Rightarrow>
          (word_of_nat (length values) :: 32 word) =
          word_of_nat (case mm_dimensions model of None \<Rightarrow> 0 | Some n \<Rightarrow> n))"

fun embed_loop :: "model_manifest \<Rightarrow> string list \<Rightarrow> embedding_result list \<Rightarrow> string list result" where
  "embed_loop model expected [] = Inr expected"
| "embed_loop model expected (x # xs) =
     (if er_item_id x \<notin> set expected then Inl (Err ''unexpected/duplicate result ID'')
      else if \<not> dimension_ok model x then Inl (Err ''embedding result dimension mismatch'')
      else embed_loop model (removeAll (er_item_id x) expected) xs)"

definition VerifyEmbeddingResultsWithLimits ::
    "host \<Rightarrow> embed_request codec \<Rightarrow> embed_response codec \<Rightarrow> embed_request \<Rightarrow> embed_response \<Rightarrow> WireLimits \<Rightarrow> unit result" where
  "VerifyEmbeddingResultsWithLimits h cq cs req res limits =
     bind_result (validate_wire h cq req) (\<lambda>_.
     bind_result (ValidateWire (url_parse h) (Some (c_reflect cs res)) (c_size cs res) limits) (\<lambda>_.
     if eq_request_id req \<noteq> es_request_id res \<or> eq_model req \<noteq> es_model res
     then Inl (Err ''batch response context/model mismatch'')
     else bind_result (embed_loop (eq_model req) (eq_item_ids req) (es_results res)) (\<lambda>expected.
     if expected \<noteq> [] then Inl (Err ''batch results missing IDs'') else Inr ())))"

definition VerifyEmbeddingResults where
  "VerifyEmbeddingResults h cq cs req res = VerifyEmbeddingResultsWithLimits h cq cs req res DefaultWireLimits"

section \<open>Publication readiness\<close>

fun expected_backends ::
    "(backend_kind \<times> backend_generation) list \<Rightarrow> backend_generation list \<Rightarrow>
     (backend_kind \<times> backend_generation) list result" where
  "expected_backends e [] = Inr e"
| "expected_backends e (g # gs) =
     (if map_of e (bg_backend g) \<noteq> None then Inl (Err ''duplicate backend generation'')
      else expected_backends ((bg_backend g, g) # e) gs)"

definition receipt_matches :: "string \<Rightarrow> nat \<Rightarrow> backend_generation \<Rightarrow> backend_receipt \<Rightarrow> bool" where
  "receipt_matches publication fence g r \<longleftrightarrow>
     br_publication_id r = publication \<and> br_fence r = fence \<and> br_generation r = bg_generation g \<and>
     br_operations_checksum r = bg_operations_checksum g \<and>
     n_expected (br_counts r) = n_expected (bg_expected_counts g) \<and>
     n_accepted (br_counts r) = n_expected (bg_expected_counts g) \<and> n_rejected (br_counts r) = 0 \<and>
     br_durable_ack r \<and> br_search_ready r"

fun receipt_loop ::
    "string \<Rightarrow> nat \<Rightarrow> (backend_kind \<times> backend_generation) list \<Rightarrow> backend_receipt list \<Rightarrow>
     (backend_kind \<times> backend_generation) list result" where
  "receipt_loop publication fence e [] = Inr e"
| "receipt_loop publication fence e (r # rs) =
     (case map_of e (br_backend r) of
        None \<Rightarrow> Inl (Err ''unexpected/duplicate backend receipt'')
      | Some g \<Rightarrow>
          if \<not> receipt_matches publication fence g r
          then Inl (Err ''backend receipt not durably search-ready or mismatched'')
          else receipt_loop publication fence (filter (\<lambda>(b, _). b \<noteq> br_backend r) e) rs)"

definition VerifyPublicationReady ::
    "host \<Rightarrow> publication_manifest codec \<Rightarrow> publication_manifest \<Rightarrow> snapshot_ref option \<Rightarrow> nat \<Rightarrow> unit result" where
  "VerifyPublicationReady h c manifest parent fence =
     bind_result (validate_wire h c manifest) (\<lambda>_.
     if pm_fence manifest \<noteq> fence \<or> pm_parent_ref manifest \<noteq> parent
     then Inl (Err ''publication parent/fence mismatch'')
     else if (case parent of None \<Rightarrow> False | Some p \<Rightarrow>
                sr_corpus_id p \<noteq> sr_corpus_id (pm_snapshot_ref manifest) \<or>
                sr_sequence (pm_snapshot_ref manifest) \<le> sr_sequence p)
     then Inl (Err ''publication snapshot sequence/corpus mismatch'')
     else if m_corpus_id (pm_meta manifest) \<noteq> sr_corpus_id (pm_snapshot_ref manifest) \<or> \<not> pm_report_valid manifest
     then Inl (Err ''invalid publication report/corpus'')
     else if SEVERITY_ERROR \<in> set (pm_report_issues manifest)
     then Inl (Err ''publication report has invariant errors'')
     else bind_result (expected_backends [] (pm_backend_generations manifest)) (\<lambda>e.
     bind_result (receipt_loop (m_record_id (pm_meta manifest)) fence e (pm_acknowledgements manifest)) (\<lambda>left.
     if left \<noteq> [] then Inl (Err ''publication missing backend receipts'') else Inr ())))"

section \<open>Answer streams\<close>

datatype event_kind = Delta string | Final string | StreamError string

record answer_event =
  ae_request_id :: string
  ae_stream_sequence :: "64 word"
  ae_kind :: event_kind

record AnswerStreamValidator =
  RequestID :: string
  Sequence :: "64 word"
  Terminal :: bool

definition is_terminal :: "event_kind \<Rightarrow> bool" where
  "is_terminal k = (case k of Delta _ \<Rightarrow> False | Final _ \<Rightarrow> True | StreamError _ \<Rightarrow> True)"

definition Accept :: "host \<Rightarrow> answer_event codec \<Rightarrow> AnswerStreamValidator \<Rightarrow> answer_event \<Rightarrow> AnswerStreamValidator result" where
  "Accept h c s event =
     (if Terminal s then Inl (Err ''event after terminal'')
      else bind_result (validate_wire h c event) (\<lambda>_.
      if RequestID s \<noteq> [] \<and> RequestID s \<noteq> ae_request_id event \<or> ae_stream_sequence event \<noteq> Sequence s + 1
      then Inl (Err ''stream correlation/sequence mismatch'')
      else Inr \<lparr>RequestID = ae_request_id event, Sequence = ae_stream_sequence event,
                Terminal = is_terminal (ae_kind event)\<rparr>))"

definition Finish :: "AnswerStreamValidator \<Rightarrow> unit result" where
  "Finish s = (if \<not> Terminal s then Inl (Err ''stream ended without terminal event'') else Inr ())"

definition EqualPayload :: "string option \<Rightarrow> string option \<Rightarrow> bool" where
  "EqualPayload a b = (case (a, b) of (Some x, Some y) \<Rightarrow> x = y | _ \<Rightarrow> False)"

section \<open>The loop over expected keys\<close>

text \<open>
  A table of expected entries (\<open>has\<close> looks one up, \<open>del\<close> removes one), and a loop that takes the
  answers in turn: an answer without entry is refused, one that does not match its entry is
  refused, and the entry of an accepted one is removed.
\<close>

locale expected_loop =
  fixes has :: "'e \<Rightarrow> 'k \<Rightarrow> 'g option" and del :: "'k \<Rightarrow> 'e \<Rightarrow> 'e" and no_entry :: "'e \<Rightarrow> bool"
    and key :: "'r \<Rightarrow> 'k" and check :: "'g \<Rightarrow> 'r \<Rightarrow> bool" and loop :: "'e \<Rightarrow> 'r list \<Rightarrow> 'e result"
    and unexpected mismatch :: error
  assumes has_del: "has (del k e) k' = (if k' = k then None else has e k')"
    and no_entry_iff: "no_entry e \<longleftrightarrow> (\<forall>k. has e k = None)"
    and loop_Nil: "loop e [] = Inr e"
    and loop_Cons: "loop e (r # rs) =
      (case has e (key r) of None \<Rightarrow> Inl unexpected
       | Some g \<Rightarrow> if \<not> check g r then Inl mismatch else loop (del (key r) e) rs)"
begin

definition matched :: "'e \<Rightarrow> 'r list \<Rightarrow> bool" where
  "matched e rs \<longleftrightarrow> distinct (map key rs) \<and> (\<forall>r \<in> set rs. \<exists>g. has e (key r) = Some g \<and> check g r)"

lemma matched_Cons:
  "matched e (r # rs) \<longleftrightarrow> (\<exists>g. has e (key r) = Some g \<and> check g r) \<and> matched (del (key r) e) rs"
  by (auto simp: matched_def has_del) (metis image_eqI)

lemma loop_Inr: "loop e rs = Inr e' \<Longrightarrow> matched e rs \<and> has e' = (\<lambda>k. if k \<in> key ` set rs then None else has e k)"
proof (induction rs arbitrary: e)
  case Nil
  then show ?case by (simp add: loop_Nil matched_def)
next
  case (Cons r rs)
  then obtain g where g: "has e (key r) = Some g" "check g r" "loop (del (key r) e) rs = Inr e'"
    by (auto simp: loop_Cons split: option.splits if_splits)
  with Cons.IH [OF g(3)] show ?case by (auto simp: matched_Cons has_del)
qed

lemma loop_matched: "matched e rs \<Longrightarrow> \<exists>e'. loop e rs = Inr e'"
  by (induction rs arbitrary: e) (auto simp: loop_Nil loop_Cons matched_Cons)

text \<open>The loop ends with nothing left exactly when answers and entries correspond one to one.\<close>

lemma loop_complete:
  "(\<exists>e'. loop e rs = Inr e' \<and> no_entry e') \<longleftrightarrow> matched e rs \<and> (\<forall>k. has e k \<noteq> None \<longrightarrow> k \<in> key ` set rs)"
proof
  assume "\<exists>e'. loop e rs = Inr e' \<and> no_entry e'"
  then obtain e' where "loop e rs = Inr e'" "\<forall>k. has e' k = None" by (auto simp: no_entry_iff)
  with loop_Inr [OF this(1)] show "matched e rs \<and> (\<forall>k. has e k \<noteq> None \<longrightarrow> k \<in> key ` set rs)"
    by (metis (mono_tags, lifting))
next
  assume *: "matched e rs \<and> (\<forall>k. has e k \<noteq> None \<longrightarrow> k \<in> key ` set rs)"
  then obtain e' where e': "loop e rs = Inr e'" using loop_matched by blast
  have "has e' k = None" for k using * loop_Inr [OF e'] by (cases "k \<in> key ` set rs") auto
  with e' show "\<exists>e'. loop e rs = Inr e' \<and> no_entry e'" by (auto simp: no_entry_iff)
qed

end

abbreviation expected_id :: "string list \<Rightarrow> string \<Rightarrow> unit option" where
  "expected_id e k \<equiv> (if k \<in> set e then Some () else None)"

lemma expected_ids_empty: "(e = []) = (\<forall>k. expected_id e k = None)"
  by (cases e) auto

interpretation rerank: expected_loop expected_id removeAll "\<lambda>e. e = []" id "\<lambda>_ _. True" rerank_loop
    "Err ''unexpected/duplicate rerank result''" "Err []"
  by unfold_locales (auto simp: expected_ids_empty split: if_splits)

interpretation embed: expected_loop expected_id removeAll "\<lambda>e. e = []" er_item_id "\<lambda>_. dimension_ok model"
    "embed_loop model" "Err ''unexpected/duplicate result ID''" "Err ''embedding result dimension mismatch''"
  for model
  by unfold_locales (auto simp: expected_ids_empty split: if_splits)

lemma map_of_filter_key: "map_of (filter (\<lambda>(b, _). b \<noteq> k) e) k' = (if k' = k then None else map_of e k')"
  by (induction e) auto

lemma map_of_empty_iff: "(e = []) = (\<forall>k. map_of e k = None)"
proof (cases e)
  case (Cons p ps)
  then have "map_of e (fst p) = Some (snd p)" by simp
  with Cons show ?thesis by (metis list.distinct(1) option.distinct(1))
qed simp

interpretation receipts: expected_loop map_of "\<lambda>k. filter (\<lambda>(b, _). b \<noteq> k)" "\<lambda>e. e = []" br_backend
    "receipt_matches publication fence" "receipt_loop publication fence"
    "Err ''unexpected/duplicate backend receipt''"
    "Err ''backend receipt not durably search-ready or mismatched''"
  for publication fence
  by unfold_locales (simp_all add: map_of_filter_key map_of_empty_iff [symmetric] split: option.splits)

lemma expected_backends_Inr:
  "expected_backends e gs = Inr e' \<longleftrightarrow>
     distinct (map bg_backend gs) \<and> (\<forall>g \<in> set gs. map_of e (bg_backend g) = None) \<and>
     e' = rev (map (\<lambda>g. (bg_backend g, g)) gs) @ e"
proof (induction gs arbitrary: e)
  case (Cons g gs)
  show ?case by (auto simp: Cons.IH) (metis image_eqI)
qed auto

lemma map_of_expected:
  assumes "distinct (map bg_backend gs)"
  shows "map_of (rev (map (\<lambda>g. (bg_backend g, g)) gs)) k = Some g \<longleftrightarrow> g \<in> set gs \<and> bg_backend g = k"
proof -
  have "distinct (map fst (rev (map (\<lambda>g. (bg_backend g, g)) gs)))"
    using assms by (simp add: rev_map [symmetric] comp_def)
  then show ?thesis by (auto simp: map_of_eq_Some_iff)
qed

section \<open>What the guards accept\<close>

lemma loop_then_empty:
  "bind_result x (\<lambda>e. if e \<noteq> [] then Inl err else Inr ()) = Inr () \<longleftrightarrow> (\<exists>e. x = Inr e \<and> e = [])"
  by (auto simp: bind_result_Inr_iff split: if_splits)

text \<open>
  A rerank response is accepted exactly when request and response are valid, belong to
  the same request and model, and the results name every requested pair once and nothing else.
\<close>

theorem VerifyRerankResults_iff:
  "VerifyRerankResults h cq cs req res = Inr () \<longleftrightarrow>
     validate_wire h cq req = Inr () \<and> validate_wire h cs res = Inr () \<and>
     rq_request_id req = rs_request_id res \<and> rq_model req = rs_model res \<and>
     distinct (map rr_pair_id (rs_results res)) \<and> set (map rr_pair_id (rs_results res)) = set (rq_pair_ids req)"
proof -
  have "(\<exists>e. rerank_loop (rq_pair_ids req) (map rr_pair_id (rs_results res)) = Inr e \<and> e = []) \<longleftrightarrow>
      distinct (map rr_pair_id (rs_results res)) \<and> set (map rr_pair_id (rs_results res)) = set (rq_pair_ids req)"
    unfolding rerank.loop_complete [of "rq_pair_ids req" "map rr_pair_id (rs_results res)"]
    by (auto simp: rerank.matched_def split: if_splits)
  then show ?thesis
    by (auto simp: VerifyRerankResults_def bind_result_Inr_iff split: if_splits)
qed

text \<open>
  An embedding response is accepted exactly when both messages are valid (the response
  within the limits of the caller), request and model agree, every requested item has one result
  and no other result exists, and every vector has the dimension of the model.
\<close>

theorem VerifyEmbeddingResults_iff:
  "VerifyEmbeddingResultsWithLimits h cq cs req res limits = Inr () \<longleftrightarrow>
     validate_wire h cq req = Inr () \<and>
     ValidateWire (url_parse h) (Some (c_reflect cs res)) (c_size cs res) limits = Inr () \<and>
     eq_request_id req = es_request_id res \<and> eq_model req = es_model res \<and>
     distinct (map er_item_id (es_results res)) \<and> er_item_id ` set (es_results res) = set (eq_item_ids req) \<and>
     list_all (dimension_ok (eq_model req)) (es_results res)"
proof -
  have "(\<exists>e. embed_loop (eq_model req) (eq_item_ids req) (es_results res) = Inr e \<and> e = []) \<longleftrightarrow>
      distinct (map er_item_id (es_results res)) \<and> er_item_id ` set (es_results res) = set (eq_item_ids req) \<and>
      list_all (dimension_ok (eq_model req)) (es_results res)"
    unfolding embed.loop_complete [of "eq_model req" "eq_item_ids req" "es_results res"]
    by (auto simp: embed.matched_def list_all_iff split: if_splits)
  then show ?thesis
    by (auto simp: VerifyEmbeddingResultsWithLimits_def bind_result_Inr_iff split: if_splits)
qed

lemma publication_ready:
  "VerifyPublicationReady h c m parent fence = Inr () \<longleftrightarrow>
     validate_wire h c m = Inr () \<and> pm_fence m = fence \<and> pm_parent_ref m = parent \<and>
     (\<forall>p. parent = Some p \<longrightarrow> sr_corpus_id p = sr_corpus_id (pm_snapshot_ref m) \<and>
        sr_sequence p < sr_sequence (pm_snapshot_ref m)) \<and>
     m_corpus_id (pm_meta m) = sr_corpus_id (pm_snapshot_ref m) \<and> pm_report_valid m \<and>
     SEVERITY_ERROR \<notin> set (pm_report_issues m) \<and>
     distinct (map bg_backend (pm_backend_generations m)) \<and> distinct (map br_backend (pm_acknowledgements m)) \<and>
     bg_backend ` set (pm_backend_generations m) = br_backend ` set (pm_acknowledgements m) \<and>
     (\<forall>r \<in> set (pm_acknowledgements m). \<forall>g \<in> set (pm_backend_generations m).
        bg_backend g = br_backend r \<longrightarrow> receipt_matches (m_record_id (pm_meta m)) fence g r)"
proof -
  let ?gs = "pm_backend_generations m" and ?rs = "pm_acknowledgements m" and ?p = "m_record_id (pm_meta m)"
  have "(\<exists>e'. receipt_loop ?p fence (rev (map (\<lambda>g. (bg_backend g, g)) ?gs)) ?rs = Inr e' \<and> e' = []) \<longleftrightarrow>
      distinct (map br_backend ?rs) \<and> bg_backend ` set ?gs = br_backend ` set ?rs \<and>
      (\<forall>r \<in> set ?rs. \<forall>g \<in> set ?gs. bg_backend g = br_backend r \<longrightarrow> receipt_matches ?p fence g r)"
    if d: "distinct (map bg_backend ?gs)"
  proof -
    let ?e = "rev (map (\<lambda>g. (bg_backend g, g)) ?gs)"
    have one: "g = g'" if "g \<in> set ?gs" "g' \<in> set ?gs" "bg_backend g = bg_backend g'" for g g'
      using d that by (auto simp: distinct_map inj_on_def)
    have dom: "map_of ?e k \<noteq> None \<longleftrightarrow> k \<in> bg_backend ` set ?gs" for k
      using map_of_expected [OF d] by (cases "map_of ?e k") force+
    have match: "(\<forall>r \<in> set ?rs. \<exists>g \<in> set ?gs. bg_backend g = br_backend r \<and> receipt_matches ?p fence g r) \<longleftrightarrow>
        br_backend ` set ?rs \<subseteq> bg_backend ` set ?gs \<and>
        (\<forall>r \<in> set ?rs. \<forall>g \<in> set ?gs. bg_backend g = br_backend r \<longrightarrow> receipt_matches ?p fence g r)" (is "?a \<longleftrightarrow> ?b \<and> ?c")
    proof
      assume ?a
      then show "?b \<and> ?c" using one by (metis (no_types, lifting) image_eqI image_subsetI)
    next
      assume "?b \<and> ?c"
      then show ?a by (fastforce simp: image_subset_iff)
    qed
    have loop: "receipts.matched ?p fence ?e ?rs \<longleftrightarrow> distinct (map br_backend ?rs) \<and>
        (\<forall>r \<in> set ?rs. \<exists>g \<in> set ?gs. bg_backend g = br_backend r \<and> receipt_matches ?p fence g r)"
      unfolding receipts.matched_def map_of_expected [OF d] by blast
    have left: "(\<forall>k. map_of ?e k \<noteq> None \<longrightarrow> k \<in> br_backend ` set ?rs) \<longleftrightarrow> bg_backend ` set ?gs \<subseteq> br_backend ` set ?rs"
      unfolding dom by blast
    show ?thesis unfolding receipts.loop_complete loop match left set_eq_subset by argo
  qed
  then show ?thesis
    unfolding VerifyPublicationReady_def bind_result_Inr_iff loop_then_empty
    by (cases parent) (auto simp: bind_result_Inr_iff loop_then_empty expected_backends_Inr not_le)
qed

text \<open>
  A publication is ready exactly when its manifest is valid, carries the fence and the
  parent of the reservation, follows its parent in the sequence of the same corpus, has a valid
  report without errors, and its backend generations and receipts correspond one to one, each
  receipt durable, search ready and exact in generation, checksum, counts and fence.
\<close>

theorem VerifyPublicationReady_iff:
  "VerifyPublicationReady h c m parent fence = Inr () \<longleftrightarrow>
     validate_wire h c m = Inr () \<and> pm_fence m = fence \<and> pm_parent_ref m = parent \<and>
     (\<forall>p. parent = Some p \<longrightarrow> sr_corpus_id p = sr_corpus_id (pm_snapshot_ref m) \<and>
        sr_sequence p < sr_sequence (pm_snapshot_ref m)) \<and>
     m_corpus_id (pm_meta m) = sr_corpus_id (pm_snapshot_ref m) \<and> pm_report_valid m \<and>
     SEVERITY_ERROR \<notin> set (pm_report_issues m) \<and>
     distinct (map bg_backend (pm_backend_generations m)) \<and> distinct (map br_backend (pm_acknowledgements m)) \<and>
     bg_backend ` set (pm_backend_generations m) = br_backend ` set (pm_acknowledgements m) \<and>
     (\<forall>r \<in> set (pm_acknowledgements m). \<forall>g \<in> set (pm_backend_generations m).
        bg_backend g = br_backend r \<longrightarrow> receipt_matches (m_record_id (pm_meta m)) fence g r)"
  by (rule publication_ready)

lemma containsStage_iff: "containsStage stages s \<longleftrightarrow> s \<in> set stages"
  by (induction stages) auto

lemma bind_outputs_iff:
  "bind_outputs ks hs as \<longleftrightarrow> map ar_artifact_id as = ks \<and> map ar_content_hash as = map Some hs"
proof (induction ks hs as rule: bind_outputs.induct)
  case (1 k ks h hs a as)
  then show ?case by auto
qed auto

text \<open>
  A worker response that passes the guard answers this attempt of this job under the
  current fence. Its checkpoint, if any, belongs to the same job, fence and corpus, is of a
  requested stage, has the status of the response, and lists the identifiers and hashes of the
  returned artifacts exactly and in order. Every kind of output was asked for by a requested
  stage, and a success has output and no errors.
\<close>

theorem VerifyWorkerResponse_sound:
  assumes "VerifyWorkerResponse h cq cs req res = Inr ()"
  shows "ps_job_id res = pq_job_id req \<and> ps_attempt res = pq_attempt req \<and> ps_fence res = pq_lease_fence req \<and>
    ps_request_id res = pq_request_id req \<and>
    (\<forall>ck. ps_checkpoint res = Some ck \<longrightarrow>
       ck_job_id ck = pq_job_id req \<and> ck_fence ck = pq_lease_fence req \<and>
       map_option m_corpus_id (ck_meta ck) = Some (pq_corpus_id req) \<and> ck_stage ck \<in> set (pq_stages req) \<and>
       ck_terminal_status ck = ps_status res \<and> ps_status res \<noteq> COMPLETION_STATUS_UNSPECIFIED \<and>
       ck_completed_batch_keys ck = map ar_artifact_id (responseArtifacts res) \<and>
       map Some (ck_artifact_hashes ck) = map ar_content_hash (responseArtifacts res)) \<and>
    (ps_document_batch res \<noteq> None \<longrightarrow>
       set (pq_stages req) \<inter> {JOB_STAGE_PARSE, JOB_STAGE_STRUCTURE, JOB_STAGE_CHUNK} \<noteq> {}) \<and>
    (ps_graph_delta res \<noteq> None \<longrightarrow> JOB_STAGE_ASSEMBLE \<in> set (pq_stages req)) \<and>
    (ps_index_batch res \<noteq> None \<longrightarrow> JOB_STAGE_INDEX \<in> set (pq_stages req)) \<and>
    (ps_extraction_batch res \<noteq> None \<longrightarrow> JOB_STAGE_EXTRACT \<in> set (pq_stages req)) \<and>
    (ps_resolution_batch res \<noteq> None \<longrightarrow> JOB_STAGE_RESOLVE \<in> set (pq_stages req)) \<and>
    (ps_status res = COMPLETION_STATUS_SUCCEEDED \<longrightarrow> ps_errors res = [] \<and> responseArtifacts res \<noteq> [])"
proof -
  have head: "pq_request_id req = ps_request_id res" "pq_job_id req = ps_job_id res"
    "pq_attempt req = ps_attempt res" "pq_lease_fence req = ps_fence res"
    and ck: "(case ps_checkpoint res of None \<Rightarrow> Inr () | Some ck \<Rightarrow> check_checkpoint req res ck) = Inr ()"
    and out: "check_outputs req res = Inr ()"
    using assms by (simp_all add: VerifyWorkerResponse_def bind_result_Inr_iff guard_Inr_iff)
  have "\<forall>ck. ps_checkpoint res = Some ck \<longrightarrow>
       ck_job_id ck = pq_job_id req \<and> ck_fence ck = pq_lease_fence req \<and>
       map_option m_corpus_id (ck_meta ck) = Some (pq_corpus_id req) \<and> ck_stage ck \<in> set (pq_stages req) \<and>
       ck_terminal_status ck = ps_status res \<and> ps_status res \<noteq> COMPLETION_STATUS_UNSPECIFIED \<and>
       ck_completed_batch_keys ck = map ar_artifact_id (responseArtifacts res) \<and>
       map Some (ck_artifact_hashes ck) = map ar_content_hash (responseArtifacts res)"
  proof (intro allI impI)
    fix k
    assume "ps_checkpoint res = Some k"
    with ck have "check_checkpoint req res k = Inr ()" by simp
    then show "ck_job_id k = pq_job_id req \<and> ck_fence k = pq_lease_fence req \<and>
       map_option m_corpus_id (ck_meta k) = Some (pq_corpus_id req) \<and> ck_stage k \<in> set (pq_stages req) \<and>
       ck_terminal_status k = ps_status res \<and> ps_status res \<noteq> COMPLETION_STATUS_UNSPECIFIED \<and>
       ck_completed_batch_keys k = map ar_artifact_id (responseArtifacts res) \<and>
       map Some (ck_artifact_hashes k) = map ar_content_hash (responseArtifacts res)"
      unfolding check_checkpoint_def containsStage_iff bind_outputs_iff guard_Inr_iff by metis
  qed
  moreover have "ps_status res = COMPLETION_STATUS_SUCCEEDED \<longrightarrow> ps_errors res = [] \<and> responseArtifacts res \<noteq> []"
    using out unfolding check_outputs_def guard_Inr_iff by (auto simp: responseArtifacts_def)
  moreover have "(ps_document_batch res \<noteq> None \<longrightarrow>
       set (pq_stages req) \<inter> {JOB_STAGE_PARSE, JOB_STAGE_STRUCTURE, JOB_STAGE_CHUNK} \<noteq> {}) \<and>
    (ps_graph_delta res \<noteq> None \<longrightarrow> JOB_STAGE_ASSEMBLE \<in> set (pq_stages req)) \<and>
    (ps_index_batch res \<noteq> None \<longrightarrow> JOB_STAGE_INDEX \<in> set (pq_stages req)) \<and>
    (ps_extraction_batch res \<noteq> None \<longrightarrow> JOB_STAGE_EXTRACT \<in> set (pq_stages req)) \<and>
    (ps_resolution_batch res \<noteq> None \<longrightarrow> JOB_STAGE_RESOLVE \<in> set (pq_stages req))"
    using out unfolding check_outputs_def containsStage_iff guard_Inr_iff by blast
  ultimately show ?thesis using head by simp
qed

section \<open>Streams\<close>

definition new_stream :: AnswerStreamValidator where
  "new_stream = \<lparr>RequestID = [], Sequence = 0, Terminal = False\<rparr>"

fun accept_all ::
    "host \<Rightarrow> answer_event codec \<Rightarrow> AnswerStreamValidator \<Rightarrow> answer_event list \<Rightarrow> AnswerStreamValidator result" where
  "accept_all h c s [] = Inr s"
| "accept_all h c s (e # es) = bind_result (Accept h c s e) (\<lambda>s'. accept_all h c s' es)"

lemma Accept_Inr_iff:
  "Accept h c s e = Inr s' \<longleftrightarrow>
     \<not> Terminal s \<and> validate_wire h c e = Inr () \<and> (RequestID s = [] \<or> RequestID s = ae_request_id e) \<and>
     ae_stream_sequence e = Sequence s + 1 \<and>
     s' = \<lparr>RequestID = ae_request_id e, Sequence = ae_stream_sequence e, Terminal = is_terminal (ae_kind e)\<rparr>"
  by (auto simp: Accept_def bind_result_Inr_iff split: if_splits)

text \<open>The events of a stream after a state: consecutive numbers, one request, nothing after the end.\<close>

fun stream_ok :: "string \<Rightarrow> 64 word \<Rightarrow> answer_event list \<Rightarrow> bool" where
  "stream_ok request n [] = False"
| "stream_ok request n (e # es) =
     ((request = [] \<or> request = ae_request_id e) \<and> ae_stream_sequence e = n + 1 \<and>
      (if is_terminal (ae_kind e) then es = [] else stream_ok (ae_request_id e) (n + 1) es))"

lemma accept_all_terminal: "Terminal s \<Longrightarrow> accept_all h c s es = Inr s' \<longleftrightarrow> es = [] \<and> s' = s"
  by (cases es) (auto simp: bind_result_Inr_iff Accept_Inr_iff)

lemma accept_all_iff:
  "\<not> Terminal s \<Longrightarrow>
     (\<exists>s'. accept_all h c s es = Inr s' \<and> Finish s' = Inr ()) \<longleftrightarrow>
     list_all (\<lambda>e. validate_wire h c e = Inr ()) es \<and> stream_ok (RequestID s) (Sequence s) es"
proof (induction es arbitrary: s)
  case Nil
  then show ?case by (simp add: Finish_def)
next
  case (Cons e es)
  show ?case
  proof (cases "is_terminal (ae_kind e)")
    case True
    then show ?thesis using Cons.prems
      by (auto simp: bind_result_Inr_iff Accept_Inr_iff accept_all_terminal Finish_def)
  next
    case False
    then show ?thesis using Cons.prems
        Cons.IH [of "\<lparr>RequestID = ae_request_id e, Sequence = ae_stream_sequence e, Terminal = False\<rparr>"]
      by (auto simp: bind_result_Inr_iff Accept_Inr_iff)
  qed
qed

lemma stream_ok_nth:
  assumes "stream_ok request n es" "i < length es"
  shows "ae_stream_sequence (es ! i) = n + word_of_nat (i + 1) \<and>
    (is_terminal (ae_kind (es ! i)) \<longleftrightarrow> i = length es - 1)"
  using assms
proof (induction es arbitrary: request n i)
  case (Cons e es)
  show ?case
  proof (cases i)
    case 0
    with Cons.prems show ?thesis by (cases es) (auto split: if_splits)
  next
    case (Suc j)
    with Cons.prems have ok: "stream_ok (ae_request_id e) (n + 1) es" "j < length es" "\<not> is_terminal (ae_kind e)"
      by (auto split: if_splits)
    from Cons.IH [OF ok(1,2)] ok(2) Suc show ?thesis by (auto simp: add.assoc)
  qed
qed simp

lemma stream_ok_request:
  assumes "stream_ok request n es" "request \<noteq> []"
  shows "\<forall>e \<in> set es. ae_request_id e = request"
  using assms by (induction es arbitrary: n) (auto split: if_splits)

text \<open>
  A validator that starts fresh and sees its stream end accepts exactly the sequences of
  valid events that are numbered consecutively from one, belong to one request, and have a
  terminal event in the last place and nowhere else.
\<close>

theorem stream_accepted_iff:
  "(\<exists>s. accept_all h c new_stream es = Inr s \<and> Finish s = Inr ()) \<longleftrightarrow>
     list_all (\<lambda>e. validate_wire h c e = Inr ()) es \<and> stream_ok [] 0 es"
  using accept_all_iff [of new_stream h c es] by (simp add: new_stream_def)

text \<open>
  In an accepted stream the event at position \<open>i\<close> has number \<open>i + 1\<close>, exactly the last
  event is terminal, and all events carry the request of the first one when that is not empty.
\<close>

theorem stream_accepted_order:
  assumes "accept_all h c new_stream es = Inr s" and "Finish s = Inr ()" and "i < length es"
  shows "ae_stream_sequence (es ! i) = word_of_nat (i + 1) \<and>
    (is_terminal (ae_kind (es ! i)) \<longleftrightarrow> i = length es - 1) \<and>
    (ae_request_id (es ! 0) \<noteq> [] \<longrightarrow> ae_request_id (es ! i) = ae_request_id (es ! 0))"
proof -
  have ok: "stream_ok [] 0 es" using accept_all_iff [of new_stream h c es] assms(1,2) by (auto simp: new_stream_def)
  obtain e rest where es: "es = e # rest" using assms(3) by (cases es) auto
  have "ae_request_id x = ae_request_id e" if "x \<in> set rest" "ae_request_id e \<noteq> []" for x
    using ok stream_ok_request [of "ae_request_id e" "ae_stream_sequence e" rest] that
    by (auto simp: es split: if_splits)
  then have "ae_request_id (es ! 0) \<noteq> [] \<longrightarrow> ae_request_id (es ! i) = ae_request_id (es ! 0)"
    using assms(3) nth_mem [OF assms(3)] by (auto simp: es)
  then show ?thesis using stream_ok_nth [OF ok assms(3)] by simp
qed

section \<open>Concrete responses\<close>

definition bx_host :: host where
  "bx_host = \<lparr>sha256hex = (\<lambda>_. []), url_parse = (\<lambda>_. None), to_lower = (\<lambda>r. r)\<rparr>"

definition bx_codec :: "'m \<Rightarrow> 'm codec" where
  "bx_codec m = \<lparr>c_marshal = (\<lambda>_. []), c_unmarshal = (\<lambda>_. Some m),
     c_reflect = (\<lambda>_. WireMessage ''regulagraph.v1.Message'' [] [] SemOther), c_size = (\<lambda>_. 1)\<rparr>"

definition bx_artifact :: artifact_ref where
  "bx_artifact = \<lparr>ar_artifact_id = ''a'', ar_content_hash = Some ''hash'', ar_storage_key = ''k'', ar_byte_size = 1, ar_media_type = [], ar_schema_version = 1\<rparr>"

definition bx_request :: process_batch_request where
  "bx_request = \<lparr>pq_request_id = ''r'', pq_corpus_id = ''c'', pq_job_id = ''j'', pq_attempt = 1, pq_lease_fence = 4,
     pq_stages = [JOB_STAGE_PARSE], pq_rest = []\<rparr>"

definition bx_checkpoint :: checkpoint where
  "bx_checkpoint = \<lparr>ck_meta = Some \<lparr>m_schema_version = 1, m_corpus_id = ''c'', m_record_id = ''cp'', m_visibility = None\<rparr>,
     ck_job_id = ''j'', ck_stage = JOB_STAGE_PARSE, ck_completed_batch_keys = [''a''], ck_artifact_hashes = [''hash''],
     ck_fence = 4, ck_terminal_status = COMPLETION_STATUS_SUCCEEDED, ck_manifest = None\<rparr>"

definition bx_response :: process_batch_response where
  "bx_response = \<lparr>ps_request_id = ''r'', ps_job_id = ''j'', ps_attempt = 1, ps_fence = 4, ps_checkpoint = Some bx_checkpoint,
     ps_document_batch = Some bx_artifact, ps_graph_delta = None, ps_index_batch = None, ps_extraction_batch = None,
     ps_resolution_batch = None, ps_status = COMPLETION_STATUS_SUCCEEDED, ps_errors = []\<rparr>"

theorem VerifyWorkerResponse_sound_witness:
  "VerifyWorkerResponse bx_host (bx_codec bx_request) (bx_codec bx_response) bx_request bx_response = Inr () \<and>
   ps_fence bx_response = pq_lease_fence bx_request \<and>
   ck_completed_batch_keys bx_checkpoint = map ar_artifact_id (responseArtifacts bx_response)"
proof -
  have v: "VerifyWorkerResponse bx_host (bx_codec bx_request) (bx_codec bx_response) bx_request bx_response = Inr ()"
    "ps_checkpoint bx_response = Some bx_checkpoint"
    by code_simp+
  from VerifyWorkerResponse_sound [OF v(1)] v show ?thesis by blast
qed

definition bx_events :: "answer_event list" where
  "bx_events = [\<lparr>ae_request_id = ''r'', ae_stream_sequence = 1, ae_kind = Delta ''x''\<rparr>,
     \<lparr>ae_request_id = ''r'', ae_stream_sequence = 2, ae_kind = Final ''x''\<rparr>]"

theorem stream_accepted_order_witness:
  "\<exists>s. accept_all bx_host (bx_codec (hd bx_events)) new_stream bx_events = Inr s \<and>
     ae_stream_sequence (bx_events ! 1) = word_of_nat (1 + 1) \<and> is_terminal (ae_kind (bx_events ! 1))"
proof -
  have a: "accept_all bx_host (bx_codec (hd bx_events)) new_stream bx_events =
      Inr \<lparr>RequestID = ''r'', Sequence = 2, Terminal = True\<rparr>"
    "Finish \<lparr>RequestID = ''r'', Sequence = 2, Terminal = True\<rparr> = Inr ()" "1 < length bx_events"
    "1 = length bx_events - 1"
    by code_simp+
  from stream_accepted_order [OF a(1-3)] a show ?thesis by blast
qed

definition bx_counts :: counts where
  "bx_counts = \<lparr>n_expected = 3, n_accepted = 3, n_rejected = 0\<rparr>"

definition bx_manifest :: publication_manifest where
  "bx_manifest = \<lparr>pm_meta = \<lparr>m_schema_version = 1, m_corpus_id = ''c'', m_record_id = ''p'', m_visibility = None\<rparr>,
     pm_snapshot_ref = \<lparr>sr_corpus_id = ''c'', sr_snapshot_id = ''s'', sr_sequence = 1, sr_manifest_hash = ''m'',
       sr_representation_generation = ''g''\<rparr>,
     pm_parent_ref = None,
     pm_backend_generations = [\<lparr>bg_backend = BACKEND_KIND_QDRANT, bg_generation = ''g'', bg_expected_counts = bx_counts,
       bg_operations_checksum = ''o''\<rparr>],
     pm_acknowledgements = [\<lparr>br_publication_id = ''p'', br_backend = BACKEND_KIND_QDRANT, br_generation = ''g'',
       br_operations_checksum = ''o'', br_counts = bx_counts, br_durable_ack = True, br_search_ready = True, br_fence = 2\<rparr>],
     pm_report_valid = True, pm_report_issues = [], pm_fence = 2, pm_rest = []\<rparr>"

theorem VerifyPublicationReady_iff_witness:
  "VerifyPublicationReady bx_host (bx_codec bx_manifest) bx_manifest None 2 = Inr () \<and>
   bg_backend ` set (pm_backend_generations bx_manifest) = br_backend ` set (pm_acknowledgements bx_manifest)"
proof -
  have v: "VerifyPublicationReady bx_host (bx_codec bx_manifest) bx_manifest None 2 = Inr ()" by code_simp
  with VerifyPublicationReady_iff [of bx_host "bx_codec bx_manifest" bx_manifest None 2] show ?thesis by blast
qed

end
