(* ===== verification/Publication.thy ===== *)
theory Publication
  imports Jobs Boundaries
begin

text \<open>
  The publication ledger of \<open>adapters/postgres/publication.go\<close>: reservation of a snapshot slot,
  staging of its manifest, backend receipts, commit with compare and swap of the active snapshot,
  abort, backend operations and read pins, with the checks of \<open>index_publication.go\<close> and
  \<open>index_source_bindings.go\<close> that run inside these transactions. A transaction is one definition;
  on an error it leaves the tables as they were. The checks of the graph and of index reuse, which
  only read, are arguments of the commit.
\<close>

section \<open>Reservation\<close>

record PublicationReservation =
  pr_publication_id :: string
  pr_job_id :: string
  pr_corpus_id :: string
  pr_snapshot_id :: string
  pr_parent_snapshot_id :: string
  pr_sequence :: nat
  pr_fence :: nat
  pr_state :: snapshot_state

definition reservation_of :: "snapshot_row \<Rightarrow> PublicationReservation" where
  "reservation_of s = \<lparr>pr_publication_id = s_publication_id s, pr_job_id = null_string (s_job_id s),
     pr_corpus_id = s_corpus_id s, pr_snapshot_id = s_snapshot_id s,
     pr_parent_snapshot_id = null_string (s_parent_snapshot_id s), pr_sequence = s_sequence s,
     pr_fence = s_fence s, pr_state = s_state s\<rparr>"

text \<open>The states that the partial unique index \<open>snapshots_one_open_publication\<close> covers.\<close>

definition open_states :: "snapshot_state set" where
  "open_states = {SNAPSHOT_STATE_STAGING, SNAPSHOT_STATE_VALIDATING, SNAPSHOT_STATE_READY, SNAPSHOT_STATE_ABORTING}"

text \<open>The insert with the constraints of the table.\<close>

definition insert_snapshot :: "snapshot_row \<Rightarrow> db \<Rightarrow> db result" where
  "insert_snapshot s d =
     (if snapshot_of d (s_snapshot_id s) \<noteq> None then Inl (DbError ''snapshots_pkey'')
      else if publication_of d (s_publication_id s) \<noteq> None then Inl (DbError ''snapshots_publication_id_key'')
      else if list_ex (\<lambda>t. s_corpus_id t = s_corpus_id s \<and> s_sequence t = s_sequence s) (snapshots d)
      then Inl (DbError ''snapshots_corpus_id_sequence_key'')
      else if s_state s \<in> open_states \<and>
              list_ex (\<lambda>t. s_corpus_id t = s_corpus_id s \<and> s_state t \<in> open_states) (snapshots d)
      then Inl (DbError ''snapshots_one_open_publication'')
      else if (case s_parent_snapshot_id s of None \<Rightarrow> False | Some p \<Rightarrow> snapshot_of d p = None)
      then Inl (DbError ''snapshots_parent_snapshot_id_fkey'')
      else if (case s_job_id s of None \<Rightarrow> False | Some j \<Rightarrow> job_of d j = None)
      then Inl (DbError ''snapshots_job_id_fkey'')
      else Inr (d\<lparr>snapshots := snapshots d @ [s]\<rparr>))"

definition publication_job_ok :: "string \<Rightarrow> string \<Rightarrow> db \<Rightarrow> unit result" where
  "publication_job_ok job corpus d =
     (if job = [] then Inr ()
      else case job_of d job of
        None \<Rightarrow> Inl ErrNotFound
      | Some r \<Rightarrow>
          if j_corpus_id r \<noteq> corpus then Inl (Wrap ''publication job belongs to another corpus'' ErrConflict)
          else if j_cancellation_requested r \<or>
                  j_state r \<notin> {JOB_STATE_STAGED, JOB_STATE_VALIDATING, JOB_STATE_PUBLISHING}
          then Inl (Wrap ''publication job is not in a publishable state'' ErrConflict)
          else Inr ())"

definition update_corpus :: "string \<Rightarrow> (corpus_row \<Rightarrow> corpus_row) \<Rightarrow> db \<Rightarrow> db" where
  "update_corpus c f d = d\<lparr>corpus_state := update_row co_corpus_id c f (corpus_state d)\<rparr>"

definition update_snapshot :: "string \<Rightarrow> (snapshot_row \<Rightarrow> snapshot_row) \<Rightarrow> db \<Rightarrow> db" where
  "update_snapshot p f d = d\<lparr>snapshots := update_row s_publication_id p f (snapshots d)\<rparr>"

definition reserved_row :: "string \<Rightarrow> string \<Rightarrow> string \<Rightarrow> string \<Rightarrow> corpus_row \<Rightarrow> snapshot_row" where
  "reserved_row publication job snapshot parent c =
     \<lparr>s_snapshot_id = snapshot, s_corpus_id = co_corpus_id c, s_sequence = co_next_snapshot_sequence c,
      s_parent_snapshot_id = nullif_empty parent, s_publication_id = publication, s_job_id = nullif_empty job,
      s_fence = co_publisher_fence c + 1, s_state = SNAPSHOT_STATE_STAGING, s_manifest_payload = None,
      s_manifest_hash = None, s_representation_generation = None\<rparr>"

definition reserve_slot ::
    "string \<Rightarrow> string \<Rightarrow> string \<Rightarrow> string \<Rightarrow> corpus_row \<Rightarrow> db \<Rightarrow> db result" where
  "reserve_slot publication job snapshot parent c d =
     (case insert_snapshot (reserved_row publication job snapshot parent c)
             (update_corpus (co_corpus_id c)
               (\<lambda>c. c\<lparr>co_next_snapshot_sequence := co_next_snapshot_sequence c + 1,
                      co_publisher_fence := co_publisher_fence c + 1\<rparr>) d) of
        Inl e \<Rightarrow> Inl (Wrap ''reserve snapshot'' e)
      | Inr d' \<Rightarrow> Inr d')"

definition ReservePublication ::
    "string \<Rightarrow> string \<Rightarrow> string \<Rightarrow> string \<Rightarrow> string \<Rightarrow> db \<Rightarrow> PublicationReservation result \<times> db" where
  "ReservePublication publication job corpus snapshot expectedParent d =
     (if \<not> storageIDPattern publication \<or> \<not> storageIDPattern corpus \<or> \<not> storageIDPattern snapshot \<or>
         job \<noteq> [] \<and> \<not> storageIDPattern job
      then (Inl (Err ''invalid publication reservation identifiers''), d)
      else case publication_of d publication of
        Some s \<Rightarrow>
          if null_string (s_job_id s) \<noteq> job \<or> s_corpus_id s \<noteq> corpus \<or> s_snapshot_id s \<noteq> snapshot \<or>
             null_string (s_parent_snapshot_id s) \<noteq> expectedParent
          then (Inl (Wrap ''publication id reused with different reservation'' ErrConflict), d)
          else (Inr (reservation_of s), d)
      | None \<Rightarrow>
          (case ensure_corpus corpus d of
             Inl e \<Rightarrow> (Inl (Wrap ''ensure publication corpus'' e), d)
           | Inr d1 \<Rightarrow>
               (case publication_job_ok job corpus d1 of
                  Inl e \<Rightarrow> (Inl e, d)
                | Inr _ \<Rightarrow>
                    (case corpus_of d1 corpus of
                       None \<Rightarrow> (Inl (Wrap ''lock corpus publisher'' (DbError ''no rows in result set'')), d)
                     | Some c \<Rightarrow>
                         if null_string (co_active_snapshot_id c) \<noteq> expectedParent
                         then (Inl ErrSnapshotCASConflict, d)
                         else (case reserve_slot publication job snapshot expectedParent c d1 of
                            Inl e \<Rightarrow> (Inl e, d)
                          | Inr d2 \<Rightarrow>
                              (Inr (reservation_of (reserved_row publication job snapshot expectedParent c)), d2))))))"

section \<open>Staging\<close>

definition verifyIndexSourceSnapshot ::
    "host \<Rightarrow> snapshot_ref codec \<Rightarrow> string \<Rightarrow> snapshot_ref \<Rightarrow> db \<Rightarrow> unit result" where
  "verifyIndexSourceSnapshot h c publication snapshot d =
     (case row_of is_publication_id publication (index_source_snapshots d) of
        None \<Rightarrow> Inr ()
      | Some r \<Rightarrow>
          if is_snapshot_hash r \<noteq> sha256hex h (is_snapshot_payload r) then Inl ErrPersistentIntegrity
          else bind_result (DecodeWire h c (is_snapshot_payload r) DefaultWireLimits) (\<lambda>stored.
            if stored \<noteq> snapshot then Inl ErrConflict else Inr ()))"

text \<open>The parent that the manifest names is the published snapshot of that name.\<close>

definition parent_authoritative :: "snapshot_ref \<Rightarrow> string \<Rightarrow> db \<Rightarrow> unit result" where
  "parent_authoritative parent parentID d =
     (case snapshot_of d parentID of
        None \<Rightarrow> Inl (Wrap ''load authoritative parent snapshot'' (DbError ''no rows in result set''))
      | Some s \<Rightarrow>
          (case (s_manifest_hash s, s_representation_generation s) of
             (Some hash, Some generation) \<Rightarrow>
               if s_corpus_id s \<noteq> sr_corpus_id parent \<or> s_sequence s \<noteq> sr_sequence parent \<or>
                  hash \<noteq> sr_manifest_hash parent \<or> generation \<noteq> sr_representation_generation parent \<or>
                  s_state s \<noteq> SNAPSHOT_STATE_PUBLISHED
               then Inl (Wrap ''publication parent reference is not authoritative'' ErrConflict)
               else Inr ()
           | _ \<Rightarrow> Inl (Wrap ''load authoritative parent snapshot'' (DbError ''cannot scan NULL into *string''))))"

fun stage_backends :: "string \<Rightarrow> backend_generation list \<Rightarrow> db \<Rightarrow> db result" where
  "stage_backends publication [] d = Inr d"
| "stage_backends publication (g # gs) d =
     (if int (n_expected (bg_expected_counts g)) > 9223372036854775807
      then Inl (Err ''backend expected count exceeds PostgreSQL bigint'')
      else if bg_backend g = BACKEND_KIND_UNSPECIFIED \<or> \<not> sha256Pattern (bg_operations_checksum g)
      then Inl (Wrap ''stage backend generation'' (DbError ''publication_backends_check''))
      else if list_ex (\<lambda>b. b_publication_id b = publication \<and> b_backend b = bg_backend g) (publication_backends d)
      then Inl (Wrap ''stage backend generation'' (DbError ''publication_backends_pkey''))
      else stage_backends publication gs
        (d\<lparr>publication_backends := publication_backends d @
             [\<lparr>b_publication_id = publication, b_backend = bg_backend g, b_generation = bg_generation g,
               b_operations_checksum = bg_operations_checksum g, b_expected_count = n_expected (bg_expected_counts g)\<rparr>]\<rparr>))"

definition staged_row :: "host \<Rightarrow> publication_manifest codec \<Rightarrow> publication_manifest \<Rightarrow> snapshot_row \<Rightarrow> snapshot_row" where
  "staged_row h c manifest s =
     s\<lparr>s_state := SNAPSHOT_STATE_VALIDATING, s_manifest_payload := Some (c_marshal c manifest),
       s_manifest_hash := Some (sr_manifest_hash (pm_snapshot_ref manifest)),
       s_representation_generation := Some (sr_representation_generation (pm_snapshot_ref manifest))\<rparr>"

definition unmarshalManifest :: "publication_manifest codec \<Rightarrow> string \<Rightarrow> publication_manifest result" where
  "unmarshalManifest c payload =
     (case c_unmarshal c payload of
        None \<Rightarrow> Inl (Wrap ''database contains corrupt publication manifest'' (Err ''proto: cannot parse''))
      | Some m \<Rightarrow> Inr m)"

definition unmarshalReceipt :: "backend_receipt codec \<Rightarrow> string \<Rightarrow> backend_receipt result" where
  "unmarshalReceipt c payload =
     (case c_unmarshal c payload of
        None \<Rightarrow> Inl (Wrap ''database contains corrupt backend receipt'' (Err ''proto: cannot parse''))
      | Some m \<Rightarrow> Inr m)"

definition parent_id :: "publication_manifest \<Rightarrow> string" where
  "parent_id manifest = (case pm_parent_ref manifest of None \<Rightarrow> [] | Some p \<Rightarrow> sr_snapshot_id p)"

definition stage_tx ::
    "host \<Rightarrow> publication_manifest codec \<Rightarrow> snapshot_ref codec \<Rightarrow> publication_manifest \<Rightarrow> snapshot_row \<Rightarrow> db \<Rightarrow> db result" where
  "stage_tx h c cs manifest s d =
     (let publication = m_record_id (pm_meta manifest); ref = pm_snapshot_ref manifest in
      if s_state s \<notin> {SNAPSHOT_STATE_STAGING, SNAPSHOT_STATE_VALIDATING}
      then Inl (Wrap ''cannot stage terminal or publishing snapshot'' ErrConflict)
      else if s_corpus_id s \<noteq> m_corpus_id (pm_meta manifest) \<or> s_snapshot_id s \<noteq> sr_snapshot_id ref \<or>
              s_sequence s \<noteq> sr_sequence ref \<or> s_fence s \<noteq> pm_fence manifest \<or>
              null_string (s_parent_snapshot_id s) \<noteq> parent_id manifest
      then Inl (Wrap ''manifest differs from reserved slot'' ErrConflict)
      else bind_result
        (case pm_parent_ref manifest of None \<Rightarrow> Inr () | Some p \<Rightarrow> parent_authoritative p (parent_id manifest) d) (\<lambda>_.
      case s_manifest_payload s of
        Some existing \<Rightarrow>
          bind_result (unmarshalManifest c existing) (\<lambda>stored.
            if manifest \<noteq> stored then Inl (Wrap ''publication already staged with different manifest'' ErrConflict)
            else Inr d)
      | None \<Rightarrow>
          (case verifyIndexSourceSnapshot h cs publication ref d of
             Inl e \<Rightarrow> Inl (Wrap ''publication differs from bound source snapshot'' e)
           | Inr _ \<Rightarrow>
               bind_result (stage_backends publication (pm_backend_generations manifest) d) (\<lambda>d'.
               Inr (update_snapshot publication (staged_row h c manifest) d')))))"

definition StagePublication ::
    "host \<Rightarrow> publication_manifest codec \<Rightarrow> snapshot_ref codec \<Rightarrow> publication_manifest option \<Rightarrow> db \<Rightarrow> unit result \<times> db" where
  "StagePublication h c cs manifest d =
     (case manifest of
        None \<Rightarrow> (Inl (Err ''staged publication requires a manifest without acknowledgements''), d)
      | Some m \<Rightarrow>
          if pm_acknowledgements m \<noteq> []
          then (Inl (Err ''staged publication requires a manifest without acknowledgements''), d)
          else (case validate_wire h c m of
             Inl e \<Rightarrow> (Inl (Wrap ''validate staged publication'' e), d)
           | Inr _ \<Rightarrow>
               (case publication_of d (m_record_id (pm_meta m)) of
                  None \<Rightarrow> (Inl ErrNotFound, d)
                | Some s \<Rightarrow>
                    (case stage_tx h c cs m s d of Inl e \<Rightarrow> (Inl e, d) | Inr d' \<Rightarrow> (Inr (), d')))))"

section \<open>Receipts\<close>

definition recordBackendReceiptTx ::
    "host \<Rightarrow> backend_receipt codec \<Rightarrow> backend_receipt option \<Rightarrow> db \<Rightarrow> db result" where
  "recordBackendReceiptTx h c receipt d =
     (case receipt of
        None \<Rightarrow> Inl (Err ''backend receipt is required'')
      | Some r \<Rightarrow>
          (case validate_wire h c r of
             Inl e \<Rightarrow> Inl (Wrap ''validate backend receipt'' e)
           | Inr _ \<Rightarrow>
               if \<not> br_durable_ack r \<or> \<not> br_search_ready r \<or>
                  n_accepted (br_counts r) \<noteq> n_expected (br_counts r) \<or> n_rejected (br_counts r) \<noteq> 0
               then Inl ErrPublicationNotReady
               else (case (find (\<lambda>b. b_publication_id b = br_publication_id r \<and> b_backend b = br_backend r)
                             (publication_backends d), publication_of d (br_publication_id r)) of
                  (Some b, Some s) \<Rightarrow>
                    if s_state s \<notin> {SNAPSHOT_STATE_VALIDATING, SNAPSHOT_STATE_PUBLISHED}
                    then Inl (Wrap ''snapshot does not accept backend receipts'' ErrConflict)
                    else if b_generation b \<noteq> br_generation r \<or> b_operations_checksum b \<noteq> br_operations_checksum r \<or>
                            b_expected_count b \<noteq> n_expected (br_counts r) \<or> s_fence s \<noteq> br_fence r
                    then Inl ErrStaleFence
                    else (case find (\<lambda>x. rc_publication_id x = br_publication_id r \<and> rc_backend x = br_backend r)
                                 (backend_receipts d) of
                       None \<Rightarrow> Inr (d\<lparr>backend_receipts := backend_receipts d @
                         [\<lparr>rc_publication_id = br_publication_id r, rc_backend = br_backend r, rc_payload = c_marshal c r\<rparr>]\<rparr>)
                     | Some x \<Rightarrow>
                         bind_result (unmarshalReceipt c (rc_payload x)) (\<lambda>stored.
                           if r \<noteq> stored then Inl (Wrap ''backend receipt changed after acknowledgement'' ErrConflict)
                           else Inr d))
                | _ \<Rightarrow> Inl ErrNotFound)))"

definition RecordBackendReceipt ::
    "host \<Rightarrow> backend_receipt codec \<Rightarrow> backend_receipt option \<Rightarrow> db \<Rightarrow> unit result \<times> db" where
  "RecordBackendReceipt h c receipt d =
     (case recordBackendReceiptTx h c receipt d of Inl e \<Rightarrow> (Inl e, d) | Inr d' \<Rightarrow> (Inr (), d'))"

section \<open>Commit\<close>

primrec backend_number :: "backend_kind \<Rightarrow> nat" where
  "backend_number BACKEND_KIND_UNSPECIFIED = 0"
| "backend_number BACKEND_KIND_POSTGRES = 1"
| "backend_number BACKEND_KIND_NEO4J = 2"
| "backend_number BACKEND_KIND_QDRANT = 3"
| "backend_number BACKEND_KIND_ARTIFACTS = 4"

fun decode_receipts :: "backend_receipt codec \<Rightarrow> receipt_row list \<Rightarrow> backend_receipt list result" where
  "decode_receipts c [] = Inr []"
| "decode_receipts c (r # rs) =
     bind_result (unmarshalReceipt c (rc_payload r)) (\<lambda>x. bind_result (decode_receipts c rs) (\<lambda>xs. Inr (x # xs)))"

definition load_receipts :: "backend_receipt codec \<Rightarrow> string \<Rightarrow> db \<Rightarrow> backend_receipt list result" where
  "load_receipts c publication d =
     decode_receipts c (sort_key (\<lambda>r. backend_number (rc_backend r))
       (filter (\<lambda>r. rc_publication_id r = publication) (backend_receipts d)))"

definition loadSnapshotRef :: "string \<Rightarrow> db \<Rightarrow> snapshot_ref result" where
  "loadSnapshotRef snapshotID d =
     (case snapshot_of d snapshotID of
        None \<Rightarrow> Inl ErrNotFound
      | Some s \<Rightarrow>
          (case (s_manifest_hash s, s_representation_generation s) of
             (Some hash, Some generation) \<Rightarrow>
               if s_state s \<noteq> SNAPSHOT_STATE_PUBLISHED \<or> hash = [] \<or> generation = []
               then Inl ErrPublicationNotReady
               else Inr \<lparr>sr_corpus_id = s_corpus_id s, sr_snapshot_id = snapshotID, sr_sequence = s_sequence s,
                          sr_manifest_hash = hash, sr_representation_generation = generation\<rparr>
           | _ \<Rightarrow> Inl (Wrap ''load snapshot reference'' (DbError ''cannot scan NULL into *string''))))"

definition loadSnapshotRefTx :: "string \<Rightarrow> db \<Rightarrow> snapshot_ref option result" where
  "loadSnapshotRefTx snapshotID d =
     (if snapshotID = [] then Inr None else bind_result (loadSnapshotRef snapshotID d) (\<lambda>r. Inr (Some r)))"

text \<open>
  \<open>locked\<close>: job rows that another transaction holds (\<open>NOWAIT\<close>). The children are the assigned
  jobs; the sources of the assignments are only checked for cancellation.
\<close>

definition index_children :: "string \<Rightarrow> db \<Rightarrow> string set" where
  "index_children publication d =
     ia_job_id ` set (filter (\<lambda>a. ia_publication_id a = publication) (index_job_assignments d))"

definition index_members :: "string \<Rightarrow> db \<Rightarrow> string set" where
  "index_members publication d = index_children publication d \<union>
     ia_source_job_id ` set (filter (\<lambda>a. ia_publication_id a = publication) (index_job_assignments d))"

definition index_checkpoint_done :: "db \<Rightarrow> job_row \<Rightarrow> bool" where
  "index_checkpoint_done d r =
     (case j_latest_checkpoint_id r of
        None \<Rightarrow> False
      | Some i \<Rightarrow> list_ex (\<lambda>c. cp_checkpoint_id c = i \<and> cp_job_id c = j_job_id r \<and> cp_fence c = j_lease_fence r \<and>
                    cp_stage c = JOB_STAGE_INDEX \<and> cp_terminal_status c = Some COMPLETION_STATUS_SUCCEEDED)
                  (job_checkpoints d))"

definition verifyIndexPublicationJobs :: "string \<Rightarrow> string set \<Rightarrow> db \<Rightarrow> unit result" where
  "verifyIndexPublicationJobs publication locked d =
     (case row_of ii_publication_id publication (index_job_inventories d) of
        None \<Rightarrow> Inr ()
      | Some inventory \<Rightarrow>
          let rows = filter (\<lambda>r. j_job_id r \<in> index_members publication d) (jobs d);
              children = filter (\<lambda>r. j_job_id r \<in> index_children publication d) rows
          in if list_ex (\<lambda>r. j_job_id r \<in> locked) rows
             then Inl (Wrap ''INDEX jobs are changing'' ErrPublicationNotReady)
             else if list_ex (\<lambda>r. j_cancellation_requested r \<or>
                    j_job_id r \<in> index_children publication d \<and>
                    (j_state r \<noteq> JOB_STATE_STAGED \<or> \<not> index_checkpoint_done d r)) rows
             then Inl ErrPublicationNotReady
             else if ii_job_count inventory = 0 \<or> length children \<noteq> ii_job_count inventory
             then Inl ErrPublicationNotReady
             else Inr ())"

definition outbox_event :: "string \<Rightarrow> string \<Rightarrow> outbox_row" where
  "outbox_event publication snapshot =
     \<lparr>x_event_id = ''snapshot-published:'' @ publication, x_topic = ''snapshot.published'',
      x_aggregate_id = snapshot, x_publication_id = publication, x_snapshot_id = snapshot\<rparr>"

text \<open>Completion of the job and the outbox event, \<open>ON CONFLICT (event_id) DO NOTHING\<close>.\<close>

definition finish_job :: "string \<Rightarrow> string \<Rightarrow> int \<Rightarrow> db \<Rightarrow> db result" where
  "finish_job job corpus now d =
     (if job = [] then Inr d
      else case job_of d job of
        None \<Rightarrow> Inl (Wrap ''publication job missing during completion'' ErrConflict)
      | Some r \<Rightarrow>
          if j_corpus_id r = corpus \<and> \<not> j_cancellation_requested r \<and>
             j_state r \<in> {JOB_STATE_PUBLISHING, JOB_STATE_SUCCEEDED}
          then Inr (update_job job (\<lambda>r. r\<lparr>j_state := JOB_STATE_SUCCEEDED, j_lease_owner := None,
                 j_lease_expires_at := None, j_updated_at := now\<rparr>) d)
          else Inl (Wrap ''publication job missing during completion'' ErrConflict))"

definition write_outbox :: "string \<Rightarrow> string \<Rightarrow> db \<Rightarrow> db" where
  "write_outbox publication snapshot d =
     (if row_of x_event_id (''snapshot-published:'' @ publication) (outbox_events d) \<noteq> None then d
      else d\<lparr>outbox_events := outbox_events d @ [outbox_event publication snapshot]\<rparr>)"

definition finalizePublicationTx :: "string \<Rightarrow> string \<Rightarrow> string \<Rightarrow> string \<Rightarrow> int \<Rightarrow> db \<Rightarrow> db result" where
  "finalizePublicationTx publication snapshot corpus job now d =
     bind_result (finish_job job corpus now d) (\<lambda>d'. Inr (write_outbox publication snapshot d'))"

text \<open>
  \<open>graph\<close> and \<open>reuse\<close> are the reading checks \<open>verifyGraphPublication\<close> and
  \<open>verifyIndexReusePublication\<close> of other components.
\<close>

definition activate :: "snapshot_row \<Rightarrow> db \<Rightarrow> db" where
  "activate s d =
     update_corpus (s_corpus_id s) (\<lambda>c. c\<lparr>co_active_snapshot_id := Some (s_snapshot_id s)\<rparr>)
       (update_snapshot (s_publication_id s) (\<lambda>s. s\<lparr>s_state := SNAPSHOT_STATE_PUBLISHED\<rparr>) d)"

definition commit_tx ::
    "host \<Rightarrow> publication_manifest codec \<Rightarrow> backend_receipt codec \<Rightarrow> (string \<Rightarrow> db \<Rightarrow> unit result) \<Rightarrow>
     (publication_manifest \<Rightarrow> db \<Rightarrow> unit result) \<Rightarrow> string set \<Rightarrow> int \<Rightarrow> snapshot_row \<Rightarrow> db \<Rightarrow> db result" where
  "commit_tx h c cr graph reuse locked now s d =
     (case s_manifest_payload s of
        None \<Rightarrow> Inl ErrPublicationNotReady
      | Some payload \<Rightarrow>
          if s_state s \<notin> {SNAPSHOT_STATE_VALIDATING, SNAPSHOT_STATE_PUBLISHED}
          then Inl (Wrap ''snapshot cannot be committed from its current state'' ErrConflict)
          else
            bind_result (unmarshalManifest c payload) (\<lambda>m.
            bind_result (load_receipts cr (s_publication_id s) d) (\<lambda>receipts.
            let manifest = m\<lparr>pm_acknowledgements := pm_acknowledgements m @ receipts\<rparr> in
            bind_result (loadSnapshotRefTx (null_string (s_parent_snapshot_id s)) d) (\<lambda>parent.
            case VerifyPublicationReady h c manifest parent (s_fence s) of
              Inl e \<Rightarrow> Inl (Wrap ''verify publication readiness'' ErrPublicationNotReady)
            | Inr _ \<Rightarrow>
                (case corpus_of d (s_corpus_id s) of
                   None \<Rightarrow> Inl (Wrap ''lock active snapshot'' (DbError ''no rows in result set''))
                 | Some corpus \<Rightarrow>
                     if s_state s = SNAPSHOT_STATE_PUBLISHED
                     then finalizePublicationTx (s_publication_id s) (s_snapshot_id s) (s_corpus_id s)
                            (null_string (s_job_id s)) now d
                     else if co_publisher_fence corpus \<noteq> s_fence s then Inl ErrStaleFence
                     else if null_string (co_active_snapshot_id corpus) \<noteq> null_string (s_parent_snapshot_id s)
                     then Inl ErrSnapshotCASConflict
                     else
                       bind_result (verifyIndexPublicationJobs (s_publication_id s) locked d) (\<lambda>_.
                       bind_result (graph (s_publication_id s) d) (\<lambda>_.
                       bind_result (reuse manifest d) (\<lambda>_.
                       finalizePublicationTx (s_publication_id s) (s_snapshot_id s) (s_corpus_id s)
                         (null_string (s_job_id s)) now (activate s d)))))))))"

definition CommitPublication ::
    "host \<Rightarrow> publication_manifest codec \<Rightarrow> backend_receipt codec \<Rightarrow> (string \<Rightarrow> db \<Rightarrow> unit result) \<Rightarrow>
     (publication_manifest \<Rightarrow> db \<Rightarrow> unit result) \<Rightarrow> string set \<Rightarrow> int \<Rightarrow> string \<Rightarrow> db \<Rightarrow> unit result \<times> db" where
  "CommitPublication h c cr graph reuse locked now publication d =
     (case publication_of d publication of
        None \<Rightarrow> (Inl ErrNotFound, d)
      | Some s \<Rightarrow>
          (case commit_tx h c cr graph reuse locked now s d of Inl e \<Rightarrow> (Inl e, d) | Inr d' \<Rightarrow> (Inr (), d')))"

section \<open>Readers\<close>

record SnapshotPin =
  sp_lease_id :: string
  sp_corpus_id :: string
  sp_snapshot_id :: string
  sp_sequence :: nat
  sp_owner_id :: string
  sp_expires_at :: int

text \<open>
  The insert from a join with \<open>ON CONFLICT (lease_id) DO UPDATE ... WHERE\<close>: a lease that exists for
  another corpus, snapshot or owner gives no row.
\<close>

definition PinActiveSnapshot :: "string \<Rightarrow> string \<Rightarrow> string \<Rightarrow> int \<Rightarrow> int \<Rightarrow> db \<Rightarrow> SnapshotPin result \<times> db" where
  "PinActiveSnapshot corpus lease owner ttl now d =
     (if ttl \<le> 0 \<or> \<not> storageIDPattern lease \<or> \<not> storageIDPattern owner
      then (Inl (Err ''valid lease, owner and positive ttl required''), d)
      else case Option.bind (corpus_of d corpus) (\<lambda>c. Option.bind (co_active_snapshot_id c) (snapshot_of d)) of
        None \<Rightarrow> (Inl ErrNotFound, d)
      | Some s \<Rightarrow>
          if s_state s \<noteq> SNAPSHOT_STATE_PUBLISHED then (Inl ErrNotFound, d)
          else
            let pin = \<lparr>sp_lease_id = lease, sp_corpus_id = corpus, sp_snapshot_id = s_snapshot_id s,
                       sp_sequence = s_sequence s, sp_owner_id = owner, sp_expires_at = now + ttl\<rparr>
            in (case row_of l_lease_id lease (snapshot_read_leases d) of
                  None \<Rightarrow> (Inr pin, d\<lparr>snapshot_read_leases := snapshot_read_leases d @
                    [\<lparr>l_lease_id = lease, l_corpus_id = corpus, l_snapshot_id = s_snapshot_id s,
                      l_owner_id = owner, l_expires_at = now + ttl\<rparr>]\<rparr>)
                | Some l \<Rightarrow>
                    if l_corpus_id l = corpus \<and> l_snapshot_id l = s_snapshot_id s \<and> l_owner_id l = owner
                    then (Inr pin, d\<lparr>snapshot_read_leases :=
                           update_row l_lease_id lease (\<lambda>l. l\<lparr>l_expires_at := now + ttl\<rparr>) (snapshot_read_leases d)\<rparr>)
                    else (Inl ErrNotFound, d)))"

definition ReleaseSnapshotPin :: "string \<Rightarrow> string \<Rightarrow> db \<Rightarrow> unit result \<times> db" where
  "ReleaseSnapshotPin lease owner d =
     (if list_ex (\<lambda>l. l_lease_id l = lease \<and> l_owner_id l = owner) (snapshot_read_leases d)
      then (Inr (), d\<lparr>snapshot_read_leases :=
             filter (\<lambda>l. \<not> (l_lease_id l = lease \<and> l_owner_id l = owner)) (snapshot_read_leases d)\<rparr>)
      else (Inl ErrNotFound, d))"

definition LoadPublicationManifest ::
    "publication_manifest codec \<Rightarrow> backend_receipt codec \<Rightarrow> string \<Rightarrow> db \<Rightarrow> publication_manifest result" where
  "LoadPublicationManifest c cr publication d =
     (case publication_of d publication of
        None \<Rightarrow> Inl ErrNotFound
      | Some s \<Rightarrow>
          (case s_manifest_payload s of
             None \<Rightarrow> Inl ErrPublicationNotReady
           | Some payload \<Rightarrow>
               bind_result (unmarshalManifest c payload) (\<lambda>m.
               bind_result (load_receipts cr publication d) (\<lambda>receipts.
               Inr (m\<lparr>pm_acknowledgements := pm_acknowledgements m @ receipts\<rparr>)))))"

definition ActiveSnapshot :: "string \<Rightarrow> db \<Rightarrow> (string \<times> nat) result" where
  "ActiveSnapshot corpus d =
     (case Option.bind (corpus_of d corpus) (\<lambda>c. Option.bind (co_active_snapshot_id c) (snapshot_of d)) of
        None \<Rightarrow> Inl ErrNotFound
      | Some s \<Rightarrow> Inr (s_snapshot_id s, s_sequence s))"

section \<open>Abort and backend operations\<close>

definition AbortPublication :: "string \<Rightarrow> db \<Rightarrow> unit result \<times> db" where
  "AbortPublication publication d =
     (case publication_of d publication of
        None \<Rightarrow> (Inl ErrNotFound, d)
      | Some s \<Rightarrow>
          if s_state s \<notin> {SNAPSHOT_STATE_STAGING, SNAPSHOT_STATE_VALIDATING, SNAPSHOT_STATE_ABORTING}
          then (Inl (Wrap ''publication cannot be aborted from its current state'' ErrConflict), d)
          else if list_ex (\<lambda>o'. o_publication_id o' = publication \<and> o_status o' \<in> {Planned, Applied})
                    (publication_operations d)
          then (Inl (Wrap ''publication has uncompensated backend operations'' ErrConflict), d)
          else (Inr (), update_snapshot publication (\<lambda>s. s\<lparr>s_state := SNAPSHOT_STATE_ABORTED\<rparr>) d))"

definition parse_status :: "string \<Rightarrow> operation_status option" where
  "parse_status s =
     (if s = ''planned'' then Some Planned else if s = ''applied'' then Some Applied
      else if s = ''compensated'' then Some Compensated else None)"

definition status_advances :: "operation_status \<Rightarrow> operation_status \<Rightarrow> bool" where
  "status_advances old new \<longleftrightarrow>
     old = new \<or> old = Planned \<and> new \<in> {Applied, Compensated} \<or> old = Applied \<and> new = Compensated"

definition RecordPublicationOperation ::
    "string \<Rightarrow> backend_kind \<Rightarrow> string \<Rightarrow> string \<Rightarrow> string \<Rightarrow> nat \<Rightarrow> db \<Rightarrow> unit result \<times> db" where
  "RecordPublicationOperation publication backend operationKey payloadHash status fence d =
     (case (if \<not> sha256Pattern payloadHash \<or> fence = 0 then None else parse_status status) of
        None \<Rightarrow> (Inl (Err ''invalid publication operation''), d)
      | Some st \<Rightarrow>
          (case publication_of d publication of
             None \<Rightarrow> (Inl (Wrap ''publication operation conflict or invalid state regression'' ErrConflict), d)
           | Some s \<Rightarrow>
               if s_fence s \<noteq> fence \<or>
                  s_state s \<notin> {SNAPSHOT_STATE_STAGING, SNAPSHOT_STATE_VALIDATING, SNAPSHOT_STATE_ABORTING}
               then (Inl (Wrap ''publication operation conflict or invalid state regression'' ErrConflict), d)
               else if backend = BACKEND_KIND_UNSPECIFIED
               then (Inl (Wrap ''record publication operation'' (DbError ''publication_operations_backend_check'')), d)
               else (case row_of o_operation_key operationKey (publication_operations d) of
                  None \<Rightarrow> (Inr (), d\<lparr>publication_operations := publication_operations d @
                    [\<lparr>o_operation_key = operationKey, o_publication_id = publication, o_backend = backend,
                      o_payload_hash = payloadHash, o_fence = fence, o_status = st\<rparr>]\<rparr>)
                | Some o' \<Rightarrow>
                    if o_publication_id o' = publication \<and> o_backend o' = backend \<and> o_payload_hash o' = payloadHash \<and>
                       o_fence o' = fence \<and> status_advances (o_status o') st
                    then (Inr (), d\<lparr>publication_operations :=
                           update_row o_operation_key operationKey (\<lambda>o'. o'\<lparr>o_status := st\<rparr>) (publication_operations d)\<rparr>)
                    else (Inl (Wrap ''publication operation conflict or invalid state regression'' ErrConflict), d))))"

section \<open>The ledger as sets of slots and corpora\<close>

text \<open>
  A slot agrees with the counters of its corpus; while it is open it is the newest slot, holds the
  current fence and builds on the active snapshot.
\<close>

definition slot_ok :: "corpus_row \<Rightarrow> snapshot_row \<Rightarrow> bool" where
  "slot_ok c s \<longleftrightarrow>
     s_sequence s < co_next_snapshot_sequence c \<and> s_fence s \<le> co_publisher_fence c \<and>
     (s_state s \<in> open_states \<longrightarrow> s_fence s = co_publisher_fence c \<and> s_parent_snapshot_id s = co_active_snapshot_id c \<and>
        Suc (s_sequence s) = co_next_snapshot_sequence c)"

text \<open>The active snapshot of a corpus is its newest published one.\<close>

definition active_ok :: "snapshot_row set \<Rightarrow> corpus_row \<Rightarrow> bool" where
  "active_ok S c \<longleftrightarrow>
     (case co_active_snapshot_id c of
        None \<Rightarrow> \<forall>s \<in> S. s_corpus_id s = co_corpus_id c \<longrightarrow> s_state s \<noteq> SNAPSHOT_STATE_PUBLISHED
      | Some i \<Rightarrow> \<exists>s \<in> S. s_snapshot_id s = i \<and> s_corpus_id s = co_corpus_id c \<and> s_state s = SNAPSHOT_STATE_PUBLISHED \<and>
          (\<forall>t \<in> S. s_corpus_id t = co_corpus_id c \<and> s_state t = SNAPSHOT_STATE_PUBLISHED \<longrightarrow> s_sequence t \<le> s_sequence s))"

definition apart :: "snapshot_row \<Rightarrow> snapshot_row \<Rightarrow> bool" where
  "apart s t \<longleftrightarrow> s_snapshot_id s \<noteq> s_snapshot_id t \<and> s_publication_id s \<noteq> s_publication_id t \<and>
     (s_corpus_id s = s_corpus_id t \<longrightarrow>
        s_sequence s \<noteq> s_sequence t \<and> \<not> (s_state s \<in> open_states \<and> s_state t \<in> open_states))"

definition ledger_ok :: "snapshot_row set \<Rightarrow> corpus_row set \<Rightarrow> bool" where
  "ledger_ok S C \<longleftrightarrow>
     (\<forall>s \<in> S. s_snapshot_id s \<noteq> [] \<and> (\<exists>c \<in> C. co_corpus_id c = s_corpus_id s \<and> slot_ok c s)) \<and>
     (\<forall>c \<in> C. \<forall>c' \<in> C. co_corpus_id c = co_corpus_id c' \<longrightarrow> c = c') \<and>
     (\<forall>s \<in> S. \<forall>t \<in> S. s \<noteq> t \<longrightarrow> apart s t) \<and> (\<forall>c \<in> C. active_ok S c)"

lemma ledger_slot:
  "ledger_ok S C \<Longrightarrow> s \<in> S \<Longrightarrow> c \<in> C \<Longrightarrow> co_corpus_id c = s_corpus_id s \<Longrightarrow> slot_ok c s"
  unfolding ledger_ok_def by metis

lemma ledger_apart: "ledger_ok S C \<Longrightarrow> s \<in> S \<Longrightarrow> t \<in> S \<Longrightarrow> s \<noteq> t \<Longrightarrow> apart s t"
  by (simp add: ledger_ok_def)

lemma ledger_active: "ledger_ok S C \<Longrightarrow> c \<in> C \<Longrightarrow> active_ok S c"
  by (simp add: ledger_ok_def)

lemma ledger_corpus: "ledger_ok S C \<Longrightarrow> c \<in> C \<Longrightarrow> c' \<in> C \<Longrightarrow> co_corpus_id c = co_corpus_id c' \<Longrightarrow> c = c'"
  by (simp add: ledger_ok_def)

lemma corpus_replace:
  assumes "ledger_ok S C" "c \<in> C" "co_corpus_id c' = co_corpus_id c"
  shows "\<forall>c1 \<in> insert c' (C - {c}). \<forall>c2 \<in> insert c' (C - {c}). co_corpus_id c1 = co_corpus_id c2 \<longrightarrow> c1 = c2"
  using ledger_corpus [OF assms(1)] assms(2,3) by (metis DiffD1 DiffD2 insertE singletonI)

lemma ledger_insert_slot:
  assumes ok: "ledger_ok S C" and c: "c \<in> C" and s: "s_corpus_id s = co_corpus_id c" "s_snapshot_id s \<noteq> []"
    and slot: "s_sequence s = co_next_snapshot_sequence c" "s_fence s = co_publisher_fence c + 1"
      "s_parent_snapshot_id s = co_active_snapshot_id c" "s_state s = SNAPSHOT_STATE_STAGING"
    and fresh: "\<forall>t \<in> S. s_snapshot_id t \<noteq> s_snapshot_id s \<and> s_publication_id t \<noteq> s_publication_id s"
    and closed: "\<forall>t \<in> S. s_corpus_id t = co_corpus_id c \<longrightarrow> s_state t \<notin> open_states"
  shows "ledger_ok (insert s S) (insert (c\<lparr>co_next_snapshot_sequence := co_next_snapshot_sequence c + 1,
    co_publisher_fence := co_publisher_fence c + 1\<rparr>) (C - {c}))"
proof -
  let ?c = "c\<lparr>co_next_snapshot_sequence := co_next_snapshot_sequence c + 1, co_publisher_fence := co_publisher_fence c + 1\<rparr>"
  let ?C = "insert ?c (C - {c})"
  have slots: "\<exists>c' \<in> ?C. co_corpus_id c' = s_corpus_id t \<and> slot_ok c' t" if "t \<in> S" for t
  proof (cases "s_corpus_id t = co_corpus_id c")
    case True
    then have "slot_ok c t" using ledger_slot [OF ok that c] by simp
    then have "slot_ok ?c t" using closed that True by (auto simp: slot_ok_def)
    with True show ?thesis by auto
  next
    case False
    with ok that show ?thesis unfolding ledger_ok_def by (metis DiffI insertCI singletonD)
  qed
  have new: "slot_ok ?c s" using slot by (simp add: slot_ok_def)
  have seq: "s_sequence t < s_sequence s" if "t \<in> S" "s_corpus_id t = co_corpus_id c" for t
    using ledger_slot [OF ok that(1) c] that(2) slot(1) by (simp add: slot_ok_def)
  have apart: "apart s t" if "t \<in> S" for t
    using fresh closed seq [OF that] that s(1) by (force simp: apart_def)
  have sym: "apart t u \<longleftrightarrow> apart u t" for t u by (auto simp: apart_def)
  have active: "active_ok (insert s S) c'" if "c' \<in> ?C" for c'
  proof -
    have "active_ok S (if c' = ?c then c else c')" using that ok c by (auto simp: ledger_ok_def)
    then show ?thesis using slot(4) by (auto simp: active_ok_def split: if_splits option.splits)
  qed
  show ?thesis unfolding ledger_ok_def
  proof (intro conjI)
    show "\<forall>t \<in> insert s S. s_snapshot_id t \<noteq> [] \<and> (\<exists>c' \<in> ?C. co_corpus_id c' = s_corpus_id t \<and> slot_ok c' t)"
      using slots new s ok by (auto simp: ledger_ok_def)
    show "\<forall>c1 \<in> ?C. \<forall>c2 \<in> ?C. co_corpus_id c1 = co_corpus_id c2 \<longrightarrow> c1 = c2"
      by (rule corpus_replace [OF ok]) (simp_all add: c)
    show "\<forall>t \<in> insert s S. \<forall>u \<in> insert s S. t \<noteq> u \<longrightarrow> apart t u"
      using ok apart sym unfolding ledger_ok_def by (metis insert_iff)
    show "\<forall>c' \<in> ?C. active_ok (insert s S) c'" using active by blast
  qed
qed

definition same_slot :: "snapshot_row \<Rightarrow> snapshot_row \<Rightarrow> bool" where
  "same_slot s s' \<longleftrightarrow> s_snapshot_id s' = s_snapshot_id s \<and> s_corpus_id s' = s_corpus_id s \<and> s_sequence s' = s_sequence s \<and>
     s_parent_snapshot_id s' = s_parent_snapshot_id s \<and> s_publication_id s' = s_publication_id s \<and>
     s_job_id s' = s_job_id s \<and> s_fence s' = s_fence s"

lemma ledger_close:
  assumes ok: "ledger_ok S C" and s: "s \<in> S" "s_state s \<in> open_states" and same: "same_slot s s'"
    and state: "s_state s' \<in> insert SNAPSHOT_STATE_ABORTED open_states"
  shows "ledger_ok (insert s' (S - {s})) C"
proof -
  have np: "s_state s \<noteq> SNAPSHOT_STATE_PUBLISHED" "s_state s' \<noteq> SNAPSHOT_STATE_PUBLISHED"
    using s(2) state by (auto simp: open_states_def)
  have slot: "slot_ok c s \<Longrightarrow> slot_ok c s'" for c using same s(2) by (auto simp: slot_ok_def same_slot_def)
  have apart: "apart s' t \<and> apart t s'" if "t \<in> S - {s}" for t
  proof -
    have "apart s t" using ledger_apart [OF ok s(1)] that by blast
    then show ?thesis using same s(2) by (auto simp: apart_def same_slot_def)
  qed
  have active: "active_ok (insert s' (S - {s})) c" if "c \<in> C" for c
  proof -
    have "active_ok S c" using ok that by (auto simp: ledger_ok_def)
    then show ?thesis using np s(1) by (auto simp: active_ok_def split: option.splits)
  qed
  show ?thesis using ok s slot apart active same unfolding ledger_ok_def
    by (auto simp: same_slot_def) (metis+)
qed

lemma ledger_activate:
  assumes ok: "ledger_ok S C" and s: "s \<in> S" "s_state s \<in> open_states" and c: "c \<in> C" "co_corpus_id c = s_corpus_id s"
  shows "ledger_ok (insert (s\<lparr>s_state := SNAPSHOT_STATE_PUBLISHED\<rparr>) (S - {s}))
    (insert (c\<lparr>co_active_snapshot_id := Some (s_snapshot_id s)\<rparr>) (C - {c}))"
proof -
  let ?s = "s\<lparr>s_state := SNAPSHOT_STATE_PUBLISHED\<rparr>" and ?c = "c\<lparr>co_active_snapshot_id := Some (s_snapshot_id s)\<rparr>"
  let ?S = "insert ?s (S - {s})" and ?C = "insert ?c (C - {c})"
  have slot: "slot_ok c s" using ledger_slot [OF ok s(1) c(1)] c(2) by simp
  have closed: "s_state t \<notin> open_states" "s_sequence t < s_sequence s" if "t \<in> S - {s}" "s_corpus_id t = s_corpus_id s" for t
  proof -
    have "apart s t" using ledger_apart [OF ok s(1)] that by blast
    then show "s_state t \<notin> open_states" using s(2) that(2) by (auto simp: apart_def)
    have "slot_ok c t" using ledger_slot [OF ok _ c(1), of t] that c(2) by simp
    with slot s(2) \<open>apart s t\<close> that(2) show "s_sequence t < s_sequence s" by (auto simp: slot_ok_def apart_def)
  qed
  have slots: "\<exists>c' \<in> ?C. co_corpus_id c' = s_corpus_id t \<and> slot_ok c' t" if "t \<in> S - {s}" for t
  proof (cases "s_corpus_id t = s_corpus_id s")
    case True
    then have "slot_ok c t" using ledger_slot [OF ok _ c(1), of t] that c(2) by simp
    then have "slot_ok ?c t" using closed(1) [OF that True] by (auto simp: slot_ok_def)
    with True c(2) show ?thesis by auto
  next
    case False
    with ok that c(2) show ?thesis unfolding ledger_ok_def by (metis DiffD1 DiffI insertCI singletonD)
  qed
  have new: "slot_ok ?c ?s" using slot by (auto simp: slot_ok_def open_states_def)
  have apart: "apart ?s t \<and> apart t ?s" if "t \<in> S - {s}" for t
  proof -
    have "apart s t" using ledger_apart [OF ok s(1)] that by blast
    then show ?thesis by (auto simp: apart_def open_states_def)
  qed
  have active: "active_ok ?S c'" if "c' \<in> ?C" for c'
  proof (cases "c' = ?c")
    case True
    then show ?thesis using closed(2) c(2) by (auto simp: active_ok_def intro: less_imp_le)
  next
    case False
    then have c': "c' \<in> C" "co_corpus_id c' \<noteq> s_corpus_id s"
      using that c ledger_corpus [OF ok c(1), of c'] by auto
    then have "active_ok S c'" using ok by (auto simp: ledger_ok_def)
    then show ?thesis using c'(2) by (auto simp: active_ok_def split: option.splits)
  qed
  show ?thesis unfolding ledger_ok_def
  proof (intro conjI)
    show "\<forall>t \<in> ?S. s_snapshot_id t \<noteq> [] \<and> (\<exists>c' \<in> ?C. co_corpus_id c' = s_corpus_id t \<and> slot_ok c' t)"
      using slots new s c(2) ok by (auto simp: ledger_ok_def)
    show "\<forall>c1 \<in> ?C. \<forall>c2 \<in> ?C. co_corpus_id c1 = co_corpus_id c2 \<longrightarrow> c1 = c2"
      by (rule corpus_replace [OF ok]) (simp_all add: c)
    show "\<forall>t \<in> ?S. \<forall>u \<in> ?S. t \<noteq> u \<longrightarrow> apart t u"
      using ok apart unfolding ledger_ok_def by (metis Diff_iff insert_iff)
    show "\<forall>c' \<in> ?C. active_ok ?S c'" using active by blast
  qed
qed

section \<open>The ledger of the tables\<close>

definition pub_inv :: "db \<Rightarrow> bool" where
  "pub_inv d \<longleftrightarrow> distinct (map co_corpus_id (corpus_state d)) \<and> distinct (map s_publication_id (snapshots d)) \<and>
     distinct (map s_snapshot_id (snapshots d)) \<and> ledger_ok (set (snapshots d)) (set (corpus_state d))"

text \<open>What a slot keeps: its place, and once published or aborted everything; a manifest is set once.\<close>

definition snapshot_evolves :: "snapshot_row \<Rightarrow> snapshot_row \<Rightarrow> bool" where
  "snapshot_evolves s s' \<longleftrightarrow> same_slot s s' \<and>
     (s_state s \<in> {SNAPSHOT_STATE_PUBLISHED, SNAPSHOT_STATE_ABORTED} \<longrightarrow> s' = s) \<and>
     (s_manifest_payload s \<noteq> None \<longrightarrow> s_manifest_payload s' = s_manifest_payload s \<and>
        s_manifest_hash s' = s_manifest_hash s \<and> s_representation_generation s' = s_representation_generation s)"

lemma snapshot_evolves_refl [simp]: "snapshot_evolves s s"
  by (simp add: snapshot_evolves_def same_slot_def)

lemma snapshot_evolves_trans: "snapshot_evolves s t \<Longrightarrow> snapshot_evolves t u \<Longrightarrow> snapshot_evolves s u"
  unfolding snapshot_evolves_def same_slot_def by (elim conjE, intro conjI impI) (simp_all, metis)

definition ledger_evolves :: "db \<Rightarrow> db \<Rightarrow> bool" where
  "ledger_evolves d d' \<longleftrightarrow>
     (\<forall>p s. publication_of d p = Some s \<longrightarrow> (\<exists>s'. publication_of d' p = Some s' \<and> snapshot_evolves s s')) \<and>
     (\<forall>k c. corpus_of d k = Some c \<longrightarrow> (\<exists>c'. corpus_of d' k = Some c' \<and>
        co_next_snapshot_sequence c \<le> co_next_snapshot_sequence c' \<and> co_publisher_fence c \<le> co_publisher_fence c'))"

lemma ledger_evolves_refl [simp]: "ledger_evolves d d"
  by (auto simp: ledger_evolves_def)

lemma ledger_evolves_trans: "ledger_evolves d e \<Longrightarrow> ledger_evolves e f \<Longrightarrow> ledger_evolves d f"
  unfolding ledger_evolves_def by (meson le_trans snapshot_evolves_trans)

definition pub_keeps :: "db \<Rightarrow> db \<Rightarrow> bool" where
  "pub_keeps d d' \<longleftrightarrow> (pub_inv d \<longrightarrow> pub_inv d' \<and> ledger_evolves d d')"

lemma pub_keepsI: "(pub_inv d \<Longrightarrow> pub_inv d' \<and> ledger_evolves d d') \<Longrightarrow> pub_keeps d d'"
  by (simp add: pub_keeps_def)

lemma pub_keeps_refl [simp]: "pub_keeps d d"
  by (simp add: pub_keeps_def)

lemma pub_keeps_trans: "pub_keeps d e \<Longrightarrow> pub_keeps e f \<Longrightarrow> pub_keeps d f"
  by (auto simp: pub_keeps_def intro: ledger_evolves_trans)

lemma pub_keeps_same: "snapshots d' = snapshots d \<Longrightarrow> corpus_state d' = corpus_state d \<Longrightarrow> pub_keeps d d'"
  by (simp add: pub_keeps_def pub_inv_def ledger_evolves_def)

lemma set_update_row_unique:
  assumes "distinct (map key rows)" "row_of key k rows = Some r"
  shows "set (update_row key k f rows) = insert (f r) (set rows - {r})"
proof -
  have r: "r \<in> set rows" "key r = k" using row_of_Some [OF assms(2)] by auto
  have only: "x = r" if "x \<in> set rows" "key x = k" for x
    using row_of_distinct [OF assms(1) that(1)] that(2) assms(2) by simp
  have "set (update_row key k f rows) = (\<lambda>x. if key x = k then f x else x) ` set rows"
    by (simp add: update_row_def)
  also have "\<dots> = (\<lambda>x. if key x = k then f x else x) ` insert r (set rows - {r})" using r(1) by (simp add: insert_absorb)
  also have "\<dots> = insert (f r) ((\<lambda>x. if key x = k then f x else x) ` (set rows - {r}))"
    unfolding image_insert by (simp only: r(2) simp_thms if_True)
  also have "(\<lambda>x. if key x = k then f x else x) ` (set rows - {r}) = (\<lambda>x. x) ` (set rows - {r})"
    using only by (intro image_cong) auto
  finally show ?thesis by simp
qed

lemma pub_inv_empty: "pub_inv empty_db"
  by (simp add: pub_inv_def empty_db_def ledger_ok_def)

lemma publication_row:
  "pub_inv d \<Longrightarrow> publication_of d p = Some s \<Longrightarrow> s \<in> set (snapshots d) \<and> s_publication_id s = p"
  by (auto dest: row_of_Some)

lemma open_slot:
  assumes "pub_inv d" "publication_of d p = Some s" "s_state s \<in> open_states" "corpus_of d (s_corpus_id s) = Some c"
  shows "s_fence s = co_publisher_fence c \<and> s_parent_snapshot_id s = co_active_snapshot_id c"
proof -
  have "slot_ok c s"
    using ledger_slot [of "set (snapshots d)" "set (corpus_state d)" s c] assms(1) row_of_Some [OF assms(2)]
      row_of_Some [OF assms(4)] by (simp add: pub_inv_def)
  then show ?thesis using assms(3) by (simp add: slot_ok_def)
qed

section \<open>Each transaction keeps the ledger\<close>

lemma pub_keeps_ensure: "ensure_corpus c d = Inr d' \<Longrightarrow> pub_keeps d d'"
proof (rule pub_keepsI)
  assume e: "ensure_corpus c d = Inr d'" and inv: "pub_inv d"
  show "pub_inv d' \<and> ledger_evolves d d'"
  proof (cases "corpus_of d c")
    case None
    with e have d': "d' = d\<lparr>corpus_state := corpus_state d @ [ensure_corpus_row c]\<rparr>"
      by (auto simp: ensure_corpus_def split: if_splits)
    have fresh: "\<forall>x \<in> set (corpus_state d). co_corpus_id x \<noteq> c" using None by (simp add: row_of_None_iff)
    have ok: "ledger_ok (set (snapshots d)) (set (corpus_state d))" using inv by (simp add: pub_inv_def)
    then have none: "\<forall>s \<in> set (snapshots d). s_corpus_id s \<noteq> c" using fresh unfolding ledger_ok_def by metis
    have act: "active_ok (set (snapshots d)) (ensure_corpus_row c)" using none by (simp add: active_ok_def)
    have "ledger_ok (set (snapshots d)) (insert (ensure_corpus_row c) (set (corpus_state d)))"
      using ok fresh act unfolding ledger_ok_def by (auto; metis)
    then have "pub_inv d'" using inv fresh by (auto simp: pub_inv_def d')
    moreover have "ledger_evolves d d'" by (auto simp: ledger_evolves_def d' table_simps)
    ultimately show ?thesis ..
  next
    case (Some x)
    with e inv show ?thesis by (simp add: ensure_corpus_def)
  qed
qed

lemma ledger_evolves_update_snapshot:
  assumes "\<And>s. s_publication_id (f s) = s_publication_id s" "publication_of d p = Some s" "snapshot_evolves s (f s)"
  shows "ledger_evolves d (update_snapshot p f d)"
  using assms by (auto simp: ledger_evolves_def update_snapshot_def table_simps)

lemma pub_keeps_update_snapshot:
  assumes p: "publication_of d p = Some s" and s: "s_state s \<in> open_states"
    and f: "\<And>s. same_slot s (f s)" and state: "s_state (f s) \<in> insert SNAPSHOT_STATE_ABORTED open_states"
    and ev: "snapshot_evolves s (f s)"
  shows "pub_keeps d (update_snapshot p f d)"
proof (rule pub_keepsI)
  assume inv: "pub_inv d"
  have ids: "s_publication_id (f x) = s_publication_id x" "s_snapshot_id (f x) = s_snapshot_id x" for x
    using f [of x] by (simp_all add: same_slot_def)
  have "set (update_row s_publication_id p f (snapshots d)) = insert (f s) (set (snapshots d) - {s})"
    using inv p by (intro set_update_row_unique) (simp_all add: pub_inv_def)
  moreover have "ledger_ok (insert (f s) (set (snapshots d) - {s})) (set (corpus_state d))"
    using inv row_of_mem [OF p] s f state by (intro ledger_close) (simp_all add: pub_inv_def)
  ultimately have "pub_inv (update_snapshot p f d)"
    using inv by (simp add: pub_inv_def update_snapshot_def map_key_update_row ids)
  then show "pub_inv (update_snapshot p f d) \<and> ledger_evolves d (update_snapshot p f d)"
    using ledger_evolves_update_snapshot [OF ids(1) p ev] by simp
qed

lemma pub_keeps_activate:
  assumes p: "publication_of d p = Some s" and s: "s_state s = SNAPSHOT_STATE_VALIDATING"
    and c: "corpus_of d (s_corpus_id s) = Some c"
  shows "pub_keeps d (activate s d)"
proof (rule pub_keepsI)
  assume inv: "pub_inv d"
  let ?f = "\<lambda>s. s\<lparr>s_state := SNAPSHOT_STATE_PUBLISHED\<rparr>" and ?g = "\<lambda>c. c\<lparr>co_active_snapshot_id := Some (s_snapshot_id s)\<rparr>"
  have sp: "s_publication_id s = p" using row_of_key [OF p] .
  have S: "set (update_row s_publication_id p ?f (snapshots d)) = insert (?f s) (set (snapshots d) - {s})"
    using inv p by (intro set_update_row_unique) (simp_all add: pub_inv_def)
  have C: "set (update_row co_corpus_id (s_corpus_id s) ?g (corpus_state d)) = insert (?g c) (set (corpus_state d) - {c})"
    using inv c by (intro set_update_row_unique) (simp_all add: pub_inv_def)
  have "ledger_ok (insert (?f s) (set (snapshots d) - {s})) (insert (?g c) (set (corpus_state d) - {c}))"
    using inv row_of_mem [OF p] s row_of_Some [OF c]
    by (intro ledger_activate) (simp_all add: pub_inv_def open_states_def)
  then have "pub_inv (activate s d)"
    using inv S C by (simp add: pub_inv_def activate_def update_corpus_def update_snapshot_def map_key_update_row sp)
  moreover have "ledger_evolves d (activate s d)"
    using p s by (auto simp: ledger_evolves_def activate_def update_corpus_def update_snapshot_def table_simps sp
        snapshot_evolves_def same_slot_def)
  ultimately show "pub_inv (activate s d) \<and> ledger_evolves d (activate s d)" ..
qed

lemma active_not_empty: "pub_inv d \<Longrightarrow> corpus_of d k = Some c \<Longrightarrow> co_active_snapshot_id c \<noteq> Some []"
  using row_of_mem [of co_corpus_id k "corpus_state d" c] ledger_active [of "set (snapshots d)" "set (corpus_state d)" c]
  by (auto simp: pub_inv_def active_ok_def ledger_ok_def)

lemma insert_snapshot_Inr:
  assumes "insert_snapshot s d = Inr d'"
  shows "d' = d\<lparr>snapshots := snapshots d @ [s]\<rparr> \<and> snapshot_of d (s_snapshot_id s) = None \<and>
    publication_of d (s_publication_id s) = None \<and>
    (s_state s \<in> open_states \<longrightarrow> (\<forall>t \<in> set (snapshots d). s_corpus_id t = s_corpus_id s \<longrightarrow> s_state t \<notin> open_states))"
  using assms unfolding insert_snapshot_def guard_Inr_iff by (auto simp: list_ex_iff)

lemma pub_keeps_reserve_slot:
  assumes c: "corpus_of d k = Some c" and parent: "null_string (co_active_snapshot_id c) = parent" and "snapshot \<noteq> []"
    and r: "reserve_slot publication job snapshot parent c d = Inr d'"
  shows "pub_keeps d d'"
proof (rule pub_keepsI)
  assume inv: "pub_inv d"
  let ?s = "reserved_row publication job snapshot parent c"
  let ?g = "\<lambda>c. c\<lparr>co_next_snapshot_sequence := co_next_snapshot_sequence c + 1, co_publisher_fence := co_publisher_fence c + 1\<rparr>"
  let ?d = "update_corpus (co_corpus_id c) ?g d"
  have k: "co_corpus_id c = k" using row_of_key [OF c] .
  have ins: "insert_snapshot ?s ?d = Inr d'" using r by (simp add: reserve_slot_def split: sum.splits)
  note i = insert_snapshot_Inr [OF ins]
  have d': "d' = ?d\<lparr>snapshots := snapshots d @ [?s]\<rparr>" using i by (simp add: update_corpus_def)
  have fresh: "\<forall>t \<in> set (snapshots d). s_snapshot_id t \<noteq> snapshot \<and> s_publication_id t \<noteq> publication"
    using i by (auto simp: row_of_None_iff reserved_row_def update_corpus_def)
  have closed: "\<forall>t \<in> set (snapshots d). s_corpus_id t = co_corpus_id c \<longrightarrow> s_state t \<notin> open_states"
    using i by (auto simp: reserved_row_def update_corpus_def open_states_def)
  have active: "nullif_empty parent = co_active_snapshot_id c"
    using nullif_null_string [OF active_not_empty [OF inv c]] parent by simp
  have C: "set (update_row co_corpus_id k ?g (corpus_state d)) = insert (?g c) (set (corpus_state d) - {c})"
    using inv c by (intro set_update_row_unique) (simp_all add: pub_inv_def)
  have "ledger_ok (insert ?s (set (snapshots d))) (insert (?g c) (set (corpus_state d) - {c}))"
    using inv row_of_mem [OF c] fresh closed active assms(3)
    by (intro ledger_insert_slot) (simp_all add: pub_inv_def reserved_row_def)
  then have "pub_inv d'"
    using inv C fresh by (auto simp: pub_inv_def d' update_corpus_def map_key_update_row k reserved_row_def)
  moreover have "ledger_evolves d d'"
    using c by (auto simp: ledger_evolves_def d' update_corpus_def table_simps k)
  ultimately show "pub_inv d' \<and> ledger_evolves d d'" ..
qed


lemma pub_keeps_ReservePublication: "pub_keeps d (snd (ReservePublication publication job corpus snapshot parent d))"
proof -
  have "pub_keeps d d2" if "ensure_corpus corpus d = Inr d1" "corpus_of d1 corpus = Some c" "snapshot \<noteq> []"
    "reserve_slot publication job snapshot (null_string (co_active_snapshot_id c)) c d1 = Inr d2" for d1 d2 c
    using pub_keeps_ensure [OF that(1)] pub_keeps_reserve_slot [OF that(2) refl that(3,4)] by (rule pub_keeps_trans)
  then show ?thesis
    by (auto simp: ReservePublication_def split: option.splits sum.splits dest: storageIDPattern_nonempty)
qed

lemma stage_backends_same: "stage_backends p gs d = Inr d' \<Longrightarrow>
    snapshots d' = snapshots d \<and> corpus_state d' = corpus_state d"
  by (induction p gs d rule: stage_backends.induct) (auto split: if_splits)

lemma stage_tx_Inr:
  assumes "stage_tx h c cs m s d = Inr d'"
  shows "s_state s \<in> {SNAPSHOT_STATE_STAGING, SNAPSHOT_STATE_VALIDATING} \<and>
    (d' = d \<or> s_manifest_payload s = None \<and>
       (\<exists>d1. snapshots d1 = snapshots d \<and> corpus_state d1 = corpus_state d \<and>
          d' = update_snapshot (m_record_id (pm_meta m)) (staged_row h c m) d1))"
proof -
  have "s_state s \<in> {SNAPSHOT_STATE_STAGING, SNAPSHOT_STATE_VALIDATING}"
    using assms unfolding stage_tx_def Let_def guard_Inr_iff by blast
  moreover have "d' = d \<or> s_manifest_payload s = None \<and>
       (\<exists>d1. snapshots d1 = snapshots d \<and> corpus_state d1 = corpus_state d \<and>
          d' = update_snapshot (m_record_id (pm_meta m)) (staged_row h c m) d1)"
    using assms unfolding stage_tx_def Let_def guard_Inr_iff bind_result_Inr_iff
    by (auto simp: bind_result_Inr_iff split: option.splits sum.splits if_splits dest!: stage_backends_same)
  ultimately show ?thesis ..
qed

lemma pub_keeps_StagePublication: "pub_keeps d (snd (StagePublication h c cs manifest d))"
proof -
  have "pub_keeps d d'" if p: "publication_of d (m_record_id (pm_meta m)) = Some s" and t: "stage_tx h c cs m s d = Inr d'"
    for m s d'
  proof (cases "d' = d")
    case False
    with stage_tx_Inr [OF t] obtain d1 where s: "s_state s \<in> {SNAPSHOT_STATE_STAGING, SNAPSHOT_STATE_VALIDATING}"
      "s_manifest_payload s = None" and d1: "snapshots d1 = snapshots d" "corpus_state d1 = corpus_state d"
      "d' = update_snapshot (m_record_id (pm_meta m)) (staged_row h c m) d1" by blast
    have "pub_keeps d1 d'" unfolding d1(3)
      by (rule pub_keeps_update_snapshot [where s = s])
        (use p s d1(1) in \<open>auto simp: staged_row_def same_slot_def open_states_def snapshot_evolves_def\<close>)
    with pub_keeps_same [OF d1(1,2)] show ?thesis by (rule pub_keeps_trans)
  qed simp
  then show ?thesis by (auto simp: StagePublication_def split: option.splits sum.splits)
qed

lemma pub_keeps_RecordBackendReceipt: "pub_keeps d (snd (RecordBackendReceipt h c receipt d))"
proof -
  have "snapshots d' = snapshots d \<and> corpus_state d' = corpus_state d" if "recordBackendReceiptTx h c receipt d = Inr d'" for d'
    using that unfolding recordBackendReceiptTx_def
    by (auto simp: bind_result_Inr_iff split: option.splits sum.splits if_splits)
  then show ?thesis by (auto simp: RecordBackendReceipt_def split: sum.splits intro: pub_keeps_same)
qed

lemma finalize_same:
  "finalizePublicationTx publication snapshot corpus job now d = Inr d' \<Longrightarrow>
     snapshots d' = snapshots d \<and> corpus_state d' = corpus_state d"
  by (auto simp: finalizePublicationTx_def bind_result_Inr_iff finish_job_def write_outbox_def update_job_def
      split: option.splits if_splits)

text \<open>A commit that succeeds either replays a published slot or activates a validated one.\<close>

lemma commit_tx_Inr:
  assumes "commit_tx h c cr graph reuse locked now s d = Inr d'"
  obtains payload m receipts parent corpus where "s_manifest_payload s = Some payload"
    "c_unmarshal c payload = Some m" "load_receipts cr (s_publication_id s) d = Inr receipts"
    "loadSnapshotRefTx (null_string (s_parent_snapshot_id s)) d = Inr parent"
    "VerifyPublicationReady h c (m\<lparr>pm_acknowledgements := pm_acknowledgements m @ receipts\<rparr>) parent (s_fence s) = Inr ()"
    "corpus_of d (s_corpus_id s) = Some corpus"
    "s_state s = SNAPSHOT_STATE_PUBLISHED \<and>
       finalizePublicationTx (s_publication_id s) (s_snapshot_id s) (s_corpus_id s) (null_string (s_job_id s)) now d = Inr d' \<or>
     s_state s = SNAPSHOT_STATE_VALIDATING \<and> verifyIndexPublicationJobs (s_publication_id s) locked d = Inr () \<and>
       graph (s_publication_id s) d = Inr () \<and> co_publisher_fence corpus = s_fence s \<and>
       null_string (co_active_snapshot_id corpus) = null_string (s_parent_snapshot_id s) \<and>
       finalizePublicationTx (s_publication_id s) (s_snapshot_id s) (s_corpus_id s) (null_string (s_job_id s)) now
         (activate s d) = Inr d'"
proof -
  note * = assms [unfolded commit_tx_def Let_def]
  obtain payload where p: "s_manifest_payload s = Some payload" using * by (auto split: option.splits)
  from * p have st: "s_state s = SNAPSHOT_STATE_PUBLISHED \<or> s_state s = SNAPSHOT_STATE_VALIDATING"
    by (auto split: if_splits)
  from * p obtain m receipts parent where
    m: "c_unmarshal c payload = Some m" and r: "load_receipts cr (s_publication_id s) d = Inr receipts"
    and pa: "loadSnapshotRefTx (null_string (s_parent_snapshot_id s)) d = Inr parent"
    by (auto simp: bind_result_Inr_iff unmarshalManifest_def split: option.splits if_splits)
  from * p m r pa have ready: "VerifyPublicationReady h c (m\<lparr>pm_acknowledgements := pm_acknowledgements m @ receipts\<rparr>) parent (s_fence s) = Inr ()"
    by (auto simp: unmarshalManifest_def split: if_splits sum.splits)
  from * p m r pa ready obtain corpus where c: "corpus_of d (s_corpus_id s) = Some corpus"
    by (auto simp: unmarshalManifest_def split: if_splits option.splits)
  show thesis
    by (rule that [OF p m r pa ready c])
      (use * p m r pa ready c st in \<open>auto simp: unmarshalManifest_def bind_result_Inr_iff split: if_splits\<close>)
qed

lemma pub_keeps_CommitPublication:
  "pub_keeps d (snd (CommitPublication h c cr graph reuse locked now publication d))"
proof -
  have "pub_keeps d d'" if p: "publication_of d publication = Some s"
    and t: "commit_tx h c cr graph reuse locked now s d = Inr d'" for s d'
  proof -
    obtain corpus where c: "corpus_of d (s_corpus_id s) = Some corpus"
      and cases: "s_state s = SNAPSHOT_STATE_PUBLISHED \<and>
        finalizePublicationTx (s_publication_id s) (s_snapshot_id s) (s_corpus_id s) (null_string (s_job_id s)) now d = Inr d' \<or>
      s_state s = SNAPSHOT_STATE_VALIDATING \<and>
        finalizePublicationTx (s_publication_id s) (s_snapshot_id s) (s_corpus_id s) (null_string (s_job_id s)) now
          (activate s d) = Inr d'"
      using commit_tx_Inr [OF t] by metis
    then show ?thesis using pub_keeps_activate [OF p _ c] finalize_same pub_keeps_same pub_keeps_trans by metis
  qed
  then show ?thesis by (auto simp: CommitPublication_def split: option.splits sum.splits)
qed

lemma pub_keeps_AbortPublication: "pub_keeps d (snd (AbortPublication publication d))"
proof (cases "publication_of d publication")
  case (Some s)
  have "pub_keeps d (update_snapshot publication (\<lambda>s. s\<lparr>s_state := SNAPSHOT_STATE_ABORTED\<rparr>) d)"
    if "s_state s \<in> {SNAPSHOT_STATE_STAGING, SNAPSHOT_STATE_VALIDATING, SNAPSHOT_STATE_ABORTING}"
    by (rule pub_keeps_update_snapshot [OF Some])
      (use that in \<open>auto simp: open_states_def same_slot_def snapshot_evolves_def\<close>)
  then show ?thesis by (auto simp: AbortPublication_def Some)
qed (simp add: AbortPublication_def)

lemma pub_keeps_rest:
  "pub_keeps d (snd (PinActiveSnapshot corpus lease owner ttl now d))"
  "pub_keeps d (snd (ReleaseSnapshotPin lease owner d))"
  "pub_keeps d (snd (RecordPublicationOperation publication backend key hash status fence d))"
  by (rule pub_keeps_same;
      auto simp: PinActiveSnapshot_def ReleaseSnapshotPin_def RecordPublicationOperation_def Let_def
        split: option.splits)+


section \<open>The ledger as a state machine\<close>

text \<open>
  The transactions with any arguments, any outcome of the reading checks of other components, the
  creation of a corpus by a submission, and any change of the tables the ledger does not own.
\<close>

inductive pub_step ::
    "host \<Rightarrow> publication_manifest codec \<Rightarrow> backend_receipt codec \<Rightarrow> snapshot_ref codec \<Rightarrow> db \<Rightarrow> db \<Rightarrow> bool"
  for h :: host and c :: "publication_manifest codec" and cr :: "backend_receipt codec" and cs :: "snapshot_ref codec" where
  reserve: "pub_step h c cr cs d (snd (ReservePublication publication job corpus snapshot parent d))"
| stage: "pub_step h c cr cs d (snd (StagePublication h c cs manifest d))"
| receipt: "pub_step h c cr cs d (snd (RecordBackendReceipt h cr receipt d))"
| commit: "pub_step h c cr cs d (snd (CommitPublication h c cr graph reuse locked now publication d))"
| abort: "pub_step h c cr cs d (snd (AbortPublication publication d))"
| pin: "pub_step h c cr cs d (snd (PinActiveSnapshot corpus lease owner ttl now d))"
| release: "pub_step h c cr cs d (snd (ReleaseSnapshotPin lease owner d))"
| operation: "pub_step h c cr cs d (snd (RecordPublicationOperation publication backend key hash status fence d))"
| corpus: "ensure_corpus corpus d = Inr d' \<Longrightarrow> pub_step h c cr cs d d'"
| other: "snapshots d' = snapshots d \<Longrightarrow> corpus_state d' = corpus_state d \<Longrightarrow> pub_step h c cr cs d d'"

lemma pub_step_keeps: "pub_step h c cr cs d d' \<Longrightarrow> pub_keeps d d'"
  by (induction rule: pub_step.induct)
    (simp_all add: pub_keeps_ReservePublication pub_keeps_StagePublication pub_keeps_RecordBackendReceipt
      pub_keeps_CommitPublication pub_keeps_AbortPublication pub_keeps_rest pub_keeps_ensure pub_keeps_same)

interpretation publication_ledger: evolving_system pub_inv "pub_step h c cr cs" ledger_evolves
  for h c cr cs
  by unfold_locales (auto dest: pub_step_keeps simp: pub_keeps_def intro: ledger_evolves_trans)

text \<open>
  Claim C1. In every reachable state of the ledger each corpus has at most one open publication;
  it has the newest sequence number, the current publisher fence and the active snapshot as its
  parent; sequence numbers are unique; and the active snapshot of a corpus is its published
  snapshot with the largest sequence number.
\<close>

theorem reachable_pub_inv:
  assumes "(pub_step h c cr cs)\<^sup>*\<^sup>* empty_db d"
  shows "pub_inv d"
  using assms pub_inv_empty by (rule publication_ledger.inv_run)

text \<open>
  Claim C9. Over any run of the ledger a reserved slot keeps its snapshot, corpus, sequence,
  parent, job and fence; a published or aborted snapshot never changes again; a staged manifest is
  never replaced; and the sequence and fence counters of a corpus never decrease.
\<close>

theorem ledger_evolves_run:
  assumes "(pub_step h c cr cs)\<^sup>*\<^sup>* d d'" and "pub_inv d"
  shows "ledger_evolves d d'"
  using assms by (rule publication_ledger.evolves_run)

lemma snapshot_of_publication:
  assumes "pub_inv d" "snapshot_of d i = Some s"
  shows "publication_of d (s_publication_id s) = Some s"
  using assms row_of_mem [OF assms(2)] by (simp add: pub_inv_def row_of_distinct)

lemma snapshot_kept:
  assumes "pub_inv d" "pub_inv d'" "ledger_evolves d d'" "snapshot_of d i = Some s" "s_state s = SNAPSHOT_STATE_PUBLISHED"
  shows "snapshot_of d' i = Some s"
proof -
  have "publication_of d' (s_publication_id s) = Some s"
    using assms(3) snapshot_of_publication [OF assms(1,4)] assms(5) by (auto simp: ledger_evolves_def snapshot_evolves_def)
  then have "row_of s_snapshot_id (s_snapshot_id s) (snapshots d') = Some s"
    using assms(2) by (intro row_of_distinct) (auto simp: pub_inv_def dest: row_of_mem)
  then show ?thesis using row_of_key [OF assms(4)] by simp
qed

lemma snapshot_unchanged:
  assumes "(pub_step h c cr cs)\<^sup>*\<^sup>* d d'" "pub_inv d" "snapshot_of d i = Some s" "s_state s = SNAPSHOT_STATE_PUBLISHED"
  shows "snapshot_of d' i = Some s"
  using publication_ledger.inv_run [OF assms(1,2)] publication_ledger.evolves_run [OF assms(1,2)] assms(2-4)
  by (blast intro: snapshot_kept)

lemma write_outbox_event: "row_of x_event_id (''snapshot-published:'' @ p) (outbox_events (write_outbox p i d)) \<noteq> None"
proof (cases "row_of x_event_id (''snapshot-published:'' @ p) (outbox_events d)")
  case None
  have "x_event_id (outbox_event p i) = ''snapshot-published:'' @ p" by (simp add: outbox_event_def)
  with None show ?thesis unfolding write_outbox_def by (simp add: table_simps del: append_Cons append_Nil)
qed (simp add: write_outbox_def)

lemma write_outbox_again:
  "row_of x_event_id (''snapshot-published:'' @ p) (outbox_events d) \<noteq> None \<Longrightarrow> write_outbox p i d = d"
  by (simp add: write_outbox_def)

lemma write_outbox_jobs: "jobs (write_outbox p i d) = jobs d"
  by (simp add: write_outbox_def)

lemma finish_job_outbox: "finish_job job corpus now d = Inr d' \<Longrightarrow> outbox_events d' = outbox_events d"
  by (auto simp: finish_job_def update_job_def split: option.splits if_splits)

lemma finish_job_again:
  assumes "finish_job job corpus now d = Inr d'" "jobs e = jobs d'"
  shows "\<exists>e'. finish_job job corpus now' e = Inr e'"
  using assms by (auto simp: finish_job_def update_job_def table_simps split: option.splits if_splits)

lemma finalize_again:
  assumes "finalizePublicationTx p i corpus job now d = Inr d'"
  obtains d2 where "finalizePublicationTx p i corpus job now' d' = Inr d2" "outbox_events d2 = outbox_events d'"
proof -
  obtain e where e: "finish_job job corpus now d = Inr e" "d' = write_outbox p i e"
    using assms by (auto simp: finalizePublicationTx_def bind_result_Inr_iff)
  obtain e' where e': "finish_job job corpus now' d' = Inr e'"
    using finish_job_again [OF e(1)] e(2) by (metis write_outbox_jobs)
  have out: "outbox_events e' = outbox_events d'" using finish_job_outbox [OF e'] .
  have "write_outbox p i e' = e'" using write_outbox_event [of p i e] by (intro write_outbox_again) (simp only: out e(2) not_False_eq_True)
  with that e' out show thesis by (simp add: finalizePublicationTx_def)
qed

text \<open>
  Claim C32. A reader that has pinned the active snapshot reads the same snapshot whatever happens
  later: the pinned snapshot is published, and after any run of the ledger its row, with manifest,
  hash and generation, is unchanged and can still be referenced as before.
\<close>

theorem pin_stable:
  assumes "pub_inv d" and "PinActiveSnapshot corpus lease owner ttl now d = (Inr pin, d1)"
    and "(pub_step h c cr cs)\<^sup>*\<^sup>* d1 d2"
  shows "\<exists>s. snapshot_of d (sp_snapshot_id pin) = Some s \<and> s_state s = SNAPSHOT_STATE_PUBLISHED \<and>
    s_sequence s = sp_sequence pin \<and> snapshot_of d2 (sp_snapshot_id pin) = Some s \<and>
    loadSnapshotRef (sp_snapshot_id pin) d2 = loadSnapshotRef (sp_snapshot_id pin) d"
proof -
  have "\<exists>s. snapshot_of d (sp_snapshot_id pin) = Some s \<and> s_state s = SNAPSHOT_STATE_PUBLISHED \<and>
      s_sequence s = sp_sequence pin"
    using assms(2) unfolding PinActiveSnapshot_def
    by (auto simp: Let_def bind_eq_Some_conv split: if_splits option.splits) (metis row_of_key)+
  moreover have "snapshots d1 = snapshots d" "pub_inv d1"
    using assms(1,2) pub_keeps_rest(1) [of d corpus lease owner ttl now]
    unfolding PinActiveSnapshot_def pub_keeps_def by (auto simp: Let_def split: if_splits option.splits)
  ultimately show ?thesis
    using snapshot_unchanged [OF assms(3)] by (auto simp: loadSnapshotRef_def)
qed

lemma corpus_exists:
  assumes "pub_inv d" "publication_of d p = Some s"
  obtains corpus where "corpus_of d (s_corpus_id s) = Some corpus"
proof -
  have "\<exists>c \<in> set (corpus_state d). co_corpus_id c = s_corpus_id s"
    using assms(1) row_of_mem [OF assms(2)] unfolding pub_inv_def ledger_ok_def by blast
  then show thesis using that by (cases "corpus_of d (s_corpus_id s)") (auto simp: row_of_None_iff)
qed

text \<open>
  Claim C14. Commit of a validated publication, in a state that satisfies the invariant, whose
  manifest, receipts and parent can be read: it succeeds exactly when the publication is ready,
  the INDEX jobs, the graph and the reuse check agree, and the job can be completed. The guards on
  the publisher fence and on the active snapshot are then always passed: an open publication
  cannot lose the race for the active pointer.
\<close>

theorem commit_validated_iff:
  assumes "pub_inv d" and "publication_of d p = Some s" and "s_state s = SNAPSHOT_STATE_VALIDATING"
    and "s_manifest_payload s = Some payload" and "c_unmarshal c payload = Some m"
    and "load_receipts cr p d = Inr receipts"
    and "loadSnapshotRefTx (null_string (s_parent_snapshot_id s)) d = Inr parent"
  shows "CommitPublication h c cr graph reuse locked now p d = (Inr (), d') \<longleftrightarrow>
    VerifyPublicationReady h c (m\<lparr>pm_acknowledgements := pm_acknowledgements m @ receipts\<rparr>) parent (s_fence s) = Inr () \<and>
    verifyIndexPublicationJobs p locked d = Inr () \<and> graph p d = Inr () \<and>
    reuse (m\<lparr>pm_acknowledgements := pm_acknowledgements m @ receipts\<rparr>) d = Inr () \<and>
    finalizePublicationTx p (s_snapshot_id s) (s_corpus_id s) (null_string (s_job_id s)) now (activate s d) = Inr d'"
    (is "?commit \<longleftrightarrow> ?ready \<and> ?rest")
proof -
  obtain corpus where c: "corpus_of d (s_corpus_id s) = Some corpus" using corpus_exists [OF assms(1,2)] .
  note slot = open_slot [OF assms(1,2) _ c]
  have p: "s_publication_id s = p" using row_of_key [OF assms(2)] .
  define m' where "m' = m\<lparr>pm_acknowledgements := pm_acknowledgements m @ receipts\<rparr>"
  have tx: "commit_tx h c cr graph reuse locked now s d =
     (case VerifyPublicationReady h c m' parent (s_fence s) of
        Inl e \<Rightarrow> Inl (Wrap ''verify publication readiness'' ErrPublicationNotReady)
      | Inr _ \<Rightarrow> bind_result (verifyIndexPublicationJobs p locked d) (\<lambda>_. bind_result (graph p d) (\<lambda>_.
          bind_result (reuse m' d) (\<lambda>_.
          finalizePublicationTx p (s_snapshot_id s) (s_corpus_id s) (null_string (s_job_id s)) now (activate s d)))))"
    using assms(3-7) c slot
    by (simp add: commit_tx_def Let_def unmarshalManifest_def p open_states_def m'_def [symmetric] cong: sum.case_cong)
  show ?thesis
    unfolding CommitPublication_def assms(2) option.case tx m'_def [symmetric]
    by (auto simp: bind_result_Inr_iff split: sum.splits)
qed

text \<open>
  Claim C10. What a first successful commit has done: the slot was validated and built on the
  snapshot that was active; now it is published and active; exactly the staged backends have
  acknowledged it, each with a matching receipt; its job, if it has one, is SUCCEEDED without
  lease; and the outbox has its event.
\<close>

theorem commit_activates:
  assumes "pub_inv d" and "publication_of d p = Some s" and "s_state s \<noteq> SNAPSHOT_STATE_PUBLISHED"
    and "CommitPublication h c cr graph reuse locked now p d = (Inr (), d')"
  shows "\<exists>m receipts. s_state s = SNAPSHOT_STATE_VALIDATING \<and> Option.bind (s_manifest_payload s) (c_unmarshal c) = Some m \<and>
    load_receipts cr p d = Inr receipts \<and>
    map_option co_active_snapshot_id (corpus_of d (s_corpus_id s)) = Some (s_parent_snapshot_id s) \<and>
    ActiveSnapshot (s_corpus_id s) d' = Inr (s_snapshot_id s, s_sequence s) \<and>
    publication_of d' p = Some (s\<lparr>s_state := SNAPSHOT_STATE_PUBLISHED\<rparr>) \<and>
    bg_backend ` set (pm_backend_generations m) = br_backend ` set (pm_acknowledgements m @ receipts) \<and>
    (\<forall>r \<in> set receipts. \<forall>g \<in> set (pm_backend_generations m).
       bg_backend g = br_backend r \<longrightarrow> receipt_matches (m_record_id (pm_meta m)) (s_fence s) g r) \<and>
    (\<forall>j. s_job_id s = Some j \<and> j \<noteq> [] \<longrightarrow>
       map_option (\<lambda>r. (j_state r, j_lease_owner r)) (job_of d' j) = Some (JOB_STATE_SUCCEEDED, None)) \<and>
    row_of x_event_id (''snapshot-published:'' @ p) (outbox_events d') \<noteq> None"
proof -
  have t: "commit_tx h c cr graph reuse locked now s d = Inr d'"
    using assms(2,4) by (auto simp: CommitPublication_def split: sum.splits)
  have sp: "s_publication_id s = p" using row_of_key [OF assms(2)] .
  obtain payload m receipts parent corpus where
    pl: "s_manifest_payload s = Some payload" "c_unmarshal c payload = Some m" and
    rc: "load_receipts cr p d = Inr receipts" and
    ready: "VerifyPublicationReady h c (m\<lparr>pm_acknowledgements := pm_acknowledgements m @ receipts\<rparr>) parent (s_fence s) = Inr ()" and
    cor: "corpus_of d (s_corpus_id s) = Some corpus" and
    st: "s_state s = SNAPSHOT_STATE_VALIDATING" and
    fin: "finalizePublicationTx p (s_snapshot_id s) (s_corpus_id s) (null_string (s_job_id s)) now (activate s d) = Inr d'"
    using commit_tx_Inr [OF t, unfolded sp] assms(3) by metis
  note same = finalize_same [OF fin]
  have S: "snapshots d' = update_row s_publication_id p (\<lambda>s. s\<lparr>s_state := SNAPSHOT_STATE_PUBLISHED\<rparr>) (snapshots d)"
    and C: "corpus_state d' = update_row co_corpus_id (s_corpus_id s)
      (\<lambda>c. c\<lparr>co_active_snapshot_id := Some (s_snapshot_id s)\<rparr>) (corpus_state d)"
    using same by (simp_all add: activate_def update_corpus_def update_snapshot_def sp)
  have pub: "publication_of d' p = Some (s\<lparr>s_state := SNAPSHOT_STATE_PUBLISHED\<rparr>)"
    using assms(2) by (simp add: S table_simps)
  have inv': "pub_inv d'"
    using pub_keeps_CommitPublication [of d h c cr graph reuse locked now p] assms(1,4) by (simp add: pub_keeps_def)
  have snap: "snapshot_of d' (s_snapshot_id s) = Some (s\<lparr>s_state := SNAPSHOT_STATE_PUBLISHED\<rparr>)"
    using row_of_distinct [of s_snapshot_id "snapshots d'" "s\<lparr>s_state := SNAPSHOT_STATE_PUBLISHED\<rparr>"] inv' row_of_mem [OF pub]
    by (simp add: pub_inv_def)
  have active: "ActiveSnapshot (s_corpus_id s) d' = Inr (s_snapshot_id s, s_sequence s)"
    using cor snap by (simp add: ActiveSnapshot_def C table_simps)
  have before: "map_option co_active_snapshot_id (corpus_of d (s_corpus_id s)) = Some (s_parent_snapshot_id s)"
    using open_slot [OF assms(1,2) _ cor] st cor by (simp add: open_states_def)
  have job: "map_option (\<lambda>r. (j_state r, j_lease_owner r)) (job_of d' j) = Some (JOB_STATE_SUCCEEDED, None)"
    if "s_job_id s = Some j" "j \<noteq> []" for j
    using fin that by (auto simp: finalizePublicationTx_def bind_result_Inr_iff finish_job_def null_string_def
        write_outbox_def update_job_def table_simps split: option.splits if_splits)
  have outbox: "row_of x_event_id (''snapshot-published:'' @ p) (outbox_events d') \<noteq> None"
    using fin write_outbox_event by (auto simp only: finalizePublicationTx_def bind_result_Inr_iff sum.inject)
  have backends: "bg_backend ` set (pm_backend_generations m) = br_backend ` set (pm_acknowledgements m @ receipts)"
    "\<forall>r \<in> set receipts. \<forall>g \<in> set (pm_backend_generations m).
       bg_backend g = br_backend r \<longrightarrow> receipt_matches (m_record_id (pm_meta m)) (s_fence s) g r"
    using ready by (simp_all add: publication_ready)
  show ?thesis
    by (rule exI [of _ m], rule exI [of _ receipts])
      (use st pl rc before active pub backends job outbox in \<open>simp\<close>)
qed


text \<open>
  Claim C27. Commit can be repeated: when a commit has succeeded, the same call on the resulting
  tables succeeds again and changes neither snapshots, active pointers nor the outbox.
\<close>

theorem commit_replay:
  assumes "pub_inv d" and "CommitPublication h c cr graph reuse locked now p d = (Inr (), d1)"
  shows "\<exists>d2. CommitPublication h c cr graph reuse locked' now' p d1 = (Inr (), d2) \<and>
    snapshots d2 = snapshots d1 \<and> corpus_state d2 = corpus_state d1 \<and> outbox_events d2 = outbox_events d1"
proof -
  obtain s where s: "publication_of d p = Some s" and t: "commit_tx h c cr graph reuse locked now s d = Inr d1"
    using assms(2) by (auto simp: CommitPublication_def split: option.splits sum.splits)
  have sp: "s_publication_id s = p" using row_of_key [OF s] .
  obtain payload m receipts parent corpus e where
    pl: "s_manifest_payload s = Some payload" "c_unmarshal c payload = Some m" and
    rc: "load_receipts cr p d = Inr receipts" and
    pa: "loadSnapshotRefTx (null_string (s_parent_snapshot_id s)) d = Inr parent" and
    ready: "VerifyPublicationReady h c (m\<lparr>pm_acknowledgements := pm_acknowledgements m @ receipts\<rparr>) parent (s_fence s) = Inr ()" and
    cor: "corpus_of d (s_corpus_id s) = Some corpus" and
    e: "e = d \<and> s_state s = SNAPSHOT_STATE_PUBLISHED \<or> e = activate s d \<and> s_state s = SNAPSHOT_STATE_VALIDATING" and
    fin: "finalizePublicationTx p (s_snapshot_id s) (s_corpus_id s) (null_string (s_job_id s)) now e = Inr d1"
    using commit_tx_Inr [OF t, unfolded sp] by metis
  let ?s = "s\<lparr>s_state := SNAPSHOT_STATE_PUBLISHED\<rparr>"
  have inv1: "pub_inv d1" using pub_keeps_CommitPublication [of d h c cr graph reuse locked now p] assms
    by (simp add: pub_keeps_def)
  have s1: "publication_of d1 p = Some ?s"
    using e finalize_same [OF fin] s by (auto simp: activate_def update_corpus_def update_snapshot_def sp table_simps)
  obtain corpus1 where cor1: "corpus_of d1 (s_corpus_id s) = Some corpus1"
    using corpus_exists [OF inv1 s1] by auto
  have receipts: "backend_receipts d1 = backend_receipts d"
    using e fin by (auto simp: finalizePublicationTx_def bind_result_Inr_iff finish_job_def write_outbox_def update_job_def
        activate_def update_corpus_def update_snapshot_def split: option.splits if_splits)
  have rc1: "load_receipts cr p d1 = Inr receipts" using rc by (simp add: load_receipts_def receipts)
  have ev: "ledger_evolves d d1" using pub_keeps_CommitPublication [of d h c cr graph reuse locked now p] assms
    by (simp add: pub_keeps_def)
  have pa1: "loadSnapshotRefTx (null_string (s_parent_snapshot_id s)) d1 = Inr parent"
    using pa snapshot_kept [OF assms(1) inv1 ev]
    by (auto simp: loadSnapshotRefTx_def loadSnapshotRef_def bind_result_Inr_iff split: option.splits if_splits)
  obtain d2 where fin1: "finalizePublicationTx p (s_snapshot_id s) (s_corpus_id s) (null_string (s_job_id s)) now' d1 = Inr d2"
    and out: "outbox_events d2 = outbox_events d1"
    using finalize_again [OF fin] .
  have "CommitPublication h c cr graph reuse locked' now' p d1 = (Inr (), d2)"
    using s1 pl rc1 pa1 ready cor1 fin1
    by (simp add: CommitPublication_def commit_tx_def Let_def unmarshalManifest_def sp cong: sum.case_cong)
  then show ?thesis using finalize_same [OF fin1] out by blast
qed


section \<open>Reservation and abort\<close>

lemma parent_row_exists:
  assumes "pub_inv d" "corpus_of d k = Some c" "co_active_snapshot_id c = Some i"
  shows "snapshot_of d i \<noteq> None"
  using ledger_active [of "set (snapshots d)" "set (corpus_state d)" c] assms row_of_mem [OF assms(2)]
  by (auto simp: pub_inv_def active_ok_def row_of_None_iff)

lemma reserve_slot_free:
  assumes inv: "pub_inv d" and c: "corpus_of d k = Some c" and fresh: "publication_of d p = None" "snapshot_of d i = None"
  shows "(\<exists>d'. reserve_slot p [] i (null_string (co_active_snapshot_id c)) c d = Inr d') \<longleftrightarrow>
    (\<forall>t \<in> set (snapshots d). s_corpus_id t = k \<longrightarrow> s_state t \<notin> open_states)"
proof -
  let ?s = "reserved_row p [] i (null_string (co_active_snapshot_id c)) c"
  have k: "co_corpus_id c = k" using row_of_key [OF c] .
  have seq: "\<not> list_ex (\<lambda>t. s_corpus_id t = k \<and> s_sequence t = co_next_snapshot_sequence c) (snapshots d)"
    using inv ledger_slot [of "set (snapshots d)" "set (corpus_state d)" _ c] row_of_mem [OF c] k
    by (fastforce simp: pub_inv_def list_ex_iff slot_ok_def)
  have parent: "\<not> (case nullif_empty (null_string (co_active_snapshot_id c)) of None \<Rightarrow> False | Some q \<Rightarrow> snapshot_of d q = None)"
    unfolding nullif_null_string [OF active_not_empty [OF inv c]]
    using parent_row_exists [OF inv c] by (auto split: option.splits)
  show ?thesis
    using fresh seq parent
    by (auto simp: reserve_slot_def insert_snapshot_def reserved_row_def update_corpus_def k nullif_empty_def open_states_def
        list_ex_iff split: if_splits)
qed

text \<open>
  One publisher per corpus: a new publication with fresh identifiers, built on the
  active snapshot, is granted exactly when no other publication of the corpus is open, and it then
  gets the next sequence number and the next fence.
\<close>

theorem reserve_iff_free:
  assumes "pub_inv d" and "corpus_of d k = Some c"
    and "storageIDPattern p" "storageIDPattern k" "storageIDPattern i"
    and "publication_of d p = None" and "snapshot_of d i = None"
  shows "((\<exists>r d'. ReservePublication p [] k i (null_string (co_active_snapshot_id c)) d = (Inr r, d')) \<longleftrightarrow>
      (\<forall>t \<in> set (snapshots d). s_corpus_id t = k \<longrightarrow> s_state t \<notin> open_states)) \<and>
    (\<forall>r d'. ReservePublication p [] k i (null_string (co_active_snapshot_id c)) d = (Inr r, d') \<longrightarrow>
      pr_sequence r = co_next_snapshot_sequence c \<and> pr_fence r = co_publisher_fence c + 1 \<and>
      pr_state r = SNAPSHOT_STATE_STAGING)"
proof -
  have eq: "ReservePublication p [] k i (null_string (co_active_snapshot_id c)) d =
    (case reserve_slot p [] i (null_string (co_active_snapshot_id c)) c d of Inl e \<Rightarrow> (Inl e, d)
     | Inr d2 \<Rightarrow> (Inr (reservation_of (reserved_row p [] i (null_string (co_active_snapshot_id c)) c)), d2))"
    using assms by (simp add: ReservePublication_def ensure_corpus_def publication_job_ok_def)
  show ?thesis
    unfolding eq reserve_slot_free [OF assms(1,2,6,7), symmetric]
    by (auto simp: reservation_of_def reserved_row_def split: sum.splits)
qed

text \<open>
  An abort is granted only when every backend operation of the publication has been
  compensated, and it frees the corpus: afterwards no slot of the corpus is open.
\<close>

theorem abort_frees_corpus:
  assumes "pub_inv d" and "publication_of d p = Some s" and "AbortPublication p d = (Inr (), d')"
  shows "(\<forall>x \<in> set (publication_operations d). o_publication_id x = p \<longrightarrow> o_status x = Compensated) \<and>
    publication_of d' p = Some (s\<lparr>s_state := SNAPSHOT_STATE_ABORTED\<rparr>) \<and>
    (\<forall>t \<in> set (snapshots d'). s_corpus_id t = s_corpus_id s \<longrightarrow> s_state t \<notin> open_states)"
proof -
  have a: "s_state s \<in> open_states"
    "\<not> list_ex (\<lambda>x. o_publication_id x = p \<and> o_status x \<in> {Planned, Applied}) (publication_operations d)"
    "d' = update_snapshot p (\<lambda>s. s\<lparr>s_state := SNAPSHOT_STATE_ABORTED\<rparr>) d"
    using assms(2,3) by (auto simp: AbortPublication_def open_states_def split: if_splits)
  have ops: "o_status x = Compensated" if "x \<in> set (publication_operations d)" "o_publication_id x = p" for x
    using a(2) that by (cases "o_status x") (auto simp: list_ex_iff)
  have "s_state t \<notin> open_states" if "t \<in> set (snapshots d')" "s_corpus_id t = s_corpus_id s" for t
  proof -
    have "t = s\<lparr>s_state := SNAPSHOT_STATE_ABORTED\<rparr> \<or> t \<in> set (snapshots d) - {s}"
      using that(1) assms(1,2) unfolding a(3) update_snapshot_def
      by (simp add: set_update_row_unique pub_inv_def)
    then show ?thesis
    proof
      assume "t \<in> set (snapshots d) - {s}"
      then have "apart s t" using ledger_apart [of "set (snapshots d)" "set (corpus_state d)" s t] assms(1) row_of_mem [OF assms(2)]
        by (auto simp: pub_inv_def)
      then show ?thesis using that(2) a(1) by (auto simp: apart_def)
    qed (simp add: open_states_def)
  qed
  moreover have "publication_of d' p = Some (s\<lparr>s_state := SNAPSHOT_STATE_ABORTED\<rparr>)"
    using assms(2) by (simp add: a(3) update_snapshot_def table_simps)
  ultimately show ?thesis using ops by blast
qed

section \<open>A concrete publication\<close>

definition px_hash :: string where
  "px_hash = replicate 64 CHR ''a''"

definition px_manifest :: publication_manifest where
  "px_manifest = bx_manifest\<lparr>pm_acknowledgements := [], pm_fence := 1,
     pm_backend_generations := [\<lparr>bg_backend = BACKEND_KIND_QDRANT, bg_generation = ''g'', bg_expected_counts = bx_counts,
       bg_operations_checksum = px_hash\<rparr>]\<rparr>"

definition px_receipt :: backend_receipt where
  "px_receipt = \<lparr>br_publication_id = ''p'', br_backend = BACKEND_KIND_QDRANT, br_generation = ''g'',
     br_operations_checksum = px_hash, br_counts = bx_counts, br_durable_ack = True, br_search_ready = True, br_fence = 1\<rparr>"

definition px_ref :: "snapshot_ref codec" where
  "px_ref = bx_codec (pm_snapshot_ref px_manifest)"

definition px_reserved :: db where
  "px_reserved = snd (ReservePublication ''p'' [] ''c'' ''s'' [] empty_db)"

definition px_staged :: db where
  "px_staged = snd (StagePublication bx_host (bx_codec px_manifest) px_ref (Some px_manifest) px_reserved)"

definition px_acked :: db where
  "px_acked = snd (RecordBackendReceipt bx_host (bx_codec px_receipt) (Some px_receipt) px_staged)"

definition px_commit :: "db \<Rightarrow> unit result \<times> db" where
  "px_commit = CommitPublication bx_host (bx_codec px_manifest) (bx_codec px_receipt) (\<lambda>_ _. Inr ()) (\<lambda>_ _. Inr ()) {} 5 ''p''"

definition px_published :: db where
  "px_published = snd (px_commit px_acked)"

abbreviation px_step :: "db \<Rightarrow> db \<Rightarrow> bool" where
  "px_step \<equiv> pub_step bx_host (bx_codec px_manifest) (bx_codec px_receipt) px_ref"

lemma px_run: "px_step\<^sup>*\<^sup>* empty_db px_acked" "px_step\<^sup>*\<^sup>* px_acked px_published"
proof -
  have "px_step empty_db px_reserved" "px_step px_reserved px_staged" "px_step px_staged px_acked" "px_step px_acked px_published"
    unfolding px_reserved_def px_staged_def px_acked_def px_published_def px_commit_def by (rule pub_step.intros)+
  then show "px_step\<^sup>*\<^sup>* empty_db px_acked" "px_step\<^sup>*\<^sup>* px_acked px_published"
    by (blast intro: three_steps)+
qed

lemma px_inv: "pub_inv px_acked" "pub_inv px_published"
  using publication_ledger.inv_run [OF px_run(1) pub_inv_empty] publication_ledger.inv_run [OF px_run(2)] by blast+

lemma px_states:
  "map_option s_state (publication_of px_acked ''p'') = Some SNAPSHOT_STATE_VALIDATING"
  "map_option s_state (publication_of px_published ''p'') = Some SNAPSHOT_STATE_PUBLISHED"
  "fst (px_commit px_acked) = Inr ()"
  by code_simp+

definition px_row :: snapshot_row where
  "px_row = hd (snapshots px_acked)"

lemma px_lookups:
  "publication_of px_acked ''p'' = Some px_row" "s_state px_row = SNAPSHOT_STATE_VALIDATING"
  "s_state px_row \<noteq> SNAPSHOT_STATE_PUBLISHED"
  "px_commit px_acked = (Inr (), px_published)"
  "s_manifest_payload px_row = Some []" "c_unmarshal (bx_codec px_manifest) [] = Some px_manifest"
  "load_receipts (bx_codec px_receipt) ''p'' px_acked = Inr [px_receipt]"
  "loadSnapshotRefTx (null_string (s_parent_snapshot_id px_row)) px_acked = Inr None"
  by code_simp+

theorem reachable_pub_inv_witness: "px_step\<^sup>*\<^sup>* empty_db px_acked \<and> pub_inv px_acked"
  using px_run(1) reachable_pub_inv [OF px_run(1)] by blast

theorem ledger_evolves_run_witness: "px_step\<^sup>*\<^sup>* px_acked px_published \<and> ledger_evolves px_acked px_published"
  using px_run(2) ledger_evolves_run [OF px_run(2) px_inv(1)] by blast

theorem commit_validated_iff_witness:
  "CommitPublication bx_host (bx_codec px_manifest) (bx_codec px_receipt) (\<lambda>_ _. Inr ()) (\<lambda>_ _. Inr ()) {} 5 ''p'' px_acked =
     (Inr (), px_published) \<and>
   verifyIndexPublicationJobs ''p'' {} px_acked = Inr ()"
  using commit_validated_iff [OF px_inv(1) px_lookups(1,2,5-8), where d' = px_published and h = bx_host and
      graph = "\<lambda>_ _. Inr ()" and reuse = "\<lambda>_ _. Inr ()" and locked = "{}" and now = 5] px_lookups(4)
  by (simp add: px_commit_def)

theorem commit_activates_witness:
  "ActiveSnapshot ''c'' px_published = Inr (''s'', 1) \<and> fst (px_commit px_acked) = Inr ()"
proof -
  have "s_corpus_id px_row = ''c''" "s_snapshot_id px_row = ''s''" "s_sequence px_row = 1" by code_simp+
  with commit_activates [OF px_inv(1) px_lookups(1,3) px_lookups(4) [unfolded px_commit_def]] px_lookups(4)
  show ?thesis by auto
qed

theorem commit_replay_witness:
  "\<exists>d2. px_commit px_published = (Inr (), d2) \<and> snapshots d2 = snapshots px_published"
  using commit_replay [OF px_inv(1) px_lookups(4) [unfolded px_commit_def], of "{}" 5] unfolding px_commit_def by blast

theorem pin_stable_witness:
  "\<exists>pin d1. PinActiveSnapshot ''c'' ''l'' ''o'' 10 6 px_published = (Inr pin, d1) \<and>
     snapshot_of d1 (sp_snapshot_id pin) = snapshot_of px_published (sp_snapshot_id pin)"
proof -
  have "succeeded (PinActiveSnapshot ''c'' ''l'' ''o'' 10 6 px_published)" by code_simp
  from succeeded_ex [OF this] obtain pin d1 where p: "PinActiveSnapshot ''c'' ''l'' ''o'' 10 6 px_published = (Inr pin, d1)"
    by blast
  from pin_stable [OF px_inv(2) p rtranclp.rtrancl_refl] p show ?thesis by metis
qed

theorem reserve_iff_free_witness:
  "\<exists>r d'. ReservePublication ''q'' [] ''c'' ''t'' ''s'' px_published = (Inr r, d') \<and> pr_sequence r = 2"
proof -
  have r: "corpus_of px_published ''c'' = Some (hd (corpus_state px_published))"
    "storageIDPattern ''q''" "storageIDPattern ''c''" "storageIDPattern ''t''"
    "publication_of px_published ''q'' = None" "snapshot_of px_published ''t'' = None"
    "null_string (co_active_snapshot_id (hd (corpus_state px_published))) = ''s''"
    "co_next_snapshot_sequence (hd (corpus_state px_published)) = 2"
    "\<forall>t \<in> set (snapshots px_published). s_corpus_id t = ''c'' \<longrightarrow> s_state t \<notin> open_states"
    by code_simp+
  from reserve_iff_free [OF px_inv(2) r(1-6)] r(7-9) show ?thesis by auto
qed

theorem abort_frees_corpus_witness:
  "\<exists>d'. AbortPublication ''p'' px_acked = (Inr (), d') \<and>
     publication_of d' ''p'' = Some (px_row\<lparr>s_state := SNAPSHOT_STATE_ABORTED\<rparr>)"
proof -
  have a: "AbortPublication ''p'' px_acked = (Inr (), snd (AbortPublication ''p'' px_acked))" by code_simp
  from abort_frees_corpus [OF px_inv(1) px_lookups(1) a] a show ?thesis by blast
qed

end
