(* ===== verification/Query.thy ===== *)
theory Query
  imports Boundaries
begin

text \<open>
  The planning of a query (\<open>retrieval/query\<close>): the temporal scope of a question and the audit record
  of its resolution (\<open>temporal.go\<close>), the scopes of a comparison (\<open>comparison.go\<close>) and the lexical
  analysis of the question (\<open>lexical.go\<close>). The time zone database, Unicode normalisation and the
  Unicode letter table are arguments.
\<close>

section \<open>Temporal scope\<close>

record temporal_scope =
  ts_effective_at :: "calendar_date option"
  ts_mode :: temporal_mode
  ts_compare_dates :: "calendar_date list"
  ts_rest :: string

text \<open>
  A time is a number of nanoseconds since Go's zero time. A location has its name and gives the
  calendar date of a time in that zone.
\<close>

record location =
  loc_name :: string
  local_date :: "int \<Rightarrow> calendar_date"

record TemporalResolution =
  tr_policy :: string
  tr_requested_mode :: string
  tr_effective_date :: "calendar_date option"
  tr_time_zone :: string
  tr_resolved_at :: "int option"

definition TemporalPolicyVersion :: string where
  "TemporalPolicyVersion = ''explicit-calendar-v1''"

definition LoadQueryTimeZone :: "(string \<Rightarrow> location result) \<Rightarrow> string \<Rightarrow> location option result" where
  "LoadQueryTimeZone load_location name =
     (if name = '''' then Inr None
      else if name = ''Local'' then Inl (Err ''explicit IANA query time zone required; Local is not allowed'')
      else bind_result (load_location name) (\<lambda>z. Inr (Some z)))"

text \<open>The clock is the sample that a call of it returns; \<open>None\<close> is a nil clock.\<close>

definition ResolveTemporalScope ::
    "host \<Rightarrow> temporal_scope codec \<Rightarrow> temporal_scope option \<Rightarrow> location option \<Rightarrow> int option \<Rightarrow>
     (temporal_scope \<times> TemporalResolution) result" where
  "ResolveTemporalScope h sc scope zone clock =
     (case scope of
        None \<Rightarrow> Inl (Err ''explicit temporal scope required'')
      | Some s \<Rightarrow>
          bind_result (validate_wire h sc s) (\<lambda>_.
          case ts_mode s of
            TEMPORAL_MODE_AS_OF \<Rightarrow>
              Inr (s, \<lparr>tr_policy = TemporalPolicyVersion, tr_requested_mode = ''AS_OF'',
                       tr_effective_date = ts_effective_at s, tr_time_zone = '''', tr_resolved_at = None\<rparr>)
          | TEMPORAL_MODE_CURRENT \<Rightarrow>
              (case (zone, clock) of
                 (Some z, Some instant) \<Rightarrow>
                   (if ts_effective_at s \<noteq> None \<or> ts_compare_dates s \<noteq> [] \<or> loc_name z = ''Local''
                    then Inl (Err ''CURRENT requires configured time zone and clock, without caller-supplied dates'')
                    else let date = local_date z instant in
                      if instant = 0 \<or> d_year date < 1 \<or> d_year date > 9999
                      then Inl (Err ''invalid CURRENT clock sample'')
                      else Inr (s\<lparr>ts_mode := TEMPORAL_MODE_AS_OF, ts_effective_at := Some date\<rparr>,
                             \<lparr>tr_policy = TemporalPolicyVersion, tr_requested_mode = ''CURRENT'',
                              tr_effective_date = Some date, tr_time_zone = loc_name z, tr_resolved_at = Some instant\<rparr>))
               | _ \<Rightarrow> Inl (Err ''CURRENT requires configured time zone and clock, without caller-supplied dates''))
          | _ \<Rightarrow> Inl (Err ''only explicit AS_OF and configured CURRENT are supported'')))"

definition ValidateTemporalResolution ::
    "host \<Rightarrow> temporal_scope codec \<Rightarrow> (string \<Rightarrow> location result) \<Rightarrow> temporal_scope option \<Rightarrow>
     TemporalResolution option \<Rightarrow> unit result" where
  "ValidateTemporalResolution h sc load_location scope report =
     (case report of
        None \<Rightarrow> Inl (Err ''temporal resolution audit required'')
      | Some r \<Rightarrow>
          (if tr_policy r \<noteq> TemporalPolicyVersion \<or> tr_effective_date r = None
           then Inl (Err ''temporal resolution audit required'')
           else bind_result (LoadQueryTimeZone load_location (tr_time_zone r)) (\<lambda>zone.
             bind_result (ResolveTemporalScope h sc scope zone
                (Some (case tr_resolved_at r of None \<Rightarrow> 0 | Some t \<Rightarrow> t))) (\<lambda>(_, expected).
             if tr_requested_mode expected \<noteq> tr_requested_mode r \<or>
                tr_effective_date expected \<noteq> tr_effective_date r \<or>
                tr_time_zone expected \<noteq> tr_time_zone r \<or>
                (tr_resolved_at expected = None) \<noteq> (tr_resolved_at r = None)
             then Inl (Err ''temporal resolution differs from requested scope'')
             else Inr ()))))"

section \<open>Comparison scopes\<close>

definition MaximumComparisonDates :: nat where
  "MaximumComparisonDates = 8"

definition comparison_scope :: "temporal_scope \<Rightarrow> calendar_date \<Rightarrow> temporal_scope" where
  "comparison_scope scope date =
     scope\<lparr>ts_mode := TEMPORAL_MODE_AS_OF, ts_compare_dates := [], ts_effective_at := Some date\<rparr>"

fun comparison_scopes ::
    "temporal_scope \<Rightarrow> calendar_date list \<Rightarrow> calendar_date list \<Rightarrow> temporal_scope list \<Rightarrow> temporal_scope list result" where
  "comparison_scopes scope seen [] out = Inr out"
| "comparison_scopes scope seen (date # dates) out =
     (if date \<in> set seen then Inl (Err ''COMPARE dates must be distinct'')
      else comparison_scopes scope (date # seen) dates (out @ [comparison_scope scope date]))"

definition PlanComparisonScopes ::
    "host \<Rightarrow> temporal_scope codec \<Rightarrow> temporal_scope option \<Rightarrow> temporal_scope list result" where
  "PlanComparisonScopes h sc scope =
     (case scope of
        None \<Rightarrow> Inl (Err ''COMPARE requires 2..8 explicit distinct dates and no single effective date'')
      | Some s \<Rightarrow>
          (if ts_mode s \<noteq> TEMPORAL_MODE_COMPARE \<or> ts_effective_at s \<noteq> None \<or>
              length (ts_compare_dates s) < 2 \<or> length (ts_compare_dates s) > MaximumComparisonDates
           then Inl (Err ''COMPARE requires 2..8 explicit distinct dates and no single effective date'')
           else bind_result (validate_wire h sc s) (\<lambda>_. comparison_scopes s [] (ts_compare_dates s) [])))"

section \<open>Lexical analysis\<close>

definition isASCIIDigit :: "nat \<Rightarrow> bool" where
  "isASCIIDigit ch \<longleftrightarrow> 48 \<le> ch \<and> ch \<le> 57"

definition keep_rune :: "(nat \<Rightarrow> bool) \<Rightarrow> nat \<Rightarrow> nat \<Rightarrow> nat \<Rightarrow> bool" where
  "keep_rune isLetter left ch right \<longleftrightarrow>
     isLetter ch \<or> isASCIIDigit ch \<or>
     ch = 45 \<and> isLetter left \<and> isLetter right \<or> ch = 47 \<and> isASCIIDigit left \<and> isASCIIDigit right"

definition lower_rune :: "nat \<Rightarrow> nat" where
  "lower_rune ch = (if 65 \<le> ch \<and> ch \<le> 90 then ch + 32 else ch)"

definition flush_term :: "string \<Rightarrow> string list \<Rightarrow> string list result" where
  "flush_term current terms =
     (if current = [] then Inr terms
      else if int (length terms) = 1024 then Inl ErrLexicalTooManyTerms
      else Inr (terms @ [current]))"

fun next_rune :: "nat list \<Rightarrow> nat" where
  "next_rune [] = 0"
| "next_rune (r # rs) = r"

fun analyze_runes :: "(nat \<Rightarrow> bool) \<Rightarrow> nat \<Rightarrow> nat list \<Rightarrow> string \<Rightarrow> string list \<Rightarrow> string list result" where
  "analyze_runes isLetter left [] current terms = flush_term current terms"
| "analyze_runes isLetter left (ch # rest) current terms =
     (if keep_rune isLetter left ch (next_rune rest)
      then let current' = current @ encode_rune (lower_rune ch) in
        if int (length current') > 256 then Inl ErrLexicalTermTooLong
        else analyze_runes isLetter ch rest current' terms
      else bind_result (flush_term current terms) (\<lambda>terms'. analyze_runes isLetter ch rest [] terms'))"

definition AnalyzeLexicalQuery :: "(string \<Rightarrow> string) \<Rightarrow> (nat \<Rightarrow> bool) \<Rightarrow> string \<Rightarrow> string list result" where
  "AnalyzeLexicalQuery nfc isLetter input =
     (if int (length input) > 2000000 then Inl ErrLexicalInputTooLarge
      else if \<not> utf8_valid input then Inl (Err ''lexical input is not valid UTF-8'')
      else analyze_runes isLetter 0 (runes_of (nfc input)) [] [])"

section \<open>Temporal resolution is reproducible\<close>

lemma ResolveTemporalScope_Inr:
  "ResolveTemporalScope h sc (Some s) zone clock = Inr (resolved, r) \<longleftrightarrow>
     validate_wire h sc s = Inr () \<and>
     (ts_mode s = TEMPORAL_MODE_AS_OF \<and> resolved = s \<and>
        r = \<lparr>tr_policy = TemporalPolicyVersion, tr_requested_mode = ''AS_OF'',
             tr_effective_date = ts_effective_at s, tr_time_zone = '''', tr_resolved_at = None\<rparr> \<or>
      ts_mode s = TEMPORAL_MODE_CURRENT \<and> ts_effective_at s = None \<and> ts_compare_dates s = [] \<and>
        (\<exists>z t. zone = Some z \<and> clock = Some t \<and> loc_name z \<noteq> ''Local'' \<and> t \<noteq> 0 \<and>
           1 \<le> d_year (local_date z t) \<and> d_year (local_date z t) \<le> 9999 \<and>
           resolved = s\<lparr>ts_mode := TEMPORAL_MODE_AS_OF, ts_effective_at := Some (local_date z t)\<rparr> \<and>
           r = \<lparr>tr_policy = TemporalPolicyVersion, tr_requested_mode = ''CURRENT'',
                tr_effective_date = Some (local_date z t), tr_time_zone = loc_name z, tr_resolved_at = Some t\<rparr>))"
  by (cases zone; cases clock; cases "ts_mode s")
    (auto simp: ResolveTemporalScope_def bind_result_Inr_iff Let_def split: if_splits)

lemma ValidateTemporalResolution_iff:
  "ValidateTemporalResolution h sc load (Some s) (Some r) = Inr () \<longleftrightarrow>
     tr_effective_date r \<noteq> None \<and>
     (\<exists>zone resolved. LoadQueryTimeZone load (tr_time_zone r) = Inr zone \<and>
        ResolveTemporalScope h sc (Some s) zone (tr_resolved_at r) = Inr (resolved, r))"
  (is "?L \<longleftrightarrow> ?R")
proof
  assume ?L
  then obtain zone resolved e where v: "tr_policy r = TemporalPolicyVersion" "tr_effective_date r \<noteq> None"
    "LoadQueryTimeZone load (tr_time_zone r) = Inr zone"
    "ResolveTemporalScope h sc (Some s) zone (Some (case tr_resolved_at r of None \<Rightarrow> 0 | Some t \<Rightarrow> t)) = Inr (resolved, e)"
    "tr_requested_mode e = tr_requested_mode r" "tr_effective_date e = tr_effective_date r"
    "tr_time_zone e = tr_time_zone r" "(tr_resolved_at e = None) = (tr_resolved_at r = None)"
    by (auto simp: ValidateTemporalResolution_def bind_result_Inr_iff split: if_splits)
  then have "r = e" "ResolveTemporalScope h sc (Some s) zone (tr_resolved_at r) = Inr (resolved, e)"
    by (cases r; auto simp: ResolveTemporalScope_Inr split: option.splits)+
  with v show ?R by blast
next
  assume ?R
  then obtain zone resolved where z: "tr_effective_date r \<noteq> None" "LoadQueryTimeZone load (tr_time_zone r) = Inr zone"
    and r: "ResolveTemporalScope h sc (Some s) zone (tr_resolved_at r) = Inr (resolved, r)" by blast
  then have "ResolveTemporalScope h sc (Some s) zone (Some (case tr_resolved_at r of None \<Rightarrow> 0 | Some t \<Rightarrow> t)) = Inr (resolved, r)"
    by (auto simp: ResolveTemporalScope_Inr)
  moreover have "tr_policy r = TemporalPolicyVersion" using r by (auto simp: ResolveTemporalScope_Inr)
  ultimately show ?L using z by (simp add: ValidateTemporalResolution_def)
qed

text \<open>What reflection shows of a temporal scope to the cross-field rules.\<close>

definition scope_reflected :: "temporal_scope codec \<Rightarrow> temporal_scope \<Rightarrow> bool" where
  "scope_reflected sc s \<longleftrightarrow>
     wm_sem (c_reflect sc s) = SemTemporalScope (ts_mode s) (ts_effective_at s \<noteq> None) (length (ts_compare_dates s))"

lemma validate_wire_semantics:
  "validate_wire h c m = Inr () \<Longrightarrow> validateSemantics (url_parse h) (wm_sem (c_reflect c m)) = Inr ()"
proof -
  assume "validate_wire h c m = Inr ()"
  then have "message_spec (c_reflect c m) (url_parse h) (MaxDepth DefaultWireLimits) []"
    by (simp add: validate_wire_def ValidateWire_Inr_iff)
  then show ?thesis by (cases "c_reflect c m") (simp add: Let_def)
qed

text \<open>
  Claim C37. Resolving a temporal scope and auditing it agree: with a zone that came from the time
  zone database, whatever \<open>ResolveTemporalScope\<close> reports is accepted by
  \<open>ValidateTemporalResolution\<close> for the same requested scope, the resolved scope is an AS_OF scope,
  and the date it fixes is the reported one.
\<close>

theorem temporal_round_trip:
  assumes "ResolveTemporalScope h sc (Some s) zone clock = Inr (resolved, report)"
    and "LoadQueryTimeZone load_location name = Inr zone"
    and "\<And>n z. load_location n = Inr z \<Longrightarrow> loc_name z \<noteq> '''' \<and> load_location (loc_name z) = Inr z"
    and "scope_reflected sc s"
  shows "ValidateTemporalResolution h sc load_location (Some s) (Some report) = Inr () \<and>
    ts_mode resolved = TEMPORAL_MODE_AS_OF \<and> ts_effective_at resolved \<noteq> None \<and>
    ts_effective_at resolved = tr_effective_date report"
proof -
  note r = assms(1) [unfolded ResolveTemporalScope_Inr]
  from r have "validateSemantics (url_parse h) (wm_sem (c_reflect sc s)) = Inr ()"
    by (blast intro: validate_wire_semantics)
  then have date: "ts_mode s = TEMPORAL_MODE_AS_OF \<Longrightarrow> ts_effective_at s \<noteq> None"
    using assms(4) by (auto simp: scope_reflected_def guard_Inr_iff split: if_splits)
  have zone: "LoadQueryTimeZone load_location (loc_name z) = Inr zone" if "zone = Some z" "loc_name z \<noteq> ''Local''" for z
    using that assms(2) assms(3) [of name z]
    by (auto simp: LoadQueryTimeZone_def bind_result_Inr_iff split: if_splits)
  have "\<exists>zone' res. LoadQueryTimeZone load_location (tr_time_zone report) = Inr zone' \<and>
      ResolveTemporalScope h sc (Some s) zone' (tr_resolved_at report) = Inr (res, report)"
    using r zone unfolding ResolveTemporalScope_Inr by (fastforce simp: LoadQueryTimeZone_def)
  with r date show ?thesis by (auto simp: ValidateTemporalResolution_iff)
qed

section \<open>Comparison plans\<close>

lemma comparison_scopes_iff:
  "comparison_scopes s seen dates out = Inr r \<longleftrightarrow>
     distinct dates \<and> set dates \<inter> set seen = {} \<and> r = out @ map (comparison_scope s) dates"
  by (induction dates arbitrary: seen out) auto

text \<open>
  A comparison is planned exactly for two to eight distinct dates: one AS_OF scope per date, in
  the order of the dates, equal to the requested scope in everything else.
\<close>

lemma PlanComparisonScopes_iff:
  "PlanComparisonScopes h sc (Some s) = Inr plan \<longleftrightarrow>
     ts_mode s = TEMPORAL_MODE_COMPARE \<and> ts_effective_at s = None \<and> 2 \<le> length (ts_compare_dates s) \<and>
     length (ts_compare_dates s) \<le> 8 \<and> validate_wire h sc s = Inr () \<and> distinct (ts_compare_dates s) \<and>
     plan = map (comparison_scope s) (ts_compare_dates s)"
  by (auto simp: PlanComparisonScopes_def MaximumComparisonDates_def bind_result_Inr_iff comparison_scopes_iff)

text \<open>Every scope of a plan that is valid on its own resolves to itself.\<close>

lemma comparison_scope_resolves:
  assumes "validate_wire h sc (comparison_scope s d) = Inr ()"
  shows "\<exists>report. ResolveTemporalScope h sc (Some (comparison_scope s d)) zone clock =
      Inr (comparison_scope s d, report) \<and> tr_effective_date report = Some d"
  using assms by (simp add: ResolveTemporalScope_Inr) (simp add: comparison_scope_def)

section \<open>Lexical terms\<close>

text \<open>
  The reference: mark every kept rune, cut the sequence into its maximal runs of kept runes, and
  encode each run.
\<close>

fun marks :: "(nat \<Rightarrow> bool) \<Rightarrow> nat \<Rightarrow> nat list \<Rightarrow> nat option list" where
  "marks isLetter left [] = []"
| "marks isLetter left (ch # rest) =
     (if keep_rune isLetter left ch (next_rune rest) then Some (lower_rune ch) else None) # marks isLetter ch rest"

function (sequential) kept_runs :: "nat option list \<Rightarrow> nat list list" where
  "kept_runs [] = []"
| "kept_runs (None # xs) = kept_runs xs"
| "kept_runs (Some r # xs) =
     (r # map the (takeWhile (\<lambda>x. x \<noteq> None) xs)) # kept_runs (dropWhile (\<lambda>x. x \<noteq> None) xs)"
  by pat_completeness auto
termination
  by (relation "measure length") (auto simp: length_dropWhile_le less_Suc_eq_le)

definition encode_run :: "nat list \<Rightarrow> string" where
  "encode_run rs = concat (map encode_rune rs)"

definition lexical_terms :: "(nat \<Rightarrow> bool) \<Rightarrow> nat list \<Rightarrow> string list" where
  "lexical_terms isLetter runes = map encode_run (kept_runs (marks isLetter 0 runes))"

text \<open>The terms that remain when a term has been begun.\<close>

definition remaining_terms :: "string \<Rightarrow> nat option list \<Rightarrow> string list" where
  "remaining_terms current ms =
     (let t = current @ encode_run (map the (takeWhile (\<lambda>x. x \<noteq> None) ms)) in
      (if t = [] then [] else [t]) @ map encode_run (kept_runs (dropWhile (\<lambda>x. x \<noteq> None) ms)))"

lemma remaining_terms_Some:
  "remaining_terms current (Some r # ms) = remaining_terms (current @ encode_rune r) ms"
  by (simp add: remaining_terms_def encode_run_def Let_def)

lemma remaining_terms_fresh: "remaining_terms [] ms = map encode_run (kept_runs ms)"
proof (cases ms)
  case (Cons x xs)
  then show ?thesis by (cases x) (simp_all add: remaining_terms_def encode_run_def Let_def)
qed (simp add: remaining_terms_def encode_run_def)

lemma remaining_terms_None:
  "remaining_terms current (None # ms) = (if current = [] then [] else [current]) @ remaining_terms [] ms"
  by (simp add: remaining_terms_fresh) (simp add: remaining_terms_def encode_run_def Let_def)

lemma remaining_terms_long:
  "length current > n \<Longrightarrow> \<exists>t \<in> set (remaining_terms current ms). length t > n"
  by (auto simp: remaining_terms_def Let_def)

lemma analyze_runes_iff:
  assumes "length current \<le> 256" "length terms \<le> 1024"
  shows "analyze_runes isLetter left rs current terms = Inr out \<longleftrightarrow>
    out = terms @ remaining_terms current (marks isLetter left rs) \<and>
    (\<forall>t \<in> set (remaining_terms current (marks isLetter left rs)). length t \<le> 256) \<and> length out \<le> 1024"
  using assms
proof (induction isLetter left rs current terms rule: analyze_runes.induct)
  case (1 isLetter left current terms)
  then show ?case
    by (auto simp: flush_term_def remaining_terms_def encode_run_def)
next
  case (2 isLetter left ch rest current terms)
  let ?ms = "marks isLetter ch rest"
  show ?case
  proof (cases "keep_rune isLetter left ch (next_rune rest)")
    case True
    let ?c = "current @ encode_rune (lower_rune ch)"
    show ?thesis
    proof (cases "length ?c \<le> 256")
      case False
      then obtain t where "t \<in> set (remaining_terms ?c ?ms)" "length t > 256"
        using remaining_terms_long [of 256 ?c ?ms] by auto
      then have "\<not> (\<forall>t \<in> set (remaining_terms ?c ?ms). length t \<le> 256)" by force
      with False True show ?thesis by (simp add: remaining_terms_Some)
    next
      case len: True
      with True 2 show ?thesis by (simp add: remaining_terms_Some)
    qed
  next
    case False
    show ?thesis
    proof (cases "current = []")
      case True
      with False 2 show ?thesis by (simp add: flush_term_def remaining_terms_None)
    next
      case cur: False
      show ?thesis
      proof (cases "length terms = 1024")
        case True
        with False cur show ?thesis by (simp add: flush_term_def remaining_terms_None)
      next
        case less: False
        with "2.prems" have "length (terms @ [current]) \<le> 1024" by simp
        with "2.IH"(2) [OF False, of "terms @ [current]"] less False cur "2.prems" show ?thesis
          by (simp add: flush_term_def remaining_terms_None)
      qed
    qed
  qed
qed

text \<open>
  The lexical analyser returns exactly the maximal runs of letters, digits, hyphens
  between letters and slashes between digits of the normalised text, in lower case ASCII and in
  order; it fails exactly when the input is larger than two million bytes or not UTF-8, or some
  term is longer than 256 bytes, or there are more than 1024 terms.
\<close>

theorem AnalyzeLexicalQuery_iff:
  "AnalyzeLexicalQuery nfc isLetter input = Inr terms \<longleftrightarrow>
     int (length input) \<le> 2000000 \<and> utf8_valid input \<and>
     terms = lexical_terms isLetter (runes_of (nfc input)) \<and>
     list_all (\<lambda>t. length t \<le> 256) terms \<and> length terms \<le> 1024"
proof -
  have "analyze_runes isLetter 0 (runes_of (nfc input)) [] [] = Inr terms \<longleftrightarrow>
      terms = lexical_terms isLetter (runes_of (nfc input)) \<and>
      list_all (\<lambda>t. length t \<le> 256) terms \<and> length terms \<le> 1024"
    using analyze_runes_iff [of "[]" "[]" isLetter 0 "runes_of (nfc input)" terms]
    by (auto simp: lexical_terms_def remaining_terms_fresh list_all_iff)
  then show ?thesis by (auto simp: AnalyzeLexicalQuery_def)
qed

section \<open>Example\<close>

definition qx_date :: calendar_date where
  "qx_date = \<lparr>d_year = 2024, d_month = 5, d_day = 7\<rparr>"

definition qx_scope :: temporal_scope where
  "qx_scope = \<lparr>ts_effective_at = None, ts_mode = TEMPORAL_MODE_CURRENT, ts_compare_dates = [], ts_rest = ''''\<rparr>"

definition qx_zone :: location where
  "qx_zone = \<lparr>loc_name = ''Asia/Jakarta'', local_date = (\<lambda>_. qx_date)\<rparr>"

definition qx_codec :: "temporal_scope codec" where
  "qx_codec = \<lparr>c_marshal = (\<lambda>_. []), c_unmarshal = (\<lambda>_. None),
     c_reflect = (\<lambda>s. WireMessage ''regulagraph.v1.TemporalScope'' [] []
       (SemTemporalScope (ts_mode s) (ts_effective_at s \<noteq> None) (length (ts_compare_dates s)))), c_size = (\<lambda>_. 4)\<rparr>"

definition qx_load :: "string \<Rightarrow> location result" where
  "qx_load n = (if n = ''Asia/Jakarta'' then Inr qx_zone else Inl (Err ''unknown time zone''))"

theorem temporal_round_trip_witness:
  "\<exists>resolved report. ResolveTemporalScope bx_host qx_codec (Some qx_scope) (Some qx_zone) (Some 17) = Inr (resolved, report) \<and>
     ValidateTemporalResolution bx_host qx_codec qx_load (Some qx_scope) (Some report) = Inr () \<and>
     ts_effective_at resolved = Some qx_date"
proof -
  have "validate_wire bx_host qx_codec qx_scope = Inr ()" by code_simp
  then obtain resolved report where
    r: "ResolveTemporalScope bx_host qx_codec (Some qx_scope) (Some qx_zone) (Some 17) = Inr (resolved, report)"
    "ts_effective_at resolved = Some qx_date"
    by (simp add: ResolveTemporalScope_Inr qx_scope_def) (simp add: qx_zone_def qx_date_def)
  have z: "LoadQueryTimeZone qx_load ''Asia/Jakarta'' = Inr (Some qx_zone)"
    by (simp add: LoadQueryTimeZone_def qx_load_def)
  have l: "loc_name z \<noteq> '''' \<and> qx_load (loc_name z) = Inr z" if "qx_load n = Inr z" for n z
    using that by (auto simp: qx_load_def qx_zone_def split: if_splits)
  have s: "scope_reflected qx_codec qx_scope" by (simp add: scope_reflected_def qx_codec_def)
  have "ValidateTemporalResolution bx_host qx_codec qx_load (Some qx_scope) (Some report) = Inr ()"
    using temporal_round_trip [OF r(1) z _ s] l by blast
  with r show ?thesis by blast
qed

end
