(* ===== verification/Ordering.thy ===== *)
theory Ordering
  imports Prelude "HOL-Library.Multiset"
begin

text \<open>
  Go's \<open>sort.Slice\<close> and \<open>sort.SliceStable\<close> with a comparison function. The sorts are modelled by a
  stable insertion sort. \<open>sort.Slice\<close> promises only a sorted permutation; the locale
  \<open>keyed_order\<close> shows that there is one such permutation when elements that the comparison does
  not separate have the same key and the keys are distinct.
\<close>

fun insert_by :: "('a \<Rightarrow> 'a \<Rightarrow> bool) \<Rightarrow> 'a \<Rightarrow> 'a list \<Rightarrow> 'a list" where
  "insert_by lt x [] = [x]"
| "insert_by lt x (y # ys) = (if lt y x then y # insert_by lt x ys else x # y # ys)"

fun sort_by :: "('a \<Rightarrow> 'a \<Rightarrow> bool) \<Rightarrow> 'a list \<Rightarrow> 'a list" where
  "sort_by lt [] = []"
| "sort_by lt (x # xs) = insert_by lt x (sort_by lt xs)"

definition sorted_by :: "('a \<Rightarrow> 'a \<Rightarrow> bool) \<Rightarrow> 'a list \<Rightarrow> bool" where
  "sorted_by lt = sorted_wrt (\<lambda>x y. \<not> lt y x)"

lemma mset_insert_by [simp]: "mset (insert_by lt x xs) = add_mset x (mset xs)"
  by (induction xs) auto

lemma mset_sort_by [simp]: "mset (sort_by lt xs) = mset xs"
  by (induction xs) auto

lemma set_insert_by [simp]: "set (insert_by lt x xs) = insert x (set xs)"
  by (induction xs) auto

lemma set_sort_by [simp]: "set (sort_by lt xs) = set xs"
  by (induction xs) auto

lemma length_sort_by [simp]: "length (sort_by lt xs) = length xs"
  using mset_sort_by [of lt xs] by (metis size_mset)

lemma distinct_map_mset: "mset xs = mset ys \<Longrightarrow> distinct (map f xs) \<longleftrightarrow> distinct (map f ys)"
  by (metis mset_map mset_eq_imp_distinct_iff)

lemma sum_insert_by: "sum_list (map f (insert_by lt x xs)) = f x + sum_list (map f xs :: nat list)"
  by (induction xs) auto

lemma sum_sort_by [simp]: "sum_list (map f (sort_by lt xs)) = sum_list (map f xs :: nat list)"
  by (induction xs) (auto simp: sum_insert_by)

text \<open>A comparison that is a strict weak order on the values that can occur.\<close>

locale weak_order =
  fixes lt :: "'a \<Rightarrow> 'a \<Rightarrow> bool" and A :: "'a set"
  assumes asym: "x \<in> A \<Longrightarrow> y \<in> A \<Longrightarrow> lt x y \<Longrightarrow> \<not> lt y x"
    and neg_trans: "x \<in> A \<Longrightarrow> y \<in> A \<Longrightarrow> z \<in> A \<Longrightarrow> lt x z \<Longrightarrow> lt x y \<or> lt y z"
begin

lemma sorted_insert_by:
  "sorted_by lt xs \<Longrightarrow> insert x (set xs) \<subseteq> A \<Longrightarrow> sorted_by lt (insert_by lt x xs)"
proof (induction xs)
  case (Cons y ys)
  then have IH: "sorted_by lt (insert_by lt x ys)" by (auto simp: sorted_by_def)
  show ?case
  proof (cases "lt y x")
    case True
    with Cons.prems IH show ?thesis by (auto simp: sorted_by_def dest: asym)
  next
    case False
    moreover have "\<not> lt z x" if "z \<in> set ys" for z
      using that False Cons.prems neg_trans [of z y x] by (auto simp: sorted_by_def)
    ultimately show ?thesis using Cons.prems by (auto simp: sorted_by_def)
  qed
qed (simp add: sorted_by_def)

lemma sorted_sort_by: "set xs \<subseteq> A \<Longrightarrow> sorted_by lt (sort_by lt xs)"
proof (induction xs)
  case (Cons x xs)
  then show ?case by (simp add: sorted_insert_by)
qed (simp add: sorted_by_def)

text \<open>Elements that the comparison does not separate keep their order.\<close>

lemma filter_insert_by:
  assumes "insert a (insert x (set xs)) \<subseteq> A"
  shows "filter (\<lambda>y. \<not> lt a y \<and> \<not> lt y a) (insert_by lt x xs) =
    (if \<not> lt a x \<and> \<not> lt x a then [x] else []) @ filter (\<lambda>y. \<not> lt a y \<and> \<not> lt y a) xs"
  using assms
proof (induction xs)
  case (Cons y ys)
  then show ?case using neg_trans [of y a x] by auto
qed simp

lemma sort_by_stable:
  assumes "insert a (set xs) \<subseteq> A"
  shows "filter (\<lambda>y. \<not> lt a y \<and> \<not> lt y a) (sort_by lt xs) =
    filter (\<lambda>y. \<not> lt a y \<and> \<not> lt y a) xs"
  using assms by (induction xs) (auto simp: filter_insert_by)

end

locale keyed_order = weak_order lt A
  for lt :: "'a \<Rightarrow> 'a \<Rightarrow> bool" and A :: "'a set" +
  fixes key :: "'a \<Rightarrow> 'k"
  assumes same_key: "x \<in> A \<Longrightarrow> y \<in> A \<Longrightarrow> \<not> lt x y \<Longrightarrow> \<not> lt y x \<Longrightarrow> key x = key y"
begin

lemma sorted_unique:
  assumes "sorted_by lt xs" "sorted_by lt ys" "mset xs = mset ys" "distinct (map key xs)" "set xs \<subseteq> A"
  shows "xs = ys"
  using assms
proof (induction xs arbitrary: ys)
  case (Cons x xs)
  then obtain y zs where ys: "ys = y # zs" by (cases ys) auto
  have sets: "insert x (set xs) = insert y (set zs)"
    using mset_eq_setD [OF Cons.prems(3)] by (simp add: ys)
  have dz: "distinct (map key ys)" using distinct_map_mset [OF Cons.prems(3)] Cons.prems(4) by blast
  have "x = y"
  proof (rule ccontr)
    assume "x \<noteq> y"
    with sets have m: "x \<in> set zs" "y \<in> set xs" by auto
    then have "\<not> lt x y" "\<not> lt y x" using Cons.prems(1,2) by (auto simp: ys sorted_by_def)
    then have "key x = key y" using same_key [of x y] m Cons.prems(5) by auto
    with Cons.prems(4) m(2) show False by auto
  qed
  with Cons show ?case by (auto simp: ys sorted_by_def)
qed simp

lemma sort_by_unique:
  assumes "sorted_by lt ys" "mset xs = mset ys" "distinct (map key xs)" "set xs \<subseteq> A"
  shows "sort_by lt xs = ys"
proof (rule sorted_unique)
  show "sorted_by lt (sort_by lt xs)" using assms(4) by (rule sorted_sort_by)
  show "distinct (map key (sort_by lt xs))" using assms(3) distinct_map_mset [of "sort_by lt xs" xs key] by simp
qed (use assms in simp_all)

lemma sort_by_perm:
  assumes "mset xs = mset ys" "distinct (map key xs)" "set xs \<subseteq> A"
  shows "sort_by lt xs = sort_by lt ys"
  using assms mset_eq_setD [OF assms(1)] by (intro sort_by_unique) (auto intro: sorted_sort_by)

end

end
