(* ===== verification/Fusion.thy ===== *)
theory Fusion
  imports Boundaries Ordering
begin

text \<open>
  Reciprocal rank fusion (\<open>retrieval/fusion.go\<close>). The order in which Go iterates over a map is an
  argument (\<open>range_map\<close>), of which only that it is a permutation is assumed. A score is a
  \<open>float64\<close>; the sum of two 32-bit numbers is exact in that type.
\<close>

section \<open>Candidates\<close>

datatype retriever_kind =
    RETRIEVER_KIND_UNSPECIFIED | RETRIEVER_KIND_DENSE | RETRIEVER_KIND_BM25 | RETRIEVER_KIND_GRAPH
  | RETRIEVER_KIND_NUMBER int

primrec retriever_kind_number :: "retriever_kind \<Rightarrow> int" where
  "retriever_kind_number RETRIEVER_KIND_UNSPECIFIED = 0"
| "retriever_kind_number RETRIEVER_KIND_DENSE = 1"
| "retriever_kind_number RETRIEVER_KIND_BM25 = 2"
| "retriever_kind_number RETRIEVER_KIND_GRAPH = 3"
| "retriever_kind_number (RETRIEVER_KIND_NUMBER n) = n"

record candidate =
  cd_evidence_key :: string
  cd_retriever :: retriever_kind
  cd_rank :: nat
  cd_accepted :: "bool list"
  cd_rest :: string

record RankedBranch =
  Kind :: retriever_kind
  Candidates :: "candidate option list"

record RRFConfig =
  rrf_K :: nat
  Weights :: "retriever_kind \<Rightarrow> float64 option"
  MaximumPerBranch :: int
  MaximumTotalInputs :: int

record FusedCandidate =
  EvidenceKey :: string
  Score :: float64
  Provenance :: "candidate option list"
  BestRank :: nat

section \<open>Fusion\<close>

text \<open>One candidate absorbed into the entry of its key, created when absent.\<close>

definition fuse_item :: "nat \<Rightarrow> float64 \<Rightarrow> candidate \<Rightarrow> FusedCandidate list \<Rightarrow> FusedCandidate" where
  "fuse_item K weight c by_key =
     (let item = (case row_of EvidenceKey (cd_evidence_key c) by_key of
          None \<Rightarrow> \<lparr>EvidenceKey = cd_evidence_key c, Score = Fin 0, Provenance = [], BestRank = cd_rank c\<rparr>
        | Some i \<Rightarrow> i)
      in item\<lparr>BestRank := min (BestRank item) (cd_rank c),
              Score := float_add (Score item) (float_div weight (of_nat (K + cd_rank c))),
              Provenance := Provenance item @ [Some c]\<rparr>)"

definition put_item :: "FusedCandidate \<Rightarrow> FusedCandidate list \<Rightarrow> FusedCandidate list" where
  "put_item i by_key =
     (case row_of EvidenceKey (EvidenceKey i) by_key of
        None \<Rightarrow> by_key @ [i]
      | Some _ \<Rightarrow> update_row EvidenceKey (EvidenceKey i) (\<lambda>_. i) by_key)"

fun fuse_candidates ::
    "host \<Rightarrow> candidate codec \<Rightarrow> nat \<Rightarrow> retriever_kind \<Rightarrow> float64 \<Rightarrow> nat \<Rightarrow> string list \<Rightarrow>
     candidate option list \<Rightarrow> FusedCandidate list \<Rightarrow> FusedCandidate list result" where
  "fuse_candidates h cc K kind weight lastRank seen [] by_key = Inr by_key"
| "fuse_candidates h cc K kind weight lastRank seen (None # cs) by_key =
     Inl (Err ''invalid rank, retriever, or duplicate evidence in branch'')"
| "fuse_candidates h cc K kind weight lastRank seen (Some c # cs) by_key =
     (if cd_retriever c \<noteq> kind \<or> cd_rank c \<le> lastRank \<or> cd_evidence_key c \<in> set seen
      then Inl (Err ''invalid rank, retriever, or duplicate evidence in branch'')
      else case validate_wire h cc c of
        Inl e \<Rightarrow> Inl (Wrap ''invalid RRF candidate'' e)
      | Inr _ \<Rightarrow>
          (if cd_accepted c = [] then Inl (Err ''candidate has no recorded filter decisions'')
           else if \<not> list_all id (cd_accepted c) then Inl (Err ''rejected candidate reached RRF before filtering'')
           else let item = fuse_item K weight c by_key in
             if is_nan (Score item) \<or> is_inf (Score item) then Inl (Err ''RRF score overflow'')
             else fuse_candidates h cc K kind weight (cd_rank c) (cd_evidence_key c # seen) cs
                    (put_item item by_key)))"

fun fuse_branches ::
    "host \<Rightarrow> candidate codec \<Rightarrow> RRFConfig \<Rightarrow> retriever_kind list \<Rightarrow> int \<Rightarrow> RankedBranch list \<Rightarrow>
     FusedCandidate list \<Rightarrow> FusedCandidate list result" where
  "fuse_branches h cc config seenKinds used [] by_key = Inr by_key"
| "fuse_branches h cc config seenKinds used (b # bs) by_key =
     (if Kind b \<noteq> RETRIEVER_KIND_DENSE \<and> Kind b \<noteq> RETRIEVER_KIND_BM25 \<and> Kind b \<noteq> RETRIEVER_KIND_GRAPH \<or>
         Kind b \<in> set seenKinds
      then Inl (Err ''RRF branches require distinct known retriever kinds'')
      else case Weights config (Kind b) of
        None \<Rightarrow> Inl (Err ''each RRF branch requires a finite positive weight'')
      | Some weight \<Rightarrow>
          (if is_nan weight \<or> is_inf weight \<or> float_le weight (Fin 0)
           then Inl (Err ''each RRF branch requires a finite positive weight'')
           else if int (length (Candidates b)) > MaximumPerBranch config \<or>
                   int (length (Candidates b)) > MaximumTotalInputs config - used
           then Inl (Err ''RRF input exceeds configured candidate budget'')
           else bind_result (fuse_candidates h cc (rrf_K config) (Kind b) weight 0 [] (Candidates b) by_key) (\<lambda>m.
             fuse_branches h cc config (Kind b # seenKinds) (used + int (length (Candidates b))) bs m)))"

definition kind_less :: "RankedBranch \<Rightarrow> RankedBranch \<Rightarrow> bool" where
  "kind_less a b \<longleftrightarrow> retriever_kind_number (Kind a) < retriever_kind_number (Kind b)"

definition fused_less :: "FusedCandidate \<Rightarrow> FusedCandidate \<Rightarrow> bool" where
  "fused_less a b =
     (if \<not> float_eq (Score a) (Score b) then float_lt (Score b) (Score a)
      else if BestRank a \<noteq> BestRank b then BestRank a < BestRank b
      else EvidenceKey a < EvidenceKey b)"

definition FuseRRF ::
    "host \<Rightarrow> candidate codec \<Rightarrow> (FusedCandidate list \<Rightarrow> FusedCandidate list) \<Rightarrow>
     RankedBranch list \<Rightarrow> RRFConfig \<Rightarrow> FusedCandidate list result" where
  "FuseRRF h cc range_map branches config =
     (if rrf_K config = 0 \<or> MaximumPerBranch config \<le> 0 \<or> MaximumTotalInputs config \<le> 0 \<or>
         branches = [] \<or> length branches > 3
      then Inl (Err ''bounded RRF configuration and at least one branch are required'')
      else bind_result (fuse_branches h cc config [] 0 (sort_by kind_less branches) []) (\<lambda>by_key.
        Inr (sort_by fused_less (range_map by_key))))"

section \<open>What fusion computes\<close>

text \<open>
  The reference: all contributions in the order of the retriever kinds, and for a key the entry
  that its contributions give.
\<close>

definition contributions :: "RRFConfig \<Rightarrow> RankedBranch list \<Rightarrow> (float64 \<times> candidate) list" where
  "contributions config bs =
     concat (map (\<lambda>b. map (\<lambda>c. (the (Weights config (Kind b)), the c)) (Candidates b)) bs)"

definition contributions_for :: "string \<Rightarrow> (float64 \<times> candidate) list \<Rightarrow> (float64 \<times> candidate) list" where
  "contributions_for k xs = filter (\<lambda>(w, c). cd_evidence_key c = k) xs"

definition rrf_score :: "nat \<Rightarrow> (float64 \<times> candidate) list \<Rightarrow> float64" where
  "rrf_score K xs = foldl (\<lambda>s (w, c). float_add s (float_div w (of_nat (K + cd_rank c)))) (Fin 0) xs"

definition fused_for :: "nat \<Rightarrow> (float64 \<times> candidate) list \<Rightarrow> string \<Rightarrow> FusedCandidate" where
  "fused_for K xs k =
     (let own = contributions_for k xs in
      \<lparr>EvidenceKey = k, Score = rrf_score K own, Provenance = map (Some \<circ> snd) own,
       BestRank = Min (set (map (cd_rank \<circ> snd) own))\<rparr>)"

text \<open>The table after a sequence of contributions.\<close>

definition fused_table :: "nat \<Rightarrow> (float64 \<times> candidate) list \<Rightarrow> FusedCandidate list \<Rightarrow> bool" where
  "fused_table K xs m \<longleftrightarrow>
     distinct (map EvidenceKey m) \<and> EvidenceKey ` set m = cd_evidence_key ` snd ` set xs \<and>
     (\<forall>i \<in> set m. i = fused_for K xs (EvidenceKey i) \<and> \<not> is_nan (Score i) \<and> \<not> is_inf (Score i))"

lemma contributions_for_snoc:
  "contributions_for k (xs @ [(w, c)]) =
     contributions_for k xs @ (if cd_evidence_key c = k then [(w, c)] else [])"
  by (simp add: contributions_for_def)

lemma contributions_for_empty: "contributions_for k xs = [] \<longleftrightarrow> k \<notin> cd_evidence_key ` snd ` set xs"
  by (force simp: contributions_for_def filter_empty_conv)

lemma fused_for_other: "cd_evidence_key c \<noteq> k \<Longrightarrow> fused_for K (xs @ [(w, c)]) k = fused_for K xs k"
  by (simp add: fused_for_def contributions_for_snoc)

lemma fused_table_lookup:
  assumes "fused_table K xs m"
  shows "row_of EvidenceKey k m = (if k \<in> cd_evidence_key ` snd ` set xs then Some (fused_for K xs k) else None)"
proof (cases "row_of EvidenceKey k m")
  case None
  then have "k \<notin> EvidenceKey ` set m" by (auto simp: row_of_None_iff)
  with assms None show ?thesis by (simp add: fused_table_def)
next
  case (Some i)
  with assms show ?thesis using row_of_Some [OF Some] by (auto simp: fused_table_def)
qed

lemma fuse_item_for:
  assumes "fused_table K xs m"
  shows "fuse_item K w c m = fused_for K (xs @ [(w, c)]) (cd_evidence_key c)"
proof (cases "cd_evidence_key c \<in> cd_evidence_key ` snd ` set xs")
  case True
  then have "contributions_for (cd_evidence_key c) xs \<noteq> []" by (simp add: contributions_for_empty)
  with True show ?thesis
    by (simp add: fuse_item_def fused_table_lookup [OF assms] fused_for_def contributions_for_snoc
        rrf_score_def Let_def insert_commute Min_insert2 min.commute)
next
  case False
  then have "contributions_for (cd_evidence_key c) xs = []" by (simp add: contributions_for_empty)
  with False show ?thesis
    by (simp add: fuse_item_def fused_table_lookup [OF assms] fused_for_def contributions_for_snoc
        rrf_score_def Let_def)
qed

lemma fused_table_put:
  assumes t: "fused_table K xs m" and c: "i = fused_for K (xs @ [(w, c)]) (cd_evidence_key c)"
    and ok: "\<not> is_nan (Score i)" "\<not> is_inf (Score i)"
  shows "fused_table K (xs @ [(w, c)]) (put_item i m)"
proof -
  have key: "EvidenceKey i = cd_evidence_key c" by (simp add: c fused_for_def Let_def)
  have keys: "distinct (map EvidenceKey (put_item i m)) \<and>
    EvidenceKey ` set (put_item i m) = insert (cd_evidence_key c) (EvidenceKey ` set m)"
  proof (cases "row_of EvidenceKey (cd_evidence_key c) m")
    case None
    then have "cd_evidence_key c \<notin> EvidenceKey ` set m" by (auto simp: row_of_None_iff)
    with None t show ?thesis by (simp add: put_item_def key fused_table_def)
  next
    case (Some r)
    then have "map EvidenceKey (put_item i m) = map EvidenceKey m"
      by (simp add: put_item_def key update_row_def)
    moreover from this have "EvidenceKey ` set (put_item i m) = EvidenceKey ` set m" by (metis set_map)
    moreover have "cd_evidence_key c \<in> EvidenceKey ` set m" using row_of_Some [OF Some] by force
    ultimately show ?thesis using t by (simp add: fused_table_def insert_absorb)
  qed
  have "x = fused_for K (xs @ [(w, c)]) (EvidenceKey x) \<and> \<not> is_nan (Score x) \<and> \<not> is_inf (Score x)"
    if "x \<in> set (put_item i m)" for x
  proof (cases "x = i")
    case True
    then show ?thesis using c ok key by simp
  next
    case False
    with that have "x \<in> set m" "EvidenceKey x \<noteq> cd_evidence_key c"
      by (auto simp: put_item_def key row_of_None_iff update_row_def split: option.splits if_splits)
    with t show ?thesis by (auto simp: fused_table_def fused_for_other)
  qed
  with keys t show ?thesis by (auto simp: fused_table_def)
qed

text \<open>What a branch must satisfy to be fused.\<close>

definition candidate_ok :: "host \<Rightarrow> candidate codec \<Rightarrow> retriever_kind \<Rightarrow> candidate option \<Rightarrow> bool" where
  "candidate_ok h cc kind x = (case x of None \<Rightarrow> False
     | Some c \<Rightarrow> cd_retriever c = kind \<and> validate_wire h cc c = Inr () \<and> cd_accepted c \<noteq> [] \<and> list_all id (cd_accepted c))"

definition branch_ok :: "host \<Rightarrow> candidate codec \<Rightarrow> RankedBranch \<Rightarrow> bool" where
  "branch_ok h cc b \<longleftrightarrow>
     list_all (candidate_ok h cc (Kind b)) (Candidates b) \<and>
     distinct (map (cd_evidence_key \<circ> the) (Candidates b)) \<and>
     sorted_wrt (<) (0 # map (cd_rank \<circ> the) (Candidates b))"

lemma fuse_candidates_table:
  assumes "fuse_candidates h cc K kind w r0 seen cs m = Inr m'" and "fused_table K xs m"
  shows "fused_table K (xs @ map (\<lambda>c. (w, the c)) cs) m' \<and> list_all (candidate_ok h cc kind) cs \<and>
    distinct (map (cd_evidence_key \<circ> the) cs) \<and> set seen \<inter> set (map (cd_evidence_key \<circ> the) cs) = {} \<and>
    sorted_wrt (<) (r0 # map (cd_rank \<circ> the) cs)"
  using assms
proof (induction cs arbitrary: r0 seen m xs)
  case (Cons x cs)
  from Cons.prems(1) obtain c where x: "x = Some c" by (cases x) auto
  define i where "i = fuse_item K w c m"
  from Cons.prems(1) have ok: "cd_retriever c = kind" "r0 < cd_rank c" "cd_evidence_key c \<notin> set seen"
    "validate_wire h cc c = Inr ()" "cd_accepted c \<noteq> []" "list_all id (cd_accepted c)"
    "\<not> is_nan (Score i)" "\<not> is_inf (Score i)"
    "fuse_candidates h cc K kind w (cd_rank c) (cd_evidence_key c # seen) cs (put_item i m) = Inr m'"
    by (auto simp: x i_def Let_def split: if_splits sum.splits)
  have "fused_table K (xs @ [(w, c)]) (put_item i m)"
    using ok(7,8) Cons.prems(2) by (auto intro!: fused_table_put simp: i_def fuse_item_for)
  from Cons.IH [OF ok(9) this] ok show ?case
    by (auto simp: x candidate_ok_def dest: less_trans)
qed simp

lemma fuse_branches_table:
  assumes "fuse_branches h cc config seen n bs m = Inr m'" and "fused_table (rrf_K config) xs m"
  shows "fused_table (rrf_K config) (xs @ contributions config bs) m' \<and> list_all (branch_ok h cc) bs \<and>
    distinct (map Kind bs) \<and> set seen \<inter> set (map Kind bs) = {} \<and>
    list_all (\<lambda>b. \<exists>w. Weights config (Kind b) = Some w \<and> float_lt (Fin 0) w) bs \<and>
    (n \<le> MaximumTotalInputs config \<longrightarrow> n + int (length (contributions config bs)) \<le> MaximumTotalInputs config)"
  using assms
proof (induction bs arbitrary: seen n m xs)
  case (Cons b bs)
  from Cons.prems(1) obtain w m1 where ok: "Kind b \<notin> set seen" "Weights config (Kind b) = Some w"
    "\<not> is_nan w" "\<not> is_inf w" "\<not> float_le w (Fin 0)"
    "int (length (Candidates b)) \<le> MaximumTotalInputs config - n"
    and m1: "fuse_candidates h cc (rrf_K config) (Kind b) w 0 [] (Candidates b) m = Inr m1"
    and rest: "fuse_branches h cc config (Kind b # seen) (n + int (length (Candidates b))) bs m1 = Inr m'"
    by (auto simp: bind_result_Inr_iff split: if_splits option.splits)
  note c = fuse_candidates_table [OF m1 Cons.prems(2)]
  have "float_lt (Fin 0) w" using ok(3-5) by (cases w) (auto simp: is_nan_def is_inf_def float_le_def)
  with Cons.IH [OF rest conjunct1 [OF c]] conjunct2 [OF c] ok
  show ?case by (auto simp: contributions_def branch_ok_def)
qed (simp_all add: contributions_def)

section \<open>The two orders\<close>

definition scored :: "FusedCandidate set" where
  "scored = {i. \<not> is_nan (Score i)}"

interpretation kinds: keyed_order kind_less UNIV "retriever_kind_number \<circ> Kind"
  by unfold_locales (auto simp: kind_less_def)

lemma fused_less_total:
  assumes "a \<in> scored" "b \<in> scored"
  shows "fused_less a b \<longleftrightarrow>
    float_lt (Score b) (Score a) \<or>
    Score a = Score b \<and> (BestRank a < BestRank b \<or> BestRank a = BestRank b \<and> EvidenceKey a < EvidenceKey b)"
  using assms by (auto simp: fused_less_def scored_def float_eq_iff)

interpretation fusion: keyed_order fused_less scored EvidenceKey
proof
  fix x y z
  assume s: "x \<in> scored" "y \<in> scored"
  show "fused_less x y \<Longrightarrow> \<not> fused_less y x"
    using s by (auto simp: fused_less_total dest: float_lt_asym)
  show "\<not> fused_less x y \<Longrightarrow> \<not> fused_less y x \<Longrightarrow> EvidenceKey x = EvidenceKey y"
    using s float_total [of "Score x" "Score y"] by (auto simp: fused_less_total scored_def)
  assume z: "z \<in> scored" and "fused_less x z"
  then show "fused_less x y \<or> fused_less y z"
    using s float_total [of "Score x" "Score y"] float_total [of "Score y" "Score z"]
    by (auto simp: fused_less_total scored_def dest: float_lt_trans)
qed

lemma FuseRRF_table:
  assumes "FuseRRF h cc range_map branches config = Inr result" and "\<And>m. mset (range_map m) = mset m"
  shows "\<exists>m. fused_table (rrf_K config) (contributions config (sort_by kind_less branches)) m \<and>
    mset result = mset m \<and> sorted_by fused_less result \<and>
    list_all (branch_ok h cc) branches \<and> distinct (map Kind branches) \<and>
    int (length (contributions config branches)) \<le> MaximumTotalInputs config"
proof -
  let ?bs = "sort_by kind_less branches"
  obtain m where m: "fuse_branches h cc config [] 0 ?bs [] = Inr m"
    and r: "result = sort_by fused_less (range_map m)" and pos: "0 \<le> MaximumTotalInputs config"
    using assms(1) by (auto simp: FuseRRF_def bind_result_Inr_iff split: if_splits)
  have "fused_table (rrf_K config) [] []" by (simp add: fused_table_def)
  note t = fuse_branches_table [OF m this, simplified]
  have "set m = set (range_map m)" using assms(2) [of m] by (metis set_mset_mset)
  then have "set (range_map m) \<subseteq> scored" using t by (auto simp: fused_table_def scored_def)
  then have "sorted_by fused_less result" by (simp add: r fusion.sorted_sort_by)
  moreover have "list_all (branch_ok h cc) branches" using t by (simp add: list_all_iff)
  moreover have "distinct (map Kind branches)" using t distinct_map_mset [of ?bs branches Kind] by simp
  moreover have "length (contributions config branches) = length (contributions config ?bs)"
    by (simp add: contributions_def length_concat comp_def)
  ultimately show ?thesis using t pos r assms(2) [of m] by auto
qed

text \<open>
  Claim C28. A successful fusion returns one entry per evidence key that some branch contains, and
  each entry is the one that the contributions of its key determine: all candidates of that key
  as provenance, their best rank, and the reciprocal rank score summed in the order of the
  retriever kinds. The entries are sorted by descending score, then by best rank, then by key.
  Only filtered, accepted and valid candidates within the total budget are ever fused.
\<close>

theorem FuseRRF_exact:
  assumes "FuseRRF h cc range_map branches config = Inr result"
    and "\<And>m. mset (range_map m) = mset m"
  shows "distinct (map EvidenceKey result) \<and>
    EvidenceKey ` set result = (\<Union>b \<in> set branches. (cd_evidence_key \<circ> the) ` set (Candidates b)) \<and>
    (\<forall>i \<in> set result. i = fused_for (rrf_K config) (contributions config (sort_by kind_less branches)) (EvidenceKey i)) \<and>
    sorted_by fused_less result \<and> list_all (branch_ok h cc) branches \<and>
    int (length (contributions config branches)) \<le> MaximumTotalInputs config"
proof -
  obtain m where m: "fused_table (rrf_K config) (contributions config (sort_by kind_less branches)) m"
    and r: "mset result = mset m" and rest: "sorted_by fused_less result" "list_all (branch_ok h cc) branches"
      "int (length (contributions config branches)) \<le> MaximumTotalInputs config"
    using FuseRRF_table [OF assms] by auto
  have "cd_evidence_key ` snd ` set (contributions config (sort_by kind_less branches)) =
      (\<Union>b \<in> set branches. (cd_evidence_key \<circ> the) ` set (Candidates b))"
    by (force simp: contributions_def)
  with m rest mset_eq_setD [OF r] distinct_map_mset [OF r, of EvidenceKey] show ?thesis
    by (auto simp: fused_table_def)
qed

text \<open>
  Fusion does not depend on the order in which the branches are given, nor on the order
  in which Go iterates over the map of entries: branches of distinct known kinds give the same
  result, or the same error, in every order.
\<close>

theorem FuseRRF_order_independent:
  assumes "mset branches = mset branches'"
    and "distinct (map (retriever_kind_number \<circ> Kind) branches)"
    and "\<And>m. mset (range_map m) = mset m" and "\<And>m. mset (range_map' m) = mset m"
  shows "FuseRRF h cc range_map branches config = FuseRRF h cc range_map' branches' config"
proof -
  have bs: "sort_by kind_less branches = sort_by kind_less branches'"
    using assms(1,2) by (rule kinds.sort_by_perm) simp
  have "sort_by fused_less (range_map m) = sort_by fused_less (range_map' m)"
    if "fuse_branches h cc config [] 0 (sort_by kind_less branches) [] = Inr m" for m
  proof (rule fusion.sort_by_perm)
    have t: "fused_table (rrf_K config) (contributions config (sort_by kind_less branches)) m"
      using fuse_branches_table [OF that, of "[]"] by (simp add: fused_table_def)
    show "mset (range_map m) = mset (range_map' m)" by (simp add: assms(3,4))
    show "distinct (map EvidenceKey (range_map m))"
      using t distinct_map_mset [OF assms(3) [of m], of EvidenceKey] by (simp add: fused_table_def)
    show "set (range_map m) \<subseteq> scored"
      using t mset_eq_setD [OF assms(3) [of m]] by (auto simp: fused_table_def scored_def)
  qed
  moreover have "branches = [] \<longleftrightarrow> branches' = []" "length branches = length branches'"
    using assms(1) by (auto dest: mset_eq_length)
  ultimately show ?thesis
    by (cases "fuse_branches h cc config [] 0 (sort_by kind_less branches) []") (simp_all add: FuseRRF_def bs)
qed

section \<open>Examples\<close>

definition fx_candidate :: "retriever_kind \<Rightarrow> string \<times> nat \<Rightarrow> candidate option" where
  "fx_candidate kind x = Some \<lparr>cd_evidence_key = fst x, cd_retriever = kind, cd_rank = snd x,
     cd_accepted = [True], cd_rest = ''''\<rparr>"

definition fx_branch :: "retriever_kind \<Rightarrow> (string \<times> nat) list \<Rightarrow> RankedBranch" where
  "fx_branch kind xs = \<lparr>Kind = kind, Candidates = map (fx_candidate kind) xs\<rparr>"

definition fx_branches :: "RankedBranch list" where
  "fx_branches = [fx_branch RETRIEVER_KIND_BM25 [(''a'', 1), (''b'', 3)],
     fx_branch RETRIEVER_KIND_DENSE [(''b'', 1), (''c'', 3)]]"

definition fx_config :: RRFConfig where
  "fx_config = \<lparr>rrf_K = 1, Weights = (\<lambda>_. Some (Fin 1)), MaximumPerBranch = 10, MaximumTotalInputs = 10\<rparr>"

abbreviation fx_call :: "(FusedCandidate list \<Rightarrow> FusedCandidate list) \<Rightarrow> RankedBranch list \<Rightarrow> FusedCandidate list result" where
  "fx_call range_map bs \<equiv> FuseRRF bx_host (bx_codec (the (fx_candidate RETRIEVER_KIND_DENSE (''b'', 1)))) range_map bs fx_config"

lemma fx_rounding:
  "round64 (1 / 2) = Fin (1 / 2)" "round64 (1 / 4) = Fin (1 / 4)" "round64 (3 / 4) = Fin (3 / 4)"
proof -
  have "binary_exponent (1 / 2) = - 1" "binary_exponent (1 / 4) = - 2" "binary_exponent (3 / 4) = - 1"
    by code_simp+
  then show "round64 (1 / 2) = Fin (1 / 2)" "round64 (1 / 4) = Fin (1 / 4)" "round64 (3 / 4) = Fin (3 / 4)"
    by (simp_all add: round64_def round_magnitude_def pow2_def round_half_even_def Let_def)
qed

lemma bx_valid: "validate_wire bx_host (bx_codec m) x = Inr ()"
  by (simp add: validate_wire_def bx_codec_def bx_host_def) code_simp

lemma fx_call_keys:
  "map_sum id (map EvidenceKey) (fx_call (\<lambda>m. m) fx_branches) = Inr [''b'', ''a'', ''c'']"
  "map_sum id (map EvidenceKey) (fx_call rev fx_branches) = Inr [''b'', ''a'', ''c'']"
  by (simp_all add: FuseRRF_def fx_branches_def fx_branch_def fx_config_def fx_candidate_def kind_less_def bx_valid
      fuse_item_def put_item_def table_simps update_row_def fx_rounding is_nan_def is_inf_def float_le_def fused_less_def Let_def)

theorem FuseRRF_exact_witness:
  "\<exists>result. fx_call rev fx_branches = Inr result \<and> map EvidenceKey result = [''b'', ''a'', ''c''] \<and>
     distinct (map EvidenceKey result) \<and> sorted_by fused_less result"
proof -
  obtain result where r: "fx_call rev fx_branches = Inr result" "map EvidenceKey result = [''b'', ''a'', ''c'']"
    using fx_call_keys(2) by (cases "fx_call rev fx_branches") auto
  have "mset (rev m) = mset m" for m :: "FusedCandidate list" by simp
  note x = FuseRRF_exact [OF r(1) this]
  from x have "distinct (map EvidenceKey result) \<and> sorted_by fused_less result" by (elim conjE) (intro conjI)
  with r show ?thesis by (intro exI [of _ result]) simp
qed

theorem FuseRRF_order_independent_witness:
  "fx_call (\<lambda>m. m) fx_branches = fx_call rev (rev fx_branches) \<and> succeeded (fx_call (\<lambda>m. m) fx_branches, ())"
proof
  have "distinct (map (retriever_kind_number \<circ> Kind) fx_branches)" by (simp add: fx_branches_def fx_branch_def)
  then show "fx_call (\<lambda>m. m) fx_branches = fx_call rev (rev fx_branches)"
    by (intro FuseRRF_order_independent) simp_all
  show "succeeded (fx_call (\<lambda>m. m) fx_branches, ())"
    using fx_call_keys(1) by (cases "fx_call (\<lambda>m. m) fx_branches") (simp_all add: succeeded_def)
qed

end
