(* ===== verification/Reranking.thy ===== *)
theory Reranking
  imports Fusion
begin

text \<open>
  The correlation of a rerank batch with the fused candidates (\<open>retrieval/reranking.go\<close>): every
  result is written to the place of the candidate whose pair it answers, then the places are
  sorted by descending score with a stable sort.
\<close>

record RerankedCandidate =
  Candidate :: FusedCandidate
  RerankScore :: float64
  InputTokens :: nat
  Truncation :: "truncation_info option"

text \<open>The zero value of the result slice, before a result is written to a place.\<close>

definition unranked :: RerankedCandidate where
  "unranked = \<lparr>Candidate = \<lparr>EvidenceKey = '''', Score = Fin 0, Provenance = [], BestRank = 0\<rparr>,
     RerankScore = Fin 0, InputTokens = 0, Truncation = None\<rparr>"

fun check_pairs :: "string list \<Rightarrow> string list \<Rightarrow> string list \<Rightarrow> FusedCandidate list \<Rightarrow> unit result" where
  "check_pairs positions seenEvidence (p # ps) (c # cs) =
     (if p = '''' \<or> p \<in> set positions then Inl (Err ''rerank pair IDs must be distinct and nonempty'')
      else if EvidenceKey c = '''' \<or> EvidenceKey c \<in> set seenEvidence
      then Inl (Err ''rerank evidence keys must be distinct and nonempty'')
      else check_pairs (p # positions) (EvidenceKey c # seenEvidence) ps cs)"
| "check_pairs positions seenEvidence _ _ = Inr ()"

definition pair_position :: "string list \<Rightarrow> string \<Rightarrow> nat option" where
  "pair_position pairIDs p = map_of (zip pairIDs [0..<length pairIDs]) p"

definition score_ok :: "model_manifest \<Rightarrow> rerank_score \<Rightarrow> bool" where
  "score_ok model s \<longleftrightarrow>
     \<not> is_nan (rk_score s) \<and> \<not> is_inf (rk_score s) \<and>
     (case rk_truncation s of None \<Rightarrow> False
      | Some t \<Rightarrow> rk_input_tokens s \<noteq> 0 \<and> rk_input_tokens s \<le> mm_max_tokens model \<and>
          tr_retained_tokens t \<le> mm_max_tokens model \<and>
          tr_retained_tokens t \<le> tr_original_tokens t \<and>
          \<not> (tr_truncated t \<and> tr_retained_tokens t \<ge> tr_original_tokens t) \<and>
          \<not> (\<not> tr_truncated t \<and> tr_retained_tokens t \<noteq> tr_original_tokens t))"

definition reranked :: "FusedCandidate \<Rightarrow> rerank_score \<Rightarrow> RerankedCandidate" where
  "reranked c s = \<lparr>Candidate = c, RerankScore = rk_score s, InputTokens = rk_input_tokens s,
     Truncation = rk_truncation s\<rparr>"

fun correlate_results ::
    "model_manifest \<Rightarrow> FusedCandidate list \<Rightarrow> string list \<Rightarrow> string list \<Rightarrow> rerank_result list \<Rightarrow>
     RerankedCandidate list \<Rightarrow> RerankedCandidate list result" where
  "correlate_results model candidates pairIDs seen [] out = Inr out"
| "correlate_results model candidates pairIDs seen (item # items) out =
     (case (rr_pair_id item \<in> set seen, pair_position pairIDs (rr_pair_id item), rr_score item, rr_error item) of
        (False, Some index, Some s, None) \<Rightarrow>
          (if \<not> score_ok model s then Inl (Err ''rerank returned invalid score or truncation'')
           else if None \<in> set (Provenance (candidates ! index))
           then Inl (Err ''rerank candidate has missing provenance'')
           else correlate_results model candidates pairIDs (rr_pair_id item # seen) items
                  (out[index := reranked (candidates ! index) s]))
      | _ \<Rightarrow> Inl (Err ''rerank returned duplicate, unknown, or failed pair''))"

definition rerank_less :: "RerankedCandidate \<Rightarrow> RerankedCandidate \<Rightarrow> bool" where
  "rerank_less a b \<longleftrightarrow> float_lt (RerankScore b) (RerankScore a)"

definition CorrelateRerankBatch ::
    "host \<Rightarrow> rerank_response codec \<Rightarrow> FusedCandidate list \<Rightarrow> string list \<Rightarrow> rerank_response option \<Rightarrow>
     string \<Rightarrow> model_manifest option \<Rightarrow> int \<Rightarrow> RerankedCandidate list result" where
  "CorrelateRerankBatch h rc candidates pairIDs response requestID model maximumCandidates =
     (case (response, model) of
        (Some res, Some mdl) \<Rightarrow>
          (if requestID = '''' \<or> maximumCandidates \<le> 0 \<or> candidates = [] \<or>
              int (length candidates) > maximumCandidates \<or> length pairIDs \<noteq> length candidates \<or>
              length (rs_results res) \<noteq> length candidates \<or> rs_request_id res \<noteq> requestID \<or> rs_model res \<noteq> mdl
           then Inl (Err ''rerank batch cardinality, request, or model mismatch'')
           else if mm_task mdl \<noteq> MODEL_TASK_RERANK then Inl (Err ''rerank batch requires a reranker model'')
           else bind_result (validate_wire h rc res) (\<lambda>_.
             bind_result (check_pairs [] [] pairIDs candidates) (\<lambda>_.
             bind_result (correlate_results mdl candidates pairIDs [] (rs_results res)
                            (replicate (length candidates) unranked)) (\<lambda>out.
             Inr (sort_by rerank_less out)))))
      | _ \<Rightarrow> Inl (Err ''rerank batch cardinality, request, or model mismatch''))"

section \<open>What correlation computes\<close>

text \<open>The reference: every candidate joined with the score of its pair.\<close>

definition pair_score :: "rerank_result list \<Rightarrow> string \<Rightarrow> rerank_score" where
  "pair_score results p = the (rr_score (the (row_of rr_pair_id p results)))"

definition rerank_join :: "FusedCandidate list \<Rightarrow> string list \<Rightarrow> rerank_result list \<Rightarrow> RerankedCandidate list" where
  "rerank_join candidates pairIDs results = map2 (\<lambda>c p. reranked c (pair_score results p)) candidates pairIDs"

definition result_ok :: "model_manifest \<Rightarrow> rerank_result \<Rightarrow> bool" where
  "result_ok model x = (rr_error x = None \<and> (case rr_score x of None \<Rightarrow> False | Some s \<Rightarrow> score_ok model s))"

lemma check_pairs_iff:
  "length ps = length cs \<Longrightarrow>
   check_pairs positions seen ps cs = Inr () \<longleftrightarrow>
     '''' \<notin> set ps \<and> distinct ps \<and> set ps \<inter> set positions = {} \<and>
     '''' \<notin> EvidenceKey ` set cs \<and> distinct (map EvidenceKey cs) \<and> EvidenceKey ` set cs \<inter> set seen = {}"
  by (induction ps cs arbitrary: positions seen rule: list_induct2) auto

lemma pair_position_iff:
  assumes "distinct ps"
  shows "pair_position ps p = Some i \<longleftrightarrow> i < length ps \<and> ps ! i = p"
  using assms by (auto simp: pair_position_def map_of_eq_Some_iff set_zip)

lemma pair_position_None: "pair_position ps p = None \<longleftrightarrow> p \<notin> set ps"
  by (auto simp: pair_position_def map_of_eq_None_iff set_map [symmetric] simp del: set_map)

lemma correlate_results_iff:
  assumes "distinct ps" "length ps = length cs" "length out = length cs"
  shows "correlate_results model cs ps seen items out = Inr out' \<longleftrightarrow>
    list_all (result_ok model) items \<and> distinct (map rr_pair_id items) \<and>
    rr_pair_id ` set items \<subseteq> set ps - set seen \<and>
    (\<forall>i < length ps. ps ! i \<in> rr_pair_id ` set items \<longrightarrow> None \<notin> set (Provenance (cs ! i))) \<and>
    out' = map (\<lambda>i. if ps ! i \<in> rr_pair_id ` set items then reranked (cs ! i) (pair_score items (ps ! i)) else out ! i)
      [0..<length cs]"
  using assms(3)
proof (induction items arbitrary: seen out)
  case Nil
  then show ?case using map_nth [of out] by auto
next
  case (Cons x items)
  let ?p = "rr_pair_id x"
  show ?case
  proof (cases "?p \<notin> set seen \<and> ?p \<in> set ps \<and> result_ok model x")
    case False
    have "?p \<in> set ps" if "pair_position ps ?p = Some i" for i
      using that pair_position_None [of ps ?p] by auto
    with False have "correlate_results model cs ps seen (x # items) out \<noteq> Inr out'"
      by (auto simp: result_ok_def split: option.splits bool.splits if_splits)
    moreover from False have "\<not> (list_all (result_ok model) (x # items) \<and> rr_pair_id ` set (x # items) \<subseteq> set ps - set seen)"
      by auto
    ultimately show ?thesis by blast
  next
    case True
    then obtain i where i: "i < length cs" "ps ! i = ?p" "pair_position ps ?p = Some i"
      using assms(1,2) by (metis in_set_conv_nth pair_position_iff)
    from True obtain s where s: "rr_score x = Some s" "rr_error x = None" "score_ok model s"
      by (auto simp: result_ok_def split: option.splits)
    have only: "ps ! j = ?p \<longleftrightarrow> j = i" if "j < length cs" for j
      using that i assms(1,2) nth_eq_iff_index_eq [of ps j i] by auto
    have sc: "pair_score (x # items) q = (if ?p = q then s else pair_score items q)" for q
      using s by (simp add: pair_score_def table_simps)
    have out: "map (\<lambda>j. if ps ! j \<in> rr_pair_id ` set items then reranked (cs ! j) (pair_score items (ps ! j))
          else out[i := reranked (cs ! i) s] ! j) [0..<length cs] =
        map (\<lambda>j. if ps ! j \<in> rr_pair_id ` set (x # items)
          then reranked (cs ! j) (pair_score (x # items) (ps ! j)) else out ! j) [0..<length cs]"
      if "?p \<notin> rr_pair_id ` set items"
    proof (rule map_cong [OF refl])
      fix j
      assume "j \<in> set [0..<length cs]"
      then show "(if ps ! j \<in> rr_pair_id ` set items then reranked (cs ! j) (pair_score items (ps ! j))
            else out[i := reranked (cs ! i) s] ! j) =
          (if ps ! j \<in> rr_pair_id ` set (x # items)
            then reranked (cs ! j) (pair_score (x # items) (ps ! j)) else out ! j)"
        using that i(1,2) Cons.prems only [of j] by (cases "j = i") (simp_all add: sc)
    qed
    have step: "correlate_results model cs ps seen (x # items) out = Inr out' \<longleftrightarrow>
        None \<notin> set (Provenance (cs ! i)) \<and>
        correlate_results model cs ps (?p # seen) items (out[i := reranked (cs ! i) s]) = Inr out'"
      using True s i by simp
    have prov: "(\<forall>j < length ps. ps ! j \<in> rr_pair_id ` set (x # items) \<longrightarrow> None \<notin> set (Provenance (cs ! j))) \<longleftrightarrow>
        None \<notin> set (Provenance (cs ! i)) \<and>
        (\<forall>j < length ps. ps ! j \<in> rr_pair_id ` set items \<longrightarrow> None \<notin> set (Provenance (cs ! j)))"
      using only i assms(2) by auto
    have ids: "distinct (map rr_pair_id (x # items)) \<and> rr_pair_id ` set (x # items) \<subseteq> set ps - set seen \<longleftrightarrow>
        ?p \<notin> rr_pair_id ` set items \<and> distinct (map rr_pair_id items) \<and>
        rr_pair_id ` set items \<subseteq> set ps - set (?p # seen)"
      using True by (simp add: subset_Diff_insert) blast
    have fresh: "?p \<notin> rr_pair_id ` set items" if "rr_pair_id ` set items \<subseteq> set ps - set (?p # seen)"
      using that by auto
    have all: "list_all (result_ok model) (x # items) \<longleftrightarrow> list_all (result_ok model) items"
      using True by simp
    have "length (out[i := reranked (cs ! i) s]) = length cs" using Cons.prems by simp
    note IH = Cons.IH [OF this, of "?p # seen"]
    show ?thesis
    proof (cases "?p \<in> rr_pair_id ` set items")
      case True
      with fresh ids show ?thesis unfolding step IH by blast
    next
      case False
      show ?thesis unfolding step IH out [OF False] all prov using ids False by blast
    qed
  qed
qed

interpretation reranking: weak_order rerank_less "{x. \<not> is_nan (RerankScore x)}"
proof
  fix x y z :: RerankedCandidate
  assume s: "x \<in> {x. \<not> is_nan (RerankScore x)}" "y \<in> {x. \<not> is_nan (RerankScore x)}"
  show "rerank_less x y \<Longrightarrow> \<not> rerank_less y x" by (auto simp: rerank_less_def dest: float_lt_asym)
  assume "z \<in> {x. \<not> is_nan (RerankScore x)}" and "rerank_less x z"
  with s show "rerank_less x y \<or> rerank_less y z"
    using float_total [of "RerankScore x" "RerankScore y"]
    by (auto simp: rerank_less_def dest: float_lt_trans)
qed

lemma correlate_all:
  assumes "distinct ps" "length ps = length cs" "length items = length cs"
  shows "correlate_results model cs ps [] items (replicate (length cs) unranked) = Inr out \<longleftrightarrow>
    list_all (result_ok model) items \<and> distinct (map rr_pair_id items) \<and> set ps = rr_pair_id ` set items \<and>
    (\<forall>c \<in> set cs. None \<notin> set (Provenance c)) \<and> out = rerank_join cs ps items"
proof -
  have full: "rr_pair_id ` set items \<subseteq> set ps \<longleftrightarrow> rr_pair_id ` set items = set ps" if "distinct (map rr_pair_id items)"
    using assms that card_subset_eq [of "set ps" "rr_pair_id ` set items"]
    by (metis distinct_card finite_set length_map set_map subset_refl)
  have join: "rerank_join cs ps items =
      map (\<lambda>i. if ps ! i \<in> rr_pair_id ` set items then reranked (cs ! i) (pair_score items (ps ! i))
        else replicate (length cs) unranked ! i) [0..<length cs]" if "rr_pair_id ` set items = set ps"
    using assms(2) by (intro nth_equalityI) (auto simp: rerank_join_def that)
  have prov: "(\<forall>i < length ps. ps ! i \<in> set ps \<longrightarrow> None \<notin> set (Provenance (cs ! i))) \<longleftrightarrow>
      (\<forall>c \<in> set cs. None \<notin> set (Provenance c))"
    using assms(2) by (simp add: all_set_conv_all_nth)
  show ?thesis
    using correlate_results_iff [OF assms(1,2), of "replicate (length cs) unranked" model "[]" items out]
      full join prov by auto
qed

lemma correlate_iff:
  "CorrelateRerankBatch h rc cs ps (Some res) request (Some model) limit = Inr result \<longleftrightarrow>
     request \<noteq> '''' \<and> cs \<noteq> [] \<and> int (length cs) \<le> limit \<and> length ps = length cs \<and>
     length (rs_results res) = length cs \<and> rs_request_id res = request \<and> rs_model res = model \<and>
     mm_task model = MODEL_TASK_RERANK \<and> validate_wire h rc res = Inr () \<and>
     '''' \<notin> set ps \<and> distinct ps \<and> '''' \<notin> EvidenceKey ` set cs \<and> distinct (map EvidenceKey cs) \<and>
     list_all (result_ok model) (rs_results res) \<and> distinct (map rr_pair_id (rs_results res)) \<and>
     set ps = rr_pair_id ` set (rs_results res) \<and> list_all (\<lambda>c. None \<notin> set (Provenance c)) cs \<and>
     result = sort_by rerank_less (rerank_join cs ps (rs_results res))"
  (is "?call = Inr result \<longleftrightarrow> ?R")
proof (cases "request \<noteq> '''' \<and> cs \<noteq> [] \<and> int (length cs) \<le> limit \<and> length ps = length cs \<and>
     length (rs_results res) = length cs \<and> rs_request_id res = request \<and> rs_model res = model \<and>
     mm_task model = MODEL_TASK_RERANK")
  case True
  then have "0 < limit" by (cases cs) auto
  with True have "?call = Inr result \<longleftrightarrow> validate_wire h rc res = Inr () \<and> check_pairs [] [] ps cs = Inr () \<and>
      (\<exists>out. correlate_results model cs ps [] (rs_results res) (replicate (length cs) unranked) = Inr out \<and>
        result = sort_by rerank_less out)"
    by (auto simp: CorrelateRerankBatch_def bind_result_Inr_iff)
  moreover have "check_pairs [] [] ps cs = Inr () \<longleftrightarrow> '''' \<notin> set ps \<and> distinct ps \<and> '''' \<notin> EvidenceKey ` set cs \<and>
      distinct (map EvidenceKey cs)"
    using check_pairs_iff [of ps cs "[]" "[]"] True by simp
  ultimately show ?thesis
    using True correlate_all [of ps cs "rs_results res" model] by (cases "distinct ps") (simp_all add: list_all_iff)
next
  case False
  then have "?call \<noteq> Inr result" by (auto simp: CorrelateRerankBatch_def)
  with False show ?thesis by blast
qed

text \<open>
  Claim C35. A rerank batch is accepted exactly when request, model, cardinality and wire rules
  hold, pairs and evidence keys are distinct and not empty, and the results answer every pair
  once with a valid score. The result is then the join of every candidate with the score of its
  pair, sorted by score: no candidate is lost, duplicated or given the score of another.
\<close>

theorem CorrelateRerankBatch_iff:
  "CorrelateRerankBatch h rc cs ps (Some res) request (Some model) limit = Inr result \<longleftrightarrow>
     request \<noteq> '''' \<and> cs \<noteq> [] \<and> int (length cs) \<le> limit \<and> length ps = length cs \<and>
     length (rs_results res) = length cs \<and> rs_request_id res = request \<and> rs_model res = model \<and>
     mm_task model = MODEL_TASK_RERANK \<and> validate_wire h rc res = Inr () \<and>
     '''' \<notin> set ps \<and> distinct ps \<and> '''' \<notin> EvidenceKey ` set cs \<and> distinct (map EvidenceKey cs) \<and>
     list_all (result_ok model) (rs_results res) \<and> distinct (map rr_pair_id (rs_results res)) \<and>
     set ps = rr_pair_id ` set (rs_results res) \<and> list_all (\<lambda>c. None \<notin> set (Provenance c)) cs \<and>
     result = sort_by rerank_less (rerank_join cs ps (rs_results res))"
  by (rule correlate_iff)

text \<open>
  The reranked list is a permutation of the candidates in non-increasing order of their
  scores, and candidates with equal scores keep the order in which they were given.
\<close>

theorem CorrelateRerankBatch_ranking:
  assumes "CorrelateRerankBatch h rc cs ps (Some res) request (Some model) limit = Inr result"
  shows "mset (map Candidate result) = mset cs \<and> sorted_by rerank_less result \<and>
    (\<forall>x \<in> set result. filter (\<lambda>y. RerankScore y = RerankScore x) result =
       filter (\<lambda>y. RerankScore y = RerankScore x) (rerank_join cs ps (rs_results res)))"
proof -
  let ?j = "rerank_join cs ps (rs_results res)"
  have r: "result = sort_by rerank_less ?j" and ok: "list_all (result_ok model) (rs_results res)"
    and l: "length ps = length cs" and ps: "set ps = rr_pair_id ` set (rs_results res)"
    using iffD1 [OF correlate_iff assms] by blast+
  have "score_ok model (pair_score (rs_results res) p)" if "p \<in> set ps" for p
  proof -
    have "row_of rr_pair_id p (rs_results res) \<noteq> None" using that by (auto simp: ps row_of_None_iff)
    then obtain x where x: "row_of rr_pair_id p (rs_results res) = Some x" by auto
    with ok have "result_ok model x" by (auto simp: list_all_iff dest: row_of_mem)
    with x show ?thesis by (auto simp: pair_score_def result_ok_def split: option.splits)
  qed
  then have nan: "set ?j \<subseteq> {x. \<not> is_nan (RerankScore x)}"
    by (auto simp: rerank_join_def reranked_def score_ok_def dest: set_zip_rightD)
  have cs: "map Candidate ?j = cs"
    using l by (intro nth_equalityI) (auto simp: rerank_join_def reranked_def)
  have "mset (map Candidate result) = mset (map Candidate ?j)" by (simp add: r)
  moreover have "sorted_by rerank_less result" unfolding r using nan by (rule reranking.sorted_sort_by)
  moreover have "filter (\<lambda>y. RerankScore y = RerankScore x) result = filter (\<lambda>y. RerankScore y = RerankScore x) ?j"
    if "x \<in> set result" for x
  proof -
    have x: "insert x (set ?j) \<subseteq> {x. \<not> is_nan (RerankScore x)}" using that nan by (auto simp: r)
    have eq: "RerankScore y = RerankScore x \<longleftrightarrow> \<not> rerank_less x y \<and> \<not> rerank_less y x" if "y \<in> set ?j" for y
      using that x float_total [of "RerankScore x" "RerankScore y"] by (auto simp: rerank_less_def)
    have "filter (\<lambda>y. RerankScore y = RerankScore x) xs = filter (\<lambda>y. \<not> rerank_less x y \<and> \<not> rerank_less y x) xs"
      if "set xs = set ?j" for xs using that eq by (intro filter_cong) auto
    then show ?thesis using reranking.sort_by_stable [OF x] by (simp add: r)
  qed
  ultimately show ?thesis by (simp add: cs)
qed

section \<open>Examples\<close>

definition rx_fused :: "string \<Rightarrow> FusedCandidate" where
  "rx_fused k = \<lparr>EvidenceKey = k, Score = Fin 1, Provenance = [], BestRank = 1\<rparr>"

definition rx_model :: model_manifest where
  "rx_model = \<lparr>mm_task = MODEL_TASK_RERANK, mm_dimensions = None, mm_max_tokens = 9, mm_rest = ''''\<rparr>"

definition rx_result :: "string \<Rightarrow> rat \<Rightarrow> rerank_result" where
  "rx_result p x = \<lparr>rr_pair_id = p, rr_score = Some \<lparr>rk_score = Fin x, rk_input_tokens = 4,
     rk_truncation = Some \<lparr>tr_truncated = False, tr_original_tokens = 4, tr_retained_tokens = 4\<rparr>\<rparr>, rr_error = None\<rparr>"

definition rx_response :: rerank_response where
  "rx_response = \<lparr>rs_request_id = ''q'', rs_model = rx_model,
     rs_results = [rx_result ''3'' 2, rx_result ''1'' 1, rx_result ''2'' 2], rs_rest = ''''\<rparr>"

abbreviation rx_call :: "RerankedCandidate list result" where
  "rx_call \<equiv> CorrelateRerankBatch bx_host (bx_codec rx_response) (map rx_fused [''a'', ''b'', ''c''])
     [''1'', ''2'', ''3''] (Some rx_response) ''q'' (Some rx_model) 5"

lemma rx_call_ok: "succeeded (rx_call, ())" "map_sum id (map (EvidenceKey \<circ> Candidate)) rx_call = Inr [''b'', ''c'', ''a'']"
  by code_simp+

theorem CorrelateRerankBatch_ranking_witness:
  "\<exists>result. rx_call = Inr result \<and> mset (map Candidate result) = mset (map rx_fused [''a'', ''b'', ''c'']) \<and>
     sorted_by rerank_less result"
  using rx_call_ok(1) CorrelateRerankBatch_ranking [of bx_host "bx_codec rx_response" "map rx_fused [''a'', ''b'', ''c'']"
      "[''1'', ''2'', ''3'']" rx_response "''q''" rx_model 5]
  by (cases rx_call) (auto simp: succeeded_def)

end
