(* ===== verification/Context.thy ===== *)
theory Context
  imports Boundaries Ordering
begin

text \<open>
  The evidence that retrieval hands to answering, the graph plan of \<open>answering/graph_context.go\<close>
  and the context builder of \<open>answering/context_builder.go\<close>. Messages are modelled with their
  required sub-messages present: wire validation rejects a message without them, and the nil
  tests of the sources return the same kind of error. \<open>strconv.Quote\<close> and the tokenizer are
  arguments.
\<close>

section \<open>Evidence\<close>

record graph_path =
  gp_path_id :: string
  gp_ordered_node_ids :: "string list"
  gp_ordered_assertion_ids :: "string list"
  gp_selected_support_ids :: "string list"
  gp_coverage :: completeness
  gp_frontier_exhausted :: bool
  gp_snapshot :: snapshot_ref

record evidence =
  ev_meta :: record_meta
  ev_source_refs :: "source_version_ref list"
  ev_text :: string
  ev_parent_refs :: "string list"
  ev_source_spans :: "text_span list"
  ev_locators :: "page_locator list"
  ev_snapshot_ref :: snapshot_ref
  ev_graph_paths :: "graph_path list"
  ev_legal_status :: legal_status
  ev_rest :: string

record evidence_bundle =
  eb_meta :: record_meta
  eb_items :: "evidence list"
  eb_required_path_sets :: "string list list"
  eb_missing_dependencies :: "string list"
  eb_completeness :: completeness
  eb_snapshot :: snapshot_ref
  eb_completion_status :: completion_status
  eb_rest :: string

record context_block =
  cb_evidence_id :: string
  cb_rendered_text :: string

record context_bundle =
  cx_meta :: record_meta
  cx_ordered_evidence_ids :: "string list"
  cx_rendered_blocks :: "context_block list"
  cx_token_count :: nat
  cx_tokenizer_hash :: string
  cx_omitted_required_refs :: "string list"
  cx_completeness :: completeness
  cx_snapshot :: snapshot_ref

abbreviation ev_id :: "evidence \<Rightarrow> string" where
  "ev_id e \<equiv> m_record_id (ev_meta e)"

section \<open>The graph plan\<close>

text \<open>
  The maps of the plan are association lists with distinct keys. A fingerprint is the SHA-256
  digest of the deterministic encoding.
\<close>

record GraphContext =
  gc_snapshot :: snapshot_ref
  gc_items :: "(string \<times> string) list"
  gc_paths :: "(string \<times> graph_path) list"
  gc_members :: "(string \<times> string list) list"
  gc_blocks :: "(string \<times> string) list"
  gc_header :: string

definition assoc_default :: "'v \<Rightarrow> (string \<times> 'v) list \<Rightarrow> string \<Rightarrow> 'v" where
  "assoc_default d xs k = (case map_of xs k of None \<Rightarrow> d | Some v \<Rightarrow> v)"

definition bundleHeaderFingerprint :: "host \<Rightarrow> evidence_bundle codec \<Rightarrow> evidence_bundle \<Rightarrow> string" where
  "bundleHeaderFingerprint h bc bundle = sha256hex h (c_marshal bc (bundle\<lparr>eb_items := []\<rparr>))"

definition evidenceFingerprint :: "host \<Rightarrow> evidence codec \<Rightarrow> evidence \<Rightarrow> string" where
  "evidenceFingerprint h ec item = sha256hex h (c_marshal ec item)"

definition selectGraphContext ::
    "host \<Rightarrow> evidence_bundle codec \<Rightarrow> evidence codec \<Rightarrow> evidence_bundle \<Rightarrow> GraphContext option list \<Rightarrow>
     GraphContext option result" where
  "selectGraphContext h bc ec bundle plans =
     (if length plans > 1 then Inl (Err ''at most one graph context plan allowed'')
      else case plans of
        Some g # _ \<Rightarrow>
          (if eb_snapshot bundle \<noteq> gc_snapshot g \<or> length (eb_items bundle) \<noteq> length (gc_items g) \<or>
              bundleHeaderFingerprint h bc bundle \<noteq> gc_header g
           then Inl (Err ''graph context evidence changed'')
           else if \<not> list_all (\<lambda>item. map_of (gc_items g) (ev_id item) = Some (evidenceFingerprint h ec item)) (eb_items bundle)
           then Inl (Err ''graph context source content changed'')
           else Inr (Some g))
      | _ \<Rightarrow> Inr None)"

definition renderEvidence :: "(string \<Rightarrow> string) \<Rightarrow> evidence \<Rightarrow> string" where
  "renderEvidence quote item =
     ''Evidence '' @ ev_id item @ '' versions ['' @
     concat (case map sv_provision_version_id (ev_source_refs item) of
       [] \<Rightarrow> [] | v # vs \<Rightarrow> v # map (\<lambda>w. '','' @ w) vs) @
     ''] status_at_knowledge_snapshot ['' @ legal_status_string (ev_legal_status item) @ ''] text '' @
     quote (ev_text item)"

definition renderContextEvidence :: "(string \<Rightarrow> string) \<Rightarrow> evidence \<Rightarrow> GraphContext option \<Rightarrow> string" where
  "renderContextEvidence quote item g =
     renderEvidence quote item @ (case g of None \<Rightarrow> '''' | Some p \<Rightarrow> assoc_default '''' (gc_blocks p) (ev_id item))"

definition path_members :: "GraphContext \<Rightarrow> string \<Rightarrow> string list" where
  "path_members g i = assoc_default [] (gc_members g) i"

definition covered :: "GraphContext option \<Rightarrow> string \<Rightarrow> string list \<Rightarrow> bool" where
  "covered plan i selected =
     (case plan of None \<Rightarrow> False
      | Some g \<Rightarrow>
          (case map_of (gc_paths g) i of None \<Rightarrow> False
           | Some p \<Rightarrow> gp_coverage p = COMPLETENESS_COMPLETE \<and>
               list_all (\<lambda>m. m \<in> set selected) (path_members g i) \<and> path_members g i \<noteq> []))"

text \<open>A claim set has as many members as it has distinct evidence identifiers.\<close>

definition claimed :: "GraphContext option \<Rightarrow> string \<Rightarrow> string list list \<Rightarrow> bool" where
  "claimed plan i claims =
     (case plan of None \<Rightarrow> False
      | Some g \<Rightarrow> path_members g i \<noteq> [] \<and>
          list_ex (\<lambda>ids. length (path_members g i) \<le> length (remdups ids) \<and>
            list_all (\<lambda>v. v \<in> set ids) (path_members g i)) claims)"

section \<open>Building the context\<close>

definition addOmission :: "string \<Rightarrow> string list \<Rightarrow> string list" where
  "addOmission i omitted = (if i \<noteq> '''' \<and> i \<notin> set omitted then omitted @ [i] else omitted)"

record context_state =
  st_rendered :: string
  st_tokens :: nat
  st_ids :: "string list"
  st_blocks :: "context_block list"
  st_omitted :: "string list"
  st_seen :: "string list"

definition join_rendered :: "string \<Rightarrow> string \<Rightarrow> string" where
  "join_rendered rendered block = (if rendered \<noteq> '''' then rendered @ [CHR 0x0A] @ block else block)"

text \<open>\<open>count_tokens\<close> is the token counter and \<open>ctx_err i\<close> what \<open>ctx.Err()\<close> returns in iteration \<open>i\<close>.\<close>

definition add_evidence ::
    "evidence_bundle \<Rightarrow> string \<Rightarrow> (string \<Rightarrow> nat result) \<Rightarrow> nat \<Rightarrow> evidence \<Rightarrow> context_state \<Rightarrow> context_state result" where
  "add_evidence bundle block count_tokens maximumTokens item st =
     (if ev_id item = '''' \<or> m_corpus_id (ev_meta item) \<noteq> m_corpus_id (eb_meta bundle) \<or>
         ev_snapshot_ref item \<noteq> eb_snapshot bundle \<or> ev_id item \<in> set (st_seen st)
      then Inl (Err ''evidence identity, corpus, or snapshot is inconsistent'')
      else let st' = st\<lparr>st_seen := ev_id item # st_seen st\<rparr>; trial = join_rendered (st_rendered st) block in
        case count_tokens trial of
          Inl e \<Rightarrow> Inl (Wrap ''count exact context tokens'' e)
        | Inr tokens \<Rightarrow>
            (if tokens > maximumTokens
             then Inr (st'\<lparr>st_omitted := addOmission (ev_id item) (st_omitted st)\<rparr>)
             else Inr (st'\<lparr>st_rendered := trial, st_tokens := tokens, st_ids := st_ids st @ [ev_id item],
                    st_blocks := st_blocks st @ [\<lparr>cb_evidence_id = ev_id item, cb_rendered_text = block\<rparr>],
                    st_omitted := fold addOmission (ev_parent_refs item) (st_omitted st)\<rparr>)))"

fun add_all ::
    "(string \<Rightarrow> string) \<Rightarrow> GraphContext option \<Rightarrow> evidence_bundle \<Rightarrow> (string \<Rightarrow> nat result) \<Rightarrow> (nat \<Rightarrow> error option) \<Rightarrow>
     nat \<Rightarrow> nat \<Rightarrow> evidence list \<Rightarrow> context_state \<Rightarrow> context_state result" where
  "add_all quote plan bundle count_tokens ctx_err maximumTokens i [] st = Inr st"
| "add_all quote plan bundle count_tokens ctx_err maximumTokens i (item # items) st =
     (case ctx_err i of
        Some e \<Rightarrow> Inl e
      | None \<Rightarrow> bind_result (add_evidence bundle (renderContextEvidence quote item plan) count_tokens maximumTokens item st)
          (\<lambda>st'. add_all quote plan bundle count_tokens ctx_err maximumTokens (i + 1) items st'))"

definition path_omissions :: "GraphContext option \<Rightarrow> evidence_bundle \<Rightarrow> string list \<Rightarrow> string list \<Rightarrow> string list" where
  "path_omissions plan bundle selected omitted =
     fold (\<lambda>i om. if covered plan i selected then om else addOmission i om) (concat (eb_required_path_sets bundle)) omitted"

definition context_completeness :: "evidence_bundle \<Rightarrow> bool \<Rightarrow> bool \<Rightarrow> completeness" where
  "context_completeness bundle no_selection no_omission =
     (if no_selection \<and> no_omission \<and> eb_completeness bundle = COMPLETENESS_NONE then COMPLETENESS_NONE
      else if \<not> no_omission \<or> eb_completeness bundle \<noteq> COMPLETENESS_COMPLETE then COMPLETENESS_PARTIAL
      else if no_selection then COMPLETENESS_NONE
      else COMPLETENESS_COMPLETE)"

definition BuildContext ::
    "host \<Rightarrow> evidence_bundle codec \<Rightarrow> evidence codec \<Rightarrow> context_bundle codec \<Rightarrow> (string \<Rightarrow> string) \<Rightarrow> (nat \<Rightarrow> error option) \<Rightarrow>
     evidence_bundle option \<Rightarrow> string \<Rightarrow> string option \<Rightarrow> nat \<Rightarrow> int \<Rightarrow> (string \<Rightarrow> nat result) option \<Rightarrow>
     GraphContext option list \<Rightarrow> context_bundle result" where
  "BuildContext h bc ec cc quote ctx_err bundle recordID tokenizerHash maximumTokens maximumEvidence count_tokens graphPlans =
     (case (bundle, tokenizerHash, count_tokens) of
        (Some b, Some th, Some counter) \<Rightarrow>
          (if eb_completion_status b \<noteq> COMPLETION_STATUS_SUCCEEDED \<or> maximumTokens = 0 \<or> maximumEvidence \<le> 0 \<or>
              recordID = '''' \<or> int (length (eb_items b)) > maximumEvidence
           then Inl (Err ''complete bounded context inputs are required'')
           else case validate_wire h bc b of
             Inl e \<Rightarrow> Inl (Wrap ''invalid evidence bundle'' e)
           | Inr _ \<Rightarrow>
               bind_result (selectGraphContext h bc ec b graphPlans) (\<lambda>plan.
               bind_result (add_all quote plan b counter ctx_err maximumTokens 0 (eb_items b)
                 \<lparr>st_rendered = '''', st_tokens = 0, st_ids = [], st_blocks = [], st_omitted = [], st_seen = []\<rparr>) (\<lambda>st.
               let omitted = fold addOmission (eb_missing_dependencies b) (path_omissions plan b (st_ids st) (st_omitted st));
                   result = \<lparr>cx_meta = \<lparr>m_schema_version = m_schema_version (eb_meta b), m_corpus_id = m_corpus_id (eb_meta b),
                                        m_record_id = recordID, m_visibility = None\<rparr>,
                             cx_ordered_evidence_ids = st_ids st, cx_rendered_blocks = st_blocks st, cx_token_count = st_tokens st,
                             cx_tokenizer_hash = th, cx_omitted_required_refs = omitted,
                             cx_completeness = context_completeness b (st_ids st = []) (omitted = []),
                             cx_snapshot = eb_snapshot b\<rparr>
               in case validate_wire h cc result of
                    Inl e \<Rightarrow> Inl (Wrap ''invalid rendered context'' e)
                  | Inr _ \<Rightarrow> Inr result)))
      | _ \<Rightarrow> Inl (Err ''complete bounded context inputs are required''))"

section \<open>What the builder packs\<close>

lemma set_addOmission: "set (addOmission i om) = set om \<union> ({i} - {''''})"
  by (auto simp: addOmission_def)

lemma distinct_addOmission [simp]: "distinct om \<Longrightarrow> distinct (addOmission i om)"
  by (simp add: addOmission_def)

lemma set_fold_addOmission: "set (fold addOmission is om) = set om \<union> (set is - {''''})"
  by (induction "is" arbitrary: om) (auto simp: set_addOmission)

lemma distinct_fold_addOmission: "distinct om \<Longrightarrow> distinct (fold addOmission is om)"
  by (induction "is" arbitrary: om) auto

lemma path_omissions_filter:
  "path_omissions plan bundle selected omitted =
     fold addOmission (filter (\<lambda>i. \<not> covered plan i selected) (concat (eb_required_path_sets bundle))) omitted"
proof -
  have "fold (\<lambda>i om. if covered plan i selected then om else addOmission i om) is om =
      fold addOmission (filter (\<lambda>i. \<not> covered plan i selected) is) om" for "is" om
    by (induction "is" arbitrary: om) auto
  then show ?thesis by (simp add: path_omissions_def)
qed

definition item_omissions :: "string list \<Rightarrow> evidence \<Rightarrow> string list" where
  "item_omissions selected e = (if ev_id e \<in> set selected then ev_parent_refs e else [ev_id e])"

definition joined_blocks :: "string list \<Rightarrow> string" where
  "joined_blocks bs = foldl join_rendered '''' bs"

lemma joined_blocks_snoc: "joined_blocks (bs @ [b]) = join_rendered (joined_blocks bs) b"
  by (simp add: joined_blocks_def)

text \<open>The evidence that fits the bundle: identified, of its corpus and of its snapshot.\<close>

definition item_fits :: "evidence_bundle \<Rightarrow> evidence \<Rightarrow> bool" where
  "item_fits bundle e \<longleftrightarrow> ev_id e \<noteq> '''' \<and> m_corpus_id (ev_meta e) = m_corpus_id (eb_meta bundle) \<and>
     ev_snapshot_ref e = eb_snapshot bundle"

text \<open>The budget of the rendered text so far.\<close>

definition within_budget :: "(string \<Rightarrow> nat result) \<Rightarrow> nat \<Rightarrow> context_state \<Rightarrow> bool" where
  "within_budget count_tokens maximum st \<longleftrightarrow>
     st_rendered st = joined_blocks (map cb_rendered_text (st_blocks st)) \<and>
     (if st_blocks st = [] then st_tokens st = 0
      else count_tokens (st_rendered st) = Inr (st_tokens st) \<and> st_tokens st \<le> maximum)"

lemma add_evidence_cases:
  assumes "add_evidence bundle block count_tokens maximum item st = Inr st'"
  shows "item_fits bundle item \<and> ev_id item \<notin> set (st_seen st) \<and> st_seen st' = ev_id item # st_seen st \<and>
    (st_ids st' = st_ids st \<and> st_blocks st' = st_blocks st \<and> st_rendered st' = st_rendered st \<and>
       st_tokens st' = st_tokens st \<and> st_omitted st' = addOmission (ev_id item) (st_omitted st) \<or>
     st_ids st' = st_ids st @ [ev_id item] \<and>
       st_blocks st' = st_blocks st @ [\<lparr>cb_evidence_id = ev_id item, cb_rendered_text = block\<rparr>] \<and>
       st_rendered st' = join_rendered (st_rendered st) block \<and> st_tokens st' \<le> maximum \<and>
       count_tokens (st_rendered st') = Inr (st_tokens st') \<and>
       st_omitted st' = fold addOmission (ev_parent_refs item) (st_omitted st))"
  using assms by (auto simp: add_evidence_def item_fits_def Let_def split: if_splits sum.splits)

lemma add_evidence_budget:
  assumes "add_evidence bundle block count_tokens maximum item st = Inr st'" and "within_budget count_tokens maximum st"
  shows "within_budget count_tokens maximum st'"
  using add_evidence_cases [OF assms(1)] assms(2)
  by (elim conjE disjE) (auto simp: within_budget_def joined_blocks_snoc split: if_splits)

definition block_of :: "(string \<Rightarrow> string) \<Rightarrow> GraphContext option \<Rightarrow> evidence \<Rightarrow> context_block" where
  "block_of quote plan e = \<lparr>cb_evidence_id = ev_id e, cb_rendered_text = renderContextEvidence quote e plan\<rparr>"

lemma add_all_spec:
  assumes "add_all quote plan bundle count_tokens ctx_err maximum i items st = Inr st'"
    and "set (st_ids st) \<subseteq> set (st_seen st)"
  shows "list_all (item_fits bundle) items \<and> distinct (map ev_id items) \<and>
    ev_id ` set items \<inter> set (st_seen st) = {} \<and>
    (let sel = filter (\<lambda>e. ev_id e \<in> set (st_ids st')) items in
      st_ids st' = st_ids st @ map ev_id sel \<and> st_blocks st' = st_blocks st @ map (block_of quote plan) sel) \<and>
    set (st_omitted st') = set (st_omitted st) \<union> ((\<Union>e \<in> set items. set (item_omissions (st_ids st') e)) - {''''}) \<and>
    (distinct (st_omitted st) \<longrightarrow> distinct (st_omitted st')) \<and>
    (within_budget count_tokens maximum st \<longrightarrow> within_budget count_tokens maximum st')"
  using assms
proof (induction items arbitrary: i st)
  case (Cons e items)
  from Cons.prems(1) obtain st1 where
    s1: "add_evidence bundle (renderContextEvidence quote e plan) count_tokens maximum e st = Inr st1"
    and rest: "add_all quote plan bundle count_tokens ctx_err maximum (i + 1) items st1 = Inr st'"
    by (auto simp: bind_result_Inr_iff split: option.splits)
  note c = add_evidence_cases [OF s1]
  have "set (st_ids st1) \<subseteq> set (st_seen st1)" using c Cons.prems(2) by (elim conjE disjE) auto
  note IH = Cons.IH [OF rest this]
  let ?sel = "filter (\<lambda>e. ev_id e \<in> set (st_ids st')) items"
  have ids: "st_ids st' = st_ids st1 @ map ev_id ?sel" and blocks: "st_blocks st' = st_blocks st1 @ map (block_of quote plan) ?sel"
    and fresh: "ev_id ` set items \<inter> set (st_seen st1) = {}" and fit: "list_all (item_fits bundle) items"
    and dist: "distinct (map ev_id items)"
    and om: "set (st_omitted st') = set (st_omitted st1) \<union> ((\<Union>e \<in> set items. set (item_omissions (st_ids st') e)) - {''''})"
    and dom: "distinct (st_omitted st1) \<Longrightarrow> distinct (st_omitted st')"
    and bud: "within_budget count_tokens maximum st1 \<Longrightarrow> within_budget count_tokens maximum st'"
    using IH by (simp_all add: Let_def)
  have new: "ev_id e \<notin> ev_id ` set items" "ev_id e \<notin> set (st_ids st)"
    using c fresh Cons.prems(2) by auto
  have mem: "(ev_id e \<in> set (st_ids st')) \<longleftrightarrow> ev_id e \<in> set (st_ids st1)"
    using new(1) by (subst ids) auto
  have "set (st_omitted st1) = set (st_omitted st) \<union> (set (item_omissions (st_ids st1) e) - {''''})"
    using c new(2) by (elim conjE disjE) (auto simp: item_omissions_def set_addOmission set_fold_addOmission)
  with mem have om1: "set (st_omitted st') = set (st_omitted st) \<union>
      ((\<Union>e \<in> set (e # items). set (item_omissions (st_ids st') e)) - {''''})"
    using om by (simp add: item_omissions_def Un_assoc Un_Diff)
  have sel: "st_ids st' = st_ids st @ map ev_id (filter (\<lambda>e. ev_id e \<in> set (st_ids st')) (e # items)) \<and>
      st_blocks st' = st_blocks st @ map (block_of quote plan) (filter (\<lambda>e. ev_id e \<in> set (st_ids st')) (e # items))"
    using c ids blocks new mem by (elim conjE disjE) (simp_all add: block_of_def)
  have "distinct (st_omitted st) \<Longrightarrow> distinct (st_omitted st1)"
    using c by (elim conjE disjE) (simp_all add: distinct_fold_addOmission)
  with dom bud add_evidence_budget [OF s1] c fit dist fresh new om1 sel show ?case
    unfolding Let_def by auto
qed simp

definition expected_omissions :: "GraphContext option \<Rightarrow> evidence_bundle \<Rightarrow> string list \<Rightarrow> string set" where
  "expected_omissions plan bundle selected =
     (\<Union>e \<in> set (eb_items bundle). set (item_omissions selected e)) \<union>
     {i \<in> set (concat (eb_required_path_sets bundle)). \<not> covered plan i selected} \<union>
     set (eb_missing_dependencies bundle)"

lemma BuildContext_spec:
  assumes "BuildContext h bc ec cc quote ctx_err (Some b) recordID (Some th) maximumTokens maximumEvidence
      (Some count_tokens) plans = Inr cx"
  shows "\<exists>plan. selectGraphContext h bc ec b plans = Inr plan \<and>
    list_all (item_fits b) (eb_items b) \<and> distinct (map ev_id (eb_items b)) \<and>
    (let sel = filter (\<lambda>e. ev_id e \<in> set (cx_ordered_evidence_ids cx)) (eb_items b) in
      cx_ordered_evidence_ids cx = map ev_id sel \<and> cx_rendered_blocks cx = map (block_of quote plan) sel) \<and>
    distinct (cx_omitted_required_refs cx) \<and>
    set (cx_omitted_required_refs cx) = expected_omissions plan b (cx_ordered_evidence_ids cx) - {''''} \<and>
    cx_completeness cx = context_completeness b (cx_ordered_evidence_ids cx = []) (cx_omitted_required_refs cx = []) \<and>
    cx_snapshot cx = eb_snapshot b \<and> m_corpus_id (cx_meta cx) = m_corpus_id (eb_meta b) \<and>
    m_schema_version (cx_meta cx) = m_schema_version (eb_meta b) \<and> validate_wire h cc cx = Inr () \<and>
    cx_token_count cx \<le> maximumTokens \<and>
    (cx_rendered_blocks cx \<noteq> [] \<longrightarrow>
      count_tokens (joined_blocks (map cb_rendered_text (cx_rendered_blocks cx))) = Inr (cx_token_count cx))"
proof -
  let ?st0 = "\<lparr>st_rendered = '''', st_tokens = 0, st_ids = [], st_blocks = [], st_omitted = [], st_seen = []\<rparr>"
  obtain plan st where plan: "selectGraphContext h bc ec b plans = Inr plan"
    and st: "add_all quote plan b count_tokens ctx_err maximumTokens 0 (eb_items b) ?st0 = Inr st"
    and cx: "cx = \<lparr>cx_meta = \<lparr>m_schema_version = m_schema_version (eb_meta b), m_corpus_id = m_corpus_id (eb_meta b),
                     m_record_id = recordID, m_visibility = None\<rparr>,
        cx_ordered_evidence_ids = st_ids st, cx_rendered_blocks = st_blocks st, cx_token_count = st_tokens st,
        cx_tokenizer_hash = th,
        cx_omitted_required_refs = fold addOmission (eb_missing_dependencies b) (path_omissions plan b (st_ids st) (st_omitted st)),
        cx_completeness = context_completeness b (st_ids st = [])
          (fold addOmission (eb_missing_dependencies b) (path_omissions plan b (st_ids st) (st_omitted st)) = []),
        cx_snapshot = eb_snapshot b\<rparr>" and v: "validate_wire h cc cx = Inr ()"
    using assms
    by (auto simp: BuildContext_def bind_result_Inr_iff wrapped_Inr_iff guard_Inr_iff Let_def simp del: not_less)
  have "within_budget count_tokens maximumTokens ?st0" by (simp add: within_budget_def joined_blocks_def)
  then have budget: "within_budget count_tokens maximumTokens st"
    and loop: "list_all (item_fits b) (eb_items b)" "distinct (map ev_id (eb_items b))"
      "st_ids st = map ev_id (filter (\<lambda>e. ev_id e \<in> set (st_ids st)) (eb_items b))"
      "st_blocks st = map (block_of quote plan) (filter (\<lambda>e. ev_id e \<in> set (st_ids st)) (eb_items b))"
      "set (st_omitted st) = (\<Union>e \<in> set (eb_items b). set (item_omissions (st_ids st) e)) - {''''}"
      "distinct (st_omitted st)"
    using add_all_spec [OF st] by (simp_all add: Let_def)
  have om: "set (cx_omitted_required_refs cx) = expected_omissions plan b (cx_ordered_evidence_ids cx) - {''''}"
    "distinct (cx_omitted_required_refs cx)"
    using loop(5,6) by (auto simp: cx path_omissions_filter set_fold_addOmission expected_omissions_def
        intro!: distinct_fold_addOmission)
  have "cx_token_count cx \<le> maximumTokens \<and> (cx_rendered_blocks cx \<noteq> [] \<longrightarrow>
      count_tokens (joined_blocks (map cb_rendered_text (cx_rendered_blocks cx))) = Inr (cx_token_count cx))"
    using budget by (auto simp: cx within_budget_def split: if_splits)
  moreover have "cx_ordered_evidence_ids cx = st_ids st" "cx_rendered_blocks cx = st_blocks st"
    "cx_completeness cx = context_completeness b (cx_ordered_evidence_ids cx = []) (cx_omitted_required_refs cx = [])"
    "cx_snapshot cx = eb_snapshot b" "m_corpus_id (cx_meta cx) = m_corpus_id (eb_meta b)"
    "m_schema_version (cx_meta cx) = m_schema_version (eb_meta b)"
    by (simp_all add: cx)
  ultimately show ?thesis using plan loop om v unfolding Let_def by (intro exI [of _ plan]) simp
qed

text \<open>
  Claim C38. A context never exceeds its token budget: the token count it reports is the exact
  count of the rendered blocks joined in order, at most the maximum, and the blocks are the
  renderings of the selected evidence in bundle order.
\<close>

theorem BuildContext_within_budget:
  assumes "BuildContext h bc ec cc quote ctx_err (Some b) recordID (Some th) maximumTokens maximumEvidence
      (Some count_tokens) plans = Inr cx"
  shows "cx_token_count cx \<le> maximumTokens \<and>
    (cx_rendered_blocks cx \<noteq> [] \<longrightarrow>
      count_tokens (joined_blocks (map cb_rendered_text (cx_rendered_blocks cx))) = Inr (cx_token_count cx)) \<and>
    (\<exists>plan. selectGraphContext h bc ec b plans = Inr plan \<and>
      cx_rendered_blocks cx = map (block_of quote plan)
        (filter (\<lambda>e. ev_id e \<in> set (cx_ordered_evidence_ids cx)) (eb_items b)))"
  using BuildContext_spec [OF assms] unfolding Let_def by blast

end
