(* ===== verification/Citations.thy ===== *)
theory Citations
  imports Context
begin

text \<open>
  Citations: what \<open>VerifyCitationEvidence\<close> of \<open>domain/boundaries.go\<close> accepts, and how
  \<open>answering/citations.go\<close> builds them. The lookup of observed source URLs is an argument, a
  function of source blob and provision version; both sources keep its results in a cache, which
  is threaded through the loops.
\<close>

section \<open>Answers\<close>

record claim =
  cl_claim_id :: string
  cl_start_byte :: nat
  cl_end_byte :: nat
  cl_evidence_ids :: "string list"
  cl_support_status :: support_status
  cl_rest :: string

record citation =
  ci_citation_id :: string
  ci_claim_ids :: "string list"
  ci_evidence_id :: string
  ci_provision_version_id :: string
  ci_source_url :: string
  ci_source_span :: "text_span option"
  ci_page_locator :: "page_locator option"

record evidence_conflict =
  cf_reason :: string
  cf_evidence_ids :: "string list"

record answer =
  an_meta :: record_meta
  an_request_id :: string
  an_text :: string
  an_claims :: "claim list"
  an_citations :: "citation list"
  an_paths :: "graph_path list"
  an_semantic_status :: semantic_status
  an_completion_status :: completion_status
  an_missing_evidence :: "string list"
  an_conflicts :: "evidence_conflict list"
  an_snapshot :: snapshot_ref
  an_rest :: string

type_synonym citationSourceKey = "string \<times> string"
type_synonym SourceURLLookup = "string \<Rightarrow> string \<Rightarrow> string list result"
type_synonym citationCoverageKey = "string \<times> string \<times> citationSourceKey"

definition evidence_sources :: "evidence \<Rightarrow> citationSourceKey list" where
  "evidence_sources e = map (\<lambda>s. (sv_source_blob_id s, sv_provision_version_id s)) (ev_source_refs e)"

definition safe_url :: "host \<Rightarrow> string \<Rightarrow> bool" where
  "safe_url h u = (case url_parse h u of None \<Rightarrow> False
     | Some p \<Rightarrow> (u_scheme p = ''https'' \<or> u_scheme p = ''http'') \<and> u_host p \<noteq> '''' \<and> \<not> u_user p)"

section \<open>Verification\<close>

fun check_evidence_ids :: "string list \<Rightarrow> evidence list \<Rightarrow> unit result" where
  "check_evidence_ids seen [] = Inr ()"
| "check_evidence_ids seen (e # es) =
     (if ev_id e \<in> set seen then Inl (Err ''evidence bundle repeats an evidence ID'')
      else if \<not> distinct (evidence_sources e) then Inl (Err ''evidence repeats a source version'')
      else check_evidence_ids (ev_id e # seen) es)"

fun check_claim_ids :: "evidence list \<Rightarrow> string list \<Rightarrow> claim list \<Rightarrow> unit result" where
  "check_claim_ids items seen [] = Inr ()"
| "check_claim_ids items seen (c # cs) =
     (if cl_claim_id c \<in> set seen then Inl (Err ''answer repeats a claim ID'')
      else if list_ex (\<lambda>i. row_of ev_id i items = None) (cl_evidence_ids c)
      then Inl (Err ''claim references unknown evidence'')
      else check_claim_ids items (cl_claim_id c # seen) cs)"

definition cited_source :: "evidence \<Rightarrow> citation \<Rightarrow> citationSourceKey result" where
  "cited_source item c =
     (case evidence_sources item of
        [source] \<Rightarrow>
          (if snd source \<noteq> ci_provision_version_id c then Inl (Err ''citation version mismatch'') else Inr source)
      | sources \<Rightarrow>
          (case (ci_page_locator c, ci_source_span c) of
             (Some l, None) \<Rightarrow>
               (if (pl_source_blob_id l, ci_provision_version_id c) \<notin> set sources
                then Inl (Err ''citation source version absent from evidence'')
                else Inr (pl_source_blob_id l, ci_provision_version_id c))
           | _ \<Rightarrow> Inl (Err ''multi-source citation requires only a blob-bound page locator'')))"

definition cached_urls ::
    "SourceURLLookup \<Rightarrow> citationSourceKey \<Rightarrow> (citationSourceKey \<times> string list) list \<Rightarrow>
     (string list \<times> (citationSourceKey \<times> string list) list) result" where
  "cached_urls lookup key cache =
     (case map_of cache key of
        Some urls \<Rightarrow> Inr (urls, cache)
      | None \<Rightarrow>
          bind_result (lookup (fst key) (snd key)) (\<lambda>urls.
            if length urls > 32 then Inl (Err ''trusted source metadata contains too many URLs'')
            else Inr (urls, (key, urls) # cache)))"

definition check_locator :: "evidence \<Rightarrow> citationSourceKey \<Rightarrow> citation \<Rightarrow> unit result" where
  "check_locator item source c =
     (if ci_source_span c = None \<and> ci_page_locator c = None then Inl (Err ''citation requires a source locator'')
      else bind_result (case ci_source_span c of None \<Rightarrow> Inr ()
        | Some s \<Rightarrow> (if sp_start_byte s \<ge> sp_end_byte s then Inl (Err ''citation source span is empty'')
                     else if length (ev_source_refs item) \<noteq> 1 then Inl (Err ''citation source span is ambiguous across sources'')
                     else Inr ())) (\<lambda>_.
        let spanOK = (case ci_source_span c of None \<Rightarrow> True
              | Some s \<Rightarrow> list_ex (\<lambda>e. sp_artifact_id s = sp_artifact_id e \<and> sp_start_byte s \<ge> sp_start_byte e \<and>
                            sp_end_byte s \<le> sp_end_byte e) (ev_source_spans item));
            locatorOK = (case ci_page_locator c of None \<Rightarrow> True
              | Some l \<Rightarrow> list_ex (\<lambda>e. pl_source_blob_id l = fst source \<and> e = l) (ev_locators item))
        in if \<not> spanOK \<or> \<not> locatorOK then Inl (Err ''citation locator not in selected evidence'')
           else case ci_page_locator c of
             Some l \<Rightarrow> (if pl_source_blob_id l \<noteq> fst source
                        then Inl (Err ''citation locator is not bound to its source URL'') else Inr ())
           | None \<Rightarrow> Inr ()))"

fun link_claims ::
    "claim list \<Rightarrow> citation \<Rightarrow> citationSourceKey \<Rightarrow> string list \<Rightarrow> citationCoverageKey list \<Rightarrow> citationCoverageKey list result" where
  "link_claims claims c source [] cited = Inr cited"
| "link_claims claims c source (i # is) cited =
     (case row_of cl_claim_id i claims of
        None \<Rightarrow> Inl (Err ''citation references an unknown claim'')
      | Some cl \<Rightarrow>
          (if ci_evidence_id c \<notin> set (cl_evidence_ids cl) then Inl (Err ''citation evidence absent from claim mapping'')
           else link_claims claims c source is ((i, ci_evidence_id c, source) # cited)))"

fun check_citations ::
    "host \<Rightarrow> SourceURLLookup option \<Rightarrow> evidence list \<Rightarrow> claim list \<Rightarrow> string list \<Rightarrow>
     (citationSourceKey \<times> string list) list \<Rightarrow> citation list \<Rightarrow> citationCoverageKey list \<Rightarrow> citationCoverageKey list result" where
  "check_citations h lookup items claims seen cache [] cited = Inr cited"
| "check_citations h lookup items claims seen cache (c # cs) cited =
     (if ci_citation_id c \<in> set seen then Inl (Err ''answer repeats a citation ID'')
      else case lookup of
        None \<Rightarrow> Inl (Err ''citation URL verification requires trusted source metadata'')
      | Some look \<Rightarrow>
          (case row_of ev_id (ci_evidence_id c) items of
             None \<Rightarrow> Inl (Err ''citation references unknown evidence'')
           | Some item \<Rightarrow>
               (if \<not> safe_url h (ci_source_url c) then Inl (Err ''citation URL is not a safe absolute HTTP URL'')
                else bind_result (cited_source item c) (\<lambda>source.
                  bind_result (cached_urls look source cache) (\<lambda>(urls, cache').
                  if ci_source_url c \<notin> set urls then Inl (Err ''citation URL absent from trusted source metadata'')
                  else bind_result (check_locator item source c) (\<lambda>_.
                  bind_result (link_claims claims c source (ci_claim_ids c) cited) (\<lambda>cited'.
                  check_citations h lookup items claims (ci_citation_id c # seen) cache' cs cited')))))))"

fun check_support :: "evidence list \<Rightarrow> citationCoverageKey list \<Rightarrow> claim list \<Rightarrow> unit result" where
  "check_support items cited [] = Inr ()"
| "check_support items cited (c # cs) =
     (if cl_support_status c \<noteq> SUPPORT_STATUS_SUPPORTED then check_support items cited cs
      else if cl_evidence_ids c = [] then Inl (Err ''supported claim has no evidence'')
      else if list_ex (\<lambda>i. list_ex (\<lambda>s. (cl_claim_id c, i, s) \<notin> set cited)
                (case row_of ev_id i items of None \<Rightarrow> [] | Some e \<Rightarrow> evidence_sources e)) (cl_evidence_ids c)
      then Inl (Err ''supported claim source lacks a verified citation'')
      else check_support items cited cs)"

definition VerifyCitationEvidence ::
    "host \<Rightarrow> answer codec \<Rightarrow> evidence_bundle codec \<Rightarrow> answer \<Rightarrow> evidence_bundle \<Rightarrow> SourceURLLookup option \<Rightarrow> unit result" where
  "VerifyCitationEvidence h ac bc answer bundle lookup =
     bind_result (validate_wire h ac answer) (\<lambda>_.
     bind_result (validate_wire h bc bundle) (\<lambda>_.
     if an_snapshot answer \<noteq> eb_snapshot bundle then Inl (Err ''answer/evidence snapshot mismatch'')
     else bind_result (check_evidence_ids [] (eb_items bundle)) (\<lambda>_.
     bind_result (check_claim_ids (eb_items bundle) [] (an_claims answer)) (\<lambda>_.
     bind_result (check_citations h lookup (eb_items bundle) (an_claims answer) [] [] (an_citations answer) []) (\<lambda>cited.
     check_support (eb_items bundle) cited (an_claims answer))))))"

section \<open>Building citations\<close>

definition first_safe_url :: "host \<Rightarrow> string list \<Rightarrow> string" where
  "first_safe_url h urls = (case find (safe_url h) urls of None \<Rightarrow> '''' | Some u \<Rightarrow> u)"

definition trusted_url ::
    "host \<Rightarrow> SourceURLLookup \<Rightarrow> citationSourceKey \<Rightarrow> (citationSourceKey \<times> string) list \<Rightarrow>
     (string \<times> (citationSourceKey \<times> string) list) result" where
  "trusted_url h lookup key cache =
     (case map_of cache key of
        Some u \<Rightarrow> Inr (u, cache)
      | None \<Rightarrow>
          (case lookup (fst key) (snd key) of
             Inl e \<Rightarrow> Inl (Wrap ''trusted source lookup'' e)
           | Inr observed \<Rightarrow>
               (if length observed > 32 then Inl (Err ''trusted source metadata contains too many URLs'')
                else Inr (first_safe_url h observed, (key, first_safe_url h observed) # cache))))"

definition evidence_citation :: "host \<Rightarrow> citation codec \<Rightarrow> string \<Rightarrow> evidence \<Rightarrow> source_version_ref \<Rightarrow> string \<Rightarrow> citation" where
  "evidence_citation h tc claimID item source trusted =
     (let c = \<lparr>ci_citation_id = '''', ci_claim_ids = [claimID], ci_evidence_id = ev_id item,
               ci_provision_version_id = sv_provision_version_id source, ci_source_url = trusted,
               ci_source_span = (if length (ev_source_refs item) = 1
                 then find (\<lambda>s. sp_start_byte s < sp_end_byte s) (ev_source_spans item) else None),
               ci_page_locator = find (\<lambda>l. pl_source_blob_id l = sv_source_blob_id source) (ev_locators item)\<rparr>
      in c\<lparr>ci_citation_id := ''citation:'' @ sha256hex h (c_marshal tc c)\<rparr>)"

fun citations_loop ::
    "host \<Rightarrow> citation codec \<Rightarrow> SourceURLLookup \<Rightarrow> string \<Rightarrow> evidence \<Rightarrow> citationSourceKey list \<Rightarrow> source_version_ref list \<Rightarrow>
     (citationSourceKey \<times> string) list \<Rightarrow> citation list \<Rightarrow> (citation list \<times> (citationSourceKey \<times> string) list) result" where
  "citations_loop h tc lookup claimID item seen [] cache out = Inr (out, cache)"
| "citations_loop h tc lookup claimID item seen (source # sources) cache out =
     (let key = (sv_source_blob_id source, sv_provision_version_id source) in
      if fst key = '''' \<or> snd key = '''' then Inl (Err ''evidence has an invalid source version'')
      else if key \<in> set seen then Inl (Err ''evidence repeats a source version'')
      else if ci_source_span (evidence_citation h tc claimID item source '''') = None \<and>
              ci_page_locator (evidence_citation h tc claimID item source '''') = None
      then Inl (Err ''source version lacks an unambiguous locator'')
      else bind_result (trusted_url h lookup key cache) (\<lambda>(trusted, cache').
        if trusted = '''' then Inl (Err ''source version lacks a trusted URL'')
        else let c = evidence_citation h tc claimID item source trusted in
          case validate_wire h tc c of
            Inl e \<Rightarrow> Inl (Wrap ''invalid built citation'' e)
          | Inr _ \<Rightarrow> citations_loop h tc lookup claimID item (key # seen) sources cache' (out @ [c])))"

definition citationsFromEvidence where
  "citationsFromEvidence h tc claimID item lookup cache =
     (if ev_source_refs item = [] then Inl (Err ''evidence has no source version'')
      else citations_loop h tc lookup claimID item [] (ev_source_refs item) cache [])"

fun cite_evidence ::
    "host \<Rightarrow> citation codec \<Rightarrow> SourceURLLookup \<Rightarrow> int \<Rightarrow> evidence list \<Rightarrow> string list \<Rightarrow> string \<Rightarrow> string list \<Rightarrow>
     (citationSourceKey \<times> string) list \<Rightarrow> citation list \<Rightarrow> (citation list \<times> (citationSourceKey \<times> string) list) result" where
  "cite_evidence h tc lookup maximum items selected claimID [] cache out = Inr (out, cache)"
| "cite_evidence h tc lookup maximum items selected claimID (i # is) cache out =
     (case row_of ev_id i items of
        None \<Rightarrow> Inl (Err ''claim cites evidence outside rendered context'')
      | Some item \<Rightarrow>
          (if i \<notin> set selected then Inl (Err ''claim cites evidence outside rendered context'')
           else case citationsFromEvidence h tc claimID item lookup cache of
             Inl e \<Rightarrow> Inl (Wrap ''cite evidence'' e)
           | Inr (cs, cache') \<Rightarrow>
               (if int (length cs) > maximum - int (length out) then Inl (Err ''source citations exceed citation limit'')
                else cite_evidence h tc lookup maximum items selected claimID is cache' (out @ cs))))"

fun cite_claims ::
    "host \<Rightarrow> citation codec \<Rightarrow> claim codec \<Rightarrow> SourceURLLookup \<Rightarrow> int \<Rightarrow> bool \<Rightarrow> evidence list \<Rightarrow> string list \<Rightarrow> string list \<Rightarrow>
     claim list \<Rightarrow> (citationSourceKey \<times> string) list \<Rightarrow> citation list \<Rightarrow> citation list result" where
  "cite_claims h tc lc lookup maximum draft items selected seen [] cache out = Inr out"
| "cite_claims h tc lc lookup maximum draft items selected seen (c # cs) cache out =
     (case validate_wire h lc c of
        Inl e \<Rightarrow> Inl (Wrap ''invalid citation claim'' e)
      | Inr _ \<Rightarrow>
          (if cl_claim_id c \<in> set seen then Inl (Err ''duplicate claim ID in citation mapping'')
           else if cl_support_status c \<noteq> SUPPORT_STATUS_SUPPORTED \<and> \<not> draft
           then cite_claims h tc lc lookup maximum draft items selected (cl_claim_id c # seen) cs cache out
           else if cl_evidence_ids c = [] \<or> int (length (cl_evidence_ids c)) > maximum - int (length out)
           then Inl (Err ''supported claim has no evidence or exceeds citation limit'')
           else bind_result (cite_evidence h tc lookup maximum items selected (cl_claim_id c) (cl_evidence_ids c) cache out)
             (\<lambda>(out', cache'). cite_claims h tc lc lookup maximum draft items selected (cl_claim_id c # seen) cs cache' out')))"

fun check_items :: "evidence_bundle \<Rightarrow> string list \<Rightarrow> evidence list \<Rightarrow> bool" where
  "check_items bundle seen [] = True"
| "check_items bundle seen (e # es) =
     (ev_id e \<notin> set seen \<and> m_corpus_id (ev_meta e) = m_corpus_id (eb_meta bundle) \<and>
      ev_snapshot_ref e = eb_snapshot bundle \<and> check_items bundle (ev_id e # seen) es)"

fun check_blocks :: "(string \<Rightarrow> string) \<Rightarrow> GraphContext option \<Rightarrow> evidence list \<Rightarrow> string list \<Rightarrow> context_block list \<Rightarrow> bool" where
  "check_blocks quote plan items (i # is) (b # bs) =
     ((case row_of ev_id i items of None \<Rightarrow> False
       | Some e \<Rightarrow> cb_evidence_id b = i \<and> cb_rendered_text b = renderContextEvidence quote e plan) \<and>
      check_blocks quote plan items is bs)"
| "check_blocks quote plan items _ _ = True"

definition buildCitations ::
    "host \<Rightarrow> evidence_bundle codec \<Rightarrow> evidence codec \<Rightarrow> context_bundle codec \<Rightarrow> citation codec \<Rightarrow> claim codec \<Rightarrow>
     (string \<Rightarrow> string) \<Rightarrow> claim list \<Rightarrow> context_bundle option \<Rightarrow> evidence_bundle option \<Rightarrow> SourceURLLookup option \<Rightarrow> int \<Rightarrow>
     bool \<Rightarrow> GraphContext option list \<Rightarrow> citation list result" where
  "buildCitations h bc ec cc tc lc quote claims context bundle lookup maximumCitations draft graphPlans =
     (case (context, bundle, lookup) of
        (Some cx, Some b, Some look) \<Rightarrow>
          (if maximumCitations \<le> 0
           then Inl (Err ''context, evidence, trusted URL lookup, and citation limit are required'')
           else if length claims > 256 then Inl (Err ''claim count exceeds citation input limit'')
           else case validate_wire h cc cx of
             Inl e \<Rightarrow> Inl (Wrap ''invalid citation context'' e)
           | Inr _ \<Rightarrow> (case validate_wire h bc b of
             Inl e \<Rightarrow> Inl (Wrap ''invalid citation evidence'' e)
           | Inr _ \<Rightarrow>
               bind_result (selectGraphContext h bc ec b graphPlans) (\<lambda>plan.
               if cx_snapshot cx \<noteq> eb_snapshot b \<or> m_corpus_id (cx_meta cx) \<noteq> m_corpus_id (eb_meta b) \<or>
                  m_schema_version (cx_meta cx) \<noteq> m_schema_version (eb_meta b) \<or>
                  eb_completion_status b \<noteq> COMPLETION_STATUS_SUCCEEDED
               then Inl (Err ''citation context and evidence have different snapshot or incomplete transport'')
               else if \<not> distinct (cx_ordered_evidence_ids cx) then Inl (Err ''citation context repeats evidence'')
               else if \<not> check_items b [] (eb_items b) then Inl (Err ''citation evidence identity or snapshot is invalid'')
               else if length (cx_rendered_blocks cx) \<noteq> length (cx_ordered_evidence_ids cx)
               then Inl (Err ''citation context block count differs from selected evidence'')
               else if \<not> check_blocks quote plan (eb_items b) (cx_ordered_evidence_ids cx) (cx_rendered_blocks cx)
               then Inl (Err ''citation context was not rendered from selected evidence'')
               else cite_claims h tc lc look maximumCitations draft (eb_items b) (cx_ordered_evidence_ids cx) [] claims [] [])))
      | _ \<Rightarrow> Inl (Err ''context, evidence, trusted URL lookup, and citation limit are required''))"

definition BuildCitations where
  "BuildCitations h bc ec cc tc lc quote claims context bundle lookup maximumCitations graphPlans =
     buildCitations h bc ec cc tc lc quote claims context bundle lookup maximumCitations False graphPlans"

definition BuildDraftCitations where
  "BuildDraftCitations h bc ec cc tc lc quote claims context bundle lookup maximumCitations graphPlans =
     (if \<not> list_all (\<lambda>c. cl_support_status c = SUPPORT_STATUS_UNREVIEWED) claims
      then Inl (Err ''draft citation requires unreviewed claims'')
      else buildCitations h bc ec cc tc lc quote claims context bundle lookup maximumCitations True graphPlans)"

section \<open>What verification accepts\<close>

text \<open>A locator of the citation that lies in the evidence and is bound to the cited source.\<close>

definition locator_ok :: "evidence \<Rightarrow> citationSourceKey \<Rightarrow> citation \<Rightarrow> bool" where
  "locator_ok item source c \<longleftrightarrow>
     (ci_source_span c \<noteq> None \<or> ci_page_locator c \<noteq> None) \<and>
     (case ci_source_span c of None \<Rightarrow> True
      | Some s \<Rightarrow> sp_start_byte s < sp_end_byte s \<and> length (ev_source_refs item) = 1 \<and>
          (\<exists>e \<in> set (ev_source_spans item). sp_artifact_id s = sp_artifact_id e \<and>
             sp_start_byte e \<le> sp_start_byte s \<and> sp_end_byte s \<le> sp_end_byte e)) \<and>
     (case ci_page_locator c of None \<Rightarrow> True
      | Some l \<Rightarrow> pl_source_blob_id l = fst source \<and> l \<in> set (ev_locators item))"

lemma check_locator_iff: "check_locator item source c = Inr () \<longleftrightarrow> locator_ok item source c"
  by (cases "ci_source_span c"; cases "ci_page_locator c")
    (auto simp: check_locator_def locator_ok_def Let_def list_ex_iff not_le)

definition observed_urls :: "SourceURLLookup \<Rightarrow> citationSourceKey \<Rightarrow> string list \<Rightarrow> bool" where
  "observed_urls lookup key urls \<longleftrightarrow> lookup (fst key) (snd key) = Inr urls \<and> length urls \<le> 32"

text \<open>A citation that is sound for the evidence and the claims of the answer.\<close>

definition citation_ok :: "host \<Rightarrow> SourceURLLookup \<Rightarrow> evidence list \<Rightarrow> claim list \<Rightarrow> citation \<Rightarrow> citationSourceKey \<Rightarrow> bool" where
  "citation_ok h lookup items claims c source \<longleftrightarrow>
     (\<exists>item. row_of ev_id (ci_evidence_id c) items = Some item \<and> safe_url h (ci_source_url c) \<and>
        cited_source item c = Inr source \<and> locator_ok item source c \<and>
        (\<exists>urls. observed_urls lookup source urls \<and> ci_source_url c \<in> set urls)) \<and>
     (\<forall>i \<in> set (ci_claim_ids c). \<exists>cl. row_of cl_claim_id i claims = Some cl \<and> ci_evidence_id c \<in> set (cl_evidence_ids cl))"

definition cache_ok :: "SourceURLLookup \<Rightarrow> (citationSourceKey \<times> string list) list \<Rightarrow> bool" where
  "cache_ok lookup cache \<longleftrightarrow> (\<forall>k urls. map_of cache k = Some urls \<longrightarrow> observed_urls lookup k urls)"

lemma cached_urls_iff:
  assumes "cache_ok lookup cache"
  shows "cached_urls lookup key cache = Inr (urls, cache') \<longleftrightarrow>
    observed_urls lookup key urls \<and> cache' = (if map_of cache key = None then (key, urls) # cache else cache)"
  using assms
  by (cases key; cases "map_of cache key")
    (auto simp: cached_urls_def cache_ok_def observed_urls_def bind_result_Inr_iff not_less)

lemma cache_ok_step:
  "cache_ok lookup cache \<Longrightarrow> observed_urls lookup key urls \<Longrightarrow>
   cache_ok lookup (if map_of cache key = None then (key, urls) # cache else cache)"
  by (auto simp: cache_ok_def)

lemma link_claims_iff:
  "link_claims claims c source is cited = Inr cited' \<longleftrightarrow>
     (\<forall>i \<in> set is. \<exists>cl. row_of cl_claim_id i claims = Some cl \<and> ci_evidence_id c \<in> set (cl_evidence_ids cl)) \<and>
     cited' = rev (map (\<lambda>i. (i, ci_evidence_id c, source)) is) @ cited"
  by (induction "is" arbitrary: cited) (auto split: option.splits)

definition coverage :: "citation \<Rightarrow> citationSourceKey \<Rightarrow> citationCoverageKey set" where
  "coverage c source = (\<lambda>i. (i, ci_evidence_id c, source)) ` set (ci_claim_ids c)"

definition source_of :: "evidence list \<Rightarrow> citation \<Rightarrow> citationSourceKey" where
  "source_of items c =
     (case row_of ev_id (ci_evidence_id c) items of None \<Rightarrow> ('''', '''')
      | Some item \<Rightarrow> (case cited_source item c of Inl _ \<Rightarrow> ('''', '''') | Inr s \<Rightarrow> s))"

lemma citation_ok_source: "citation_ok h lookup items claims c source \<Longrightarrow> source = source_of items c"
  by (auto simp: citation_ok_def source_of_def)

lemma check_citations_step:
  assumes "cache_ok look cache"
  shows "check_citations h (Some look) items claims seen cache (c # cs) cited = Inr r \<longleftrightarrow>
    ci_citation_id c \<notin> set seen \<and> citation_ok h look items claims c (source_of items c) \<and>
    (\<exists>urls. observed_urls look (source_of items c) urls \<and>
      check_citations h (Some look) items claims (ci_citation_id c # seen)
        (if map_of cache (source_of items c) = None then (source_of items c, urls) # cache else cache) cs
        (rev (map (\<lambda>i. (i, ci_evidence_id c, source_of items c)) (ci_claim_ids c)) @ cited) = Inr r)"
proof (cases "row_of ev_id (ci_evidence_id c) items")
  case None
  then show ?thesis by (auto simp: citation_ok_def)
next
  case (Some item)
  show ?thesis
  proof (cases "cited_source item c")
    case (Inl e)
    with Some show ?thesis by (auto simp: citation_ok_def split: if_splits)
  next
    case (Inr s)
    with Some have s: "source_of items c = s" by (simp add: source_of_def)
    have u: "citation_ok h look items claims c s \<and> observed_urls look s urls \<longleftrightarrow>
        safe_url h (ci_source_url c) \<and> locator_ok item s c \<and> observed_urls look s urls \<and> ci_source_url c \<in> set urls \<and>
        (\<forall>i \<in> set (ci_claim_ids c). \<exists>cl. row_of cl_claim_id i claims = Some cl \<and> ci_evidence_id c \<in> set (cl_evidence_ids cl))"
      for urls using Some Inr by (auto simp: citation_ok_def observed_urls_def)
    have "check_citations h (Some look) items claims seen cache (c # cs) cited = Inr r \<longleftrightarrow>
        ci_citation_id c \<notin> set seen \<and> (\<exists>urls. (safe_url h (ci_source_url c) \<and> locator_ok item s c \<and>
          observed_urls look s urls \<and> ci_source_url c \<in> set urls \<and>
          (\<forall>i \<in> set (ci_claim_ids c). \<exists>cl. row_of cl_claim_id i claims = Some cl \<and> ci_evidence_id c \<in> set (cl_evidence_ids cl))) \<and>
          check_citations h (Some look) items claims (ci_citation_id c # seen)
            (if map_of cache s = None then (s, urls) # cache else cache) cs
            (rev (map (\<lambda>i. (i, ci_evidence_id c, s)) (ci_claim_ids c)) @ cited) = Inr r)"
      using Some Inr
      by (cases "map_of cache s")
        (simp_all add: bind_result_Inr_iff guard_Inr_iff cached_urls_iff [OF assms] check_locator_iff link_claims_iff, blast+)
    then show ?thesis unfolding s u [symmetric] by blast
  qed
qed

lemma ex_conj_const: "(\<And>u. P u \<Longrightarrow> A u \<longleftrightarrow> X) \<Longrightarrow> (\<exists>u. P u \<and> A u) \<longleftrightarrow> (\<exists>u. P u) \<and> X"
  by blast

lemma check_citations_iff:
  assumes "cache_ok look cache"
  shows "(\<exists>r. check_citations h (Some look) items claims seen cache cs cited = Inr r \<and> set r = R) \<longleftrightarrow>
    distinct (map ci_citation_id cs) \<and> ci_citation_id ` set cs \<inter> set seen = {} \<and>
    (\<forall>c \<in> set cs. citation_ok h look items claims c (source_of items c)) \<and>
    R = set cited \<union> (\<Union>c \<in> set cs. coverage c (source_of items c))"
  using assms
proof (induction cs arbitrary: seen cache cited)
  case (Cons c cs)
  let ?s = "source_of items c"
  have "(\<exists>r. check_citations h (Some look) items claims seen cache (c # cs) cited = Inr r \<and> set r = R) \<longleftrightarrow>
      ci_citation_id c \<notin> set seen \<and> citation_ok h look items claims c ?s \<and>
      (\<exists>urls. observed_urls look ?s urls \<and>
        (\<exists>r. check_citations h (Some look) items claims (ci_citation_id c # seen)
          (if map_of cache ?s = None then (?s, urls) # cache else cache) cs
          (rev (map (\<lambda>i. (i, ci_evidence_id c, ?s)) (ci_claim_ids c)) @ cited) = Inr r \<and> set r = R))"
    unfolding check_citations_step [OF Cons.prems] by blast
  also have "\<dots> \<longleftrightarrow> ci_citation_id c \<notin> set seen \<and> citation_ok h look items claims c ?s \<and>
      (\<exists>urls. observed_urls look ?s urls) \<and>
      distinct (map ci_citation_id cs) \<and> ci_citation_id ` set cs \<inter> set (ci_citation_id c # seen) = {} \<and>
      (\<forall>c \<in> set cs. citation_ok h look items claims c (source_of items c)) \<and>
      R = coverage c ?s \<union> set cited \<union> (\<Union>c \<in> set cs. coverage c (source_of items c))"
  proof -
    have "set (rev (map (\<lambda>i. (i, ci_evidence_id c, ?s)) (ci_claim_ids c)) @ cited) = coverage c ?s \<union> set cited"
      by (simp add: coverage_def)
    then have inner: "(\<exists>r. check_citations h (Some look) items claims (ci_citation_id c # seen)
          (if map_of cache ?s = None then (?s, urls) # cache else cache) cs
          (rev (map (\<lambda>i. (i, ci_evidence_id c, ?s)) (ci_claim_ids c)) @ cited) = Inr r \<and> set r = R) \<longleftrightarrow>
        distinct (map ci_citation_id cs) \<and> ci_citation_id ` set cs \<inter> set (ci_citation_id c # seen) = {} \<and>
        (\<forall>c \<in> set cs. citation_ok h look items claims c (source_of items c)) \<and>
        R = coverage c ?s \<union> set cited \<union> (\<Union>c \<in> set cs. coverage c (source_of items c))"
      if "observed_urls look ?s urls" for urls
      using Cons.IH [OF cache_ok_step [OF Cons.prems that]] by simp
    show ?thesis by (intro conj_cong refl ex_conj_const inner)
  qed
  finally show ?case by (auto simp: citation_ok_def)
qed auto

lemma check_evidence_ids_iff:
  "check_evidence_ids seen es = Inr () \<longleftrightarrow>
     distinct (map ev_id es) \<and> ev_id ` set es \<inter> set seen = {} \<and> list_all (\<lambda>e. distinct (evidence_sources e)) es"
  by (induction es arbitrary: seen) auto

lemma check_claim_ids_iff:
  "check_claim_ids items seen cs = Inr () \<longleftrightarrow>
     distinct (map cl_claim_id cs) \<and> cl_claim_id ` set cs \<inter> set seen = {} \<and>
     list_all (\<lambda>c. set (cl_evidence_ids c) \<subseteq> ev_id ` set items) cs"
proof -
  have known: "list_ex (\<lambda>i. row_of ev_id i items = None) is \<longleftrightarrow> \<not> set is \<subseteq> ev_id ` set items" for "is"
    by (force simp: list_ex_iff row_of_None_iff)
  show ?thesis by (induction cs arbitrary: seen) (auto simp: known)
qed

definition sources_of_id :: "evidence list \<Rightarrow> string \<Rightarrow> citationSourceKey list" where
  "sources_of_id items i = (case row_of ev_id i items of None \<Rightarrow> [] | Some e \<Rightarrow> evidence_sources e)"

text \<open>Every source of every evidence of a supported claim is covered.\<close>

definition claim_covered :: "evidence list \<Rightarrow> citationCoverageKey set \<Rightarrow> claim \<Rightarrow> bool" where
  "claim_covered items cited c \<longleftrightarrow>
     (cl_support_status c = SUPPORT_STATUS_SUPPORTED \<longrightarrow>
        cl_evidence_ids c \<noteq> [] \<and>
        (\<forall>i \<in> set (cl_evidence_ids c). \<forall>s \<in> set (sources_of_id items i). (cl_claim_id c, i, s) \<in> cited))"

lemma check_support_iff: "check_support items cited cs = Inr () \<longleftrightarrow> list_all (claim_covered items (set cited)) cs"
proof (induction cs)
  case (Cons c cs)
  then show ?case by (auto simp: claim_covered_def sources_of_id_def list_ex_iff)
qed simp

definition citations_coverage :: "evidence list \<Rightarrow> citation list \<Rightarrow> citationCoverageKey set" where
  "citations_coverage items cs = (\<Union>c \<in> set cs. coverage c (source_of items c))"

lemma verify_iff:
  "VerifyCitationEvidence h ac bc a b (Some lookup) = Inr () \<longleftrightarrow>
     validate_wire h ac a = Inr () \<and> validate_wire h bc b = Inr () \<and> an_snapshot a = eb_snapshot b \<and>
     distinct (map ev_id (eb_items b)) \<and> list_all (\<lambda>e. distinct (evidence_sources e)) (eb_items b) \<and>
     distinct (map cl_claim_id (an_claims a)) \<and>
     list_all (\<lambda>c. set (cl_evidence_ids c) \<subseteq> ev_id ` set (eb_items b)) (an_claims a) \<and>
     distinct (map ci_citation_id (an_citations a)) \<and>
     list_all (\<lambda>c. citation_ok h lookup (eb_items b) (an_claims a) c (source_of (eb_items b) c)) (an_citations a) \<and>
     list_all (claim_covered (eb_items b) (citations_coverage (eb_items b) (an_citations a))) (an_claims a)"
proof -
  have "cache_ok lookup []" by (simp add: cache_ok_def)
  note c = check_citations_iff [OF this, of h "eb_items b" "an_claims a" "[]" "an_citations a" "[]"]
  have "(\<exists>r. check_citations h (Some lookup) (eb_items b) (an_claims a) [] [] (an_citations a) [] = Inr r \<and>
      check_support (eb_items b) r (an_claims a) = Inr ()) \<longleftrightarrow>
    (\<exists>R. (\<exists>r. check_citations h (Some lookup) (eb_items b) (an_claims a) [] [] (an_citations a) [] = Inr r \<and> set r = R) \<and>
      list_all (claim_covered (eb_items b) R) (an_claims a))"
    by (auto simp: check_support_iff)
  also have "\<dots> \<longleftrightarrow> distinct (map ci_citation_id (an_citations a)) \<and>
     list_all (\<lambda>c. citation_ok h lookup (eb_items b) (an_claims a) c (source_of (eb_items b) c)) (an_citations a) \<and>
     list_all (claim_covered (eb_items b) (citations_coverage (eb_items b) (an_citations a))) (an_claims a)"
    unfolding c by (auto simp: citations_coverage_def list_all_iff)
  finally show ?thesis
    by (simp add: VerifyCitationEvidence_def bind_result_Inr_iff guard_Inr_iff check_evidence_ids_iff check_claim_ids_iff)
qed

text \<open>
  Citation verification is exact: an answer passes exactly when answer and evidence are
  valid and of one snapshot, identifiers are distinct, every citation has a safe URL that the
  trusted metadata records for the cited source version, a locator inside the cited evidence and
  bound to that source, and only claims that use that evidence; and every source version of every
  evidence of every supported claim is cited for that claim. The cache of looked-up URLs changes
  nothing.
\<close>

theorem VerifyCitationEvidence_iff:
  "VerifyCitationEvidence h ac bc a b (Some lookup) = Inr () \<longleftrightarrow>
     validate_wire h ac a = Inr () \<and> validate_wire h bc b = Inr () \<and> an_snapshot a = eb_snapshot b \<and>
     distinct (map ev_id (eb_items b)) \<and> list_all (\<lambda>e. distinct (evidence_sources e)) (eb_items b) \<and>
     distinct (map cl_claim_id (an_claims a)) \<and>
     list_all (\<lambda>c. set (cl_evidence_ids c) \<subseteq> ev_id ` set (eb_items b)) (an_claims a) \<and>
     distinct (map ci_citation_id (an_citations a)) \<and>
     list_all (\<lambda>c. citation_ok h lookup (eb_items b) (an_claims a) c (source_of (eb_items b) c)) (an_citations a) \<and>
     list_all (claim_covered (eb_items b) (citations_coverage (eb_items b) (an_citations a))) (an_claims a)"
  by (rule verify_iff)

section \<open>Built citations verify\<close>

definition tcache_ok :: "host \<Rightarrow> SourceURLLookup \<Rightarrow> (citationSourceKey \<times> string) list \<Rightarrow> bool" where
  "tcache_ok h lookup cache \<longleftrightarrow>
     (\<forall>k u. map_of cache k = Some u \<longrightarrow> (\<exists>urls. observed_urls lookup k urls \<and> u = first_safe_url h urls))"

definition source_key :: "source_version_ref \<Rightarrow> citationSourceKey" where
  "source_key s = (sv_source_blob_id s, sv_provision_version_id s)"

lemma trusted_url_ok:
  assumes "trusted_url h lookup key cache = Inr (u, cache')" and "tcache_ok h lookup cache"
  shows "tcache_ok h lookup cache' \<and> (\<exists>urls. observed_urls lookup key urls \<and> u = first_safe_url h urls)"
  using assms
  by (cases key; cases "map_of cache key")
    (auto simp: trusted_url_def tcache_ok_def observed_urls_def split: sum.splits if_splits)

lemma find_SomeD: "find P xs = Some x \<Longrightarrow> x \<in> set xs \<and> P x"
  by (auto simp: find_Some_iff)

lemma first_safe_url_ok: "first_safe_url h urls \<noteq> '''' \<Longrightarrow> first_safe_url h urls \<in> set urls \<and> safe_url h (first_safe_url h urls)"
  by (cases "find (safe_url h) urls") (auto simp: first_safe_url_def dest: find_SomeD)

text \<open>A citation that the builder makes for one source of an evidence.\<close>

definition built_for ::
    "host \<Rightarrow> citation codec \<Rightarrow> SourceURLLookup \<Rightarrow> string \<Rightarrow> evidence \<Rightarrow> source_version_ref \<Rightarrow> citation \<Rightarrow> bool" where
  "built_for h tc lookup claimID item s c \<longleftrightarrow>
     (\<exists>trusted urls. c = evidence_citation h tc claimID item s trusted \<and> observed_urls lookup (source_key s) urls \<and>
        trusted \<in> set urls \<and> safe_url h trusted) \<and>
     (ci_source_span c \<noteq> None \<or> ci_page_locator c \<noteq> None)"

lemma citations_loop_built:
  assumes "citations_loop h tc lookup claimID item seen sources cache out = Inr (out', cache')"
    and "tcache_ok h lookup cache"
  shows "tcache_ok h lookup cache' \<and>
    (\<exists>new. out' = out @ new \<and> list_all2 (built_for h tc lookup claimID item) sources new)"
  using assms
proof (induction sources arbitrary: seen cache out)
  case (Cons s sources)
  let ?key = "(sv_source_blob_id s, sv_provision_version_id s)"
  from Cons.prems(1) obtain trusted cache1 where
    loc: "\<not> (ci_source_span (evidence_citation h tc claimID item s '''') = None \<and>
              ci_page_locator (evidence_citation h tc claimID item s '''') = None)"
    and t: "trusted_url h lookup ?key cache = Inr (trusted, cache1)" "trusted \<noteq> ''''"
    and rest: "citations_loop h tc lookup claimID item (?key # seen) sources cache1
      (out @ [evidence_citation h tc claimID item s trusted]) = Inr (out', cache')"
    by (auto simp: Let_def bind_result_Inr_iff wrapped_Inr_iff split: if_splits)
  from trusted_url_ok [OF t(1) Cons.prems(2)] obtain urls where
    c1: "tcache_ok h lookup cache1" and u: "observed_urls lookup ?key urls" "trusted = first_safe_url h urls" by blast
  have "built_for h tc lookup claimID item s (evidence_citation h tc claimID item s trusted)"
    using loc u t(2) first_safe_url_ok [of h urls]
    by (auto simp: built_for_def source_key_def evidence_citation_def Let_def)
  with Cons.IH [OF rest c1] show ?case by auto
qed auto

lemma built_fields:
  assumes "built_for h tc lookup claimID item s c"
  shows "ci_evidence_id c = ev_id item \<and> ci_claim_ids c = [claimID] \<and> safe_url h (ci_source_url c) \<and>
    ci_provision_version_id c = sv_provision_version_id s \<and>
    (\<exists>urls. observed_urls lookup (source_key s) urls \<and> ci_source_url c \<in> set urls) \<and>
    (ci_source_span c \<noteq> None \<or> ci_page_locator c \<noteq> None)"
  using assms by (auto simp: built_for_def evidence_citation_def Let_def)

lemma built_locator:
  assumes "built_for h tc lookup claimID item s c" and "ci_page_locator c = Some l"
  shows "l \<in> set (ev_locators item) \<and> pl_source_blob_id l = sv_source_blob_id s"
proof -
  have "find (\<lambda>l. pl_source_blob_id l = sv_source_blob_id s) (ev_locators item) = Some l"
    using assms by (auto simp: built_for_def evidence_citation_def Let_def)
  from find_SomeD [OF this] show ?thesis .
qed

lemma built_span:
  assumes "built_for h tc lookup claimID item s c" and "ci_source_span c = Some sp"
  shows "length (ev_source_refs item) = 1 \<and> sp \<in> set (ev_source_spans item) \<and> sp_start_byte sp < sp_end_byte sp"
proof -
  have "length (ev_source_refs item) = 1"
    "find (\<lambda>s. sp_start_byte s < sp_end_byte s) (ev_source_spans item) = Some sp"
    using assms by (auto simp: built_for_def evidence_citation_def Let_def split: if_splits)
  with find_SomeD [OF this(2)] show ?thesis by blast
qed

lemma built_cited_source:
  assumes "built_for h tc lookup claimID item s c" and "s \<in> set (ev_source_refs item)"
  shows "cited_source item c = Inr (source_key s)"
proof (cases "length (ev_source_refs item) = 1")
  case True
  with assms(2) have "evidence_sources item = [source_key s]"
    by (cases "ev_source_refs item") (auto simp: evidence_sources_def source_key_def)
  with built_fields [OF assms(1)] show ?thesis by (simp add: cited_source_def source_key_def)
next
  case False
  then have many: "\<nexists>k. evidence_sources item = [k]"
    by (metis evidence_sources_def length_map length_Cons list.size(3) One_nat_def)
  from False built_span [OF assms(1)] have span: "ci_source_span c = None" by (cases "ci_source_span c") auto
  with built_fields [OF assms(1)] obtain l where l: "ci_page_locator c = Some l" by auto
  have "source_key s \<in> set (evidence_sources item)"
    using assms(2) by (auto simp: evidence_sources_def source_key_def)
  with many span l built_locator [OF assms(1) l] built_fields [OF assms(1)] show ?thesis
    by (auto simp: cited_source_def source_key_def split: list.splits)
qed

lemma built_locator_ok: "built_for h tc lookup claimID item s c \<Longrightarrow> locator_ok item (source_key s) c"
  using built_fields [of h tc lookup claimID item s c] built_span [of h tc lookup claimID item s c]
    built_locator [of h tc lookup claimID item s c]
  by (auto simp: locator_ok_def source_key_def split: option.splits)

lemma built_citation_ok:
  assumes "built_for h tc lookup claimID item s c" and "row_of ev_id i items = Some item"
    and "s \<in> set (ev_source_refs item)" and "row_of cl_claim_id claimID claims = Some cl" and "i \<in> set (cl_evidence_ids cl)"
  shows "citation_ok h lookup items claims c (source_of items c) \<and> source_of items c = source_key s"
proof -
  note f = built_fields [OF assms(1)] and cs = built_cited_source [OF assms(1,3)]
  have i: "ev_id item = i" using assms(2) by (rule row_of_key)
  have "source_of items c = source_key s" using f cs assms(2) by (simp add: source_of_def i)
  with f cs assms(2,4,5) built_locator_ok [OF assms(1)] show ?thesis by (auto simp: citation_ok_def i)
qed

text \<open>A citation made for some evidence of a claim, and an evidence whose sources are all cited for it.\<close>

definition made_for ::
    "host \<Rightarrow> citation codec \<Rightarrow> SourceURLLookup \<Rightarrow> evidence list \<Rightarrow> string \<Rightarrow> string list \<Rightarrow> citation \<Rightarrow> bool" where
  "made_for h tc lookup items claimID is c \<longleftrightarrow>
     (\<exists>i \<in> set is. \<exists>item s. row_of ev_id i items = Some item \<and> s \<in> set (ev_source_refs item) \<and>
        built_for h tc lookup claimID item s c)"

definition all_cited ::
    "host \<Rightarrow> citation codec \<Rightarrow> SourceURLLookup \<Rightarrow> evidence list \<Rightarrow> string \<Rightarrow> citation list \<Rightarrow> string \<Rightarrow> bool" where
  "all_cited h tc lookup items claimID cs i \<longleftrightarrow>
     (\<exists>item. row_of ev_id i items = Some item \<and>
        (\<forall>s \<in> set (ev_source_refs item). \<exists>c \<in> set cs. built_for h tc lookup claimID item s c))"

lemma made_for_mono: "made_for h tc lookup items claimID is c \<Longrightarrow> set is \<subseteq> set js \<Longrightarrow> made_for h tc lookup items claimID js c"
  by (auto simp: made_for_def)

lemma all_cited_mono: "all_cited h tc lookup items claimID cs i \<Longrightarrow> set cs \<subseteq> set ds \<Longrightarrow> all_cited h tc lookup items claimID ds i"
  unfolding all_cited_def by (meson subsetD)

lemma all_cited_append:
  "all_cited h tc lookup items claimID cs i \<Longrightarrow> all_cited h tc lookup items claimID (cs @ ds) i"
  "all_cited h tc lookup items claimID ds i \<Longrightarrow> all_cited h tc lookup items claimID (cs @ ds) i"
  by (auto intro: all_cited_mono)

definition built_claim where
  "built_claim h tc lookup items claimID is new \<longleftrightarrow>
     (\<forall>c \<in> set new. made_for h tc lookup items claimID is c) \<and>
     (\<forall>i \<in> set is. all_cited h tc lookup items claimID new i)"

lemma list_all2_left: "list_all2 P xs ys \<Longrightarrow> x \<in> set xs \<Longrightarrow> \<exists>y \<in> set ys. P x y"
  by (induction rule: list_all2_induct) auto

lemma list_all2_right: "list_all2 P xs ys \<Longrightarrow> y \<in> set ys \<Longrightarrow> \<exists>x \<in> set xs. P x y"
  by (induction rule: list_all2_induct) auto

lemma cite_evidence_built:
  assumes "cite_evidence h tc lookup limit items selected claimID is cache out = Inr (out', cache')"
    and "tcache_ok h lookup cache"
  shows "tcache_ok h lookup cache' \<and> set is \<subseteq> set selected \<and>
    (\<exists>new. out' = out @ new \<and> built_claim h tc lookup items claimID is new)"
  using assms
proof (induction "is" arbitrary: cache out)
  case (Cons i "is")
  from Cons.prems(1) obtain item cs cache1 where
    item: "row_of ev_id i items = Some item" "i \<in> set selected"
    and cs: "citationsFromEvidence h tc claimID item lookup cache = Inr (cs, cache1)"
    and rest: "cite_evidence h tc lookup limit items selected claimID is cache1 (out @ cs) = Inr (out', cache')"
    by (auto split: option.splits sum.splits if_splits)
  from cs have "citations_loop h tc lookup claimID item [] (ev_source_refs item) cache [] = Inr (cs, cache1)"
    by (simp add: citationsFromEvidence_def split: if_splits)
  from citations_loop_built [OF this Cons.prems(2)] have c1: "tcache_ok h lookup cache1"
    and b: "list_all2 (built_for h tc lookup claimID item) (ev_source_refs item) cs" by auto
  from Cons.IH [OF rest c1] obtain new where new: "out' = out @ cs @ new" "tcache_ok h lookup cache'"
    "set is \<subseteq> set selected" "built_claim h tc lookup items claimID is new" by auto
  have "built_claim h tc lookup items claimID (i # is) (cs @ new)"
  proof -
    have "all_cited h tc lookup items claimID cs i"
      using item(1) list_all2_left [OF b] by (auto simp: all_cited_def)
    moreover have "made_for h tc lookup items claimID (i # is) c" if "c \<in> set cs" for c
      using item(1) list_all2_right [OF b that] by (auto simp: made_for_def)
    ultimately show ?thesis using new(4) unfolding built_claim_def
      by (auto intro: made_for_mono [of _ _ _ _ _ "is"] all_cited_mono)
  qed
  with new item show ?case by (intro conjI exI [of _ "cs @ new"]) simp_all
qed (auto simp: built_claim_def)

text \<open>The citations made for a list of claims: each belongs to a claim, and cited claims have all sources cited.\<close>

definition built_all where
  "built_all h tc lookup draft items claims out \<longleftrightarrow>
     (\<forall>c \<in> set out. \<exists>cl \<in> set claims. made_for h tc lookup items (cl_claim_id cl) (cl_evidence_ids cl) c) \<and>
     (\<forall>cl \<in> set claims. cl_support_status cl = SUPPORT_STATUS_SUPPORTED \<or> draft \<longrightarrow>
        cl_evidence_ids cl \<noteq> [] \<and> (\<forall>i \<in> set (cl_evidence_ids cl). all_cited h tc lookup items (cl_claim_id cl) out i))"

lemma cite_claims_built:
  assumes "cite_claims h tc lc lookup limit draft items selected seen cs cache out = Inr out'"
    and "tcache_ok h lookup cache"
  shows "distinct (map cl_claim_id cs) \<and> cl_claim_id ` set cs \<inter> set seen = {} \<and>
    (\<exists>new. out' = out @ new \<and> built_all h tc lookup draft items cs new)"
  using assms
proof (induction cs arbitrary: seen cache out)
  case (Cons c cs)
  from Cons.prems(1) have fresh: "cl_claim_id c \<notin> set seen" by (auto split: sum.splits if_splits)
  show ?case
  proof (cases "cl_support_status c \<noteq> SUPPORT_STATUS_SUPPORTED \<and> \<not> draft")
    case True
    with Cons.prems(1) have "cite_claims h tc lc lookup limit draft items selected (cl_claim_id c # seen) cs cache out = Inr out'"
      by (auto split: sum.splits if_splits)
    from Cons.IH [OF this Cons.prems(2)] obtain new where "distinct (map cl_claim_id cs)"
      "cl_claim_id ` set cs \<inter> set (cl_claim_id c # seen) = {}" "out' = out @ new" "built_all h tc lookup draft items cs new" by blast
    moreover from this(4) True have "built_all h tc lookup draft items (c # cs) new"
      unfolding built_all_def list.set by blast
    ultimately show ?thesis using fresh by auto
  next
    case False
    with Cons.prems(1) obtain out1 cache1 where ne: "cl_evidence_ids c \<noteq> []"
      and one: "cite_evidence h tc lookup limit items selected (cl_claim_id c) (cl_evidence_ids c) cache out = Inr (out1, cache1)"
      and rest: "cite_claims h tc lc lookup limit draft items selected (cl_claim_id c # seen) cs cache1 out1 = Inr out'"
      by (auto simp: bind_result_Inr_iff split: sum.splits if_splits)
    from cite_evidence_built [OF one Cons.prems(2)] obtain new1 where c1: "tcache_ok h lookup cache1"
      and n1: "out1 = out @ new1" "built_claim h tc lookup items (cl_claim_id c) (cl_evidence_ids c) new1" by blast
    from Cons.IH [OF rest c1] obtain new where d: "distinct (map cl_claim_id cs)"
      "cl_claim_id ` set cs \<inter> set (cl_claim_id c # seen) = {}" "out' = out1 @ new" "built_all h tc lookup draft items cs new" by blast
    have "built_all h tc lookup draft items (c # cs) (new1 @ new)"
      using n1(2) d(4) ne unfolding built_all_def built_claim_def by (auto intro: all_cited_append)
    with d n1(1) fresh show ?thesis by auto
  qed
qed (simp add: built_all_def)

lemma buildCitations_claims:
  assumes "buildCitations h bc ec cc tc lc quote claims (Some cx) (Some b) (Some lookup) limit draft plans = Inr cs"
  shows "distinct (map cl_claim_id claims) \<and> built_all h tc lookup draft (eb_items b) claims cs"
proof -
  have "cite_claims h tc lc lookup limit draft (eb_items b) (cx_ordered_evidence_ids cx) [] claims [] [] = Inr cs"
    using assms by (auto simp: buildCitations_def bind_result_Inr_iff split: if_splits sum.splits)
  from cite_claims_built [OF this] show ?thesis by (auto simp: tcache_ok_def)
qed

text \<open>
  Claim C16. What the citation builder makes, the verifier accepts: an answer that carries the built
  citations for its claims passes \<open>VerifyCitationEvidence\<close> with the same URL lookup, provided it is
  well formed on the wire and of the snapshot of the evidence, evidence and citation identifiers
  are distinct, no evidence repeats a source version, and every claim names evidence of the bundle.
\<close>

theorem built_citations_verify:
  assumes "buildCitations h bc ec cc tc lc quote (an_claims a) (Some cx) (Some b) (Some lookup) limit draft plans =
      Inr (an_citations a)"
    and "validate_wire h ac a = Inr ()" and "validate_wire h bc b = Inr ()" and "an_snapshot a = eb_snapshot b"
    and "distinct (map ev_id (eb_items b))" and "list_all (\<lambda>e. distinct (evidence_sources e)) (eb_items b)"
    and "list_all (\<lambda>c. set (cl_evidence_ids c) \<subseteq> ev_id ` set (eb_items b)) (an_claims a)"
    and "distinct (map ci_citation_id (an_citations a))"
  shows "VerifyCitationEvidence h ac bc a b (Some lookup) = Inr ()"
proof -
  let ?items = "eb_items b" and ?claims = "an_claims a"
  from buildCitations_claims [OF assms(1)] have d: "distinct (map cl_claim_id ?claims)"
    and built: "built_all h tc lookup draft ?items ?claims (an_citations a)" by blast+
  have ok: "citation_ok h lookup ?items ?claims c (source_of ?items c)" if "c \<in> set (an_citations a)" for c
  proof -
    from built that obtain cl i item s where c: "cl \<in> set ?claims" "i \<in> set (cl_evidence_ids cl)"
      "row_of ev_id i ?items = Some item" "s \<in> set (ev_source_refs item)" "built_for h tc lookup (cl_claim_id cl) item s c"
      unfolding built_all_def made_for_def by blast
    from built_citation_ok [OF c(5,3,4) row_of_distinct [OF d c(1)] c(2)] show ?thesis by blast
  qed
  have "claim_covered ?items (citations_coverage ?items (an_citations a)) cl" if cl: "cl \<in> set ?claims" for cl
    unfolding claim_covered_def
  proof (intro impI conjI ballI)
    assume sup: "cl_support_status cl = SUPPORT_STATUS_SUPPORTED"
    with built cl show "cl_evidence_ids cl \<noteq> []" unfolding built_all_def by blast
    fix i k
    assume i: "i \<in> set (cl_evidence_ids cl)" and k: "k \<in> set (sources_of_id ?items i)"
    from built cl sup i obtain item where item: "row_of ev_id i ?items = Some item"
      and all: "\<forall>s \<in> set (ev_source_refs item). \<exists>c \<in> set (an_citations a). built_for h tc lookup (cl_claim_id cl) item s c"
      unfolding built_all_def all_cited_def by blast
    from k item obtain s where s: "s \<in> set (ev_source_refs item)" "k = source_key s"
      by (auto simp: sources_of_id_def evidence_sources_def source_key_def)
    with all obtain c where c: "c \<in> set (an_citations a)" "built_for h tc lookup (cl_claim_id cl) item s c" by blast
    have "source_of ?items c = source_key s"
      using built_citation_ok [OF c(2) item s(1) row_of_distinct [OF d cl] i] by blast
    with c s built_fields [OF c(2)] row_of_key [OF item] show "(cl_claim_id cl, i, k) \<in> citations_coverage ?items (an_citations a)"
      by (auto simp: citations_coverage_def coverage_def intro!: bexI [of _ c])
  qed
  with ok assms d show ?thesis by (simp add: verify_iff list_all_iff)
qed

section \<open>Example\<close>

definition ax_host :: host where
  "ax_host = \<lparr>sha256hex = (\<lambda>_. ''00''), url_parse = (\<lambda>u. Some \<lparr>u_scheme = ''https'', u_host = ''peraturan.go.id'', u_user = False\<rparr>), to_lower = (\<lambda>r. r)\<rparr>"

definition ax_snapshot :: snapshot_ref where
  "ax_snapshot = \<lparr>sr_corpus_id = ''c'', sr_snapshot_id = ''s'', sr_sequence = 1, sr_manifest_hash = '''', sr_representation_generation = ''g''\<rparr>"

definition ax_meta :: "string \<Rightarrow> record_meta" where
  "ax_meta i = \<lparr>m_schema_version = 1, m_corpus_id = ''c'', m_record_id = i, m_visibility = None\<rparr>"

definition ax_item :: evidence where
  "ax_item = \<lparr>ev_meta = ax_meta ''e'', ev_source_refs = [\<lparr>sv_source_blob_id = ''b'', sv_provision_version_id = ''v'', sv_regulation_id = ''r''\<rparr>],
     ev_text = ''isi'', ev_parent_refs = [], ev_source_spans = [\<lparr>sp_artifact_id = ''t'', sp_start_byte = 0, sp_end_byte = 3\<rparr>],
     ev_locators = [], ev_snapshot_ref = ax_snapshot, ev_graph_paths = [], ev_legal_status = LEGAL_STATUS_ACTIVE, ev_rest = ''''\<rparr>"

definition ax_bundle :: evidence_bundle where
  "ax_bundle = \<lparr>eb_meta = ax_meta ''b'', eb_items = [ax_item], eb_required_path_sets = [], eb_missing_dependencies = [],
     eb_completeness = COMPLETENESS_COMPLETE, eb_snapshot = ax_snapshot, eb_completion_status = COMPLETION_STATUS_SUCCEEDED, eb_rest = ''''\<rparr>"

definition ax_codec :: "'m codec" where
  "ax_codec = \<lparr>c_marshal = (\<lambda>_. []), c_unmarshal = (\<lambda>_. None),
     c_reflect = (\<lambda>_. WireMessage ''regulagraph.v1.Message'' [] [] SemOther), c_size = (\<lambda>_. 1)\<rparr>"

definition ax_context :: context_bundle where
  "ax_context = projr (BuildContext ax_host ax_codec ax_codec ax_codec id (\<lambda>_. None) (Some ax_bundle) ''x'' (Some '''') 500 5
     (Some (\<lambda>s. Inr (length s))) [])"

definition ax_claim :: claim where
  "ax_claim = \<lparr>cl_claim_id = ''k'', cl_start_byte = 0, cl_end_byte = 3, cl_evidence_ids = [''e''],
     cl_support_status = SUPPORT_STATUS_SUPPORTED, cl_rest = ''''\<rparr>"

abbreviation ax_lookup :: SourceURLLookup where
  "ax_lookup \<equiv> \<lambda>_ _. Inr [''https://peraturan.go.id/1'']"

definition ax_citations :: "citation list" where
  "ax_citations = projr (buildCitations ax_host ax_codec ax_codec ax_codec ax_codec ax_codec id [ax_claim] (Some ax_context)
     (Some ax_bundle) (Some ax_lookup) 5 False [])"

definition ax_answer :: answer where
  "ax_answer = \<lparr>an_meta = ax_meta ''a'', an_request_id = ''q'', an_text = ''isi'', an_claims = [ax_claim], an_citations = ax_citations,
     an_paths = [], an_semantic_status = SEMANTIC_STATUS_COMPLETE, an_completion_status = COMPLETION_STATUS_SUCCEEDED,
     an_missing_evidence = [], an_conflicts = [], an_snapshot = ax_snapshot, an_rest = ''''\<rparr>"

lemma ax_built:
  "buildCitations ax_host ax_codec ax_codec ax_codec ax_codec ax_codec id (an_claims ax_answer) (Some ax_context) (Some ax_bundle)
     (Some ax_lookup) 5 False [] = Inr (an_citations ax_answer)"
  by code_simp

lemma ax_context_built:
  "BuildContext ax_host ax_codec ax_codec ax_codec id (\<lambda>_. None) (Some ax_bundle) ''x'' (Some '''') 500 5
     (Some (\<lambda>s. Inr (length s))) [] = Inr ax_context"
  by code_simp

theorem BuildContext_within_budget_witness:
  "cx_ordered_evidence_ids ax_context = [''e''] \<and> cx_token_count ax_context \<le> 500 \<and>
   length (joined_blocks (map cb_rendered_text (cx_rendered_blocks ax_context))) = cx_token_count ax_context"
proof -
  have "cx_ordered_evidence_ids ax_context = [''e'']" "cx_rendered_blocks ax_context \<noteq> []" by code_simp+
  with BuildContext_within_budget [OF ax_context_built] show ?thesis by auto
qed

theorem built_citations_verify_witness:
  "length (an_citations ax_answer) = 1 \<and>
   VerifyCitationEvidence ax_host ax_codec ax_codec ax_answer ax_bundle (Some ax_lookup) = Inr ()"
proof
  show "length (an_citations ax_answer) = 1" by code_simp
  show "VerifyCitationEvidence ax_host ax_codec ax_codec ax_answer ax_bundle (Some ax_lookup) = Inr ()"
    by (rule built_citations_verify [OF ax_built]) code_simp+
qed

end
