(* ===== verification/Grounding.thy ===== *)
theory Grounding
  imports Citations
begin

text \<open>
  The structural grounding of an answer (\<open>answering/validation.go\<close>) and the graph paths an answer may
  carry (\<open>answering/graph_context.go\<close>). The validator reconstructs the omissions and the
  completeness of the context from the evidence; the builder of \<open>Context\<close> is shown to agree with it.
\<close>

section \<open>Text coverage\<close>

text \<open>\<open>unicode.IsSpace\<close>.\<close>

definition IsSpace :: "nat \<Rightarrow> bool" where
  "IsSpace r \<longleftrightarrow> 9 \<le> r \<and> r \<le> 13 \<or> r = 32 \<or> r = 133 \<or> r = 160 \<or> r = 5760 \<or> 8192 \<le> r \<and> r \<le> 8202 \<or>
     r = 8232 \<or> r = 8233 \<or> r = 8239 \<or> r = 8287 \<or> r = 12288"

definition onlyWhitespace :: "string \<Rightarrow> bool" where
  "onlyWhitespace text = list_all IsSpace (runes_of text)"

definition slice :: "string \<Rightarrow> nat \<Rightarrow> nat \<Rightarrow> string" where
  "slice text a b = take (b - a) (drop a text)"

definition AbstainText :: string where
  "AbstainText = ''Bukti yang tersedia belum cukup untuk menjawab pertanyaan ini.''"

definition NeedsClarificationText :: string where
  "NeedsClarificationText = ''Pertanyaan ini memerlukan informasi tambahan sebelum dapat dijawab.''"

fun coverage_loop :: "string \<Rightarrow> nat \<Rightarrow> claim list \<Rightarrow> unit result" where
  "coverage_loop text cursor [] =
     (if \<not> onlyWhitespace (drop cursor text) then Inl (Err ''answer contains unclaimed text'') else Inr ())"
| "coverage_loop text cursor (c # cs) =
     (if cl_start_byte c \<ge> cl_end_byte c \<or> cl_start_byte c < cursor \<or> cl_end_byte c > length text \<or>
         \<not> utf8_valid (slice text (cl_start_byte c) (cl_end_byte c)) \<or>
         onlyWhitespace (slice text (cl_start_byte c) (cl_end_byte c)) \<or>
         \<not> onlyWhitespace (slice text cursor (cl_start_byte c))
      then Inl (Err ''answer has overlapping claims or unclaimed text'')
      else coverage_loop text (cl_end_byte c) cs)"

definition start_less :: "claim \<Rightarrow> claim \<Rightarrow> bool" where
  "start_less a b \<longleftrightarrow> cl_start_byte a < cl_start_byte b"

definition answered :: "semantic_status \<Rightarrow> bool" where
  "answered s \<longleftrightarrow> s = SEMANTIC_STATUS_COMPLETE \<or> s = SEMANTIC_STATUS_PARTIAL \<or> s = SEMANTIC_STATUS_CONFLICT"

definition validateClaimTextCoverage :: "answer \<Rightarrow> unit result" where
  "validateClaimTextCoverage a =
     (if an_semantic_status a = SEMANTIC_STATUS_ABSTAIN then
        (if an_text a \<noteq> AbstainText then Inl (Err ''abstention must use the application text template'') else Inr ())
      else if an_semantic_status a = SEMANTIC_STATUS_NEEDS_CLARIFICATION then
        (if an_text a \<noteq> NeedsClarificationText \<or> an_claims a \<noteq> [] \<or> an_citations a \<noteq> [] \<or> an_conflicts a \<noteq> [] \<or> an_paths a \<noteq> []
         then Inl (Err ''clarification must use the claimless application text template'') else Inr ())
      else if \<not> answered (an_semantic_status a) then Inr ()
      else coverage_loop (an_text a) 0 (sort_by start_less (an_claims a)))"

section \<open>Graph paths of an answer\<close>

definition claimMembership :: "claim list \<Rightarrow> string list list" where
  "claimMembership claims = map cl_evidence_ids claims"

definition answerPaths :: "GraphContext option \<Rightarrow> string list \<Rightarrow> claim list \<Rightarrow> graph_path list" where
  "answerPaths plan selectedIDs claims =
     (case plan of None \<Rightarrow> []
      | Some g \<Rightarrow>
          map (\<lambda>i. the (map_of (gc_paths g) i))
            (filter (\<lambda>i. covered plan i selectedIDs \<and> claimed plan i (claimMembership claims)) (sort (map fst (gc_paths g)))))"

section \<open>Grounding\<close>

fun bundle_identity :: "evidence_bundle \<Rightarrow> string list \<Rightarrow> evidence list \<Rightarrow> bool" where
  "bundle_identity b seen [] = True"
| "bundle_identity b seen (e # es) =
     (ev_id e \<notin> set seen \<and> m_schema_version (ev_meta e) = m_schema_version (eb_meta b) \<and>
      m_corpus_id (ev_meta e) = m_corpus_id (eb_meta b) \<and> ev_snapshot_ref e = eb_snapshot b \<and>
      bundle_identity b (ev_id e # seen) es)"

text \<open>Go indexes the blocks with the position of the identifier; a missing block would panic.\<close>

fun check_rendered ::
    "(string \<Rightarrow> string) \<Rightarrow> GraphContext option \<Rightarrow> evidence list \<Rightarrow> string list \<Rightarrow> string list \<Rightarrow> context_block list \<Rightarrow> unit result" where
  "check_rendered quote plan items selected [] blocks = Inr ()"
| "check_rendered quote plan items selected (i # is) blocks =
     (if i \<in> set selected then Inl (Err ''rendered context contains duplicate evidence'')
      else case (row_of ev_id i items, blocks) of
        (None, _) \<Rightarrow> Inl (Err ''rendered context text differs from trusted evidence'')
      | (_, []) \<Rightarrow> Inl (Err ''panic: index out of range'')
      | (Some e, b # bs) \<Rightarrow>
          (if cb_rendered_text b \<noteq> renderContextEvidence quote e plan
           then Inl (Err ''rendered context text differs from trusted evidence'')
           else check_rendered quote plan items (i # selected) is bs))"

definition expected_omission_list :: "GraphContext option \<Rightarrow> evidence_bundle \<Rightarrow> string list \<Rightarrow> string list" where
  "expected_omission_list plan b selected =
     remdups (concat (map (\<lambda>e. if ev_id e \<notin> set selected then [ev_id e] else ev_parent_refs e) (eb_items b)) @
       filter (\<lambda>i. \<not> covered plan i selected) (concat (eb_required_path_sets b)) @ eb_missing_dependencies b)"

fun check_observed :: "string list \<Rightarrow> string list \<Rightarrow> string list \<Rightarrow> string list result" where
  "check_observed expected observed [] = Inr observed"
| "check_observed expected observed (i # is) =
     (if i \<notin> set expected \<or> i \<in> set observed then Inl (Err ''context contains unexpected or duplicate omission'')
      else check_observed expected (i # observed) is)"

definition check_context ::
    "(string \<Rightarrow> string) \<Rightarrow> GraphContext option \<Rightarrow> context_bundle \<Rightarrow> evidence_bundle \<Rightarrow> unit result" where
  "check_context quote plan cx b =
     (if \<not> bundle_identity b [] (eb_items b) then Inl (Err ''evidence bundle contains missing or duplicate identity'')
      else bind_result (check_rendered quote plan (eb_items b) [] (cx_ordered_evidence_ids cx) (cx_rendered_blocks cx)) (\<lambda>_.
        let selected = cx_ordered_evidence_ids cx; expected = expected_omission_list plan b selected in
        bind_result (check_observed expected [] (cx_omitted_required_refs cx)) (\<lambda>observed.
        if length observed \<noteq> length expected then Inl (Err ''context hides required omitted evidence'')
        else if cx_completeness cx \<noteq> context_completeness b (selected = []) (expected = [])
        then Inl (Err ''context completeness contradicts selected evidence'')
        else Inr ())))"

fun check_paths :: "GraphContext option \<Rightarrow> string list \<Rightarrow> string list list \<Rightarrow> string list \<Rightarrow> graph_path list \<Rightarrow> bool" where
  "check_paths plan selected claims seen [] = True"
| "check_paths plan selected claims seen (p # ps) =
     (gp_path_id p \<notin> set seen \<and> covered plan (gp_path_id p) selected \<and> claimed plan (gp_path_id p) claims \<and>
      (case plan of None \<Rightarrow> False | Some g \<Rightarrow> map_of (gc_paths g) (gp_path_id p) = Some p) \<and>
      check_paths plan selected claims (gp_path_id p # seen) ps)"

fun check_claims :: "string list \<Rightarrow> claim list \<Rightarrow> unit result" where
  "check_claims selected [] = Inr ()"
| "check_claims selected (c # cs) =
     (if cl_support_status c = SUPPORT_STATUS_SUPPORTED \<and> cl_evidence_ids c = [] then Inl (Err ''supported claim has no evidence'')
      else if cl_support_status c = SUPPORT_STATUS_SUPPORTED \<and> cl_start_byte c = cl_end_byte c
      then Inl (Err ''supported claim has no answer text span'')
      else if \<not> list_all (\<lambda>i. i \<in> set selected) (cl_evidence_ids c)
      then Inl (Err ''claim cites evidence absent from rendered context'')
      else check_claims selected cs)"

definition check_answer :: "GraphContext option \<Rightarrow> answer \<Rightarrow> context_bundle \<Rightarrow> evidence_bundle \<Rightarrow> unit result" where
  "check_answer plan a cx b =
     (let selected = cx_ordered_evidence_ids cx in
      if \<not> check_paths plan selected (claimMembership (an_claims a)) [] (an_paths a)
      then Inl (Err ''answer graph path lacks exact rendered and complete source proof'')
      else if \<not> list_all (\<lambda>i. i \<in> set (an_missing_evidence a)) (cx_omitted_required_refs cx)
      then Inl (Err ''answer hides omitted required context'')
      else bind_result (check_claims selected (an_claims a)) (\<lambda>_.
        if \<not> list_all (\<lambda>c. ci_evidence_id c \<in> set selected) (an_citations a)
        then Inl (Err ''citation points outside rendered context'')
        else if \<not> list_all (\<lambda>f. list_all (\<lambda>i. i \<in> set selected) (cf_evidence_ids f) \<and> distinct (cf_evidence_ids f)) (an_conflicts a)
        then Inl (Err ''conflict refers to absent or duplicate evidence'')
        else if list_ex (\<lambda>c. cl_support_status c = SUPPORT_STATUS_SUPPORTED \<and>
                  \<not> list_ex (\<lambda>ci. cl_claim_id c \<in> set (ci_claim_ids ci)) (an_citations a)) (an_claims a)
        then Inl (Err ''supported claim has no verified citation'')
        else if an_semantic_status a = SEMANTIC_STATUS_COMPLETE \<and>
                (cx_completeness cx \<noteq> COMPLETENESS_COMPLETE \<or> eb_completeness b \<noteq> COMPLETENESS_COMPLETE \<or>
                 cx_omitted_required_refs cx \<noteq> [] \<or> an_missing_evidence a \<noteq> [] \<or> an_conflicts a \<noteq> [] \<or> an_claims a = [])
        then Inl (Err ''complete answer lacks complete evidence and claims'')
        else if an_semantic_status a = SEMANTIC_STATUS_COMPLETE \<and>
                \<not> list_all (\<lambda>c. cl_support_status c = SUPPORT_STATUS_SUPPORTED) (an_claims a)
        then Inl (Err ''complete answer contains an unverified claim'')
        else if an_semantic_status a = SEMANTIC_STATUS_ABSTAIN \<and>
                (an_claims a \<noteq> [] \<or> an_citations a \<noteq> [] \<or> an_conflicts a \<noteq> [] \<or> an_paths a \<noteq> [])
        then Inl (Err ''abstention cannot carry factual claims, citations, or conflicts'')
        else if an_semantic_status a = SEMANTIC_STATUS_CONFLICT \<and> an_conflicts a = []
        then Inl (Err ''conflict status requires explicit conflict evidence'')
        else Inr ()))"

definition ValidateGroundedAnswer ::
    "host \<Rightarrow> answer codec \<Rightarrow> evidence_bundle codec \<Rightarrow> evidence codec \<Rightarrow> context_bundle codec \<Rightarrow> (string \<Rightarrow> string) \<Rightarrow>
     answer option \<Rightarrow> context_bundle option \<Rightarrow> evidence_bundle option \<Rightarrow> SourceURLLookup option \<Rightarrow> GraphContext option list \<Rightarrow> unit result" where
  "ValidateGroundedAnswer h ac bc ec cc quote answer context evidence lookup graphPlans =
     (case (answer, context, evidence) of
        (Some a, Some cx, Some b) \<Rightarrow>
          (case validate_wire h cc cx of
             Inl e \<Rightarrow> Inl (Wrap ''invalid rendered context'' e)
           | Inr _ \<Rightarrow> (case VerifyCitationEvidence h ac bc a b lookup of
             Inl e \<Rightarrow> Inl (Wrap ''untrusted answer citation'' e)
           | Inr _ \<Rightarrow>
               bind_result (selectGraphContext h bc ec b graphPlans) (\<lambda>plan.
               bind_result (validateClaimTextCoverage a) (\<lambda>_.
               if an_snapshot a \<noteq> cx_snapshot cx \<or> cx_snapshot cx \<noteq> eb_snapshot b \<or>
                  m_corpus_id (an_meta a) \<noteq> m_corpus_id (cx_meta cx) \<or> m_corpus_id (an_meta a) \<noteq> m_corpus_id (eb_meta b) \<or>
                  m_schema_version (an_meta a) \<noteq> m_schema_version (cx_meta cx) \<or>
                  m_schema_version (an_meta a) \<noteq> m_schema_version (eb_meta b)
               then Inl (Err ''answer, context, and evidence use different corpus, schema, or snapshot'')
               else bind_result (check_context quote plan cx b) (\<lambda>_.
               check_answer plan a cx b)))))
      | _ \<Rightarrow> Inl (Err ''answer, rendered context, and evidence are required''))"

section \<open>The validator accepts what the builder builds\<close>

lemma set_expected_omission_list: "set (expected_omission_list plan b selected) = expected_omissions plan b selected"
  by (auto simp: expected_omission_list_def expected_omissions_def item_omissions_def split: if_splits)

lemma distinct_expected_omission_list [simp]: "distinct (expected_omission_list plan b selected)"
  by (simp add: expected_omission_list_def)

lemma check_observed_iff:
  "check_observed expected observed is = Inr r \<longleftrightarrow>
     distinct is \<and> set is \<subseteq> set expected \<and> set is \<inter> set observed = {} \<and> r = rev is @ observed"
  by (induction "is" arbitrary: observed) auto

lemma check_rendered_iff:
  "check_rendered quote plan items selected is blocks = Inr () \<longleftrightarrow>
     distinct is \<and> set is \<inter> set selected = {} \<and> length is \<le> length blocks \<and>
     list_all2 (\<lambda>i b. \<exists>e. row_of ev_id i items = Some e \<and> cb_rendered_text b = renderContextEvidence quote e plan)
       is (take (length is) blocks)"
proof (induction "is" arbitrary: selected blocks)
  case (Cons i "is")
  show ?case
  proof (cases blocks)
    case Nil
    then show ?thesis by (auto split: option.splits)
  next
    case (Cons b bs)
    with Cons.IH show ?thesis by (auto split: option.splits)
  qed
qed simp

lemma bundle_identity_iff:
  "bundle_identity b seen es \<longleftrightarrow>
     distinct (map ev_id es) \<and> ev_id ` set es \<inter> set seen = {} \<and>
     list_all (\<lambda>e. m_schema_version (ev_meta e) = m_schema_version (eb_meta b) \<and>
       m_corpus_id (ev_meta e) = m_corpus_id (eb_meta b) \<and> ev_snapshot_ref e = eb_snapshot b) es"
  by (induction es arbitrary: seen) auto

lemma distinct_same_set: "distinct xs \<Longrightarrow> distinct ys \<Longrightarrow> set xs \<subseteq> set ys \<Longrightarrow> length xs = length ys \<longleftrightarrow> set xs = set ys"
  by (metis card_subset_eq distinct_card finite_set)

text \<open>The context checks state: distinct selected evidence with its exact rendering, exactly the reconstructed omissions.\<close>

lemma check_context_iff:
  "check_context quote plan cx b = Inr () \<longleftrightarrow>
     bundle_identity b [] (eb_items b) \<and>
     check_rendered quote plan (eb_items b) [] (cx_ordered_evidence_ids cx) (cx_rendered_blocks cx) = Inr () \<and>
     distinct (cx_omitted_required_refs cx) \<and>
     set (cx_omitted_required_refs cx) = expected_omissions plan b (cx_ordered_evidence_ids cx) \<and>
     cx_completeness cx = context_completeness b (cx_ordered_evidence_ids cx = []) (cx_omitted_required_refs cx = [])"
proof -
  let ?e = "expected_omission_list plan b (cx_ordered_evidence_ids cx)" and ?o = "cx_omitted_required_refs cx"
  have "(\<exists>r. check_observed ?e [] ?o = Inr r \<and> length r = length ?e \<and> Q) \<longleftrightarrow>
      distinct ?o \<and> set ?o = set ?e \<and> Q" for Q
    using distinct_same_set [of ?o ?e] by (auto simp: check_observed_iff)
  moreover have "?e = [] \<longleftrightarrow> ?o = []" if "set ?o = set ?e" using that by (metis set_empty)
  ultimately show ?thesis
    by (auto simp: check_context_def Let_def bind_result_Inr_iff guard_Inr_iff set_expected_omission_list)
qed

text \<open>
  Claim C15. The context builder and the answer validator agree on omissions and completeness: the
  context that \<open>BuildContext\<close> returns for a bundle passes every check of the validator that
  concerns context and evidence, when the bundle's identifiers are not empty and its items have
  the bundle's schema version (which the wire rules and the retrieval side guarantee).
\<close>

theorem BuildContext_accepted:
  assumes "BuildContext h bc ec cc quote ctx_err (Some b) recordID (Some th) maximumTokens maximumEvidence
      (Some count_tokens) plans = Inr cx"
    and "selectGraphContext h bc ec b plans = Inr plan"
    and "list_all (\<lambda>e. m_schema_version (ev_meta e) = m_schema_version (eb_meta b)) (eb_items b)"
    and "list_all (\<lambda>i. i \<noteq> '''') (concat (map ev_parent_refs (eb_items b)) @ concat (eb_required_path_sets b) @ eb_missing_dependencies b)"
  shows "check_context quote plan cx b = Inr ()"
proof -
  let ?sel = "filter (\<lambda>e. ev_id e \<in> set (cx_ordered_evidence_ids cx)) (eb_items b)"
  from BuildContext_spec [OF assms(1)] assms(2) have s: "list_all (item_fits b) (eb_items b)" "distinct (map ev_id (eb_items b))"
    "cx_ordered_evidence_ids cx = map ev_id ?sel" "cx_rendered_blocks cx = map (block_of quote plan) ?sel"
    "distinct (cx_omitted_required_refs cx)"
    "set (cx_omitted_required_refs cx) = expected_omissions plan b (cx_ordered_evidence_ids cx) - {''''}"
    "cx_completeness cx = context_completeness b (cx_ordered_evidence_ids cx = []) (cx_omitted_required_refs cx = [])"
    by (simp_all add: Let_def)
  have "'''' \<notin> expected_omissions plan b (cx_ordered_evidence_ids cx)"
    using assms(4) s(1) by (auto simp: expected_omissions_def item_omissions_def list_all_iff item_fits_def split: if_splits)
  moreover have "bundle_identity b [] (eb_items b)"
    using s(1,2) assms(3) by (auto simp: bundle_identity_iff list_all_iff item_fits_def)
  moreover have "check_rendered quote plan (eb_items b) [] (cx_ordered_evidence_ids cx) (cx_rendered_blocks cx) = Inr ()"
  proof -
    have "distinct (map ev_id ?sel)" using s(2) by (auto simp: distinct_map inj_on_def)
    moreover have "list_all2 (\<lambda>i bl. \<exists>e. row_of ev_id i (eb_items b) = Some e \<and> cb_rendered_text bl = renderContextEvidence quote e plan)
        (map ev_id ?sel) (map (block_of quote plan) ?sel)"
      using row_of_distinct [OF s(2)] by (auto simp: list_all2_map1 list_all2_map2 block_of_def intro!: list.rel_refl_strong)
    ultimately show ?thesis
      by (simp add: check_rendered_iff s(3,4) [symmetric] list_all2_lengthD del: set_filter)
  qed
  ultimately show ?thesis using s(5-7) by (simp add: check_context_iff)
qed

section \<open>Every byte of an answered text\<close>

definition covers :: "nat \<Rightarrow> claim \<Rightarrow> bool" where
  "covers p c \<longleftrightarrow> cl_start_byte c \<le> p \<and> p < cl_end_byte c"

text \<open>A position in a stretch of whitespace that no claim covers.\<close>

definition in_gap :: "string \<Rightarrow> nat \<Rightarrow> claim list \<Rightarrow> nat \<Rightarrow> bool" where
  "in_gap text cursor cs p \<longleftrightarrow>
     (\<exists>a b. cursor \<le> a \<and> a \<le> p \<and> p < b \<and> b \<le> length text \<and> onlyWhitespace (slice text a b) \<and>
        (\<forall>q. a \<le> q \<and> q < b \<longrightarrow> filter (covers q) cs = []))"

lemma coverage_loop_after:
  "coverage_loop text cursor cs = Inr () \<Longrightarrow> c \<in> set cs \<Longrightarrow> cursor \<le> cl_start_byte c \<and> cl_start_byte c < cl_end_byte c \<and> cl_end_byte c \<le> length text"
proof (induction cs arbitrary: cursor)
  case (Cons d ds)
  from Cons.prems(1) have d: "cl_start_byte d < cl_end_byte d" "cursor \<le> cl_start_byte d" "cl_end_byte d \<le> length text"
    "coverage_loop text (cl_end_byte d) ds = Inr ()" by (auto split: if_splits)
  show ?case using Cons.IH [OF d(4)] Cons.prems(2) d by fastforce
qed simp

lemma coverage_loop_exact:
  assumes "coverage_loop text cursor cs = Inr ()" and "cursor \<le> p" and "p < length text"
  shows "length (filter (covers p) cs) = 1 \<or> in_gap text cursor cs p"
  using assms
proof (induction cs arbitrary: cursor)
  case Nil
  then have "onlyWhitespace (slice text cursor (length text))" by (simp add: slice_def split: if_splits)
  with Nil.prems show ?case unfolding in_gap_def by (intro disjI2 exI [of _ cursor] exI [of _ "length text"]) simp
next
  case (Cons c cs)
  then have c: "cl_start_byte c < cl_end_byte c" "cursor \<le> cl_start_byte c" "cl_end_byte c \<le> length text"
    "onlyWhitespace (slice text cursor (cl_start_byte c))" and rest: "coverage_loop text (cl_end_byte c) cs = Inr ()"
    by (auto split: if_splits)
  have later: "filter (covers q) cs = []" if "q < cl_end_byte c" for q
    using that coverage_loop_after [OF rest] by (fastforce simp: filter_empty_conv covers_def)
  consider "p < cl_start_byte c" | "cl_start_byte c \<le> p" "p < cl_end_byte c" | "cl_end_byte c \<le> p" by linarith
  then show ?case
  proof cases
    case 1
    have "filter (covers q) (c # cs) = []" if "q < cl_start_byte c" for q
      using that later [of q] c(1) by (simp add: covers_def)
    with 1 c Cons.prems show ?thesis unfolding in_gap_def
      by (intro disjI2 exI [of _ cursor] exI [of _ "cl_start_byte c"]) auto
  next
    case 2
    then have "covers p c" by (simp add: covers_def)
    with later [of p] 2 show ?thesis by simp
  next
    case 3
    from Cons.IH [OF rest 3 Cons.prems(3)] show ?thesis
    proof
      assume "in_gap text (cl_end_byte c) cs p"
      then obtain a b where g: "cl_end_byte c \<le> a" "a \<le> p" "p < b" "b \<le> length text" "onlyWhitespace (slice text a b)"
        "\<forall>q. a \<le> q \<and> q < b \<longrightarrow> filter (covers q) cs = []" unfolding in_gap_def by blast
      with c have "cursor \<le> a" "\<forall>q. a \<le> q \<and> q < b \<longrightarrow> filter (covers q) (c # cs) = []"
        by (auto simp: covers_def)
      with g show ?thesis unfolding in_gap_def by blast
    qed (use 3 in \<open>auto simp: covers_def\<close>)
  qed
qed

lemma length_filter_mset: "mset xs = mset ys \<Longrightarrow> length (filter P xs) = length (filter P ys)"
  by (metis mset_filter size_mset)

text \<open>
  Claim C34. In an accepted answer that states something (complete, partial or conflict), every byte
  of the text is either inside the span of exactly one claim, or in a stretch of whitespace that
  no claim covers: there is no unclaimed and no doubly claimed text.
\<close>

theorem text_covered_once:
  assumes "validateClaimTextCoverage a = Inr ()" and "answered (an_semantic_status a)" and "p < length (an_text a)"
  shows "length (filter (covers p) (an_claims a)) = 1 \<or> in_gap (an_text a) 0 (an_claims a) p"
proof -
  let ?s = "sort_by start_less (an_claims a)"
  have "coverage_loop (an_text a) 0 ?s = Inr ()"
    using assms(1,2) by (auto simp: validateClaimTextCoverage_def answered_def split: if_splits)
  from coverage_loop_exact [OF this _ assms(3)]
  have "length (filter (covers p) ?s) = 1 \<or> in_gap (an_text a) 0 ?s p" by simp
  moreover have "length (filter (covers q) ?s) = length (filter (covers q) (an_claims a))" for q
    by (rule length_filter_mset) simp
  moreover from this have "filter (covers q) ?s = [] \<longleftrightarrow> filter (covers q) (an_claims a) = []" for q
    by (metis length_0_conv)
  ultimately show ?thesis by (simp add: in_gap_def)
qed

section \<open>Complete answers\<close>

lemma check_claims_iff:
  "check_claims selected cs = Inr () \<longleftrightarrow>
     list_all (\<lambda>c. set (cl_evidence_ids c) \<subseteq> set selected \<and>
       (cl_support_status c = SUPPORT_STATUS_SUPPORTED \<longrightarrow> cl_evidence_ids c \<noteq> [] \<and> cl_start_byte c \<noteq> cl_end_byte c)) cs"
  by (induction cs) (auto simp: list_all_iff)

text \<open>
  Claim C6. An answer that passes as complete is grounded throughout: it has claims, every claim is
  supported, names evidence of the rendered context only and has every source version of that
  evidence cited with a verified locator and URL; nothing required was omitted from the context,
  so that every evidence of the bundle was selected and the bundle itself was complete.
\<close>

theorem complete_answer_grounded:
  assumes "ValidateGroundedAnswer h ac bc ec cc quote (Some a) (Some cx) (Some b) (Some lookup) plans = Inr ()"
    and "an_semantic_status a = SEMANTIC_STATUS_COMPLETE" and "c \<in> set (an_claims a)"
  shows "cl_support_status c = SUPPORT_STATUS_SUPPORTED \<and> cl_evidence_ids c \<noteq> [] \<and>
    set (cl_evidence_ids c) \<subseteq> set (cx_ordered_evidence_ids cx) \<and>
    (\<forall>i \<in> set (cl_evidence_ids c). \<forall>s \<in> set (sources_of_id (eb_items b) i).
      \<exists>ci \<in> set (an_citations a). cl_claim_id c \<in> set (ci_claim_ids ci) \<and> ci_evidence_id ci = i \<and>
        citation_ok h lookup (eb_items b) (an_claims a) ci s) \<and>
    ev_id ` set (eb_items b) = set (cx_ordered_evidence_ids cx) \<and> eb_completeness b = COMPLETENESS_COMPLETE \<and>
    an_missing_evidence a = [] \<and> eb_missing_dependencies b = []"
proof -
  obtain plan where v: "VerifyCitationEvidence h ac bc a b (Some lookup) = Inr ()"
    and ctx: "check_context quote plan cx b = Inr ()" and ans: "check_answer plan a cx b = Inr ()"
    using assms(1) by (auto simp: ValidateGroundedAnswer_def wrapped_Inr_iff bind_result_Inr_iff guard_Inr_iff)
  from ans assms(2) have sup: "list_all (\<lambda>c. cl_support_status c = SUPPORT_STATUS_SUPPORTED) (an_claims a)"
    and cl: "check_claims (cx_ordered_evidence_ids cx) (an_claims a) = Inr ()"
    and none: "cx_omitted_required_refs cx = []" "eb_completeness b = COMPLETENESS_COMPLETE" "an_missing_evidence a = []"
    by (simp_all add: check_answer_def Let_def bind_result_Inr_iff guard_Inr_iff)
  have s: "cl_support_status c = SUPPORT_STATUS_SUPPORTED" and ids: "cl_evidence_ids c \<noteq> []"
    "set (cl_evidence_ids c) \<subseteq> set (cx_ordered_evidence_ids cx)"
    using sup cl assms(3) by (auto simp: check_claims_iff list_all_iff)
  have om: "expected_omissions plan b (cx_ordered_evidence_ids cx) = {}"
    and r: "check_rendered quote plan (eb_items b) [] (cx_ordered_evidence_ids cx) (cx_rendered_blocks cx) = Inr ()"
    using ctx none by (simp_all add: check_context_iff)
  have "ev_id ` set (eb_items b) \<subseteq> set (cx_ordered_evidence_ids cx)" "eb_missing_dependencies b = []"
    using om by (auto simp: expected_omissions_def item_omissions_def split: if_splits)
  moreover have "set (cx_ordered_evidence_ids cx) \<subseteq> ev_id ` set (eb_items b)"
  proof
    fix i
    assume "i \<in> set (cx_ordered_evidence_ids cx)"
    with r obtain e where "row_of ev_id i (eb_items b) = Some e"
      by (auto simp: check_rendered_iff dest!: list_all2_left)
    from row_of_Some [OF this] show "i \<in> ev_id ` set (eb_items b)" by blast
  qed
  moreover have "\<exists>ci \<in> set (an_citations a). cl_claim_id c \<in> set (ci_claim_ids ci) \<and> ci_evidence_id ci = i \<and>
      citation_ok h lookup (eb_items b) (an_claims a) ci k"
    if "i \<in> set (cl_evidence_ids c)" "k \<in> set (sources_of_id (eb_items b) i)" for i k
  proof -
    have "(cl_claim_id c, i, k) \<in> citations_coverage (eb_items b) (an_citations a)"
      using v assms(3) s that by (auto simp: verify_iff list_all_iff claim_covered_def)
    then obtain ci where ci: "ci \<in> set (an_citations a)" "cl_claim_id c \<in> set (ci_claim_ids ci)" "i = ci_evidence_id ci"
      "k = source_of (eb_items b) ci" by (auto simp: citations_coverage_def coverage_def)
    with v show ?thesis by (auto simp: verify_iff list_all_iff intro!: bexI [of _ ci])
  qed
  ultimately show ?thesis using s ids none by (intro conjI ballI) auto
qed

section \<open>The graph paths of an answer\<close>

text \<open>The paths that \<open>answerPaths\<close> attaches pass the check of the validator, in a plan keyed by path identifier.\<close>

lemma answerPaths_accepted:
  assumes "\<And>g i p. plan = Some g \<Longrightarrow> map_of (gc_paths g) i = Some p \<Longrightarrow> gp_path_id p = i"
    and "\<And>g. plan = Some g \<Longrightarrow> distinct (map fst (gc_paths g))"
  shows "check_paths plan selected (claimMembership claims) [] (answerPaths plan selected claims)"
proof (cases plan)
  case (Some g)
  have "check_paths plan selected (claimMembership claims) seen
      (map (\<lambda>i. the (map_of (gc_paths g) i)) (filter (\<lambda>i. covered plan i selected \<and> claimed plan i (claimMembership claims)) is))"
    if "distinct is" "set is \<inter> set seen = {}" for seen "is"
    using that
  proof (induction "is" arbitrary: seen)
    case (Cons i "is")
    show ?case
    proof (cases "covered plan i selected \<and> claimed plan i (claimMembership claims)")
      case True
      then obtain p where p: "map_of (gc_paths g) i = Some p" by (auto simp: covered_def Some split: option.splits)
      with assms(1) [OF Some p] True Cons.IH [of "i # seen"] Cons.prems show ?thesis by (simp add: Some)
    next
      case False
      with Cons show ?thesis by auto
    qed
  qed simp
  from this [of "sort (map fst (gc_paths g))" "[]"] assms(2) [OF Some] show ?thesis by (simp add: answerPaths_def Some)
qed (simp add: answerPaths_def)

section \<open>Example\<close>

abbreviation ax_grounded :: "unit result" where
  "ax_grounded \<equiv> ValidateGroundedAnswer ax_host ax_codec ax_codec ax_codec ax_codec id (Some ax_answer) (Some ax_context)
     (Some ax_bundle) (Some ax_lookup) []"

theorem complete_answer_grounded_witness:
  "ax_grounded = Inr () \<and> cl_support_status ax_claim = SUPPORT_STATUS_SUPPORTED \<and>
   set (cl_evidence_ids ax_claim) \<subseteq> set (cx_ordered_evidence_ids ax_context)"
proof -
  have v: "ax_grounded = Inr ()" "an_semantic_status ax_answer = SEMANTIC_STATUS_COMPLETE" "ax_claim \<in> set (an_claims ax_answer)"
    by code_simp+
  from complete_answer_grounded [OF v] v show ?thesis by blast
qed

theorem text_covered_once_witness:
  "length (filter (covers 1) (an_claims ax_answer)) = 1 \<or> in_gap (an_text ax_answer) 0 (an_claims ax_answer) 1"
proof (rule text_covered_once)
  show "validateClaimTextCoverage ax_answer = Inr ()" by code_simp
  show "answered (an_semantic_status ax_answer)" by code_simp
  show "1 < length (an_text ax_answer)" by code_simp
qed

theorem BuildContext_accepted_witness:
  "check_context id None ax_context ax_bundle = Inr ()"
  by (rule BuildContext_accepted [OF ax_context_built]) code_simp+

end
