(* ===== verification/Traversal.thy ===== *)
theory Traversal
  imports Context
begin

text \<open>
  The bounded traversal of the pinned graph (\<open>retrieval/graph/traversal.go\<close>) and the admission of what
  the graph reader returns (\<open>retrieval/graph/neighborhood.go\<close>). The reader is an argument that may
  answer differently in every batch; \<open>ctx_err n\<close> is what the \<open>n\<close>-th call of \<open>ctx.Err()\<close> returns, and
  \<open>identity\<close> the JSON encoding that names a path. The maps of the result are lists of rows with
  distinct record identifiers.
\<close>

section \<open>Records\<close>

record support_record =
  su_meta :: record_meta
  su_assertion_id :: string
  su_rest :: string

record canonical_entity =
  ce_meta :: record_meta
  ce_rest :: string

record GraphReadLimits =
  rl_assertions :: int
  rl_supports :: int
  rl_bytes :: nat

record GraphNeighborhood =
  nb_snapshot :: snapshot_ref
  nb_entities :: "canonical_entity list"
  nb_assertions :: "relation_assertion list"
  nb_supports :: "support_record list"
  nb_more_assertions :: bool
  nb_read_bytes :: nat

record TraversalConfig =
  MaximumHops :: int
  MaximumPaths :: int
  Read :: GraphReadLimits

record TraversalResult =
  tv_snapshot :: snapshot_ref
  tv_paths :: "graph_path list"
  tv_assertions :: "relation_assertion list"
  tv_supports :: "support_record list"
  tv_entities :: "canonical_entity list"
  tv_frontier_exhausted :: bool
  tv_stop_reasons :: "string list"
  tv_read_bytes :: nat
  tv_read_batches :: nat

abbreviation ra_id where "ra_id a \<equiv> m_record_id (ra_meta a)"
abbreviation su_id where "su_id s \<equiv> m_record_id (su_meta s)"
abbreviation ce_id where "ce_id e \<equiv> m_record_id (ce_meta e)"

section \<open>Admission of a neighborhood\<close>

text \<open>The closure \<open>check\<close>: validity, corpus and snapshot of a record.\<close>

definition record_admissible :: "host \<Rightarrow> 'm codec \<Rightarrow> snapshot_ref \<Rightarrow> record_meta \<Rightarrow> 'm \<Rightarrow> bool" where
  "record_admissible h c snapshot meta x \<longleftrightarrow>
     validate_wire h c x = Inr () \<and> m_schema_version meta = 1 \<and> m_corpus_id meta = sr_corpus_id snapshot \<and>
     m_visibility meta = Some (sr_sequence snapshot, None)"

text \<open>One of the three loops: it returns the identifiers seen and the bytes counted.\<close>

fun admit_rows ::
    "('m \<Rightarrow> record_meta) \<Rightarrow> (record_meta \<Rightarrow> 'm \<Rightarrow> bool) \<Rightarrow> ('m \<Rightarrow> int) \<Rightarrow> nat \<Rightarrow> ('m \<Rightarrow> bool) \<Rightarrow> 'm list \<Rightarrow> string list \<Rightarrow> nat \<Rightarrow>
     'm list \<Rightarrow> (string list \<times> nat) option" where
  "admit_rows meta valid size_of limit extra old seen used [] = Some (seen, used)"
| "admit_rows meta valid size_of limit extra old seen used (x # xs) =
     (let i = m_record_id (meta x); used' = used + nat (size_of x) in
      if \<not> valid (meta x) x \<or> used' > limit \<or> i \<in> set seen \<or> \<not> extra x \<or>
         (case row_of (\<lambda>y. m_record_id (meta y)) i old of None \<Rightarrow> False | Some o' \<Rightarrow> o' \<noteq> x)
      then None
      else admit_rows meta valid size_of limit extra old (i # seen) used' xs)"

definition put_row :: "('r \<Rightarrow> string) \<Rightarrow> 'r \<Rightarrow> 'r list \<Rightarrow> 'r list" where
  "put_row key r rows = (case row_of key (key r) rows of None \<Rightarrow> rows @ [r] | Some _ \<Rightarrow> update_row key (key r) (\<lambda>_. r) rows)"

definition admitNeighborhood ::
    "host \<Rightarrow> canonical_entity codec \<Rightarrow> relation_assertion codec \<Rightarrow> support_record codec \<Rightarrow>
     TraversalResult \<Rightarrow> GraphNeighborhood option \<Rightarrow> string list \<Rightarrow> GraphReadLimits \<Rightarrow> TraversalResult result" where
  "admitNeighborhood h ec ac sc out batch seeds limits =
     (let bad = Inl (Err ''invalid snapshot-bound graph neighborhood'') in
      case batch of None \<Rightarrow> bad
      | Some b \<Rightarrow>
         (if nb_snapshot b \<noteq> tv_snapshot out \<or> int (length (nb_assertions b)) > rl_assertions limits \<or>
             int (length (nb_supports b)) > rl_supports limits \<or>
             int (length (nb_entities b)) > int (length seeds) + 2 * rl_assertions limits
          then bad
          else case admit_rows ce_meta (record_admissible h ec (tv_snapshot out)) (c_size ec) (rl_bytes limits) (\<lambda>_. True)
                 (tv_entities out) [] 0 (nb_entities b) of
            None \<Rightarrow> bad
          | Some (entities, n1) \<Rightarrow>
          if \<not> list_all (\<lambda>i. i \<in> set entities) seeds then bad
          else case admit_rows ra_meta (record_admissible h ac (tv_snapshot out)) (c_size ac) (rl_bytes limits)
                 (\<lambda>a. ra_subject_id a \<in> set entities \<and> ra_object_id a \<in> set entities \<and>
                      (ra_subject_id a \<in> set seeds \<or> ra_object_id a \<in> set seeds))
                 (tv_assertions out) [] n1 (nb_assertions b) of
            None \<Rightarrow> bad
          | Some (assertions, n2) \<Rightarrow>
          (case admit_rows su_meta (record_admissible h sc (tv_snapshot out)) (c_size sc) (rl_bytes limits)
                 (\<lambda>s. su_assertion_id s \<in> set assertions) (tv_supports out) [] n2 (nb_supports b) of
            None \<Rightarrow> bad
          | Some (supports, n3) \<Rightarrow>
          if length (remdups (map su_assertion_id (nb_supports b))) \<noteq> length assertions \<or>
             n3 > nb_read_bytes b \<or> nb_read_bytes b > rl_bytes limits
          then bad
          else Inr (out\<lparr>tv_entities := fold (put_row ce_id) (nb_entities b) (tv_entities out),
                        tv_assertions := fold (put_row ra_id) (nb_assertions b) (tv_assertions out),
                        tv_supports := fold (put_row su_id) (nb_supports b) (tv_supports out),
                        tv_read_bytes := tv_read_bytes out + nb_read_bytes b\<rparr>))))"

section \<open>Traversal\<close>

definition Validate :: "TraversalConfig \<Rightarrow> unit result" where
  "Validate config =
     (if MaximumHops config < 1 \<or> MaximumHops config > 16 \<or> MaximumPaths config < 1 \<or> MaximumPaths config > 4096 \<or>
         rl_assertions (Read config) < 1 \<or> rl_assertions (Read config) > 128 \<or>
         rl_supports (Read config) < 1 \<or> rl_supports (Read config) > 256 \<or>
         int (rl_bytes (Read config)) < 1 \<or> int (rl_bytes (Read config)) > 16777216
      then Inl (Err ''bounded graph traversal configuration required'') else Inr ())"

definition mark :: "string \<Rightarrow> TraversalResult \<Rightarrow> TraversalResult" where
  "mark reason out = (if reason \<in> set (tv_stop_reasons out) then out
     else out\<lparr>tv_stop_reasons := tv_stop_reasons out @ [reason]\<rparr>)"

definition finishTraversal :: "TraversalResult \<Rightarrow> TraversalResult" where
  "finishTraversal out = out\<lparr>tv_paths := map (\<lambda>p. p\<lparr>gp_frontier_exhausted := tv_frontier_exhausted out\<rparr>) (tv_paths out)\<rparr>"

text \<open>A step of the traversal continues, returns its result, or fails.\<close>

datatype 'a flow = Continue 'a | Finished TraversalResult | Failed error

fun bind_flow :: "'a flow \<Rightarrow> ('a \<Rightarrow> 'b flow) \<Rightarrow> 'b flow" where
  "bind_flow (Continue x) f = f x"
| "bind_flow (Finished r) f = Finished r"
| "bind_flow (Failed e) f = Failed e"

type_synonym adjacency = "(string \<times> relation_assertion) list"

definition add_adjacent :: "string list \<Rightarrow> relation_assertion \<Rightarrow> adjacency \<Rightarrow> adjacency" where
  "add_adjacent selected a adj =
     adj @ (if ra_subject_id a \<in> set selected then [(ra_subject_id a, a)] else []) @
     (if ra_object_id a \<noteq> ra_subject_id a \<and> ra_object_id a \<in> set selected then [(ra_object_id a, a)] else [])"

record env =
  te_host :: host
  te_entity :: "canonical_entity codec"
  te_assertion :: "relation_assertion codec"
  te_support :: "support_record codec"
  te_read :: "nat \<Rightarrow> string list \<Rightarrow> GraphReadLimits \<Rightarrow> GraphNeighborhood option result"
  te_ctx_err :: "nat \<Rightarrow> error option"
  te_identity :: "snapshot_ref \<Rightarrow> string list \<Rightarrow> string list \<Rightarrow> string list \<Rightarrow> string"

text \<open>The batches of at most 64 nodes; \<open>tick\<close> counts the calls of \<open>ctx.Err()\<close>.\<close>

function read_batches ::
    "env \<Rightarrow> TraversalConfig \<Rightarrow> string list \<Rightarrow> TraversalResult \<Rightarrow> adjacency \<Rightarrow> nat \<Rightarrow> (TraversalResult \<times> adjacency \<times> nat) flow" where
  "read_batches env config nodes out adj tick =
     (if nodes = [] then Continue (out, adj, tick)
      else if tv_read_bytes out \<ge> rl_bytes (Read config) then Finished (finishTraversal (mark ''read_budget'' out))
      else let limits = (Read config)\<lparr>rl_bytes := rl_bytes (Read config) - tv_read_bytes out\<rparr>;
               seeds = take 64 nodes;
               out1 = out\<lparr>tv_read_batches := tv_read_batches out + 1\<rparr>
           in case te_read env (tv_read_batches out) seeds limits of
             Inl e \<Rightarrow>
               (case te_ctx_err env tick of
                  Some c \<Rightarrow> Failed c
                | None \<Rightarrow> if errors_is e ErrGraphReadBudget then Finished (finishTraversal (mark ''read_budget'' out1)) else Failed e)
           | Inr batch \<Rightarrow>
               (case admitNeighborhood (te_host env) (te_entity env) (te_assertion env) (te_support env) out1 batch seeds limits of
                  Inl e \<Rightarrow> Failed e
                | Inr out2 \<Rightarrow>
                    let b = the batch;
                        out3 = (if nb_more_assertions b then mark ''assertion_budget'' out2 else out2)
                    in read_batches env config (drop 64 nodes) out3 (fold (add_adjacent seeds) (nb_assertions b) adj) tick))"
  by pat_completeness auto
termination
  by (relation "measure (\<lambda>(env, config, nodes, out, adj, tick). length nodes)") auto

declare read_batches.simps [simp del]

definition adjacent_to :: "adjacency \<Rightarrow> string \<Rightarrow> relation_assertion list" where
  "adjacent_to adj i = sort_key ra_id (map snd (filter (\<lambda>(j, a). j = i) adj))"

definition support_ids :: "TraversalResult \<Rightarrow> string \<Rightarrow> string list" where
  "support_ids out i = sort (map su_id (filter (\<lambda>s. su_assertion_id s = i) (tv_supports out)))"

definition extend_path :: "env \<Rightarrow> snapshot_ref \<Rightarrow> graph_path \<Rightarrow> string \<Rightarrow> string \<Rightarrow> string \<Rightarrow> graph_path" where
  "extend_path env snapshot p target assertion support =
     (let nodes = gp_ordered_node_ids p @ [target]; assertions = gp_ordered_assertion_ids p @ [assertion];
          supports = gp_selected_support_ids p @ [support]
      in p\<lparr>gp_ordered_node_ids := nodes, gp_ordered_assertion_ids := assertions, gp_selected_support_ids := supports,
           gp_snapshot := snapshot, gp_coverage := COMPLETENESS_PARTIAL,
           gp_path_id := ''path:'' @ sha256hex (te_host env) (te_identity env snapshot nodes assertions supports)\<rparr>)"

fun expand_path ::
    "env \<Rightarrow> TraversalConfig \<Rightarrow> graph_path \<Rightarrow> relation_assertion list \<Rightarrow> TraversalResult \<times> graph_path list \<times> nat \<Rightarrow>
     (TraversalResult \<times> graph_path list \<times> nat) flow" where
  "expand_path env config path [] st = Continue st"
| "expand_path env config path (a # as) (out, nxt, tick) =
     (case te_ctx_err env tick of
        Some e \<Rightarrow> Failed e
      | None \<Rightarrow>
          let here = last (gp_ordered_node_ids path);
              target = (if ra_object_id a = here then ra_subject_id a else ra_object_id a) in
          if target \<in> set (gp_ordered_node_ids path) then expand_path env config path as (out, nxt, tick + 1)
          else if int (length (tv_paths out)) \<ge> MaximumPaths config then Finished (finishTraversal (mark ''path_budget'' out))
          else case support_ids out (ra_id a) of
            [] \<Rightarrow> Failed (Err ''panic: index out of range'')
          | s # _ \<Rightarrow>
              let p = extend_path env (tv_snapshot out) path target (ra_id a) s in
              expand_path env config path as (out\<lparr>tv_paths := tv_paths out @ [p]\<rparr>, nxt @ [p], tick + 1))"

fun expand_frontier ::
    "env \<Rightarrow> TraversalConfig \<Rightarrow> adjacency \<Rightarrow> graph_path list \<Rightarrow> TraversalResult \<times> graph_path list \<times> nat \<Rightarrow>
     (TraversalResult \<times> graph_path list \<times> nat) flow" where
  "expand_frontier env config adj [] st = Continue st"
| "expand_frontier env config adj (path # paths) st =
     bind_flow (expand_path env config path (adjacent_to adj (last (gp_ordered_node_ids path))) st) (\<lambda>st'.
       expand_frontier env config adj paths st')"

text \<open>One hop per unit of \<open>hops\<close>, the number of hops that remain.\<close>

fun traverse_hops ::
    "env \<Rightarrow> TraversalConfig \<Rightarrow> nat \<Rightarrow> graph_path list \<Rightarrow> TraversalResult \<Rightarrow> nat \<Rightarrow> (TraversalResult \<times> graph_path list) flow" where
  "traverse_hops env config 0 frontier out tick = Continue (out, frontier)"
| "traverse_hops env config (Suc hops) frontier out tick =
     (if frontier = [] then Continue (out, frontier)
      else case te_ctx_err env tick of
        Some e \<Rightarrow> Failed e
      | None \<Rightarrow>
          bind_flow (read_batches env config (sort (remdups (map (\<lambda>p. last (gp_ordered_node_ids p)) frontier))) out [] (tick + 1))
            (\<lambda>(out1, adj, tick1).
          bind_flow (expand_frontier env config adj frontier (out1, [], tick1)) (\<lambda>(out2, nxt, tick2).
          traverse_hops env config hops nxt out2 tick2)))"

definition seed_path :: "snapshot_ref \<Rightarrow> string \<Rightarrow> graph_path" where
  "seed_path snapshot i = \<lparr>gp_path_id = '''', gp_ordered_node_ids = [i], gp_ordered_assertion_ids = [], gp_selected_support_ids = [],
     gp_coverage = COMPLETENESS_UNSPECIFIED, gp_frontier_exhausted = False, gp_snapshot = snapshot\<rparr>"

definition empty_result :: "snapshot_ref \<Rightarrow> TraversalResult" where
  "empty_result snapshot = \<lparr>tv_snapshot = snapshot, tv_paths = [], tv_assertions = [], tv_supports = [], tv_entities = [],
     tv_frontier_exhausted = False, tv_stop_reasons = [], tv_read_bytes = 0, tv_read_batches = 0\<rparr>"

fun check_seeds :: "host \<Rightarrow> record_meta codec \<Rightarrow> string \<Rightarrow> string option \<Rightarrow> string list \<Rightarrow> unit result" where
  "check_seeds h mc corpus previous [] = Inr ()"
| "check_seeds h mc corpus previous (i # is) =
     (if previous = Some i then Inl (Err ''duplicate graph seed'')
      else bind_result (validate_wire h mc \<lparr>m_schema_version = 1, m_corpus_id = corpus, m_record_id = i, m_visibility = None\<rparr>)
        (\<lambda>_. check_seeds h mc corpus (Some i) is))"

definition close_traversal :: "TraversalResult \<Rightarrow> graph_path list \<Rightarrow> TraversalResult" where
  "close_traversal out frontier =
     (let out1 = (if frontier \<noteq> [] then mark ''hop_budget'' out else out)
      in finishTraversal (out1\<lparr>tv_frontier_exhausted := (frontier = [] \<and> tv_stop_reasons out1 = [])\<rparr>))"

definition Traverse ::
    "env \<Rightarrow> snapshot_ref codec \<Rightarrow> record_meta codec \<Rightarrow> bool \<Rightarrow> snapshot_ref \<Rightarrow> string list \<Rightarrow> TraversalConfig \<Rightarrow> TraversalResult result" where
  "Traverse env rc mc deadline snapshot seeds config =
     (if seeds = [] \<or> length seeds > 64 \<or> Validate config \<noteq> Inr ()
      then Inl (Err ''bounded traversal configuration and snapshot required'')
      else if \<not> deadline then Inl (Err ''traversal requires request deadline'')
      else bind_result (validate_wire (te_host env) rc snapshot) (\<lambda>_.
        bind_result (check_seeds (te_host env) mc (sr_corpus_id snapshot) None (sort seeds)) (\<lambda>_.
        case traverse_hops env config (nat (MaximumHops config)) (map (seed_path snapshot) (sort seeds)) (empty_result snapshot) 0 of
          Failed e \<Rightarrow> Inl e
        | Finished out \<Rightarrow> Inr out
        | Continue (out, frontier) \<Rightarrow> Inr (close_traversal out frontier))))"

section \<open>Admitted rows\<close>

lemma put_row_set:
  assumes "distinct (map key rows)" and "row_of key (key r) rows = None \<or> row_of key (key r) rows = Some r"
  shows "distinct (map key (put_row key r rows)) \<and> set (put_row key r rows) = insert r (set rows) \<and>
    (\<forall>k. k \<noteq> key r \<longrightarrow> row_of key k (put_row key r rows) = row_of key k rows)"
proof (cases "row_of key (key r) rows")
  case None
  then have "key r \<notin> key ` set rows" by (auto simp: row_of_None_iff)
  with None assms(1) show ?thesis by (simp add: put_row_def table_simps split: option.splits)
next
  case (Some r')
  with assms(2) have r: "r' = r" "r \<in> set rows" by (auto dest: row_of_mem)
  have "update_row key (key r) (\<lambda>_. r) rows = rows"
    unfolding update_row_def
  proof (rule map_idI)
    fix x
    assume "x \<in> set rows"
    then show "(if key x = key r then r else x) = x"
      using r(2) assms(1) by (auto simp: distinct_map dest: inj_onD)
  qed
  with Some r assms(1) show ?thesis by (simp add: put_row_def insert_absorb)
qed

lemma fold_put_row:
  assumes "distinct (map key rows)" and "distinct (map key xs)"
    and "\<And>x. x \<in> set xs \<Longrightarrow> row_of key (key x) rows = None \<or> row_of key (key x) rows = Some x"
  shows "distinct (map key (fold (put_row key) xs rows)) \<and> set (fold (put_row key) xs rows) = set rows \<union> set xs"
  using assms
proof (induction xs arbitrary: rows)
  case (Cons x xs)
  note p = put_row_set [OF Cons.prems(1) Cons.prems(3) [of x], simplified]
  have "row_of key (key y) (put_row key x rows) = None \<or> row_of key (key y) (put_row key x rows) = Some y" if "y \<in> set xs" for y
  proof -
    have "key y \<noteq> key x" using Cons.prems(2) that by (metis distinct.simps(2) imageI list.simps(9) set_map)
    with p Cons.prems(3) [of y] that show ?thesis by simp
  qed
  with Cons.IH [of "put_row key x rows"] Cons.prems(2) p show ?case by auto
qed simp

lemma admit_rows_Some:
  assumes "admit_rows meta valid size_of limit extra old seen used xs = Some (seen', used')"
  shows "distinct (map (\<lambda>y. m_record_id (meta y)) xs) \<and> set (map (\<lambda>y. m_record_id (meta y)) xs) \<inter> set seen = {} \<and>
    seen' = rev (map (\<lambda>y. m_record_id (meta y)) xs) @ seen \<and>
    (\<forall>x \<in> set xs. valid (meta x) x \<and> extra x \<and>
       (row_of (\<lambda>y. m_record_id (meta y)) (m_record_id (meta x)) old = None \<or>
        row_of (\<lambda>y. m_record_id (meta y)) (m_record_id (meta x)) old = Some x))"
  using assms
proof (induction xs arbitrary: seen used)
  case (Cons x xs)
  from Cons.prems have x: "valid (meta x) x" "m_record_id (meta x) \<notin> set seen" "extra x"
    "\<not> (case row_of (\<lambda>y. m_record_id (meta y)) (m_record_id (meta x)) old of None \<Rightarrow> False | Some o' \<Rightarrow> o' \<noteq> x)"
    and rest: "admit_rows meta valid size_of limit extra old (m_record_id (meta x) # seen) (used + nat (size_of x)) xs = Some (seen', used')"
    by (simp_all add: Let_def split: if_splits)
  from x(4) have "row_of (\<lambda>y. m_record_id (meta y)) (m_record_id (meta x)) old = None \<or>
      row_of (\<lambda>y. m_record_id (meta y)) (m_record_id (meta x)) old = Some x" by (auto split: option.splits)
  with Cons.IH [OF rest] x show ?case by auto
qed simp

section \<open>What traversal returns\<close>

text \<open>An edge of a path: an admitted assertion between the two nodes, in either direction, with an admitted support.\<close>

definition edge_ok :: "TraversalResult \<Rightarrow> string \<Rightarrow> string \<Rightarrow> string \<Rightarrow> string \<Rightarrow> bool" where
  "edge_ok out x y assertion support \<longleftrightarrow>
     (\<exists>a \<in> set (tv_assertions out). ra_id a = assertion \<and> {x, y} = {ra_subject_id a, ra_object_id a}) \<and>
     (\<exists>s \<in> set (tv_supports out). su_id s = support \<and> su_assertion_id s = assertion)"

definition path_ok :: "TraversalResult \<Rightarrow> string list \<Rightarrow> graph_path \<Rightarrow> bool" where
  "path_ok out seeds p \<longleftrightarrow>
     (let nodes = gp_ordered_node_ids p; as = gp_ordered_assertion_ids p; ss = gp_selected_support_ids p in
      nodes \<noteq> [] \<and> distinct nodes \<and> hd nodes \<in> set seeds \<and> length nodes = length as + 1 \<and> length ss = length as \<and>
      (\<forall>k < length as. edge_ok out (nodes ! k) (nodes ! (k + 1)) (as ! k) (ss ! k)))"

text \<open>The state between two steps: rows with distinct identifiers, a support for every assertion, bounds.\<close>

definition tables_ok :: "TraversalConfig \<Rightarrow> TraversalResult \<Rightarrow> bool" where
  "tables_ok config out \<longleftrightarrow>
     distinct (map ce_id (tv_entities out)) \<and> distinct (map ra_id (tv_assertions out)) \<and> distinct (map su_id (tv_supports out)) \<and>
     (\<forall>a \<in> set (tv_assertions out). (\<exists>s \<in> set (tv_supports out). su_assertion_id s = ra_id a) \<and>
        ra_subject_id a \<in> ce_id ` set (tv_entities out) \<and> ra_object_id a \<in> ce_id ` set (tv_entities out)) \<and>
     tv_read_bytes out \<le> rl_bytes (Read config)"

definition paths_ok :: "TraversalConfig \<Rightarrow> string list \<Rightarrow> nat \<Rightarrow> TraversalResult \<Rightarrow> bool" where
  "paths_ok config seeds n out \<longleftrightarrow>
     (\<forall>p \<in> set (tv_paths out). path_ok out seeds p \<and> length (gp_ordered_assertion_ids p) \<le> n) \<and>
     int (length (tv_paths out)) \<le> MaximumPaths config"

definition frontier_ok :: "TraversalResult \<Rightarrow> string list \<Rightarrow> nat \<Rightarrow> graph_path list \<Rightarrow> bool" where
  "frontier_ok out seeds n frontier \<longleftrightarrow>
     (\<forall>p \<in> set frontier. path_ok out seeds p \<and> length (gp_ordered_assertion_ids p) = n)"

lemma path_ok_mono:
  assumes "path_ok out seeds p" "set (tv_assertions out) \<subseteq> set (tv_assertions out')" "set (tv_supports out) \<subseteq> set (tv_supports out')"
  shows "path_ok out' seeds p"
  using assms unfolding path_ok_def edge_ok_def Let_def by (meson subsetD)

lemma admitNeighborhood_ok:
  assumes adm: "admitNeighborhood h ec ac sc out (Some b) seeds limits = Inr out'" and t: "tables_ok config out"
    and lim: "rl_bytes limits = rl_bytes (Read config) - tv_read_bytes out"
  shows "tables_ok config out' \<and> set (tv_assertions out') = set (tv_assertions out) \<union> set (nb_assertions b) \<and>
    set (tv_supports out) \<subseteq> set (tv_supports out') \<and> tv_paths out' = tv_paths out \<and> tv_snapshot out' = tv_snapshot out"
proof -
  from adm obtain es n1 as n2 ss n3 where
    e: "admit_rows ce_meta (record_admissible h ec (tv_snapshot out)) (c_size ec) (rl_bytes limits) (\<lambda>_. True)
          (tv_entities out) [] 0 (nb_entities b) = Some (es, n1)"
    and a: "admit_rows ra_meta (record_admissible h ac (tv_snapshot out)) (c_size ac) (rl_bytes limits)
          (\<lambda>a. ra_subject_id a \<in> set es \<and> ra_object_id a \<in> set es \<and> (ra_subject_id a \<in> set seeds \<or> ra_object_id a \<in> set seeds))
          (tv_assertions out) [] n1 (nb_assertions b) = Some (as, n2)"
    and s: "admit_rows su_meta (record_admissible h sc (tv_snapshot out)) (c_size sc) (rl_bytes limits)
          (\<lambda>s. su_assertion_id s \<in> set as) (tv_supports out) [] n2 (nb_supports b) = Some (ss, n3)"
    and cov: "length (remdups (map su_assertion_id (nb_supports b))) = length as"
    and rb: "nb_read_bytes b \<le> rl_bytes limits"
    and out': "out' = out\<lparr>tv_entities := fold (put_row ce_id) (nb_entities b) (tv_entities out),
        tv_assertions := fold (put_row ra_id) (nb_assertions b) (tv_assertions out),
        tv_supports := fold (put_row su_id) (nb_supports b) (tv_supports out),
        tv_read_bytes := tv_read_bytes out + nb_read_bytes b\<rparr>"
    by (auto simp: admitNeighborhood_def Let_def split: if_splits option.splits)
  note e' = admit_rows_Some [OF e] and a' = admit_rows_Some [OF a] and s' = admit_rows_Some [OF s]
  have E: "distinct (map ce_id (tv_entities out')) \<and> set (tv_entities out') = set (tv_entities out) \<union> set (nb_entities b)"
    unfolding out' using t e' by (simp, intro fold_put_row) (auto simp: tables_ok_def)
  have A: "distinct (map ra_id (tv_assertions out')) \<and> set (tv_assertions out') = set (tv_assertions out) \<union> set (nb_assertions b)"
    unfolding out' using t a' by (simp, intro fold_put_row) (auto simp: tables_ok_def)
  have S: "distinct (map su_id (tv_supports out')) \<and> set (tv_supports out') = set (tv_supports out) \<union> set (nb_supports b)"
    unfolding out' using t s' by (simp, intro fold_put_row) (auto simp: tables_ok_def)
  have "set (map su_assertion_id (nb_supports b)) \<subseteq> set as" using s' by auto
  moreover have "distinct as" using a' by simp
  ultimately have all: "set (map su_assertion_id (nb_supports b)) = set as"
    using cov by (metis card_subset_eq distinct_card finite_set length_remdups_card_conv)
  have "(\<exists>s \<in> set (tv_supports out'). su_assertion_id s = ra_id x) \<and> ra_subject_id x \<in> ce_id ` set (tv_entities out') \<and>
      ra_object_id x \<in> ce_id ` set (tv_entities out')" if "x \<in> set (tv_assertions out')" for x
  proof (cases "x \<in> set (tv_assertions out)")
    case True
    with t E S show ?thesis unfolding tables_ok_def by blast
  next
    case False
    with that A have x: "x \<in> set (nb_assertions b)" by blast
    with a' have "ra_id x \<in> set as" "ra_subject_id x \<in> set es" "ra_object_id x \<in> set es" by auto
    with all have "ra_id x \<in> su_assertion_id ` set (nb_supports b)" by simp
    moreover have "set es = ce_id ` set (nb_entities b)" using e' by simp
    ultimately show ?thesis using S E \<open>ra_subject_id x \<in> set es\<close> \<open>ra_object_id x \<in> set es\<close> by (auto simp: image_iff)
  qed
  moreover have "tv_read_bytes out' \<le> rl_bytes (Read config)"
    using rb lim t by (auto simp: out' tables_ok_def)
  ultimately have "tables_ok config out'" unfolding tables_ok_def using E A S by blast
  with A S show ?thesis by (simp add: out')
qed

text \<open>The state of a running traversal after at most \<open>n\<close> hops, and what it returns.\<close>

definition running_ok :: "TraversalConfig \<Rightarrow> string list \<Rightarrow> nat \<Rightarrow> TraversalResult \<Rightarrow> bool" where
  "running_ok config seeds n out \<longleftrightarrow> tables_ok config out \<and> paths_ok config seeds n out \<and> \<not> tv_frontier_exhausted out"

definition traversal_ok :: "TraversalConfig \<Rightarrow> string list \<Rightarrow> nat \<Rightarrow> TraversalResult \<Rightarrow> bool" where
  "traversal_ok config seeds n out \<longleftrightarrow> tables_ok config out \<and> paths_ok config seeds n out \<and>
     (tv_frontier_exhausted out \<longrightarrow> tv_stop_reasons out = []) \<and>
     (\<forall>p \<in> set (tv_paths out). gp_frontier_exhausted p = tv_frontier_exhausted out)"

definition adjacency_ok :: "TraversalResult \<Rightarrow> adjacency \<Rightarrow> bool" where
  "adjacency_ok out adj \<longleftrightarrow>
     (\<forall>(i, a) \<in> set adj. a \<in> set (tv_assertions out) \<and> (i = ra_subject_id a \<or> i = ra_object_id a))"

definition grows :: "TraversalResult \<Rightarrow> TraversalResult \<Rightarrow> bool" where
  "grows out out' \<longleftrightarrow> set (tv_assertions out) \<subseteq> set (tv_assertions out') \<and> set (tv_supports out) \<subseteq> set (tv_supports out')"

lemma mark_simps [simp]:
  "tv_paths (mark m out) = tv_paths out" "tv_assertions (mark m out) = tv_assertions out" "tv_supports (mark m out) = tv_supports out"
  "tv_entities (mark m out) = tv_entities out" "tv_read_bytes (mark m out) = tv_read_bytes out"
  "tv_frontier_exhausted (mark m out) = tv_frontier_exhausted out" "tv_snapshot (mark m out) = tv_snapshot out"
  by (simp_all add: mark_def)

lemma path_ok_same:
  "tv_assertions out' = tv_assertions out \<Longrightarrow> tv_supports out' = tv_supports out \<Longrightarrow> path_ok out' seeds = path_ok out seeds"
  by (auto simp: path_ok_def edge_ok_def fun_eq_iff)

lemma running_ok_mark: "running_ok config seeds n out \<Longrightarrow> running_ok config seeds n (mark m out)"
  by (auto simp: running_ok_def tables_ok_def paths_ok_def path_ok_same [of "mark m out" out])

lemma path_ok_flag [simp]: "path_ok out seeds (p\<lparr>gp_frontier_exhausted := f\<rparr>) = path_ok out seeds p"
  by (simp add: path_ok_def)

lemma finish_ok:
  assumes "tables_ok config out" "paths_ok config seeds n out" "tv_frontier_exhausted out \<longrightarrow> tv_stop_reasons out = []"
  shows "traversal_ok config seeds n (finishTraversal out)"
  using assms path_ok_same [of "finishTraversal out" out seeds]
  by (auto simp: traversal_ok_def tables_ok_def paths_ok_def finishTraversal_def)

lemma running_finish: "running_ok config seeds n out \<Longrightarrow> traversal_ok config seeds n (finishTraversal (mark m out))"
proof -
  assume "running_ok config seeds n out"
  then have "running_ok config seeds n (mark m out)" by (rule running_ok_mark)
  then show ?thesis by (auto simp: running_ok_def intro: finish_ok)
qed

lemma set_fold_add_adjacent:
  "set (fold (add_adjacent seeds) as adj) \<subseteq> set adj \<union> {(i, a). a \<in> set as \<and> (i = ra_subject_id a \<or> i = ra_object_id a)}"
  by (induction as arbitrary: adj) (fastforce simp: add_adjacent_def)+

lemma read_batches_ok:
  assumes "running_ok config seeds n out" and "adjacency_ok out adj"
  shows "case read_batches env config nodes out adj tick of
      Failed e \<Rightarrow> True | Finished r \<Rightarrow> traversal_ok config seeds n r
    | Continue (out', adj', tick') \<Rightarrow> running_ok config seeds n out' \<and> adjacency_ok out' adj' \<and> grows out out'"
  using assms
proof (induction env config nodes out adj tick rule: read_batches.induct)
  case (1 env config nodes out adj tick)
  let ?limits = "(Read config)\<lparr>rl_bytes := rl_bytes (Read config) - tv_read_bytes out\<rparr>"
  let ?out1 = "out\<lparr>tv_read_batches := tv_read_batches out + 1\<rparr>"
  have r1: "running_ok config seeds n ?out1"
    using "1.prems"(1) path_ok_same [of ?out1 out seeds] by (auto simp: running_ok_def tables_ok_def paths_ok_def)
  show ?case
  proof (cases "nodes = [] \<or> tv_read_bytes out \<ge> rl_bytes (Read config)")
    case True
    then show ?thesis
      using "1.prems" running_finish [OF "1.prems"(1)] by (auto simp: read_batches.simps [of env config nodes] grows_def)
  next
    case False
    show ?thesis
    proof (cases "te_read env (tv_read_batches out) (take 64 nodes) ?limits")
      case (Inl e)
      with False running_finish [OF r1] show ?thesis
        by (auto simp: read_batches.simps [of env config nodes] Let_def split: option.splits)
    next
      case (Inr batch)
      show ?thesis
      proof (cases "admitNeighborhood (te_host env) (te_entity env) (te_assertion env) (te_support env) ?out1 batch (take 64 nodes) ?limits")
        case (Inl e)
        with False Inr show ?thesis by (simp add: read_batches.simps [of env config nodes] Let_def)
      next
        case adm: (Inr out2)
        then obtain b where b: "batch = Some b" by (cases batch) (auto simp: admitNeighborhood_def Let_def)
        let ?out3 = "if nb_more_assertions b then mark ''assertion_budget'' out2 else out2"
        let ?adj = "fold (add_adjacent (take 64 nodes)) (nb_assertions b) adj"
        note a = admitNeighborhood_ok [OF adm [unfolded b], of config]
        have t2: "tables_ok config out2" "set (tv_assertions out2) = set (tv_assertions out) \<union> set (nb_assertions b)"
          "set (tv_supports out) \<subseteq> set (tv_supports out2)" "tv_paths out2 = tv_paths out"
          using a r1 by (auto simp: running_ok_def)
        have fe: "tv_frontier_exhausted out2 = tv_frontier_exhausted out"
          using adm by (auto simp: b admitNeighborhood_def Let_def split: if_splits option.splits)
        have "running_ok config seeds n out2"
          using t2 fe "1.prems"(1) path_ok_mono [of out seeds _ out2] by (auto simp: running_ok_def paths_ok_def)
        then have r3: "running_ok config seeds n ?out3" by (auto intro: running_ok_mark)
        have a3: "adjacency_ok ?out3 ?adj"
          using set_fold_add_adjacent [of "take 64 nodes" "nb_assertions b" adj] "1.prems"(2) t2(2)
          unfolding adjacency_ok_def by fastforce
        have g: "grows out ?out3" using t2 by (auto simp: grows_def)
        have IH: "case read_batches env config (drop 64 nodes) ?out3 ?adj tick of
            Failed e \<Rightarrow> True | Finished r \<Rightarrow> traversal_ok config seeds n r
          | Continue (out', adj', tick') \<Rightarrow> running_ok config seeds n out' \<and> adjacency_ok out' adj' \<and> grows ?out3 out'"
          by (rule "1.IH" [of ?limits "take 64 nodes" ?out1 batch out2 b]) (use False Inr adm b r3 a3 in simp_all)
        have step: "read_batches env config nodes out adj tick = read_batches env config (drop 64 nodes) ?out3 ?adj tick"
          using False Inr adm b by (simp add: read_batches.simps [of env config nodes] Let_def)
        show ?thesis unfolding step using IH g by (auto simp: grows_def split: flow.splits)
      qed
    qed
  qed
qed

lemma support_ids_nonempty:
  assumes "tables_ok config out" and "a \<in> set (tv_assertions out)"
  shows "support_ids out (ra_id a) \<noteq> []"
proof -
  obtain s where "s \<in> set (tv_supports out)" "su_assertion_id s = ra_id a" using assms by (auto simp: tables_ok_def)
  then have "su_id s \<in> set (support_ids out (ra_id a))" by (auto simp: support_ids_def)
  then show ?thesis by auto
qed

lemma extend_path_ok:
  assumes p: "path_ok out seeds p" and a: "a \<in> set (tv_assertions out)"
    and l: "last (gp_ordered_node_ids p) = ra_subject_id a \<or> last (gp_ordered_node_ids p) = ra_object_id a"
    and t: "target = (if ra_object_id a = last (gp_ordered_node_ids p) then ra_subject_id a else ra_object_id a)"
    and fresh: "target \<notin> set (gp_ordered_node_ids p)" and s: "s \<in> set (support_ids out (ra_id a))"
  shows "path_ok out seeds (extend_path env snapshot p target (ra_id a) s)"
proof -
  let ?n = "gp_ordered_node_ids p" and ?a = "gp_ordered_assertion_ids p" and ?s = "gp_selected_support_ids p"
  have q: "?n \<noteq> []" "distinct ?n" "hd ?n \<in> set seeds" "length ?n = length ?a + 1" "length ?s = length ?a"
    "\<And>k. k < length ?a \<Longrightarrow> edge_ok out (?n ! k) (?n ! (k + 1)) (?a ! k) (?s ! k)"
    using p by (auto simp: path_ok_def Let_def)
  have "edge_ok out (last ?n) target (ra_id a) s"
    using a l t s by (auto simp: edge_ok_def support_ids_def)
  then have "edge_ok out ((?n @ [target]) ! k) ((?n @ [target]) ! (k + 1)) ((?a @ [ra_id a]) ! k) ((?s @ [s]) ! k)"
    if "k < length ?a + 1" for k
    using that q by (cases "k = length ?a") (auto simp: nth_append last_conv_nth)
  with q fresh show ?thesis by (simp add: path_ok_def extend_path_def Let_def)
qed

lemma expand_path_ok:
  assumes "running_ok config seeds (Suc n) out" and "path_ok out seeds path" and "length (gp_ordered_assertion_ids path) = n"
    and "\<And>a. a \<in> set as \<Longrightarrow> a \<in> set (tv_assertions out) \<and>
      (last (gp_ordered_node_ids path) = ra_subject_id a \<or> last (gp_ordered_node_ids path) = ra_object_id a)"
    and "frontier_ok out seeds (Suc n) nxt"
  shows "case expand_path env config path as (out, nxt, tick) of
      Failed e \<Rightarrow> True | Finished r \<Rightarrow> traversal_ok config seeds (Suc n) r
    | Continue (out', nxt', tick') \<Rightarrow> running_ok config seeds (Suc n) out' \<and> frontier_ok out' seeds (Suc n) nxt' \<and>
        tv_assertions out' = tv_assertions out \<and> tv_supports out' = tv_supports out"
  using assms
proof (induction as arbitrary: out nxt tick)
  case (Cons a as)
  let ?target = "if ra_object_id a = last (gp_ordered_node_ids path) then ra_subject_id a else ra_object_id a"
  consider e where "te_ctx_err env tick = Some e"
    | "te_ctx_err env tick = None" "?target \<in> set (gp_ordered_node_ids path)"
    | "te_ctx_err env tick = None" "?target \<notin> set (gp_ordered_node_ids path)" "int (length (tv_paths out)) \<ge> MaximumPaths config"
    | "te_ctx_err env tick = None" "?target \<notin> set (gp_ordered_node_ids path)" "int (length (tv_paths out)) < MaximumPaths config"
    by fastforce
  then show ?case
  proof cases
    case 1
    then show ?thesis by simp
  next
    case 2
    with Cons.IH [of out nxt "tick + 1"] Cons.prems show ?thesis by (simp add: Let_def)
  next
    case 3
    with running_finish [OF Cons.prems(1)] show ?thesis by (simp add: Let_def)
  next
    case 4
    have a: "a \<in> set (tv_assertions out)" "last (gp_ordered_node_ids path) = ra_subject_id a \<or> last (gp_ordered_node_ids path) = ra_object_id a"
      using Cons.prems(4) by auto
    have "support_ids out (ra_id a) \<noteq> []"
      using Cons.prems(1) a(1) support_ids_nonempty by (auto simp: running_ok_def)
    then obtain s ss where s: "support_ids out (ra_id a) = s # ss" by (cases "support_ids out (ra_id a)") auto
    let ?p = "extend_path env (tv_snapshot out) path ?target (ra_id a) s"
    let ?out = "out\<lparr>tv_paths := tv_paths out @ [?p]\<rparr>"
    have p: "path_ok out seeds ?p"
      using Cons.prems(2) a 4(2) s by (intro extend_path_ok) auto
    have len: "length (gp_ordered_assertion_ids ?p) = Suc n" using Cons.prems(3) by (simp add: extend_path_def Let_def)
    note same = path_ok_same [of ?out out seeds, simplified]
    have "running_ok config seeds (Suc n) ?out"
      using Cons.prems(1) 4(3) p len same by (auto simp: running_ok_def tables_ok_def paths_ok_def)
    moreover have "frontier_ok ?out seeds (Suc n) (nxt @ [?p])"
      using Cons.prems(5) p len same by (auto simp: frontier_ok_def)
    ultimately have ih: "case expand_path env config path as (?out, nxt @ [?p], tick + 1) of
        Failed e \<Rightarrow> True | Finished r \<Rightarrow> traversal_ok config seeds (Suc n) r
      | Continue (out', nxt', tick') \<Rightarrow> running_ok config seeds (Suc n) out' \<and> frontier_ok out' seeds (Suc n) nxt' \<and>
          tv_assertions out' = tv_assertions ?out \<and> tv_supports out' = tv_supports ?out"
      using Cons.prems(2-4) same by (intro Cons.IH) auto
    have step: "expand_path env config path (a # as) (out, nxt, tick) = expand_path env config path as (?out, nxt @ [?p], tick + 1)"
      using 4 s by (simp add: Let_def split del: if_split)
    have rows: "tv_assertions ?out = tv_assertions out" "tv_supports ?out = tv_supports out" by simp_all
    show ?thesis unfolding step using ih unfolding rows .
  qed
qed simp

lemma adjacent_to_ok:
  "adjacency_ok out adj \<Longrightarrow> a \<in> set (adjacent_to adj i) \<Longrightarrow> a \<in> set (tv_assertions out) \<and> (i = ra_subject_id a \<or> i = ra_object_id a)"
  by (auto simp: adjacency_ok_def adjacent_to_def)

lemma expand_frontier_ok:
  assumes "running_ok config seeds (Suc n) out" and "frontier_ok out seeds n frontier" and "adjacency_ok out adj"
    and "frontier_ok out seeds (Suc n) nxt"
  shows "case expand_frontier env config adj frontier (out, nxt, tick) of
      Failed e \<Rightarrow> True | Finished r \<Rightarrow> traversal_ok config seeds (Suc n) r
    | Continue (out', nxt', tick') \<Rightarrow> running_ok config seeds (Suc n) out' \<and> frontier_ok out' seeds (Suc n) nxt'"
  using assms
proof (induction frontier arbitrary: out nxt tick)
  case (Cons p ps)
  have "case expand_path env config p (adjacent_to adj (last (gp_ordered_node_ids p))) (out, nxt, tick) of
      Failed e \<Rightarrow> True | Finished r \<Rightarrow> traversal_ok config seeds (Suc n) r
    | Continue (out', nxt', tick') \<Rightarrow> running_ok config seeds (Suc n) out' \<and> frontier_ok out' seeds (Suc n) nxt' \<and>
        tv_assertions out' = tv_assertions out \<and> tv_supports out' = tv_supports out"
    using Cons.prems adjacent_to_ok [OF Cons.prems(3)] by (intro expand_path_ok) (auto simp: frontier_ok_def)
  then show ?case
  proof (cases "expand_path env config p (adjacent_to adj (last (gp_ordered_node_ids p))) (out, nxt, tick)")
    case (Continue x)
    obtain out1 nxt1 tick1 where x: "x = (out1, nxt1, tick1)" by (cases x)
    assume "case expand_path env config p (adjacent_to adj (last (gp_ordered_node_ids p))) (out, nxt, tick) of
      Failed e \<Rightarrow> True | Finished r \<Rightarrow> traversal_ok config seeds (Suc n) r
    | Continue (out', nxt', tick') \<Rightarrow> running_ok config seeds (Suc n) out' \<and> frontier_ok out' seeds (Suc n) nxt' \<and>
        tv_assertions out' = tv_assertions out \<and> tv_supports out' = tv_supports out"
    with Continue x have c: "running_ok config seeds (Suc n) out1" "frontier_ok out1 seeds (Suc n) nxt1"
      "tv_assertions out1 = tv_assertions out" "tv_supports out1 = tv_supports out" by auto
    have "frontier_ok out1 seeds n ps" "adjacency_ok out1 adj"
      using Cons.prems(2,3) c(3,4) path_ok_same [of out1 out seeds] by (auto simp: frontier_ok_def adjacency_ok_def)
    from Cons.IH [OF c(1) this c(2)] Continue x show ?thesis by simp
  qed simp_all
qed simp

lemma running_ok_mono: "running_ok config seeds n out \<Longrightarrow> n \<le> m \<Longrightarrow> running_ok config seeds m out"
  by (auto simp: running_ok_def paths_ok_def)

lemma traversal_ok_mono: "traversal_ok config seeds n out \<Longrightarrow> n \<le> m \<Longrightarrow> traversal_ok config seeds m out"
  by (auto simp: traversal_ok_def paths_ok_def)

lemma frontier_ok_grows: "frontier_ok out seeds n f \<Longrightarrow> grows out out' \<Longrightarrow> frontier_ok out' seeds n f"
  by (auto simp: frontier_ok_def grows_def intro: path_ok_mono)

lemma traverse_hops_ok:
  assumes "running_ok config seeds n out" and "frontier_ok out seeds n frontier"
  shows "case traverse_hops env config hops frontier out tick of
      Failed e \<Rightarrow> True | Finished r \<Rightarrow> traversal_ok config seeds (n + hops) r
    | Continue (out', frontier') \<Rightarrow> running_ok config seeds (n + hops) out'"
  using assms
proof (induction hops arbitrary: n frontier out tick)
  case (Suc hops)
  let ?nodes = "sort (remdups (map (\<lambda>p. last (gp_ordered_node_ids p)) frontier))"
  show ?case
  proof (cases "frontier = [] \<or> te_ctx_err env tick \<noteq> None")
    case True
    then show ?thesis using running_ok_mono [OF Suc.prems(1), of "n + Suc hops"] by (auto split: option.splits)
  next
    case go: False
    have rb: "case read_batches env config ?nodes out [] (tick + 1) of
        Failed e \<Rightarrow> True | Finished r \<Rightarrow> traversal_ok config seeds n r
      | Continue (out', adj', tick') \<Rightarrow> running_ok config seeds n out' \<and> adjacency_ok out' adj' \<and> grows out out'"
      by (rule read_batches_ok [OF Suc.prems(1)]) (simp add: adjacency_ok_def)
    show ?thesis
    proof (cases "read_batches env config ?nodes out [] (tick + 1)")
      case (Finished r)
      with rb go traversal_ok_mono [of config seeds n r "n + Suc hops"] show ?thesis by auto
    next
      case (Failed e)
      with go show ?thesis by auto
    next
      case (Continue x)
      obtain out1 adj tick1 where x: "x = (out1, adj, tick1)" by (cases x)
      from rb Continue x have c: "running_ok config seeds n out1" "adjacency_ok out1 adj" "grows out out1" by auto
      have ef: "case expand_frontier env config adj frontier (out1, [], tick1) of
          Failed e \<Rightarrow> True | Finished r \<Rightarrow> traversal_ok config seeds (Suc n) r
        | Continue (out', nxt', tick') \<Rightarrow> running_ok config seeds (Suc n) out' \<and> frontier_ok out' seeds (Suc n) nxt'"
        by (rule expand_frontier_ok [OF running_ok_mono [OF c(1)] frontier_ok_grows [OF Suc.prems(2) c(3)] c(2)])
          (simp_all add: frontier_ok_def)
      show ?thesis
      proof (cases "expand_frontier env config adj frontier (out1, [], tick1)")
        case (Finished r)
        with ef go Continue x traversal_ok_mono [of config seeds "Suc n" r "n + Suc hops"] show ?thesis by auto
      next
        case (Failed e)
        with go Continue x show ?thesis by auto
      next
        case ex: (Continue y)
        obtain out2 nxt tick2 where y: "y = (out2, nxt, tick2)" by (cases y)
        from ef ex y have "running_ok config seeds (Suc n) out2" "frontier_ok out2 seeds (Suc n) nxt" by auto
        from Suc.IH [OF this, of tick2, unfolded add_Suc_shift] go Continue x ex y show ?thesis by auto
      qed
    qed
  qed
qed simp

lemma close_ok:
  assumes "running_ok config seeds n out"
  shows "traversal_ok config seeds n (close_traversal out frontier)"
proof -
  define m where "m = (if frontier \<noteq> [] then mark ''hop_budget'' out else out)"
  have "running_ok config seeds n m" using assms by (auto simp: m_def intro: running_ok_mark)
  then show ?thesis
    unfolding close_traversal_def m_def [symmetric] Let_def
    using path_ok_same [of "m\<lparr>tv_frontier_exhausted := (frontier = [] \<and> tv_stop_reasons m = [])\<rparr>" m seeds]
    by (intro finish_ok) (auto simp: running_ok_def tables_ok_def paths_ok_def)
qed

lemma Traverse_traversal_ok:
  assumes "Traverse env rc mc deadline snapshot seeds config = Inr out"
  shows "traversal_ok config seeds (nat (MaximumHops config)) out"
proof -
  let ?run = "traverse_hops env config (nat (MaximumHops config)) (map (seed_path snapshot) (sort seeds)) (empty_result snapshot) 0"
  have v: "MaximumPaths config \<ge> 1" using assms by (auto simp: Traverse_def Validate_def split: if_splits)
  have "running_ok config seeds 0 (empty_result snapshot)"
    using v by (auto simp: running_ok_def tables_ok_def paths_ok_def empty_result_def)
  moreover have "frontier_ok (empty_result snapshot) seeds 0 (map (seed_path snapshot) (sort seeds))"
    by (auto simp: frontier_ok_def path_ok_def seed_path_def)
  ultimately have ok: "case ?run of Failed e \<Rightarrow> True | Finished r \<Rightarrow> traversal_ok config seeds (0 + nat (MaximumHops config)) r
    | Continue (out', frontier') \<Rightarrow> running_ok config seeds (0 + nat (MaximumHops config)) out'"
    by (rule traverse_hops_ok)
  have "?run = Finished out \<or> (\<exists>o' f. ?run = Continue (o', f) \<and> out = close_traversal o' f)"
    using assms by (auto simp: Traverse_def bind_result_Inr_iff guard_Inr_iff split: flow.splits)
  with ok show ?thesis by (auto intro: close_ok)
qed

text \<open>
  Claim C17. Whatever the graph reader returns, every path of a successful traversal is a simple walk
  from a seed of at most the configured number of hops: each step follows an admitted assertion
  between the two nodes, in one of its directions, with an admitted support of that assertion. The
  number of paths and the bytes read stay within their limits, every admitted assertion has a
  support and admitted end points, and the frontier is reported exhausted only when no budget
  stopped the traversal.
\<close>

theorem Traverse_sound:
  assumes "Traverse env rc mc deadline snapshot seeds config = Inr out"
  shows "(\<forall>p \<in> set (tv_paths out). path_ok out seeds p \<and> int (length (gp_ordered_assertion_ids p)) \<le> MaximumHops config) \<and>
    int (length (tv_paths out)) \<le> MaximumPaths config \<and> tv_read_bytes out \<le> rl_bytes (Read config) \<and>
    (\<forall>a \<in> set (tv_assertions out). (\<exists>s \<in> set (tv_supports out). su_assertion_id s = ra_id a) \<and>
       {ra_subject_id a, ra_object_id a} \<subseteq> ce_id ` set (tv_entities out)) \<and>
    (tv_frontier_exhausted out \<longrightarrow> tv_stop_reasons out = [])"
proof -
  have "1 \<le> MaximumHops config" using assms by (auto simp: Traverse_def Validate_def split: if_splits)
  with Traverse_traversal_ok [OF assms] show ?thesis
    by (auto simp: traversal_ok_def tables_ok_def paths_ok_def)
qed

section \<open>Example\<close>

definition tx_snapshot :: snapshot_ref where
  "tx_snapshot = \<lparr>sr_corpus_id = ''c'', sr_snapshot_id = ''s'', sr_sequence = 1, sr_manifest_hash = '''', sr_representation_generation = ''g''\<rparr>"

definition tx_meta :: "string \<Rightarrow> record_meta" where
  "tx_meta i = \<lparr>m_schema_version = 1, m_corpus_id = ''c'', m_record_id = i, m_visibility = Some (1, None)\<rparr>"

definition tx_batch :: GraphNeighborhood where
  "tx_batch = \<lparr>nb_snapshot = tx_snapshot,
     nb_entities = [\<lparr>ce_meta = tx_meta ''n'', ce_rest = ''''\<rparr>, \<lparr>ce_meta = tx_meta ''m'', ce_rest = ''''\<rparr>],
     nb_assertions = [\<lparr>ra_meta = tx_meta ''a'', ra_subject_id = ''m'', ra_object_id = ''n'', ra_predicate_id = [],
       ra_qualifiers = [], ra_exception_refs = [], ra_origin = ASSERTION_ORIGIN_EXPLICIT, ra_ontology_version = [], ra_rest = ''''\<rparr>],
     nb_supports = [\<lparr>su_meta = tx_meta ''u'', su_assertion_id = ''a'', su_rest = ''''\<rparr>],
     nb_more_assertions = False, nb_read_bytes = 4\<rparr>"

definition tx_codec :: "'m codec" where
  "tx_codec = \<lparr>c_marshal = (\<lambda>_. []), c_unmarshal = (\<lambda>_. None),
     c_reflect = (\<lambda>_. WireMessage ''regulagraph.v1.Message'' [] [] SemOther), c_size = (\<lambda>_. 1)\<rparr>"

definition tx_env :: env where
  "tx_env = \<lparr>te_host = bx_host, te_entity = tx_codec, te_assertion = tx_codec, te_support = tx_codec,
     te_read = (\<lambda>_ _ _. Inr (Some tx_batch)), te_ctx_err = (\<lambda>_. None), te_identity = (\<lambda>_ _ _ _. [])\<rparr>"

definition tx_config :: TraversalConfig where
  "tx_config = \<lparr>MaximumHops = 3, MaximumPaths = 8, Read = \<lparr>rl_assertions = 9, rl_supports = 9, rl_bytes = 90\<rparr>\<rparr>"

abbreviation tx_call :: "TraversalResult result" where
  "tx_call \<equiv> Traverse tx_env tx_codec tx_codec True tx_snapshot [''n''] tx_config"

lemma tx_call_ok:
  "map_sum id (\<lambda>out. (map gp_ordered_node_ids (tv_paths out), tv_frontier_exhausted out)) tx_call = Inr ([[''n'', ''m'']], True)"
  by code_simp

theorem Traverse_sound_witness:
  "\<exists>out. tx_call = Inr out \<and> map gp_ordered_node_ids (tv_paths out) = [[''n'', ''m'']] \<and>
     list_all (path_ok out [''n'']) (tv_paths out) \<and> tv_stop_reasons out = []"
proof -
  obtain out where out: "tx_call = Inr out" "map gp_ordered_node_ids (tv_paths out) = [[''n'', ''m'']]" "tv_frontier_exhausted out"
    using tx_call_ok by (cases tx_call) auto
  note s = Traverse_sound [OF out(1)]
  from conjunct1 [OF s] have "\<forall>p \<in> set (tv_paths out). path_ok out [''n''] p" by simp
  then have "list_all (path_ok out [''n'']) (tv_paths out)" by (simp only: list_all_iff)
  moreover from s [THEN conjunct2, THEN conjunct2, THEN conjunct2, THEN conjunct2] out(3) have "tv_stop_reasons out = []" by simp
  ultimately show ?thesis using out(1,2) by (intro exI [of _ out] conjI)
qed

end
