(* ===== verification/Text.thy ===== *)
theory Text
  imports Utf8
begin

text \<open>
  The parts of Go's \<open>strings\<close>, \<open>strconv\<close>, \<open>unicode\<close> and \<open>encoding/json\<close> that the identity code uses.
  A byte string is read rune by rune; a byte that is not part of a valid encoding is a rune of its
  own (\<open>U+FFFD\<close>). The theory shows that decimal numbers read back and that two JSON values whose
  strings are valid UTF-8 are rendered alike only if they are equal: a digest over a rendered
  structure covers every field of it.
\<close>

section \<open>Runs of runes\<close>

lemma DecodeRune_width: "s \<noteq> [] \<Longrightarrow> 1 \<le> snd (DecodeRune s) \<and> snd (DecodeRune s) \<le> length s"
  by (auto simp: DecodeRune_def Suc_le_eq dest: rune_width_bounds split: option.splits)

text \<open>The byte sequences of the runes of a string, in order.\<close>

function chunks :: "string \<Rightarrow> string list" where
  "chunks s = (if s = [] then [] else take (snd (DecodeRune s)) s # chunks (drop (snd (DecodeRune s)) s))"
  by pat_completeness auto
termination
proof (relation "measure length")
  fix s :: string
  assume "s \<noteq> []"
  with DecodeRune_width [of s] show "(drop (snd (DecodeRune s)) s, s) \<in> measure length" by simp
qed simp

declare chunks.simps [simp del]

lemma chunks_Nil [simp]: "chunks [] = []"
  by (simp add: chunks.simps)

lemma concat_chunks [simp]: "concat (chunks s) = s"
proof (induction s rule: chunks.induct)
  case (1 s)
  then show ?case by (cases "s = []") (simp_all add: chunks.simps [of s])
qed

definition IsSpace :: "nat \<Rightarrow> bool" where
  "IsSpace r \<longleftrightarrow>
     (let i = int r in
      9 \<le> i \<and> i \<le> 13 \<or> i = 32 \<or> i = 133 \<or> i = 160 \<or> i = 5760 \<or> 8192 \<le> i \<and> i \<le> 8202 \<or>
      i = 8232 \<or> i = 8233 \<or> i = 8239 \<or> i = 8287 \<or> i = 12288)"

definition space_chunk :: "string \<Rightarrow> bool" where
  "space_chunk c \<longleftrightarrow> IsSpace (fst (DecodeRune c))"

definition TrimSpace :: "string \<Rightarrow> string" where
  "TrimSpace s = concat (rev (dropWhile space_chunk (rev (dropWhile space_chunk (chunks s)))))"

text \<open>\<open>strings.Fields\<close>: the maximal runs of runes that are not white space.\<close>

definition field :: "string \<Rightarrow> string list" where
  "field current = (if current = [] then [] else [current])"

fun fields_of :: "string list \<Rightarrow> string \<Rightarrow> string list" where
  "fields_of [] current = field current"
| "fields_of (c # cs) current =
     (if space_chunk c then field current @ fields_of cs [] else fields_of cs (current @ c))"

definition Fields :: "string \<Rightarrow> string list" where
  "Fields s = fields_of (chunks s) []"

fun Join :: "string \<Rightarrow> string list \<Rightarrow> string" where
  "Join sep [] = []"
| "Join sep [x] = x"
| "Join sep (x # y # ys) = x @ sep @ Join sep (y # ys)"

text \<open>\<open>strings.Map\<close> for a mapping that keeps every rune.\<close>

definition strings_Map :: "(nat \<Rightarrow> nat) \<Rightarrow> string \<Rightarrow> string" where
  "strings_Map f s = concat (map (\<lambda>r. encode_rune (f r)) (runes_of s))"

definition NUL :: string where
  "NUL = [CHR 0x00]"

section \<open>Trimming\<close>

lemma chunks_Cons: "s \<noteq> [] \<Longrightarrow> chunks s = take (snd (DecodeRune s)) s # chunks (drop (snd (DecodeRune s)) s)"
  by (simp add: chunks.simps [of s])

lemma chunks_drop: "chunks (concat (drop k (chunks s))) = drop k (chunks s)"
proof (induction s arbitrary: k rule: chunks.induct)
  case (1 s)
  then show ?case by (cases "s = []"; cases k) (simp_all add: chunks_Cons)
qed

text \<open>The width of the first rune does not change when the text is cut after it.\<close>

lemma DecodeRune_prefix:
  assumes "s \<noteq> []" and "snd (DecodeRune s) \<le> k"
  shows "snd (DecodeRune (take k s)) = snd (DecodeRune s)"
proof (cases "rune_width s")
  case (Some n)
  with assms show ?thesis by (simp add: DecodeRune_def rune_width_take)
next
  case None
  then have "rune_width (take k s) = None"
    using rune_width_append [of "take k s" _ "drop k s"] by (cases "rune_width (take k s)") auto
  with None assms show ?thesis by (simp add: DecodeRune_def)
qed

lemma chunks_take: "chunks (concat (take k (chunks s))) = take k (chunks s)"
proof (induction s arbitrary: k rule: chunks.induct)
  case (1 s)
  show ?case
  proof (cases "s = [] \<or> k = 0")
    case False
    then obtain j where k: "k = Suc j" by (cases k) auto
    let ?n = "snd (DecodeRune s)"
    let ?t = "take ?n s @ concat (take j (chunks (drop ?n s)))"
    have n: "1 \<le> ?n" "?n \<le> length s" using False DecodeRune_width [of s] by auto
    have "concat (take j (chunks (drop ?n s))) = take (length (concat (take j (chunks (drop ?n s))))) (drop ?n s)"
      by (metis append_eq_conv_conj append_take_drop_id concat_append concat_chunks)
    then have t: "?t = take (length ?t) s" using n by (metis append_take_drop_id append_eq_conv_conj append.assoc)
    have "snd (DecodeRune ?t) = ?n"
      using DecodeRune_prefix [of s "length ?t"] False n by (subst t) simp
    moreover have "?t \<noteq> []" using n False by auto
    ultimately have "chunks ?t = take ?n s # chunks (concat (take j (chunks (drop ?n s))))"
      using n by (simp add: chunks_Cons [of ?t])
    with 1 [of j] False show ?thesis by (simp add: k chunks_Cons [of s])
  qed auto
qed

lemma rev_dropWhile_take: "rev (dropWhile P (rev xs)) = take (length xs - length (takeWhile P (rev xs))) xs"
  by (simp add: dropWhile_eq_drop rev_drop)

definition trimmed :: "string list \<Rightarrow> string list" where
  "trimmed cs = rev (dropWhile space_chunk (rev (dropWhile space_chunk cs)))"

lemma chunks_TrimSpace: "chunks (TrimSpace s) = trimmed (chunks s)"
proof -
  obtain j k where "trimmed (chunks s) = take j (drop k (chunks s))"
    unfolding trimmed_def rev_dropWhile_take by (metis dropWhile_eq_drop)
  then show ?thesis using chunks_take [of j "concat (drop k (chunks s))"]
    by (simp add: TrimSpace_def chunks_drop flip: trimmed_def)
qed

lemma trimmed_idem: "trimmed (trimmed cs) = trimmed cs"
proof -
  have keep: "dropWhile P (rev (dropWhile P (rev (dropWhile P xs)))) = rev (dropWhile P (rev (dropWhile P xs)))" for P :: "string \<Rightarrow> bool" and xs
  proof (cases "dropWhile P xs")
    case (Cons y ys)
    then have "\<not> P y" by (metis hd_dropWhile list.distinct(1) list.sel(1))
    with Cons show ?thesis by (simp add: dropWhile_append)
  next
    case Nil
    then show ?thesis by (simp only: rev.simps dropWhile.simps)
  qed
  show ?thesis by (simp add: trimmed_def keep)
qed

lemma TrimSpace_idem [simp]: "TrimSpace (TrimSpace s) = TrimSpace s"
  unfolding TrimSpace_def [of "TrimSpace s"] chunks_TrimSpace
  by (simp add: TrimSpace_def trimmed_idem flip: trimmed_def)

section \<open>Decimal numbers\<close>

definition digit :: "nat \<Rightarrow> char" where
  "digit n = char_of (48 + n)"

function Itoa :: "nat \<Rightarrow> string" where
  "Itoa n = (if n < 10 then [digit n] else Itoa (n div 10) @ [digit (n mod 10)])"
  by pat_completeness auto
termination by (relation "measure id") auto

declare Itoa.simps [simp del]

definition digits_value :: "string \<Rightarrow> nat" where
  "digits_value s = foldl (\<lambda>v c. 10 * v + (byte c - 48)) 0 s"

text \<open>\<open>strconv.ParseUint\<close> with base 10 and 32 bits.\<close>

definition ParseUint32 :: "string \<Rightarrow> nat option" where
  "ParseUint32 s =
     (if s \<noteq> [] \<and> list_all is_digit s \<and> int (digits_value s) < 4294967296 then Some (digits_value s) else None)"

lemma byte_digit: "n < 10 \<Longrightarrow> byte (digit n) = 48 + n"
  by (simp add: digit_def)

lemma is_digit_digit: "n < 10 \<Longrightarrow> is_digit (digit n)"
  by (simp add: is_digit_def less_eq_char_def byte_digit)

lemma digits_value_snoc: "digits_value (s @ [c]) = 10 * digits_value s + (byte c - 48)"
  by (simp add: digits_value_def)

lemma Itoa_digits: "list_all is_digit (Itoa n) \<and> Itoa n \<noteq> []"
proof (induction n rule: Itoa.induct)
  case (1 n)
  then show ?case by (simp add: Itoa.simps [of n] is_digit_digit)
qed

lemma digits_value_Itoa [simp]: "digits_value (Itoa n) = n"
proof (induction n rule: Itoa.induct)
  case (1 n)
  then show ?case
    by (cases "n < 10") (simp_all add: Itoa.simps [of n] digits_value_snoc byte_digit digits_value_def [of "[digit n]"])
qed

lemma ParseUint32_Itoa: "int n < 4294967296 \<Longrightarrow> ParseUint32 (Itoa n) = Some n"
  by (simp add: ParseUint32_def Itoa_digits)

lemma Itoa_inject [simp]: "Itoa m = Itoa n \<longleftrightarrow> m = n"
  by (metis digits_value_Itoa)

text \<open>A number is delimited by what follows it, if that does not start with a digit.\<close>

definition no_digit :: "string \<Rightarrow> bool" where
  "no_digit t \<longleftrightarrow> t = [] \<or> \<not> is_digit (hd t)"

lemma takeWhile_digits:
  "list_all is_digit s \<Longrightarrow> no_digit t \<Longrightarrow> takeWhile is_digit (s @ t) = s"
  by (cases t) (auto simp: no_digit_def takeWhile_append list_all_iff)

lemma Itoa_append_inject:
  assumes "Itoa m @ t = Itoa n @ u" and "no_digit t" and "no_digit u"
  shows "m = n \<and> t = u"
proof -
  have "Itoa m = Itoa n"
    using takeWhile_digits [of "Itoa m" t] takeWhile_digits [of "Itoa n" u] assms Itoa_digits by metis
  with assms(1) show ?thesis by simp
qed

section \<open>Valid text\<close>

lemma utf8_valid_rune: "rune_width s = Some (length s) \<Longrightarrow> utf8_valid s"
  by (cases "s = []") (simp_all add: utf8_valid_step)

lemma encode_rune_width: "rune_width (encode_rune r) = Some (length (encode_rune r))"
proof -
  consider "r < 128" | "128 \<le> r" "r < 2048" | "2048 \<le> r" "55296 \<le> r \<and> r \<le> 57343 \<or> 1114111 < r"
    | "2048 \<le> r" "\<not> (55296 \<le> r \<and> r \<le> 57343 \<or> 1114111 < r)" "r < 65536"
    | "\<not> (55296 \<le> r \<and> r \<le> 57343 \<or> 1114111 < r)" "65536 \<le> r" by linarith
  then show ?thesis
  proof cases
    case 1
    then show ?thesis by (simp add: encode_rune_def)
  next
    case 2
    then have "r div 64 < 32" "2 \<le> r div 64" by auto
    with 2 show ?thesis by (simp add: encode_rune_def continuation_def)
  next
    case 3
    then show ?thesis by (simp add: encode_rune_def continuation_def)
  next
    case 4
    have "r div 4096 < 16" using 4 by auto
    moreover have "32 \<le> r div 64 mod 64" if "r div 4096 = 0"
    proof -
      have "r < 4096" using that by (simp add: div_eq_0_iff)
      then have "r div 64 < 64" by auto
      moreover have "32 \<le> r div 64" using 4 by auto
      ultimately show ?thesis by simp
    qed
    moreover have "r div 64 mod 64 < 32" if "r div 4096 = 13"
    proof -
      have r: "53248 \<le> r" "r < 57344" using that by auto
      then have "r < 55296" using 4 by linarith
      then have "r div 64 < 864" "832 \<le> r div 64" using r by auto
      moreover have "r div 64 mod 64 = r div 64 - 832"
        using calculation by (simp add: mod_if)
      ultimately show ?thesis by linarith
    qed
    moreover have "r mod 64 \<le> 63" "r div 64 mod 64 \<le> 63" by (simp_all flip: less_Suc_eq_le)
    ultimately show ?thesis using 4 by (auto simp: encode_rune_def continuation_def)
  next
    case 5
    have "r div 262144 < 5" using 5 by auto
    moreover have "16 \<le> r div 4096 mod 64" if "r div 262144 = 0"
    proof -
      have "r < 262144" using that by (simp add: div_eq_0_iff)
      then have "r div 4096 < 64" by auto
      moreover have "16 \<le> r div 4096" using 5 by auto
      ultimately show ?thesis by simp
    qed
    moreover have "r div 4096 mod 64 < 16" if "r div 262144 = 4"
    proof -
      have "1048576 \<le> r" using that by auto
      then have "256 \<le> r div 4096" "r div 4096 < 272" using 5 by auto
      then have "r div 4096 mod 64 = r div 4096 - 256" by (simp add: mod_if)
      with \<open>r div 4096 < 272\<close> \<open>256 \<le> r div 4096\<close> show ?thesis by linarith
    qed
    moreover have "r mod 64 \<le> 63" "r div 64 mod 64 \<le> 63" "r div 4096 mod 64 \<le> 63" by (simp_all flip: less_Suc_eq_le)
    ultimately show ?thesis using 5 by (auto simp: encode_rune_def continuation_def)
  qed
qed

lemma utf8_valid_concat: "list_all utf8_valid ss \<Longrightarrow> utf8_valid (concat ss)"
  by (induction ss) (simp_all add: utf8_valid_append)

lemma utf8_valid_strings_Map: "utf8_valid (strings_Map f s)"
  unfolding strings_Map_def
  by (intro utf8_valid_concat) (simp add: list_all_iff encode_rune_width utf8_valid_rune)

text \<open>An ASCII string is valid.\<close>

lemma utf8_valid_ascii: "list_all (\<lambda>c. byte c < 128) s \<Longrightarrow> utf8_valid s"
proof (induction s)
  case (Cons c s)
  then show ?case by (simp add: utf8_valid_step)
qed simp

lemma utf8_valid_Itoa: "utf8_valid (Itoa n)"
  by (rule utf8_valid_ascii) (use Itoa_digits [of n] in \<open>auto simp: list_all_iff is_digit_def less_eq_char_def\<close>)

section \<open>Evaluation\<close>

text \<open>
  Code equations that tell an ASCII byte by its top bit, so that concrete texts evaluate quickly.
\<close>

lemma ascii_digit7: "byte c < 128 \<longleftrightarrow> \<not> digit7 c"
proof (cases c)
  case (Char b0 b1 b2 b3 b4 b5 b6 b7)
  then show ?thesis by (cases b0; cases b1; cases b2; cases b3; cases b4; cases b5; cases b6; cases b7) simp_all
qed

definition multi_width :: "char \<Rightarrow> string \<Rightarrow> nat option" where
  "multi_width a s = (case s of [] \<Rightarrow> None | b # s' \<Rightarrow>
        (if 194 \<le> byte a \<and> byte a \<le> 223 then (if continuation b then Some 2 else None)
         else case s' of [] \<Rightarrow> None | c # s'' \<Rightarrow>
           (if 224 \<le> byte a \<and> byte a \<le> 239 then
              (if continuation b \<and> continuation c \<and> (byte a = 224 \<longrightarrow> 160 \<le> byte b) \<and>
                  (byte a = 237 \<longrightarrow> byte b \<le> 159) then Some 3 else None)
            else case s'' of [] \<Rightarrow> None | d # _ \<Rightarrow>
              (if 240 \<le> byte a \<and> byte a \<le> 244 \<and> continuation b \<and> continuation c \<and> continuation d \<and>
                  (byte a = 240 \<longrightarrow> 144 \<le> byte b) \<and> (byte a = 244 \<longrightarrow> byte b \<le> 143)
               then Some 4 else None))))"

lemma rune_width_code [code]:
  "rune_width [] = None" "rune_width (a # s) = (if digit7 a then multi_width a s else Some 1)"
  by (simp, cases "digit7 a") (simp_all add: multi_width_def ascii_digit7 split del: if_split)

definition ascii_spaces :: "char list" where
  "ascii_spaces = [CHR 0x09, CHR 0x0A, CHR 0x0B, CHR 0x0C, CHR 0x0D, CHR 0x20]"

lemma IsSpace_ascii: "\<not> digit7 c \<Longrightarrow> IsSpace (byte c) \<longleftrightarrow> c \<in> set ascii_spaces"
proof (cases c)
  case (Char b0 b1 b2 b3 b4 b5 b6 b7)
  moreover assume "\<not> digit7 c"
  ultimately show ?thesis unfolding ascii_spaces_def IsSpace_def
    by (cases b0; cases b1; cases b2; cases b3; cases b4; cases b5; cases b6) simp_all
qed

lemma space_chunk_code [code]:
  "space_chunk s = (case s of [c] \<Rightarrow> if digit7 c then IsSpace (fst (DecodeRune s)) else List.member ascii_spaces c
     | _ \<Rightarrow> IsSpace (fst (DecodeRune s)))"
  by (auto simp: space_chunk_def DecodeRune_def rune_width_code IsSpace_ascii split: list.splits simp del: rune_width.simps)

lemma chunks_code [code]:
  "chunks [] = []"
  "chunks (c # s) = (if digit7 c then take (snd (DecodeRune (c # s))) (c # s) # chunks (drop (snd (DecodeRune (c # s))) (c # s))
     else [c] # chunks s)"
  by (simp_all add: chunks_Cons DecodeRune_def rune_width_code del: rune_width.simps)

lemma runes_of_code [code]:
  "runes_of [] = []"
  "runes_of (c # s) = (if digit7 c then fst (DecodeRune (c # s)) # runes_of (drop (snd (DecodeRune (c # s))) (c # s))
     else byte c # runes_of s)"
  by (simp_all add: runes_of.simps [of "[]"] runes_of.simps [of "c # s"] DecodeRune_def rune_width_code case_prod_unfold del: rune_width.simps)

end
