(* ===== verification/Json.thy ===== *)
theory Json
  imports Text
begin

text \<open>
  What \<open>encoding/json\<close> writes for the structures that the identity code digests: strings with their
  escapes, numbers, arrays and objects. The rendering is injective on values whose strings are
  valid UTF-8 (\<open>render_eq_iff\<close>), so that a digest over it covers every field.
\<close>

section \<open>Strings\<close>

definition hex_digit :: "nat \<Rightarrow> char" where
  "hex_digit n = (if n < 10 then char_of (48 + n) else char_of (87 + n))"

text \<open>The letter of a two-character escape.\<close>

definition short_escape :: "char \<Rightarrow> char option" where
  "short_escape c = map_of [(34, CHR 0x22), (92, CHR 0x5C), (8, CHR ''b''), (12, CHR ''f''), (10, CHR ''n''),
     (13, CHR ''r''), (9, CHR ''t'')] (byte c :: nat)"

text \<open>
  One byte below 128. Besides control characters the encoder escapes the characters that HTML
  treats specially (60, 62 and 38).
\<close>

definition json_ascii :: "char \<Rightarrow> string" where
  "json_ascii c =
     (case short_escape c of
        Some e \<Rightarrow> [CHR 0x5C, e]
      | None \<Rightarrow>
          if byte c < 32 \<or> byte c = 60 \<or> byte c = 62 \<or> byte c = 38
          then CHR 0x5C # ''u00'' @ [hex_digit (byte c div 16), hex_digit (byte c mod 16)]
          else [c])"

text \<open>The encoding of one rune; an invalid byte and the two line separators are escaped.\<close>

definition json_chunk :: "string \<Rightarrow> string" where
  "json_chunk s =
     (if rune_width s = None then CHR 0x5C # ''ufffd''
      else if byte (hd s) < 128 then json_ascii (hd s)
      else if fst (DecodeRune s) = 8232 then CHR 0x5C # ''u2028''
      else if fst (DecodeRune s) = 8233 then CHR 0x5C # ''u2029''
      else s)"

definition json_string :: "string \<Rightarrow> string" where
  "json_string s = CHR 0x22 # concat (map json_chunk (chunks s)) @ [CHR 0x22]"

section \<open>Values\<close>

text \<open>The values that the sources marshal: the fields of a structure in their order.\<close>

datatype json =
    JNull
  | JStr string
  | JNum nat
  | JArr "json list"
  | JObj "(string \<times> json) list"

fun render :: "json \<Rightarrow> string" where
  "render JNull = ''null''"
| "render (JStr s) = json_string s"
| "render (JNum n) = Itoa n"
| "render (JArr vs) = ''['' @ Join '','' (map render vs) @ '']''"
| "render (JObj fs) = CHR 0x7B # Join '','' (map (\<lambda>(k, v). json_string k @ '':'' @ render v) fs) @ [CHR 0x7D]"

text \<open>Every string of the value is valid UTF-8.\<close>

fun json_valid :: "json \<Rightarrow> bool" where
  "json_valid JNull = True"
| "json_valid (JStr s) = utf8_valid s"
| "json_valid (JNum n) = True"
| "json_valid (JArr vs) = list_all json_valid vs"
| "json_valid (JObj fs) = list_all (\<lambda>(k, v). utf8_valid k \<and> json_valid v) fs"

section \<open>A rendered value determines the value\<close>

text \<open>One complete rune.\<close>

definition whole_rune :: "string \<Rightarrow> bool" where
  "whole_rune s \<longleftrightarrow> rune_width s = Some (length s)"

lemma utf8_valid_chunks: "utf8_valid s \<Longrightarrow> list_all whole_rune (chunks s)"
proof (induction s rule: chunks.induct)
  case (1 s)
  show ?case
  proof (cases "s = []")
    case False
    with "1.prems" obtain n where n: "rune_width s = Some n" "utf8_valid (drop n s)"
      by (auto simp: utf8_valid_step)
    moreover have "rune_width (take n s) = Some n" using n(1) by (rule rune_width_take) simp
    ultimately show ?thesis
      using False "1.IH" rune_width_bounds [OF n(1)]
      by (simp add: chunks.simps [of s] DecodeRune_def whole_rune_def min_def)
  qed simp
qed

lemma hex_digit_inject: "m < 16 \<Longrightarrow> n < 16 \<Longrightarrow> hex_digit m = hex_digit n \<longleftrightarrow> m = n"
  by (auto simp: hex_digit_def simp flip: of_char_eq_iff split: if_splits)

lemma json_ascii_cases:
  obtains (short) e where "short_escape c = Some e" "json_ascii c = [CHR 0x5C, e]"
  | (long) "short_escape c = None" "byte c < 128"
      "json_ascii c = CHR 0x5C # CHR ''u'' # CHR ''0'' # CHR ''0'' # [hex_digit (byte c div 16), hex_digit (byte c mod 16)]"
  | (verbatim) "short_escape c = None" "json_ascii c = [c]" "c \<noteq> CHR 0x5C" "c \<noteq> CHR 0x22"
proof (cases "short_escape c")
  case (Some e)
  then show ?thesis by (intro short) (simp_all add: json_ascii_def)
next
  case None
  then have "byte c \<noteq> 92" "byte c \<noteq> 34" by (auto simp: short_escape_def)
  then have "c \<noteq> CHR 0x5C" "c \<noteq> CHR 0x22" by auto
  with None show ?thesis
    by (cases "byte c < 32 \<or> byte c = 60 \<or> byte c = 62 \<or> byte c = 38")
       (auto simp: json_ascii_def intro: long verbatim)
qed

lemma short_escape_letter: "short_escape c = Some e \<Longrightarrow> e \<noteq> CHR ''u''"
  by (auto simp: short_escape_def split: if_splits)

lemma short_escape_inject: "short_escape c = Some e \<Longrightarrow> short_escape d = Some e \<Longrightarrow> c = d"
proof -
  assume "short_escape c = Some e" "short_escape d = Some e"
  then show "c = d" by (auto simp: short_escape_def split: if_splits) (metis char_of_char)+
qed

lemma json_ascii_inject:
  assumes "json_ascii c @ t = json_ascii d @ u"
  shows "c = d \<and> t = u"
proof (cases c rule: json_ascii_cases)
  case (short e)
  then show ?thesis using assms
    by (cases d rule: json_ascii_cases) (auto dest: short_escape_letter short_escape_inject)
next
  case long
  then show ?thesis
  proof (cases d rule: json_ascii_cases)
    case (short e)
    with long assms show ?thesis by (auto dest: short_escape_letter)
  next
    case long': long
    with long assms have "hex_digit (byte c div 16) = hex_digit (byte d div 16)"
      "hex_digit (byte c mod 16) = hex_digit (byte d mod 16)" and t: "t = u" by auto
    moreover have "byte c div 16 < 16" "byte d div 16 < 16" using long(2) long'(2) by simp_all
    ultimately have "byte c div 16 = byte d div 16" "byte c mod 16 = byte d mod 16"
      by (simp_all add: hex_digit_inject)
    then have "byte c = byte d" by (metis div_mult_mod_eq)
    with t show ?thesis by simp
  qed (use long assms in auto)
next
  case verbatim
  then show ?thesis using assms by (cases d rule: json_ascii_cases) auto
qed

lemma json_ascii_hd: "hd (json_ascii c) \<noteq> CHR 0x22 \<and> json_ascii c \<noteq> []"
  by (cases c rule: json_ascii_cases) auto

lemma json_ascii_hd_low: "byte c < 128 \<Longrightarrow> byte (hd (json_ascii c)) < 128"
  by (cases c rule: json_ascii_cases) auto

lemma whole_rune_nonempty: "whole_rune a \<Longrightarrow> a \<noteq> []"
  by (auto simp: whole_rune_def)

lemma whole_rune_ascii: "whole_rune a \<Longrightarrow> byte (hd a) < 128 \<Longrightarrow> a = [hd a]"
  by (cases a) (auto simp: whole_rune_def)

lemma whole_rune_shape:
  assumes "whole_rune a"
  shows "(\<exists>c. a = [c] \<and> byte c < 128) \<or>
    (\<exists>x y. a = [x, y] \<and> 194 \<le> byte x \<and> byte x \<le> 223 \<and> continuation y) \<or>
    (\<exists>x y z. a = [x, y, z] \<and> 224 \<le> byte x \<and> byte x \<le> 239 \<and> continuation y \<and> continuation z \<and>
       (byte x = 224 \<longrightarrow> 160 \<le> byte y)) \<or>
    (\<exists>x y z w. a = [x, y, z, w] \<and> 240 \<le> byte x \<and> continuation y \<and> continuation z \<and> continuation w \<and>
       (byte x = 240 \<longrightarrow> 144 \<le> byte y))"
proof -
  obtain x xs where a: "a = x # xs" using whole_rune_nonempty [OF assms] by (cases a) auto
  from assms have "rune_width (x # xs) = Some (Suc (length xs))" by (simp add: whole_rune_def a)
  then show ?thesis unfolding a
    by (cases xs; cases "tl xs"; cases "tl (tl xs)"; cases "tl (tl (tl xs))") (simp_all split: if_splits)
qed

lemma separator_values:
  fixes x y z w k :: nat
  assumes "k < 2"
  shows "194 \<le> x \<and> x \<le> 223 \<and> 128 \<le> y \<and> y \<le> 191 \<Longrightarrow> (x - 192) * 64 + y - 128 \<noteq> 8232 + k"
    and "224 \<le> x \<and> 128 \<le> y \<and> y \<le> 191 \<and> 128 \<le> z \<and> z \<le> 191 \<Longrightarrow>
      (x - 224) * 4096 + (y - 128) * 64 + z - 128 = 8232 + k \<Longrightarrow> x = 226 \<and> y = 128 \<and> z = 168 + k"
    and "240 \<le> x \<Longrightarrow> (x = 240 \<longrightarrow> 144 \<le> y) \<Longrightarrow>
      (x - 240) * 262144 + (y - 128) * 4096 + (z - 128) * 64 + (w - 128) \<noteq> 8232 + k"
proof -
  show "(x - 192) * 64 + y - 128 \<noteq> 8232 + k" if "194 \<le> x \<and> x \<le> 223 \<and> 128 \<le> y \<and> y \<le> 191"
    using that by auto
  show "x = 226 \<and> y = 128 \<and> z = 168 + k"
    if r: "224 \<le> x \<and> 128 \<le> y \<and> y \<le> 191 \<and> 128 \<le> z \<and> z \<le> 191"
      and e: "(x - 224) * 4096 + (y - 128) * 64 + z - 128 = 8232 + k"
  proof -
    obtain i j l where s: "x = 224 + i" "y = 128 + j" "z = 128 + l" using r by (metis le_Suc_ex)
    from s r e have "i * 4096 + j * 64 + l = 8232 + k" "j \<le> 63" "l \<le> 63" by simp_all
    moreover from this have "i \<le> 2" "2 \<le> i" using assms by linarith+
    ultimately have v: "i = 2" "j * 64 + l = 40 + k" "l \<le> 63" by linarith+
    then have "j = 0" using assms by linarith
    with v s show ?thesis by simp
  qed
  show "(x - 240) * 262144 + (y - 128) * 4096 + (z - 128) * 64 + (w - 128) \<noteq> 8232 + k"
    if "240 \<le> x" "x = 240 \<longrightarrow> 144 \<le> y"
  proof (cases "x = 240")
    case True
    with that have "16 * 4096 \<le> (y - 128) * 4096" by (intro mult_right_mono) auto
    with assms show ?thesis by linarith
  next
    case False
    with that have "1 * 262144 \<le> (x - 240) * 262144" by (intro mult_right_mono) auto
    with assms show ?thesis by linarith
  qed
qed

lemma separator_bytes:
  assumes "whole_rune a" and "\<not> byte (hd a) < 128" and "fst (DecodeRune a) = 8232 + k" and "k < 2"
  shows "a = [CHR 0xE2, CHR 0x80, char_of (168 + k)]"
proof -
  have "\<not> (\<exists>c. a = [c] \<and> byte c < 128)" using assms(2) by auto
  with whole_rune_shape [OF assms(1)] have "\<exists>x y z. a = [x, y, z] \<and> byte x = 226 \<and> byte y = 128 \<and> byte z = 168 + k"
    using assms(1,3,4) separator_values [OF assms(4)]
    by (elim disjE exE conjE) (simp_all add: DecodeRune_def continuation_def whole_rune_def del: rune_width.simps, blast)
  then obtain x y z where b: "a = [x, y, z]" "byte x = 226" "byte y = 128" "byte z = 168 + k" by blast
  then have "x = char_of (226 :: nat)" "y = char_of (128 :: nat)" "z = char_of (168 + k)"
    by (metis char_of_char)+
  moreover have "char_of (226 :: nat) = CHR 0xE2" "char_of (128 :: nat) = CHR 0x80" by code_simp+
  ultimately show ?thesis by (simp add: b)
qed

lemma json_chunk_cases:
  assumes "whole_rune a"
  obtains (ascii) c where "a = [c]" "byte c < 128" "json_chunk a = json_ascii c"
  | (separator) k :: nat where "k < 2" "a = [CHR 0xE2, CHR 0x80, char_of (168 + k)]"
      "json_chunk a = CHR 0x5C # CHR ''u'' # CHR ''2'' # CHR ''0'' # CHR ''2'' # [char_of (56 + k)]"
  | (verbatim) "json_chunk a = a" "\<not> byte (hd a) < 128"
proof (cases "byte (hd a) < 128")
  case True
  with assms whole_rune_ascii [OF assms] show ?thesis
    by (intro ascii [of "hd a"]) (simp_all add: json_chunk_def whole_rune_def)
next
  case False
  show ?thesis
  proof (cases "\<exists>k < (2::nat). fst (DecodeRune a) = 8232 + k")
    case True
    then obtain k where k: "k < 2" "fst (DecodeRune a) = 8232 + k" by blast
    from k(1) have "k = 0 \<or> k = 1" by auto
    moreover have "CHR ''8'' = char_of (56 :: nat)" "CHR ''9'' = char_of (57 :: nat)" by code_simp+
    ultimately show ?thesis
      using k(2) False assms by (intro separator [OF k(1) separator_bytes [OF assms False k(2,1)]])
         (auto simp: json_chunk_def whole_rune_def)
  next
    case no: False
    then have "fst (DecodeRune a) \<noteq> 8232" "fst (DecodeRune a) \<noteq> 8233"
      using no [simplified] by (auto dest: spec [of _ 0] spec [of _ 1])
    with False assms show ?thesis by (intro verbatim) (simp_all add: json_chunk_def whole_rune_def)
  qed
qed

lemma json_ascii_separator: "json_ascii c @ t \<noteq> CHR 0x5C # CHR ''u'' # CHR ''2'' # u"
  by (cases c rule: json_ascii_cases) (auto dest: short_escape_letter)

lemma json_ascii_high: "byte c < 128 \<Longrightarrow> b \<noteq> [] \<Longrightarrow> \<not> byte (hd b) < 128 \<Longrightarrow> json_ascii c @ t \<noteq> b @ u"
  using json_ascii_hd_low [of c] json_ascii_hd [of c] by (metis hd_append2)

lemma json_chunk_inject:
  assumes "whole_rune a" "whole_rune b" "json_chunk a @ t = json_chunk b @ u"
  shows "a = b \<and> t = u"
  using assms(1)
proof (cases a rule: json_chunk_cases)
  case (ascii c)
  from assms(2) show ?thesis
  proof (cases b rule: json_chunk_cases)
    case (ascii d)
    with \<open>a = [c]\<close> \<open>json_chunk a = json_ascii c\<close> assms(3) show ?thesis by (auto dest: json_ascii_inject)
  next
    case (separator k)
    with ascii assms(3) show ?thesis by (simp add: json_ascii_separator)
  next
    case verbatim
    with ascii assms whole_rune_nonempty [OF assms(2)] show ?thesis by (simp add: json_ascii_high)
  qed
next
  case (separator k)
  from assms(2) show ?thesis
  proof (cases b rule: json_chunk_cases)
    case (ascii d)
    with separator assms(3) show ?thesis using json_ascii_separator [of d u] by (metis append_Cons)
  next
    case (separator l)
    with \<open>k < 2\<close> \<open>a = _\<close> \<open>json_chunk a = _\<close> assms(3) show ?thesis by (auto simp: less_2_cases_iff)
  next
    case verbatim
    with separator assms(3) whole_rune_nonempty [OF assms(2)] show ?thesis by (cases b) auto
  qed
next
  case verbatim
  from assms(2) show ?thesis
  proof (cases b rule: json_chunk_cases)
    case (ascii d)
    with verbatim assms whole_rune_nonempty [OF assms(1)] show ?thesis by (metis json_ascii_high)
  next
    case (separator l)
    with verbatim assms(3) whole_rune_nonempty [OF assms(1)] show ?thesis by (cases a) auto
  next
    case verbatim': verbatim
    have "rune_width (a @ t) = Some (length a)" "rune_width (b @ u) = Some (length b)"
      using assms(1,2) by (simp_all add: whole_rune_def rune_width_append)
    with verbatim verbatim' assms(3) show ?thesis by simp
  qed
qed

lemma json_chunk_hd:
  assumes "whole_rune a"
  shows "json_chunk a \<noteq> [] \<and> hd (json_chunk a) \<noteq> CHR 0x22"
  using assms
proof (cases a rule: json_chunk_cases)
  case (ascii c)
  then show ?thesis using json_ascii_hd [of c] by simp
next
  case verbatim
  then show ?thesis using whole_rune_nonempty [OF assms] by auto
qed simp

lemma json_chunks_inject:
  assumes "list_all whole_rune as" "list_all whole_rune bs"
    and "concat (map json_chunk as) @ CHR 0x22 # t = concat (map json_chunk bs) @ CHR 0x22 # u"
  shows "as = bs \<and> t = u"
  using assms
proof (induction as arbitrary: bs)
  case Nil
  then show ?case
    using json_chunk_hd by (cases bs) (auto simp: neq_Nil_conv append_eq_Cons_conv, fastforce)
next
  case (Cons a as)
  show ?case
  proof (cases bs)
    case Nil
    with Cons.prems json_chunk_hd [of a] show ?thesis by (auto simp: neq_Nil_conv)
  next
    case (Cons b bs')
    with Cons.prems json_chunk_inject [of a b] have "a = b"
      and "concat (map json_chunk as) @ CHR 0x22 # t = concat (map json_chunk bs') @ CHR 0x22 # u" by auto
    with Cons.IH [of bs'] Cons.prems Cons show ?thesis by auto
  qed
qed

text \<open>A rendered string ends where it ends: no valid string's rendering is a prefix of another's.\<close>

lemma json_string_inject:
  assumes "json_string s @ t = json_string s' @ u" and "utf8_valid s" and "utf8_valid s'"
  shows "s = s' \<and> t = u"
proof -
  have "chunks s = chunks s' \<and> t = u"
    by (rule json_chunks_inject) (use assms utf8_valid_chunks in \<open>auto simp: json_string_def\<close>)
  then show ?thesis by (metis concat_chunks)
qed

text \<open>Comma separated lists whose elements are delimited by their follow-up.\<close>

lemma Join_Cons: "Join '','' (x # xs) = x @ (if xs = [] then [] else '','' @ Join '','' xs)"
  by (cases xs) auto

definition delimiter :: "string \<Rightarrow> bool" where
  "delimiter t \<longleftrightarrow> t \<noteq> [] \<and> hd t \<in> {CHR '','', CHR '']'', CHR 0x7D}"

lemma Join_inject:
  assumes "\<And>x y t u. x \<in> set xs \<Longrightarrow> y \<in> set ys \<Longrightarrow> f x @ t = f y @ u \<Longrightarrow> delimiter t \<Longrightarrow> delimiter u \<Longrightarrow> x = y \<and> t = u"
    and "\<And>x. x \<in> set xs \<union> set ys \<Longrightarrow> f x \<noteq> [] \<and> hd (f x) \<noteq> e"
    and "e \<in> {CHR '']'', CHR 0x7D}"
    and "Join '','' (map f xs) @ e # t = Join '','' (map f ys) @ e # u"
  shows "xs = ys \<and> t = u"
  using assms
proof (induction xs arbitrary: ys)
  case Nil
  show ?case
  proof (cases ys)
    case (Cons y ys')
    with Nil.prems(2) [of y] obtain c cs where "f y = c # cs" "c \<noteq> e" by (auto simp: neq_Nil_conv)
    with Nil.prems(4) Cons show ?thesis by (simp add: Join_Cons)
  qed (use Nil.prems(4) in simp)
next
  case (Cons x xs)
  show ?case
  proof (cases ys)
    case Nil
    with Cons.prems(2) [of x] Cons.prems(4) show ?thesis by (auto simp: Join_Cons neq_Nil_conv split: if_splits)
  next
    case ys: (Cons y ys')
    define rest where "rest zs w = (if zs = [] then [] else '','' @ Join '','' (map f zs)) @ e # w" for zs w
    have "f x @ rest xs t = f y @ rest ys' u"
      using Cons.prems(4) by (simp add: ys rest_def Join_Cons)
    moreover have "delimiter (rest zs w)" for zs w using Cons.prems(3) by (auto simp: rest_def delimiter_def)
    ultimately have xy: "x = y" "rest xs t = rest ys' u" using Cons.prems(1) [of x y] by (auto simp: ys)
    then have "xs = [] \<longleftrightarrow> ys' = []" using Cons.prems(3) by (auto simp: rest_def split: if_splits)
    with xy(2) have "Join '','' (map f xs) @ e # t = Join '','' (map f ys') @ e # u"
      by (auto simp: rest_def split: if_splits)
    with Cons.IH [of ys'] Cons.prems(1-3) have "xs = ys' \<and> t = u" by (auto simp: ys)
    with xy(1) show ?thesis by (simp add: ys)
  qed
qed

text \<open>The first character of a rendering tells its kind.\<close>

fun lead :: "json \<Rightarrow> char \<Rightarrow> bool" where
  "lead JNull c = (c = CHR ''n'')"
| "lead (JStr _) c = (c = CHR 0x22)"
| "lead (JNum _) c = is_digit c"
| "lead (JArr _) c = (c = CHR ''['')"
| "lead (JObj _) c = (c = CHR 0x7B)"

lemma render_lead: "render v \<noteq> [] \<and> lead v (hd (render v))"
proof (cases v)
  case (JNum n)
  then show ?thesis using Itoa_digits [of n] by (cases "Itoa n") auto
qed (auto simp: json_string_def)

lemma no_lead: "\<not> lead v CHR '']''" "\<not> lead v CHR 0x7D"
  by (cases v; simp add: is_digit_def less_eq_char_def)+

lemma render_end: "render v \<noteq> [] \<and> hd (render v) \<noteq> CHR '']'' \<and> hd (render v) \<noteq> CHR 0x7D"
  using render_lead [of v] no_lead [of v] by metis

lemma lead_kind:
  assumes "render a @ t = render b @ u"
  shows "lead a (hd (render b))"
  using render_lead [of a] render_lead [of b] assms by (metis hd_append2)

lemma digit_is_not: "\<not> is_digit CHR ''n''" "\<not> is_digit CHR 0x22" "\<not> is_digit CHR ''[''" "\<not> is_digit CHR 0x7B"
  by (simp_all add: is_digit_def less_eq_char_def)

lemma delimiter_no_digit: "delimiter t \<Longrightarrow> no_digit t"
  by (auto simp: delimiter_def no_digit_def is_digit_def less_eq_char_def)

lemma render_inject:
  assumes "json_valid a" "json_valid b" "render a @ t = render b @ u" "delimiter t" "delimiter u"
  shows "a = b \<and> t = u"
  using assms
proof (induction a arbitrary: b t u)
  case JNull
  then show ?case using lead_kind [OF JNull.prems(3)] render_lead [of b]
    by (cases b) (auto simp: digit_is_not)
next
  case (JStr s)
  then show ?case using lead_kind [OF JStr.prems(3)] render_lead [of b]
    by (cases b) (auto simp: digit_is_not dest: json_string_inject)
next
  case (JNum n)
  then show ?case using lead_kind [OF JNum.prems(3)] render_lead [of b]
    by (cases b) (auto simp: digit_is_not dest: Itoa_append_inject delimiter_no_digit)
next
  case (JArr vs)
  with lead_kind [OF JArr.prems(3)] render_lead [of b] obtain ws where b: "b = JArr ws"
    by (cases b) (auto simp: digit_is_not)
  have "vs = ws \<and> t = u"
  proof (rule Join_inject [of vs ws render "CHR '']''"])
    show "x = y \<and> t' = u'" if "x \<in> set vs" "y \<in> set ws" "render x @ t' = render y @ u'" "delimiter t'" "delimiter u'" for x y t' u'
      using JArr.IH [OF that(1) _ _ that(3-5)] JArr.prems(1,2) that(1,2) by (auto simp: b list_all_iff)
  qed (use JArr.prems(3) render_end in \<open>auto simp: b\<close>)
  then show ?case by (simp add: b)
next
  case (JObj fs)
  with lead_kind [OF JObj.prems(3)] render_lead [of b] obtain gs where b: "b = JObj gs"
    by (cases b) (auto simp: digit_is_not)
  let ?f = "\<lambda>(k, v). json_string k @ '':'' @ render v"
  have "fs = gs \<and> t = u"
  proof (rule Join_inject [of fs gs ?f "CHR 0x7D"])
    fix x y t' u'
    assume x: "x \<in> set fs" "y \<in> set gs" "?f x @ t' = ?f y @ u'" "delimiter t'" "delimiter u'"
    obtain k v l w where xy: "x = (k, v)" "y = (l, w)" by (metis surj_pair)
    have valid: "utf8_valid k" "json_valid v" "utf8_valid l" "json_valid w"
      using JObj.prems(1,2) x(1,2) by (auto simp: b xy list_all_iff)
    have "k = l" "render v @ t' = render w @ u'"
      using json_string_inject [of k "'':'' @ render v @ t'" l "'':'' @ render w @ u'"] x(3) valid by (auto simp: xy)
    moreover have "v = w \<and> t' = u'"
      using JObj.IH [OF x(1), of v w t' u'] calculation(2) valid x(4,5) by (simp add: xy)
    ultimately show "x = y \<and> t' = u'" by (simp add: xy)
  qed (use JObj.prems(3) in \<open>auto simp: b json_string_def\<close>)
  then show ?case by (simp add: b)
qed

text \<open>Two values with valid strings that are rendered alike are the same value.\<close>

lemma render_eq_iff: "json_valid a \<Longrightarrow> json_valid b \<Longrightarrow> render a = render b \<longleftrightarrow> a = b"
  using render_inject [of a b "'',''" "'',''"] by (auto simp: delimiter_def)

section \<open>Evaluation\<close>

text \<open>
  Code equations on characters instead of their codes.
\<close>

lemma short_escape_code [code]:
  "short_escape c = map_of [(CHR 0x22, CHR 0x22), (CHR 0x5C, CHR 0x5C), (CHR 0x08, CHR ''b''), (CHR 0x0C, CHR ''f''),
     (CHR 0x0A, CHR ''n''), (CHR 0x0D, CHR ''r''), (CHR 0x09, CHR ''t'')] c"
proof (cases c)
  case (Char b0 b1 b2 b3 b4 b5 b6 b7)
  then show ?thesis unfolding short_escape_def
    by (cases b0; cases b1; cases b2; cases b3; cases b4; cases b5; cases b6; cases b7) simp_all
qed

lemma json_escaped_code:
  "byte c < 32 \<or> byte c = 60 \<or> byte c = 62 \<or> byte c = 38 \<longleftrightarrow>
     \<not> digit5 c \<and> \<not> digit6 c \<and> \<not> digit7 c \<or> c = CHR 0x3C \<or> c = CHR 0x3E \<or> c = CHR 0x26"
proof (cases c)
  case (Char b0 b1 b2 b3 b4 b5 b6 b7)
  then show ?thesis
    by (cases b0; cases b1; cases b2; cases b3; cases b4; cases b5; cases b6; cases b7) simp_all
qed

lemma json_ascii_code [code]:
  "json_ascii c =
     (case short_escape c of
        Some e \<Rightarrow> [CHR 0x5C, e]
      | None \<Rightarrow>
          if \<not> digit5 c \<and> \<not> digit6 c \<and> \<not> digit7 c \<or> c = CHR 0x3C \<or> c = CHR 0x3E \<or> c = CHR 0x26
          then CHR 0x5C # ''u00'' @ [hex_digit (byte c div 16), hex_digit (byte c mod 16)]
          else [c])"
  by (simp only: json_ascii_def json_escaped_code)

lemma json_chunk_code [code]:
  "json_chunk s =
     (if rune_width s = None then CHR 0x5C # ''ufffd''
      else if \<not> digit7 (hd s) then json_ascii (hd s)
      else if fst (DecodeRune s) = 8232 then CHR 0x5C # ''u2028''
      else if fst (DecodeRune s) = 8233 then CHR 0x5C # ''u2029''
      else s)"
  by (simp only: json_chunk_def ascii_digit7)

end
