(* ===== verification/Registry.thy ===== *)
theory Registry
  imports Boundaries Ordering Json "HOL-Library.AList"
begin

text \<open>
  The identity of regulations (\<open>domain/registry.go\<close>): the candidates that source observations
  support, the claims on the canonical registry that follow from them, and the bindings that the
  registry's assignments give. Go maps are association lists with distinct keys; the results do not
  depend on the order of their entries. SHA-256 and the Unicode case table are parameters
  (\<open>host\<close>). A nil slice and an empty one are not distinguished.
\<close>

section \<open>Constants and records\<close>

definition RegulationIdentityKeyNamespace :: string where
  "RegulationIdentityKeyNamespace = ''regulation-natural-key:v1''"

definition RegulationCanonicalIdentityKeyNamespace :: string where
  "RegulationCanonicalIdentityKeyNamespace = ''regulation-canonical-issuer-key:v2''"

definition IssuerIdentityKeyNamespace :: string where
  "IssuerIdentityKeyNamespace = ''issuer-exact-label-jurisdiction:v1''"

definition RegulationIdentityMetadataPolicy :: string where
  "RegulationIdentityMetadataPolicy = ''regulation-metadata-fields:v2''"

definition CanonicalEntityTypeRegulation :: int where
  "CanonicalEntityTypeRegulation = 1"

definition CanonicalEntityTypeOrganization :: int where
  "CanonicalEntityTypeOrganization = 2"

definition CanonicalEntityTypeProvision :: int where
  "CanonicalEntityTypeProvision = 3"

definition entity_type_codes :: "(string \<times> int) list" where
  "entity_type_codes =
     [(''regulation'', CanonicalEntityTypeRegulation), (''organization'', CanonicalEntityTypeOrganization),
      (''provision'', CanonicalEntityTypeProvision), (''role'', 4), (''person'', 5), (''activity'', 6),
      (''obligation'', 7), (''requirement'', 8), (''exception'', 9), (''defined_term'', 10), (''permit'', 11),
      (''prohibition'', 12), (''procedure'', 13), (''document'', 14), (''sanction'', 15), (''date'', 16),
      (''place'', 17), (''legal_concept'', 18)]"

definition CanonicalEntityTypeCode :: "string \<Rightarrow> int" where
  "CanonicalEntityTypeCode name = (case map_of entity_type_codes name of None \<Rightarrow> 0 | Some code \<Rightarrow> code)"

record RegulationIdentityPolicy =
  ip_jurisdiction :: string
  ip_maximum_items :: int

record RegulationIdentityCandidate =
  rc_source_blob_id :: string
  rc_observation_ids :: "string list"
  rc_kind :: string
  rc_issuer_label :: string
  rc_jurisdiction :: string
  rc_official_number :: string
  rc_year :: nat
  rc_title :: string
  rc_identity_key :: string

record RegulationIdentityPlan =
  pl_candidates :: "RegulationIdentityCandidate list"
  pl_reviews :: "review_item list"

record CanonicalIdentityClaim =
  cc_proposal_key :: string
  cc_entity_type :: int
  cc_identity_scope :: string
  cc_identity_key :: string
  cc_payload_hash :: string

record CanonicalIdentityAssignment =
  ca_proposal_key :: string
  ca_canonical_id :: string
  ca_revision :: nat
  ca_created :: bool

record RegulationCanonicalCandidate =
  cr_candidate :: RegulationIdentityCandidate
  cr_issuer_id :: string
  cr_issuer_claim :: CanonicalIdentityClaim
  cr_claim :: CanonicalIdentityClaim

record RegulationDocumentBinding =
  rb_candidate :: RegulationIdentityCandidate
  rb_regulation_id :: string
  rb_issuer_id :: string
  rb_issuer_proposal_key :: string
  rb_regulation_proposal_key :: string
  rb_registry_revision :: nat

text \<open>The generated getters: the zero value stands for a missing sub-message.\<close>

definition GetRecordId :: "record_meta option \<Rightarrow> string" where
  "GetRecordId meta = (case meta of None \<Rightarrow> [] | Some x \<Rightarrow> m_record_id x)"

definition GetCorpusId :: "record_meta option \<Rightarrow> string" where
  "GetCorpusId meta = (case meta of None \<Rightarrow> [] | Some x \<Rightarrow> m_corpus_id x)"

definition GetText :: "named_value \<Rightarrow> string" where
  "GetText v = (case nv_value v of NV_Text t \<Rightarrow> t | _ \<Rightarrow> [])"

abbreviation so_id :: "source_observation \<Rightarrow> string" where
  "so_id obs \<equiv> GetRecordId (so_meta obs)"

abbreviation so_blob :: "source_observation \<Rightarrow> string" where
  "so_blob obs \<equiv> null_string (so_source_blob_id obs)"

abbreviation sb_id :: "source_blob \<Rightarrow> string" where
  "sb_id s \<equiv> GetRecordId (sb_meta s)"

section \<open>Identity keys and claims\<close>

definition normalizeIdentityText :: "host \<Rightarrow> string \<Rightarrow> string" where
  "normalizeIdentityText h value =
     strings_Map (\<lambda>r. if IsSpace r then 32 else to_lower h r) (Join '' '' (Fields (TrimSpace value)))"

definition validDocumentID :: "string \<Rightarrow> bool" where
  "validDocumentID value \<longleftrightarrow>
     value \<noteq> [] \<and> length value \<le> 256 \<and> list_all (\<lambda>r. 33 \<le> r \<and> r \<le> 126) (runes_of value)"

definition identity_payload :: "host \<Rightarrow> RegulationIdentityCandidate \<Rightarrow> json" where
  "identity_payload h c =
     JObj [(''namespace'', JStr RegulationIdentityKeyNamespace),
           (''kind'', JStr (normalizeIdentityText h (rc_kind c))),
           (''issuer'', JStr (normalizeIdentityText h (rc_issuer_label c))),
           (''jurisdiction'', JStr (normalizeIdentityText h (rc_jurisdiction c))),
           (''official_number'', JStr (normalizeIdentityText h (rc_official_number c))),
           (''year'', JNum (rc_year c))]"

definition regulationIdentityKey :: "host \<Rightarrow> RegulationIdentityCandidate \<Rightarrow> string" where
  "regulationIdentityKey h c = sha256hex h (render (identity_payload h c))"

definition json_strings :: "string list \<Rightarrow> json" where
  "json_strings xs = (if xs = [] then JNull else JArr (map JStr xs))"

definition candidate_json :: "RegulationIdentityCandidate \<Rightarrow> json" where
  "candidate_json c =
     JObj [(''SourceBlobID'', JStr (rc_source_blob_id c)), (''ObservationIDs'', json_strings (rc_observation_ids c)),
           (''Kind'', JStr (rc_kind c)), (''IssuerLabel'', JStr (rc_issuer_label c)),
           (''Jurisdiction'', JStr (rc_jurisdiction c)), (''OfficialNumber'', JStr (rc_official_number c)),
           (''Year'', JNum (rc_year c)), (''Title'', JStr (rc_title c)), (''IdentityKey'', JStr (rc_identity_key c))]"

definition candidate_complete :: "RegulationIdentityCandidate \<Rightarrow> bool" where
  "candidate_complete c \<longleftrightarrow>
     rc_source_blob_id c \<noteq> [] \<and> rc_observation_ids c \<noteq> [] \<and> rc_kind c \<noteq> [] \<and> rc_issuer_label c \<noteq> [] \<and>
     rc_jurisdiction c \<noteq> [] \<and> rc_official_number c \<noteq> [] \<and> rc_year c \<noteq> 0 \<and> rc_title c \<noteq> []"

definition proposal_digest :: "host \<Rightarrow> string list \<Rightarrow> string" where
  "proposal_digest h parts = sha256hex h (Join NUL parts)"

definition CanonicalClaim :: "host \<Rightarrow> RegulationIdentityCandidate \<Rightarrow> CanonicalIdentityClaim result" where
  "CanonicalClaim h c =
     (if \<not> candidate_complete c then Inl (Err ''complete regulation identity candidate is required'')
      else if rc_identity_key c \<noteq> regulationIdentityKey h c
      then Inl (Err ''regulation identity candidate key is stale or forged'')
      else Inr \<lparr>cc_proposal_key = ''regulation-proposal:'' @ proposal_digest h [rc_source_blob_id c, rc_identity_key c],
                cc_entity_type = CanonicalEntityTypeRegulation, cc_identity_scope = RegulationIdentityKeyNamespace,
                cc_identity_key = rc_identity_key c, cc_payload_hash = sha256hex h (render (candidate_json c))\<rparr>)"

definition issuer_payload :: "host \<Rightarrow> RegulationIdentityCandidate \<Rightarrow> json" where
  "issuer_payload h c =
     JObj [(''namespace'', JStr IssuerIdentityKeyNamespace),
           (''label'', JStr (normalizeIdentityText h (rc_issuer_label c))),
           (''jurisdiction'', JStr (normalizeIdentityText h (rc_jurisdiction c)))]"

definition CanonicalIssuerClaim :: "host \<Rightarrow> RegulationIdentityCandidate \<Rightarrow> CanonicalIdentityClaim result" where
  "CanonicalIssuerClaim h c =
     bind_result (CanonicalClaim h c) (\<lambda>_.
       let identityKey = sha256hex h (render (issuer_payload h c)) in
       Inr \<lparr>cc_proposal_key = ''issuer-proposal:'' @ proposal_digest h [rc_source_blob_id c, identityKey],
            cc_entity_type = CanonicalEntityTypeOrganization, cc_identity_scope = IssuerIdentityKeyNamespace,
            cc_identity_key = identityKey, cc_payload_hash = identityKey\<rparr>)"

definition canonical_payload :: "host \<Rightarrow> string \<Rightarrow> RegulationIdentityCandidate \<Rightarrow> json" where
  "canonical_payload h issuerID c =
     JObj [(''namespace'', JStr RegulationCanonicalIdentityKeyNamespace),
           (''kind'', JStr (normalizeIdentityText h (rc_kind c))), (''issuer_id'', JStr issuerID),
           (''jurisdiction'', JStr (normalizeIdentityText h (rc_jurisdiction c))),
           (''official_number'', JStr (normalizeIdentityText h (rc_official_number c))),
           (''year'', JNum (rc_year c))]"

definition canonicalRegulationClaim ::
    "host \<Rightarrow> RegulationIdentityCandidate \<Rightarrow> string \<Rightarrow> CanonicalIdentityClaim result" where
  "canonicalRegulationClaim h c issuerID =
     bind_result (CanonicalClaim h c) (\<lambda>_.
     if \<not> validDocumentID issuerID then Inl (Err ''canonical issuer ID is required'')
     else let identityKey = sha256hex h (render (canonical_payload h issuerID c)) in
       Inr \<lparr>cc_proposal_key = ''regulation-v2-proposal:'' @ proposal_digest h [rc_source_blob_id c, identityKey],
            cc_entity_type = CanonicalEntityTypeRegulation, cc_identity_scope = RegulationCanonicalIdentityKeyNamespace,
            cc_identity_key = identityKey,
            cc_payload_hash = sha256hex h (render (JObj [(''candidate'', candidate_json c), (''issuer_id'', JStr issuerID)]))\<rparr>)"

section \<open>Claims on assigned issuers and bindings\<close>

text \<open>
  The assignments of the registry by proposal key; \<open>what\<close> is the kind of identity that the error
  messages name.
\<close>

type_synonym assignment_index = "(string \<times> CanonicalIdentityAssignment) list"

definition assignment_ok :: "CanonicalIdentityAssignment \<Rightarrow> bool" where
  "assignment_ok a \<longleftrightarrow> validDocumentID (ca_proposal_key a) \<and> validDocumentID (ca_canonical_id a) \<and> ca_revision a \<noteq> 0"

fun index_assignments ::
    "string \<Rightarrow> (CanonicalIdentityAssignment \<Rightarrow> bool) \<Rightarrow> assignment_index \<Rightarrow> CanonicalIdentityAssignment list \<Rightarrow>
     assignment_index result" where
  "index_assignments what ok index [] = Inr index"
| "index_assignments what ok index (a # as) =
     (if \<not> ok a then Inl (Err (''invalid '' @ what @ '' registry assignment''))
      else if map_of index (ca_proposal_key a) \<noteq> None
      then Inl (Err (''duplicate '' @ what @ '' registry assignment''))
      else index_assignments what ok ((ca_proposal_key a, a) # index) as)"

fun plan_claims ::
    "host \<Rightarrow> assignment_index \<Rightarrow> string list \<Rightarrow> RegulationIdentityCandidate list \<Rightarrow>
     RegulationCanonicalCandidate list result" where
  "plan_claims h issuers seen [] = Inr []"
| "plan_claims h issuers seen (c # cs) =
     (if rc_source_blob_id c \<in> set seen then Inl (Err ''duplicate regulation source candidate'')
      else bind_result (CanonicalIssuerClaim h c) (\<lambda>issuerClaim.
        case map_of issuers (cc_proposal_key issuerClaim) of
          None \<Rightarrow> Inl (Err ''missing issuer registry assignment'')
        | Some issuer \<Rightarrow>
            bind_result (canonicalRegulationClaim h c (ca_canonical_id issuer)) (\<lambda>claim.
            bind_result (plan_claims h issuers (rc_source_blob_id c # seen) cs) (\<lambda>rest.
            Inr (\<lparr>cr_candidate = c, cr_issuer_id = ca_canonical_id issuer, cr_issuer_claim = issuerClaim,
                  cr_claim = claim\<rparr> # rest)))))"

definition PlanCanonicalRegulationClaims ::
    "host \<Rightarrow> RegulationIdentityCandidate list \<Rightarrow> CanonicalIdentityAssignment list \<Rightarrow>
     RegulationCanonicalCandidate list result" where
  "PlanCanonicalRegulationClaims h candidates issuerAssignments =
     bind_result (index_assignments ''issuer'' assignment_ok [] issuerAssignments) (\<lambda>issuers.
     if length issuers \<noteq> length candidates then Inl (Err ''issuer assignment cardinality mismatch'')
     else plan_claims h issuers []
            (sort_by (\<lambda>a b. rc_source_blob_id a < rc_source_blob_id b) candidates))"

definition binding_of ::
    "host \<Rightarrow> assignment_index \<Rightarrow> assignment_index \<Rightarrow> RegulationCanonicalCandidate \<Rightarrow>
     RegulationDocumentBinding result" where
  "binding_of h issuers regulations item =
     (if CanonicalIssuerClaim h (cr_candidate item) \<noteq> Inr (cr_issuer_claim item) \<or>
         canonicalRegulationClaim h (cr_candidate item) (cr_issuer_id item) \<noteq> Inr (cr_claim item)
      then Inl (Err ''regulation plan is stale or forged'')
      else case (map_of issuers (cc_proposal_key (cr_issuer_claim item)),
                 map_of regulations (cc_proposal_key (cr_claim item))) of
        (Some issuer, Some regulation) \<Rightarrow>
          (if ca_canonical_id issuer \<noteq> cr_issuer_id item
           then Inl (Err ''registry assignments differ from the regulation plan'')
           else Inr \<lparr>rb_candidate = cr_candidate item, rb_regulation_id = ca_canonical_id regulation,
                     rb_issuer_id = cr_issuer_id item,
                     rb_issuer_proposal_key = cc_proposal_key (cr_issuer_claim item),
                     rb_regulation_proposal_key = cc_proposal_key (cr_claim item),
                     rb_registry_revision = max (ca_revision issuer) (ca_revision regulation)\<rparr>)
      | _ \<Rightarrow> Inl (Err ''registry assignments differ from the regulation plan''))"

text \<open>A loop that appends one result per element and stops at the first error.\<close>

fun map_result :: "('a \<Rightarrow> 'b result) \<Rightarrow> 'a list \<Rightarrow> 'b list result" where
  "map_result f [] = Inr []"
| "map_result f (x # xs) = bind_result (f x) (\<lambda>y. bind_result (map_result f xs) (\<lambda>ys. Inr (y # ys)))"

definition BuildRegulationDocumentBindings ::
    "host \<Rightarrow> RegulationCanonicalCandidate list \<Rightarrow> CanonicalIdentityAssignment list \<Rightarrow>
     CanonicalIdentityAssignment list \<Rightarrow> RegulationDocumentBinding list result" where
  "BuildRegulationDocumentBindings h planned issuerAssignments regulationAssignments =
     bind_result (index_assignments ''issuer'' assignment_ok [] issuerAssignments) (\<lambda>issuers.
     bind_result (index_assignments ''regulation'' assignment_ok [] regulationAssignments) (\<lambda>regulations.
     if length regulations \<noteq> length planned \<or> length issuers \<noteq> length planned
     then Inl (Err ''regulation binding assignment cardinality mismatch'')
     else map_result (binding_of h issuers regulations) planned))"

section \<open>Candidates from source observations\<close>

text \<open>
  The stated values by field name; for one field the spelling that stands for each normalised value
  (the least one).
\<close>

type_synonym stated = "(string \<times> (string \<times> string) list) list"

definition lookup_default :: "'v \<Rightarrow> (string \<times> 'v) list \<Rightarrow> string \<Rightarrow> 'v" where
  "lookup_default d m k = (case map_of m k of None \<Rightarrow> d | Some v \<Rightarrow> v)"

definition put_least :: "string \<Rightarrow> string \<Rightarrow> (string \<times> string) list \<Rightarrow> (string \<times> string) list" where
  "put_least normalized text m =
     (case map_of m normalized of
        Some previous \<Rightarrow> if text < previous then AList.update normalized text m else m
      | None \<Rightarrow> AList.update normalized text m)"

definition hasStructuredTitle :: "named_value list \<Rightarrow> bool" where
  "hasStructuredTitle vs \<longleftrightarrow> list_ex (\<lambda>v. TrimSpace (nv_name v) = ''title'' \<and> TrimSpace (GetText v) \<noteq> []) vs"

text \<open>The field and the text that one metadata value states; \<open>None\<close> if it is skipped.\<close>

definition stated_value :: "bool \<Rightarrow> named_value \<Rightarrow> (string \<times> string) option" where
  "stated_value structured v =
     (let name = TrimSpace (nv_name v); text = TrimSpace (GetText v) in
      if name = ''page_title'' \<and> structured then None
      else let name' = if name = ''page_title'' then ''title'' else name in
        if name' = [] \<or> text = [] then None else Some (name', text))"

definition put_stated :: "host \<Rightarrow> bool \<Rightarrow> stated \<Rightarrow> named_value \<Rightarrow> stated" where
  "put_stated h structured values v =
     (case stated_value structured v of
        None \<Rightarrow> values
      | Some (name, text) \<Rightarrow>
          AList.update name (put_least (normalizeIdentityText h text) text (lookup_default [] values name)) values)"

definition observe :: "host \<Rightarrow> stated \<Rightarrow> source_observation \<Rightarrow> stated" where
  "observe h values obs =
     foldl (put_stated h (hasStructuredTitle (so_portal_metadata obs))) values (so_portal_metadata obs)"

definition observation_problems :: "source_observation \<Rightarrow> string list" where
  "observation_problems obs =
     (if so_status obs \<noteq> OBSERVATION_STATUS_COMPLETE then [''observation_status:not_complete''] else []) @
     (if so_metadata_hash obs = None then [''metadata_hash:missing''] else [])"

definition canonical_values :: "stated \<Rightarrow> string list \<Rightarrow> (string \<times> string) list" where
  "canonical_values values aliases =
     foldl (\<lambda>m (normalized, original). put_least normalized original m) []
       (concat (map (lookup_default [] values) aliases))"

definition optionalExactField :: "stated \<Rightarrow> string list \<Rightarrow> string \<times> bool \<times> bool" where
  "optionalExactField values aliases =
     (case canonical_values values aliases of
        [] \<Rightarrow> ([], False, False)
      | [(_, value)] \<Rightarrow> (value, True, False)
      | _ \<Rightarrow> ([], True, True))"

definition exactField :: "stated \<Rightarrow> string list \<Rightarrow> string \<Rightarrow> string list \<Rightarrow> string \<times> string list" where
  "exactField values aliases label problems =
     (case canonical_values values aliases of
        [] \<Rightarrow> ([], problems @ [label @ '':missing''])
      | [(_, value)] \<Rightarrow> (TrimSpace value, problems)
      | _ \<Rightarrow> ([], problems @ [label @ '':conflict'']))"

definition uniqueStrings :: "string list \<Rightarrow> string list" where
  "uniqueStrings values = remdups_adj values"

definition uniqueSorted :: "string list \<Rightarrow> string list" where
  "uniqueSorted values = uniqueStrings (sort values)"

definition jurisdiction_problems :: "host \<Rightarrow> stated \<Rightarrow> string \<Rightarrow> string list" where
  "jurisdiction_problems h values jurisdiction =
     (case optionalExactField values [''jurisdiction''] of
        (sourced, found, conflict) \<Rightarrow>
          if conflict then [''jurisdiction:conflict'']
          else if found \<and> normalizeIdentityText h sourced \<noteq> normalizeIdentityText h jurisdiction
          then [''jurisdiction:policy_conflict''] else [])"

definition parse_year :: "string \<Rightarrow> nat option" where
  "parse_year text = (case ParseUint32 (TrimSpace text) of
     Some year \<Rightarrow> if int year < 1000 \<or> int year > 9999 then None else Some year | None \<Rightarrow> None)"

definition regulationCandidate ::
    "host \<Rightarrow> string \<Rightarrow> source_observation list \<Rightarrow> string \<Rightarrow> RegulationIdentityCandidate \<times> string list" where
  "regulationCandidate h sourceID observations policyJurisdiction =
     (let jurisdiction = TrimSpace policyJurisdiction;
          blank = \<lparr>rc_source_blob_id = sourceID, rc_observation_ids = [], rc_kind = [], rc_issuer_label = [],
                   rc_jurisdiction = jurisdiction, rc_official_number = [], rc_year = 0, rc_title = [],
                   rc_identity_key = []\<rparr> in
      if observations = [] then (blank, [''observation''])
      else
        let values = foldl (observe h) [] observations;
            p0 = concat (map observation_problems observations);
            ids = uniqueStrings (sort (map so_id observations));
            (kind, p1) = exactField values [''regulation_type''] ''kind'' p0;
            (issuer, p2) = exactField values [''issuer''] ''issuer'' p1;
            (number, p3) = exactField values [''number''] ''official_number'' p2;
            (title, p4) = exactField values [''title''] ''title'' p3;
            p5 = p4 @ jurisdiction_problems h values jurisdiction;
            (yearText, p6) = exactField values [''year''] ''year'' p5;
            parsed = parse_year yearText;
            p7 = p6 @ (if yearText \<noteq> [] \<and> parsed = None then [''year:invalid''] else []);
            year = (if yearText \<noteq> [] then case parsed of Some y \<Rightarrow> y | None \<Rightarrow> 0 else 0);
            candidate = blank\<lparr>rc_observation_ids := ids, rc_kind := kind, rc_issuer_label := issuer,
              rc_official_number := number, rc_title := title, rc_year := year\<rparr>
        in (if p7 = [] then candidate\<lparr>rc_identity_key := regulationIdentityKey h candidate\<rparr> else candidate,
            uniqueSorted p7))"

section \<open>The plan of a document batch\<close>

definition review_values :: "string \<Rightarrow> RegulationIdentityCandidate \<Rightarrow> string list \<Rightarrow> named_value list" where
  "review_values sourceID c problems =
     map (\<lambda>(name, value). \<lparr>nv_name = name, nv_value = NV_Text value\<rparr>)
       ([(''source_blob_id'', sourceID), (''problems'', Join '','' problems)] @
        filter (\<lambda>(_, value). value \<noteq> [] \<and> value \<noteq> ''0'')
          [(''kind'', rc_kind c), (''issuer'', rc_issuer_label c), (''jurisdiction'', rc_jurisdiction c),
           (''official_number'', rc_official_number c), (''year'', Itoa (rc_year c)), (''title'', rc_title c)])"

definition regulationReview ::
    "host \<Rightarrow> string \<Rightarrow> string \<Rightarrow> RegulationIdentityCandidate \<Rightarrow> string list \<Rightarrow> review_item" where
  "regulationReview h corpusID sourceID c problems =
     \<lparr>ri_meta = \<lparr>m_schema_version = 1, m_corpus_id = corpusID,
        m_record_id = ''review:regulation:'' @ sha256hex h (corpusID @ NUL @ sourceID @ NUL @ Join NUL problems),
        m_visibility = None\<rparr>,
      ri_kind = ''regulation_identity'', ri_proposed_values = review_values sourceID c problems,
      ri_evidence_refs = (if rc_observation_ids c = [] then [sourceID] else rc_observation_ids c),
      ri_status = REVIEW_STATE_UNREVIEWED, ri_revision = 1\<rparr>"

definition observations_of :: "string \<Rightarrow> source_observation list \<Rightarrow> source_observation list" where
  "observations_of source observations = filter (\<lambda>obs. so_blob obs \<noteq> [] \<and> so_blob obs = source) observations"

fun plan_sources ::
    "host \<Rightarrow> string \<Rightarrow> string \<Rightarrow> source_observation list \<Rightarrow> string list \<Rightarrow> RegulationIdentityPlan" where
  "plan_sources h corpusID jurisdiction observations [] = \<lparr>pl_candidates = [], pl_reviews = []\<rparr>"
| "plan_sources h corpusID jurisdiction observations (source # sources) =
     (let (candidate, problems) = regulationCandidate h source (observations_of source observations) jurisdiction;
          rest = plan_sources h corpusID jurisdiction observations sources in
      if problems \<noteq> []
      then rest\<lparr>pl_reviews := regulationReview h corpusID source candidate problems # pl_reviews rest\<rparr>
      else rest\<lparr>pl_candidates := candidate # pl_candidates rest\<rparr>)"

definition PlanRegulationIdentities ::
    "host \<Rightarrow> document_batch codec \<Rightarrow> document_batch option \<Rightarrow> RegulationIdentityPolicy \<Rightarrow> RegulationIdentityPlan result" where
  "PlanRegulationIdentities h c batch policy =
     (case batch of
        None \<Rightarrow> Inl (Err ''document batch, jurisdiction, and positive item limit are required'')
      | Some b \<Rightarrow>
          (if db_meta b = None \<or> TrimSpace (ip_jurisdiction policy) = [] \<or> ip_maximum_items policy \<le> 0
           then Inl (Err ''document batch, jurisdiction, and positive item limit are required'')
           else if int (length (db_sources b)) > ip_maximum_items policy \<or>
                   int (length (db_observations b)) > ip_maximum_items policy
           then Inl (Err ''regulation identity input exceeds configured item limit'')
           else case validate_wire h c b of
             Inl e \<Rightarrow> Inl (Wrap ''validate identity input'' e)
           | Inr _ \<Rightarrow>
               (if \<not> distinct (map so_id (db_observations b))
                then Inl (Err ''duplicate source observation in identity input'')
                else if \<not> distinct (map sb_id (db_sources b))
                then Inl (Err ''duplicate source blob in identity input'')
                else if \<not> list_all (\<lambda>obs. so_blob obs = [] \<or> so_blob obs \<in> set (map sb_id (db_sources b))) (db_observations b)
                then Inl (Err ''source observation references a blob outside the document batch'')
                else Inr (plan_sources h (GetCorpusId (db_meta b)) (ip_jurisdiction policy) (db_observations b)
                       (sort (map sb_id (db_sources b)))))))"

section \<open>What an identity key covers\<close>

lemma utf8_valid_normalized [simp]: "utf8_valid (normalizeIdentityText h s)"
  by (simp add: normalizeIdentityText_def utf8_valid_strings_Map)

lemma identity_words_valid [simp]:
  "utf8_valid ''namespace''" "utf8_valid ''kind''" "utf8_valid ''issuer''" "utf8_valid ''jurisdiction''"
  "utf8_valid ''official_number''" "utf8_valid ''year''" "utf8_valid RegulationIdentityKeyNamespace"
  by (rule utf8_valid_ascii, simp add: RegulationIdentityKeyNamespace_def)+

text \<open>The same regulation by its exact natural key.\<close>

definition same_identity :: "host \<Rightarrow> RegulationIdentityCandidate \<Rightarrow> RegulationIdentityCandidate \<Rightarrow> bool" where
  "same_identity h a b \<longleftrightarrow>
     normalizeIdentityText h (rc_kind a) = normalizeIdentityText h (rc_kind b) \<and>
     normalizeIdentityText h (rc_issuer_label a) = normalizeIdentityText h (rc_issuer_label b) \<and>
     normalizeIdentityText h (rc_jurisdiction a) = normalizeIdentityText h (rc_jurisdiction b) \<and>
     normalizeIdentityText h (rc_official_number a) = normalizeIdentityText h (rc_official_number b) \<and>
     rc_year a = rc_year b"

lemma identity_payload_eq_iff:
  "render (identity_payload h a) = render (identity_payload h b) \<longleftrightarrow> same_identity h a b"
proof -
  have "json_valid (identity_payload h c)" for c by (simp add: identity_payload_def)
  then show ?thesis by (simp only: render_eq_iff) (auto simp: identity_payload_def same_identity_def)
qed

definition sha_collision :: "host \<Rightarrow> string \<Rightarrow> string \<Rightarrow> bool" where
  "sha_collision h x y \<longleftrightarrow> x \<noteq> y \<and> sha256hex h x = sha256hex h y"

lemma regulationIdentityKey_eq_iff:
  "regulationIdentityKey h a = regulationIdentityKey h b \<longleftrightarrow>
     same_identity h a b \<or> sha_collision h (render (identity_payload h a)) (render (identity_payload h b))"
  unfolding regulationIdentityKey_def sha_collision_def identity_payload_eq_iff [symmetric] by metis

section \<open>The table of stated values\<close>

definition table :: "stated \<Rightarrow> string \<Rightarrow> string \<rightharpoonup> string" where
  "table tab name = map_of (lookup_default [] tab name)"

definition keys_distinct :: "stated \<Rightarrow> bool" where
  "keys_distinct tab \<longleftrightarrow> (\<forall>name. distinct (map fst (lookup_default [] tab name)))"

lemma map_of_put_least:
  "map_of (put_least n t m) = (map_of m)(n \<mapsto> (case map_of m n of None \<Rightarrow> t | Some p \<Rightarrow> min t p))"
  by (auto simp: put_least_def update_conv' min_def split: option.splits)

lemma distinct_put_least: "distinct (map fst m) \<Longrightarrow> distinct (map fst (put_least n t m))"
  by (auto simp: put_least_def intro: distinct_update split: option.splits)

lemma lookup_default_update:
  "lookup_default d (AList.update k v m) k' = (if k' = k then v else lookup_default d m k')"
  by (simp add: lookup_default_def update_conv')

text \<open>The texts that a set of stated pairs gives for one field and one normalised value.\<close>

definition spellings :: "host \<Rightarrow> (string \<times> string) set \<Rightarrow> string \<Rightarrow> string \<Rightarrow> string set" where
  "spellings h E name n = {t. (name, t) \<in> E \<and> normalizeIdentityText h t = n}"

definition represents :: "host \<Rightarrow> (string \<times> string) set \<Rightarrow> stated \<Rightarrow> bool" where
  "represents h E tab \<longleftrightarrow> finite E \<and> keys_distinct tab \<and>
     (\<forall>name n. table tab name n = (if spellings h E name n = {} then None else Some (Min (spellings h E name n))))"

lemma finite_spellings: "finite E \<Longrightarrow> finite (spellings h E name n)"
  by (rule finite_subset [of _ "snd ` E"]) (force simp: spellings_def image_iff)+

lemma spellings_insert:
  "spellings h (insert (name, t) E) name' n =
     (if name' = name \<and> n = normalizeIdentityText h t then insert t (spellings h E name n) else spellings h E name' n)"
  by (auto simp: spellings_def)

lemma represents_empty: "represents h {} []"
  by (simp add: represents_def keys_distinct_def lookup_default_def table_def spellings_def)

lemma represents_put:
  assumes "represents h E tab"
  shows "represents h (insert (name, t) E)
    (AList.update name (put_least (normalizeIdentityText h t) t (lookup_default [] tab name)) tab)"
  using assms finite_spellings [of E h name "normalizeIdentityText h t"]
  by (auto simp: represents_def keys_distinct_def table_def lookup_default_update distinct_put_least
      map_of_put_least spellings_insert min_def Min_insert)

definition stated_by :: "source_observation \<Rightarrow> (string \<times> string) set" where
  "stated_by obs = {p. \<exists>v \<in> set (so_portal_metadata obs).
     stated_value (hasStructuredTitle (so_portal_metadata obs)) v = Some p}"

lemma represents_fold_put:
  "represents h E tab \<Longrightarrow>
   represents h (E \<union> {p. \<exists>v \<in> set vs. stated_value s v = Some p}) (foldl (put_stated h s) tab vs)"
proof (induction vs arbitrary: E tab)
  case (Cons v vs)
  define E' where "E' = E \<union> {p. stated_value s v = Some p}"
  have "represents h E' (put_stated h s tab v)"
    using Cons.prems represents_put [of h E tab]
    by (cases "stated_value s v") (auto simp: E'_def put_stated_def)
  moreover have "E' \<union> {p. \<exists>v \<in> set vs. stated_value s v = Some p} = E \<union> {p. \<exists>v \<in> set (v # vs). stated_value s v = Some p}"
    by (auto simp: E'_def)
  ultimately show ?case using Cons.IH [of E' "put_stated h s tab v"] by simp
qed simp

lemma represents_observations:
  "represents h E tab \<Longrightarrow> represents h (E \<union> \<Union> (stated_by ` set os)) (foldl (observe h) tab os)"
proof (induction os arbitrary: E tab)
  case (Cons obs os)
  have "represents h (E \<union> stated_by obs) (observe h tab obs)"
    unfolding observe_def stated_by_def by (rule represents_fold_put) (rule Cons.prems)
  from Cons.IH [OF this] show ?case by (simp add: Un_assoc)
qed simp

lemma represents_all: "represents h (\<Union> (stated_by ` set os)) (foldl (observe h) [] os)"
  using represents_observations [OF represents_empty] by simp

section \<open>Exact fields\<close>

lemma foldl_put_least:
  "distinct (map fst (m @ es)) \<Longrightarrow> foldl (\<lambda>m (n, t). put_least n t m) m es = m @ es"
proof (induction es arbitrary: m)
  case (Cons e es)
  obtain n t where e: "e = (n, t)" by (cases e)
  with Cons.prems have "n \<notin> fst ` set m" by auto
  then have "map_of m n = None" and "AList.update n t m = m @ [(n, t)]"
    by (simp add: map_of_eq_None_iff, induction m) auto
  with Cons.IH [of "m @ [e]"] Cons.prems show ?case by (simp add: e put_least_def)
qed simp

lemma canonical_values_single:
  "keys_distinct tab \<Longrightarrow> canonical_values tab [name] = lookup_default [] tab name"
  using foldl_put_least [of "[]" "lookup_default [] tab name"] by (simp add: canonical_values_def keys_distinct_def)

definition texts :: "(string \<times> string) set \<Rightarrow> string \<Rightarrow> string set" where
  "texts E name = {t. (name, t) \<in> E}"

text \<open>All texts that are stated for the field agree after normalisation.\<close>

definition agreed :: "host \<Rightarrow> (string \<times> string) set \<Rightarrow> string \<Rightarrow> bool" where
  "agreed h E name \<longleftrightarrow> (\<exists>n. normalizeIdentityText h ` texts E name = {n})"

lemma finite_texts: "finite E \<Longrightarrow> finite (texts E name)"
  by (rule finite_subset [of _ "snd ` E"]) (force simp: texts_def image_iff)+

lemma texts_spellings: "normalizeIdentityText h ` texts E name = {n} \<Longrightarrow> spellings h E name n = texts E name"
  by (auto simp: texts_def spellings_def)

lemma represented_keys:
  assumes "represents h E tab"
  shows "fst ` set (lookup_default [] tab name) = normalizeIdentityText h ` texts E name"
proof -
  have "fst ` set (lookup_default [] tab name) = dom (table tab name)"
    by (simp add: table_def dom_map_of_conv_image_fst)
  also have "\<dots> = normalizeIdentityText h ` texts E name"
    using assms by (auto simp: represents_def dom_def spellings_def texts_def image_iff split: if_splits)
  finally show ?thesis .
qed

lemma represented_cases:
  assumes "represents h E tab"
  obtains (missing) "canonical_values tab [name] = []" "texts E name = {}"
  | (exact) n where "canonical_values tab [name] = [(n, Min (texts E name))]" "agreed h E name" "texts E name \<noteq> {}"
  | (conflict) a b m where "canonical_values tab [name] = a # b # m" "\<not> agreed h E name" "texts E name \<noteq> {}"
proof -
  let ?m = "lookup_default [] tab name"
  have cv: "canonical_values tab [name] = ?m" and d: "distinct (map fst ?m)"
    using assms canonical_values_single by (auto simp: represents_def keys_distinct_def)
  have keys: "fst ` set ?m = normalizeIdentityText h ` texts E name" by (rule represented_keys [OF assms])
  show thesis
  proof (cases ?m)
    case Nil
    with keys have "texts E name = {}" by simp
    with cv Nil show ?thesis by (intro missing) simp_all
  next
    case m: (Cons a m)
    show ?thesis
    proof (cases m)
      case Nil
      with m keys have n: "normalizeIdentityText h ` texts E name = {fst a}" by simp
      then have ne: "spellings h E name (fst a) \<noteq> {}" by (auto simp: texts_spellings)
      have "table tab name (fst a) = Some (snd a)" using m Nil by (cases a) (simp add: table_def)
      with assms ne have "snd a = Min (texts E name)"
        by (simp add: represents_def texts_spellings [OF n])
      with m Nil cv n show ?thesis by (intro exact [of "fst a"]) (auto simp: agreed_def prod_eq_iff)
    next
      case (Cons b m')
      with m have ab: "fst a \<in> fst ` set ?m" "fst b \<in> fst ` set ?m" by simp_all
      have "fst a \<noteq> fst b" using d m Cons by simp
      with ab have "\<not> agreed h E name" unfolding agreed_def keys [symmetric] by (metis singletonD)
      moreover have "texts E name \<noteq> {}" using ab keys by auto
      ultimately show ?thesis using m Cons cv by (intro conflict) simp_all
    qed
  qed
qed

definition exact_value :: "host \<Rightarrow> (string \<times> string) set \<Rightarrow> string \<Rightarrow> string" where
  "exact_value h E name = (if agreed h E name then TrimSpace (Min (texts E name)) else [])"

definition exact_problems :: "host \<Rightarrow> (string \<times> string) set \<Rightarrow> string \<Rightarrow> string \<Rightarrow> string list" where
  "exact_problems h E name label =
     (if texts E name = {} then [label @ '':missing''] else if agreed h E name then [] else [label @ '':conflict''])"

lemma agreed_nonempty: "agreed h E name \<Longrightarrow> texts E name \<noteq> {}"
  by (auto simp: agreed_def)

lemma exactField_eq:
  assumes "represents h E tab"
  shows "exactField tab [name] label ps = (exact_value h E name, ps @ exact_problems h E name label)"
  by (rule represented_cases [OF assms, of name])
     (auto dest: agreed_nonempty simp: exactField_def exact_value_def exact_problems_def)

definition stated_jurisdiction_problems :: "host \<Rightarrow> (string \<times> string) set \<Rightarrow> string \<Rightarrow> string list" where
  "stated_jurisdiction_problems h E jurisdiction =
     (if texts E ''jurisdiction'' = {} then []
      else if \<not> agreed h E ''jurisdiction'' then [''jurisdiction:conflict'']
      else if normalizeIdentityText h (Min (texts E ''jurisdiction'')) \<noteq> normalizeIdentityText h jurisdiction
      then [''jurisdiction:policy_conflict''] else [])"

lemma jurisdiction_problems_eq:
  assumes "represents h E tab"
  shows "jurisdiction_problems h tab jurisdiction = stated_jurisdiction_problems h E jurisdiction"
  by (rule represented_cases [OF assms, of "''jurisdiction''"])
     (auto simp: jurisdiction_problems_def optionalExactField_def stated_jurisdiction_problems_def)

text \<open>The candidate and the problems that a set of stated values determines.\<close>

definition sourced_year :: "host \<Rightarrow> (string \<times> string) set \<Rightarrow> nat" where
  "sourced_year h E = (if exact_value h E ''year'' \<noteq> []
     then case parse_year (exact_value h E ''year'') of Some y \<Rightarrow> y | None \<Rightarrow> 0 else 0)"

definition sourced_candidate ::
    "host \<Rightarrow> string \<Rightarrow> string list \<Rightarrow> (string \<times> string) set \<Rightarrow> string \<Rightarrow> RegulationIdentityCandidate" where
  "sourced_candidate h sourceID ids E jurisdiction =
     \<lparr>rc_source_blob_id = sourceID, rc_observation_ids = ids, rc_kind = exact_value h E ''regulation_type'',
      rc_issuer_label = exact_value h E ''issuer'', rc_jurisdiction = TrimSpace jurisdiction,
      rc_official_number = exact_value h E ''number'', rc_year = sourced_year h E,
      rc_title = exact_value h E ''title'', rc_identity_key = []\<rparr>"

definition sourced_problems :: "host \<Rightarrow> (string \<times> string) set \<Rightarrow> string \<Rightarrow> string list" where
  "sourced_problems h E jurisdiction =
     exact_problems h E ''regulation_type'' ''kind'' @ exact_problems h E ''issuer'' ''issuer'' @
     exact_problems h E ''number'' ''official_number'' @ exact_problems h E ''title'' ''title'' @
     stated_jurisdiction_problems h E (TrimSpace jurisdiction) @ exact_problems h E ''year'' ''year'' @
     (if exact_value h E ''year'' \<noteq> [] \<and> parse_year (exact_value h E ''year'') = None then [''year:invalid''] else [])"

definition keyed :: "host \<Rightarrow> RegulationIdentityCandidate \<Rightarrow> RegulationIdentityCandidate" where
  "keyed h c = c\<lparr>rc_identity_key := regulationIdentityKey h c\<rparr>"

lemma regulationCandidate_eq:
  assumes "os \<noteq> []"
  shows "regulationCandidate h sourceID os jurisdiction =
    (let E = \<Union> (stated_by ` set os);
         ps = concat (map observation_problems os) @ sourced_problems h E jurisdiction;
         c = sourced_candidate h sourceID (uniqueSorted (map so_id os)) E jurisdiction
     in (if ps = [] then keyed h c else c, uniqueSorted ps))"
  using assms represents_all [of h os]
  by (simp add: regulationCandidate_def exactField_eq jurisdiction_problems_eq sourced_candidate_def
      sourced_problems_def sourced_year_def uniqueSorted_def keyed_def Let_def cong: if_cong split del: if_split)

lemma distinct_remdups_adj_sorted: "sorted xs \<Longrightarrow> distinct (remdups_adj xs)" for xs :: "'a::linorder list"
  by (induction xs rule: remdups_adj.induct) auto

lemma uniqueSorted_eq: "uniqueSorted xs = sorted_list_of_set (set xs)"
  by (rule sorted_distinct_set_unique)
     (simp_all add: uniqueSorted_def uniqueStrings_def sorted_remdups_adj distinct_remdups_adj_sorted)

section \<open>A planned candidate is settled by its observations\<close>

definition settled :: "host \<Rightarrow> string \<Rightarrow> source_observation list \<Rightarrow> RegulationIdentityCandidate \<Rightarrow> bool" where
  "settled h jurisdiction os c \<longleftrightarrow>
     (let E = \<Union> (stated_by ` set os) in
      os \<noteq> [] \<and> (\<forall>obs \<in> set os. so_status obs = OBSERVATION_STATUS_COMPLETE \<and> so_metadata_hash obs \<noteq> None) \<and>
      agreed h E ''regulation_type'' \<and> rc_kind c = Min (texts E ''regulation_type'') \<and>
      agreed h E ''issuer'' \<and> rc_issuer_label c = Min (texts E ''issuer'') \<and>
      agreed h E ''number'' \<and> rc_official_number c = Min (texts E ''number'') \<and>
      agreed h E ''title'' \<and> rc_title c = Min (texts E ''title'') \<and>
      agreed h E ''year'' \<and> parse_year (Min (texts E ''year'')) = Some (rc_year c) \<and>
      (\<forall>t \<in> texts E ''jurisdiction''. normalizeIdentityText h t = normalizeIdentityText h (TrimSpace jurisdiction)) \<and>
      rc_jurisdiction c = TrimSpace jurisdiction \<and>
      rc_observation_ids c = sorted_list_of_set (so_id ` set os) \<and>
      rc_identity_key c = regulationIdentityKey h c)"

lemma stated_value_trimmed: "stated_value s v = Some (name, t) \<Longrightarrow> TrimSpace t = t \<and> t \<noteq> []"
  by (auto simp: stated_value_def Let_def split: if_splits)

lemma texts_trimmed: "t \<in> texts (\<Union> (stated_by ` set os)) name \<Longrightarrow> TrimSpace t = t \<and> t \<noteq> []"
  by (auto simp: texts_def stated_by_def dest: stated_value_trimmed)

lemma finite_stated: "finite (\<Union> (stated_by ` set os))"
  using represents_all [of undefined os] by (simp add: represents_def)

lemma least_text:
  assumes "E = \<Union> (stated_by ` set os)" and "agreed h E name"
  shows "Min (texts E name) \<in> texts E name"
    and "exact_value h E name = Min (texts E name)" and "exact_value h E name \<noteq> []"
proof -
  show m: "Min (texts E name) \<in> texts E name"
    using assms by (intro Min_in finite_texts agreed_nonempty) (auto simp: finite_stated)
  with texts_trimmed [of "Min (texts E name)" os name] assms
  show "exact_value h E name = Min (texts E name)" "exact_value h E name \<noteq> []"
    by (simp_all add: exact_value_def)
qed

lemma exact_problems_Nil: "exact_problems h E name label = [] \<longleftrightarrow> agreed h E name"
  using agreed_nonempty [of h E name] by (auto simp: exact_problems_def)

lemma jurisdiction_problems_Nil:
  assumes "E = \<Union> (stated_by ` set os)" and "stated_jurisdiction_problems h E j = []"
  shows "\<forall>t \<in> texts E ''jurisdiction''. normalizeIdentityText h t = normalizeIdentityText h j"
proof
  fix t
  assume t: "t \<in> texts E ''jurisdiction''"
  with assms(2) have a: "agreed h E ''jurisdiction''"
    and j: "normalizeIdentityText h (Min (texts E ''jurisdiction'')) = normalizeIdentityText h j"
    by (auto simp: stated_jurisdiction_problems_def split: if_splits)
  from a obtain n where n: "normalizeIdentityText h ` texts E ''jurisdiction'' = {n}" by (auto simp: agreed_def)
  have "normalizeIdentityText h u = n" if "u \<in> texts E ''jurisdiction''" for u
    using imageI [OF that, of "normalizeIdentityText h"] by (simp add: n)
  from this [OF t] this [OF least_text(1) [OF assms(1) a]] j
  show "normalizeIdentityText h t = normalizeIdentityText h j" by simp
qed

lemma uniqueSorted_Nil [simp]: "uniqueSorted xs = [] \<longleftrightarrow> xs = []"
  by (cases xs) (simp_all add: uniqueSorted_eq)

lemma regulationIdentityKey_update [simp]:
  "regulationIdentityKey h (c\<lparr>rc_identity_key := k\<rparr>) = regulationIdentityKey h c"
  by (simp add: regulationIdentityKey_def identity_payload_def)

lemma regulationCandidate_settled:
  assumes "regulationCandidate h source os j = (c, [])"
  shows "settled h j os c \<and> rc_source_blob_id c = source"
proof -
  have os: "os \<noteq> []" using assms by (auto simp: regulationCandidate_def Let_def)
  define E where "E = \<Union> (stated_by ` set os)"
  have ps: "\<forall>obs \<in> set os. observation_problems obs = []" "sourced_problems h E j = []"
    and c: "c = keyed h (sourced_candidate h source (uniqueSorted (map so_id os)) E j)"
    using assms by (auto simp: regulationCandidate_eq [OF os] Let_def simp flip: E_def split: if_splits)
  have agree: "agreed h E ''regulation_type''" "agreed h E ''issuer''" "agreed h E ''number''" "agreed h E ''title''"
      "agreed h E ''year''" and j: "stated_jurisdiction_problems h E (TrimSpace j) = []"
    and y: "exact_value h E ''year'' \<noteq> [] \<longrightarrow> parse_year (exact_value h E ''year'') \<noteq> None"
    using ps(2) by (auto simp: sourced_problems_def exact_problems_Nil split: if_splits)
  note least = least_text [OF E_def agree(1)] least_text [OF E_def agree(2)] least_text [OF E_def agree(3)]
    least_text [OF E_def agree(4)] least_text [OF E_def agree(5)]
  have "parse_year (Min (texts E ''year'')) = Some (rc_year c)"
    using y least by (auto simp: c keyed_def sourced_candidate_def sourced_year_def)
  moreover have "\<forall>obs \<in> set os. so_status obs = OBSERVATION_STATUS_COMPLETE \<and> so_metadata_hash obs \<noteq> None"
    using ps(1) by (auto simp: observation_problems_def split: if_splits)
  moreover have "rc_identity_key c = regulationIdentityKey h c" by (simp add: c keyed_def)
  moreover have "rc_kind c = exact_value h E ''regulation_type''" "rc_issuer_label c = exact_value h E ''issuer''"
    "rc_official_number c = exact_value h E ''number''" "rc_title c = exact_value h E ''title''"
    "rc_jurisdiction c = TrimSpace j" "rc_source_blob_id c = source"
    "rc_observation_ids c = sorted_list_of_set (so_id ` set os)"
    by (simp_all add: c keyed_def sourced_candidate_def uniqueSorted_eq)
  ultimately show ?thesis
    using os agree least jurisdiction_problems_Nil [OF E_def j] by (simp add: settled_def Let_def flip: E_def)
qed

lemma parse_year_bounds: "parse_year t = Some y \<Longrightarrow> 1000 \<le> y \<and> y \<le> 9999"
  by (auto simp: parse_year_def split: option.splits if_splits)

lemma settled_complete:
  assumes "settled h j os c" and "rc_source_blob_id c \<noteq> []" and "TrimSpace j \<noteq> []"
  shows "candidate_complete c"
proof -
  define E where "E = \<Union> (stated_by ` set os)"
  note s = assms(1) [unfolded settled_def Let_def, folded E_def]
  then have "rc_kind c \<noteq> []" "rc_issuer_label c \<noteq> []" "rc_official_number c \<noteq> []" "rc_title c \<noteq> []"
    using least_text [OF E_def] by metis+
  moreover have "rc_year c \<noteq> 0" using s parse_year_bounds by fastforce
  moreover have "rc_observation_ids c \<noteq> []" using s by simp
  ultimately show ?thesis using assms s by (simp add: candidate_complete_def)
qed

lemma settled_claim:
  assumes "settled h j os c" and "rc_source_blob_id c \<noteq> []" and "TrimSpace j \<noteq> []"
  shows "\<exists>claim. CanonicalClaim h c = Inr claim"
  using settled_complete [OF assms] assms(1) by (simp add: CanonicalClaim_def settled_def Let_def)

section \<open>The plan partitions the sources\<close>

text \<open>The source of a review item is the first proposed value.\<close>

definition review_source :: "review_item \<Rightarrow> string" where
  "review_source r = (case ri_proposed_values r of v # _ \<Rightarrow> GetText v | [] \<Rightarrow> [])"

lemma review_source_review [simp]: "review_source (regulationReview h corpus source c ps) = source"
  by (simp add: review_source_def regulationReview_def review_values_def GetText_def)

lemma plan_sources_partition:
  "mset (map rc_source_blob_id (pl_candidates (plan_sources h corpus j os ss))) +
   mset (map review_source (pl_reviews (plan_sources h corpus j os ss))) = mset ss"
proof (induction ss)
  case (Cons s ss)
  obtain c ps where c: "regulationCandidate h s (observations_of s os) j = (c, ps)" by (metis surj_pair)
  then have "ps = [] \<Longrightarrow> rc_source_blob_id c = s" using regulationCandidate_settled by blast
  with Cons c show ?case by (cases "ps = []") (auto simp: Let_def)
qed simp

lemma plan_sources_settled:
  "c \<in> set (pl_candidates (plan_sources h corpus j os ss)) \<Longrightarrow>
     settled h j (observations_of (rc_source_blob_id c) os) c \<and> rc_source_blob_id c \<noteq> []"
proof (induction ss)
  case (Cons s ss)
  obtain c' ps where c: "regulationCandidate h s (observations_of s os) j = (c', ps)" by (metis surj_pair)
  have "settled h j (observations_of (rc_source_blob_id c') os) c' \<and> rc_source_blob_id c' \<noteq> []" if "ps = []"
  proof -
    from c that regulationCandidate_settled have s: "settled h j (observations_of s os) c'" "rc_source_blob_id c' = s"
      by blast+
    then have "observations_of s os \<noteq> []" by (simp add: settled_def Let_def)
    then have "s \<noteq> []" by (auto simp: observations_of_def filter_empty_conv)
    with s show ?thesis by simp
  qed
  with Cons c show ?case by (auto simp: Let_def split: if_splits)
qed simp

lemma sorted_subseq_plan:
  "sorted ss \<Longrightarrow> sorted (map rc_source_blob_id (pl_candidates (plan_sources h corpus j os ss)))"
proof (induction ss)
  case (Cons s ss)
  obtain c ps where c: "regulationCandidate h s (observations_of s os) j = (c, ps)" by (metis surj_pair)
  have "rc_source_blob_id ` set (pl_candidates (plan_sources h corpus j os ss)) \<subseteq> set ss"
    using plan_sources_partition [of h corpus j os ss] by (metis mset_eq_setD set_append mset_append set_map Un_upper1)
  with Cons c regulationCandidate_settled [of h s "observations_of s os" j c] show ?case by (auto simp: Let_def)
qed simp

lemma PlanRegulationIdentities_Inr:
  assumes "PlanRegulationIdentities h c (Some b) policy = Inr plan"
  shows "plan = plan_sources h (GetCorpusId (db_meta b)) (ip_jurisdiction policy) (db_observations b)
      (sort (map sb_id (db_sources b)))"
    and "TrimSpace (ip_jurisdiction policy) \<noteq> []" and "distinct (map sb_id (db_sources b))"
    and "distinct (map so_id (db_observations b))"
  using assms by (auto simp: PlanRegulationIdentities_def guard_Inr_iff split: sum.splits if_splits)

lemma plan_partition:
  assumes "PlanRegulationIdentities h c (Some b) policy = Inr plan"
  shows "mset (map rc_source_blob_id (pl_candidates plan)) + mset (map review_source (pl_reviews plan)) =
      mset (map sb_id (db_sources b))"
    and "set (map rc_source_blob_id (pl_candidates plan)) \<inter> set (map review_source (pl_reviews plan)) = {}"
    and "distinct (map rc_source_blob_id (pl_candidates plan))"
    and "sorted (map rc_source_blob_id (pl_candidates plan))"
proof -
  note P = PlanRegulationIdentities_Inr [OF assms]
  show m: "mset (map rc_source_blob_id (pl_candidates plan)) + mset (map review_source (pl_reviews plan)) =
      mset (map sb_id (db_sources b))"
    using plan_sources_partition by (simp add: P(1))
  then have "mset (map rc_source_blob_id (pl_candidates plan) @ map review_source (pl_reviews plan)) =
      mset (map sb_id (db_sources b))" by simp
  then have "distinct (map rc_source_blob_id (pl_candidates plan) @ map review_source (pl_reviews plan))"
    using P(3) mset_eq_imp_distinct_iff by blast
  then show "set (map rc_source_blob_id (pl_candidates plan)) \<inter> set (map review_source (pl_reviews plan)) = {}"
    "distinct (map rc_source_blob_id (pl_candidates plan))" by simp_all
  show "sorted (map rc_source_blob_id (pl_candidates plan))"
    by (simp add: P(1) sorted_subseq_plan)
qed

section \<open>The plan does not depend on the order of the batch\<close>

lemma regulationCandidate_perm:
  assumes "mset os = mset os'"
  shows "regulationCandidate h s os j = regulationCandidate h s os' j"
proof (cases "os = []")
  case False
  with assms have ne: "os' \<noteq> []" by auto
  have sets: "set os = set os'" using assms by (rule mset_eq_setD)
  have ids: "uniqueSorted (map so_id os) = uniqueSorted (map so_id os')" by (simp add: uniqueSorted_eq sets)
  define ps where "ps xs = concat (map observation_problems xs) @ sourced_problems h (\<Union> (stated_by ` set os')) j" for xs
  have "set (ps os) = set (ps os')" by (auto simp: ps_def sets)
  then have "uniqueSorted (ps os) = uniqueSorted (ps os')" "ps os = [] \<longleftrightarrow> ps os' = []"
    by (simp_all add: uniqueSorted_eq) (metis set_empty)
  with ids show ?thesis
    by (simp add: regulationCandidate_eq [OF False] regulationCandidate_eq [OF ne] sets Let_def ps_def)
qed (use assms in simp)

lemma plan_sources_perm:
  "mset os = mset os' \<Longrightarrow> plan_sources h corpus j os ss = plan_sources h corpus j os' ss"
proof (induction ss)
  case (Cons s ss)
  then have "mset (observations_of s os) = mset (observations_of s os')"
    by (simp add: observations_of_def mset_filter)
  from regulationCandidate_perm [OF this] Cons show ?case by simp
qed simp

lemma plan_perm:
  assumes "PlanRegulationIdentities h c (Some b) policy = Inr plan"
    and "mset os = mset (db_observations b)" and "mset ss = mset (db_sources b)"
    and "validate_wire h c (b\<lparr>db_observations := os, db_sources := ss\<rparr>) = Inr ()"
  shows "PlanRegulationIdentities h c (Some (b\<lparr>db_observations := os, db_sources := ss\<rparr>)) policy = Inr plan"
proof -
  have size: "length os = length (db_observations b)" "length ss = length (db_sources b)"
    using assms(2,3) by (metis size_mset)+
  have sets: "set os = set (db_observations b)" "set ss = set (db_sources b)"
    using assms(2,3) by (metis mset_eq_setD)+
  have "distinct (map so_id os) = distinct (map so_id (db_observations b))"
    "distinct (map sb_id ss) = distinct (map sb_id (db_sources b))"
    using assms(2,3) distinct_map_mset by metis+
  moreover have "sort (map sb_id ss) = sort (map sb_id (db_sources b))"
    by (rule properties_for_sort) (simp_all add: assms(3))
  ultimately show ?thesis
    using assms(1,4) plan_sources_perm [OF assms(2)] size sets
    by (simp add: PlanRegulationIdentities_def list_all_iff guard_Inr_iff split: sum.splits if_splits)
qed

section \<open>Claims about the plan\<close>

text \<open>
  Claim C18. A planned batch is split without loss: every source blob is either the source of
  exactly one candidate or of exactly one review item, in the order of the source identifiers. A
  candidate is settled by the observations of its source, all of them complete and hashed: for
  kind, issuer, number, title and year every stated text agrees after normalisation and the least
  spelling is taken, no stated jurisdiction contradicts the corpus policy, and the key is the
  digest of these fields. Such a candidate is accepted by the claim on the registry.
\<close>

theorem PlanRegulationIdentities_partition:
  assumes "PlanRegulationIdentities h c (Some b) policy = Inr plan"
  shows "mset (map rc_source_blob_id (pl_candidates plan)) + mset (map review_source (pl_reviews plan)) =
      mset (map sb_id (db_sources b)) \<and>
    set (map rc_source_blob_id (pl_candidates plan)) \<inter> set (map review_source (pl_reviews plan)) = {} \<and>
    distinct (map rc_source_blob_id (pl_candidates plan)) \<and>
    sorted (map rc_source_blob_id (pl_candidates plan)) \<and>
    (\<forall>candidate \<in> set (pl_candidates plan).
       settled h (ip_jurisdiction policy)
         (observations_of (rc_source_blob_id candidate) (db_observations b)) candidate \<and>
       (\<exists>claim. CanonicalClaim h candidate = Inr claim))"
proof (intro conjI plan_partition [OF assms] ballI)
  fix candidate
  assume "candidate \<in> set (pl_candidates plan)"
  then have "settled h (ip_jurisdiction policy) (observations_of (rc_source_blob_id candidate) (db_observations b)) candidate \<and>
      rc_source_blob_id candidate \<noteq> []"
    unfolding PlanRegulationIdentities_Inr(1) [OF assms] by (rule plan_sources_settled)
  then show "settled h (ip_jurisdiction policy) (observations_of (rc_source_blob_id candidate) (db_observations b)) candidate"
    "\<exists>claim. CanonicalClaim h candidate = Inr claim"
    using settled_claim PlanRegulationIdentities_Inr(2) [OF assms] by blast+
qed

text \<open>
  Claim C29. Planning does not depend on the order in which a batch lists its sources and its
  observations: any permutation that still passes wire validation gives the same candidates and
  the same review items in the same order.
\<close>

theorem PlanRegulationIdentities_order_independent:
  assumes "PlanRegulationIdentities h c (Some b) policy = Inr plan"
    and "mset os = mset (db_observations b)" and "mset ss = mset (db_sources b)"
    and "validate_wire h c (b\<lparr>db_observations := os, db_sources := ss\<rparr>) = Inr ()"
  shows "PlanRegulationIdentities h c (Some (b\<lparr>db_observations := os, db_sources := ss\<rparr>)) policy = Inr plan"
  using assms by (rule plan_perm)

text \<open>
  Two candidates get the same identity key exactly when kind, issuer, jurisdiction and
  official number agree after normalisation and the years are equal, up to a SHA-256 collision:
  the digested rendering leaves no other way to confuse two regulations.
\<close>

theorem identity_key_exact:
  "regulationIdentityKey h a = regulationIdentityKey h b \<longleftrightarrow>
     same_identity h a b \<or> sha_collision h (render (identity_payload h a)) (render (identity_payload h b))"
  by (rule regulationIdentityKey_eq_iff)

section \<open>A worked batch\<close>

definition rx_meta :: "string \<Rightarrow> record_meta option" where
  "rx_meta i = Some \<lparr>m_schema_version = 1, m_corpus_id = ''c'', m_record_id = i, m_visibility = None\<rparr>"

definition rx_value :: "string \<times> string \<Rightarrow> named_value" where
  "rx_value p = \<lparr>nv_name = fst p, nv_value = NV_Text (snd p)\<rparr>"

definition rx_observation :: "string \<Rightarrow> string \<Rightarrow> (string \<times> string) list \<Rightarrow> source_observation" where
  "rx_observation i source vs = \<lparr>so_meta = rx_meta i, so_status = OBSERVATION_STATUS_COMPLETE,
     so_metadata_hash = Some ''h'', so_source_blob_id = Some source, so_portal_metadata = map rx_value vs, so_rest = []\<rparr>"

definition rx_source :: "string \<Rightarrow> source_blob" where
  "rx_source i = \<lparr>sb_meta = rx_meta i, sb_rest = []\<rparr>"

definition rx_full :: "(string \<times> string) list" where
  "rx_full = [(''regulation_type'', ''UU''), (''issuer'', ''RI''), (''number'', ''1''), (''title'', ''T''), (''year'', ''2020'')]"

definition rx_batch :: document_batch where
  "rx_batch = \<lparr>db_meta = rx_meta ''b'', db_sources = [rx_source ''s1'', rx_source ''s2''], db_text_artifacts = [],
     db_structures = [], db_provisions = [], db_versions = [], db_chunks = [], db_issues = [],
     db_dependency_manifest = None, db_completeness = COMPLETENESS_COMPLETE, db_editions = [], db_regulations = [],
     db_observations = [rx_observation ''o2'' ''s2'' [(''title'', ''U'')], rx_observation ''o1'' ''s1'' rx_full],
     db_changes = [], db_rest = []\<rparr>"

definition rx_policy :: RegulationIdentityPolicy where
  "rx_policy = \<lparr>ip_jurisdiction = ''ID'', ip_maximum_items = 10\<rparr>"

definition rx_plan :: RegulationIdentityPlan where
  "rx_plan = (case PlanRegulationIdentities bx_host (bx_codec rx_batch) (Some rx_batch) rx_policy of
     Inr plan \<Rightarrow> plan | Inl _ \<Rightarrow> \<lparr>pl_candidates = [], pl_reviews = []\<rparr>)"

lemma rx_evaluated:
  "case PlanRegulationIdentities bx_host (bx_codec rx_batch) (Some rx_batch) rx_policy of
     Inr plan \<Rightarrow> map rc_source_blob_id (pl_candidates plan) = [''s1''] \<and> map review_source (pl_reviews plan) = [''s2'']
   | Inl _ \<Rightarrow> False"
  by code_simp

lemma rx_planned: "PlanRegulationIdentities bx_host (bx_codec rx_batch) (Some rx_batch) rx_policy = Inr rx_plan"
  and rx_plan_sources:
    "map rc_source_blob_id (pl_candidates rx_plan) = [''s1''] \<and> map review_source (pl_reviews rx_plan) = [''s2'']"
  using rx_evaluated by (auto simp: rx_plan_def split: sum.splits)

theorem PlanRegulationIdentities_partition_witness:
  "PlanRegulationIdentities bx_host (bx_codec rx_batch) (Some rx_batch) rx_policy = Inr rx_plan \<and>
   map rc_source_blob_id (pl_candidates rx_plan) = [''s1''] \<and> map review_source (pl_reviews rx_plan) = [''s2''] \<and>
   (\<exists>candidate \<in> set (pl_candidates rx_plan). \<exists>claim. CanonicalClaim bx_host candidate = Inr claim)"
  using PlanRegulationIdentities_partition [OF rx_planned] rx_planned rx_plan_sources
  by (metis list.set_intros(1) list.simps(8) neq_Nil_conv)

theorem PlanRegulationIdentities_order_independent_witness:
  "PlanRegulationIdentities bx_host (bx_codec rx_batch)
     (Some (rx_batch\<lparr>db_observations := rev (db_observations rx_batch), db_sources := rev (db_sources rx_batch)\<rparr>))
     rx_policy = Inr rx_plan"
proof (rule PlanRegulationIdentities_order_independent [OF rx_planned])
  show "validate_wire bx_host (bx_codec rx_batch)
    (rx_batch\<lparr>db_observations := rev (db_observations rx_batch), db_sources := rev (db_sources rx_batch)\<rparr>) = Inr ()"
    by code_simp
qed simp_all

end
