(* ===== verification/Ontology.thy ===== *)
theory Ontology
  imports Registry "HOL-Library.Code_Target_Nat"
begin

text \<open>
  The graph ontology (\<open>domain/ontology.go\<close>): dropping leading comments, compiling a decoded vocabulary and the gate for extraction
  records. The maps of the compiled vocabulary are association lists and sets are lists. \<open>quote\<close> is
  \<open>strconv.Quote\<close>, which the messages use. A typing judgement for assertions over a context of mentions
  is defined beside the gate, and the gate is shown to decide it.
\<close>

section \<open>The vocabulary\<close>

record ontologyQualifierSource =
  oq_id :: string
  oq_value_kinds :: "string list"

record ontologyPredicateSource =
  op_id :: string
  op_subject_types :: "string list"
  op_object_types :: "string list"
  op_qualifier_ids :: "string list"
  op_origins :: "string list"
  op_allow_self :: bool

record ontologySource =
  os_schema_version :: nat
  os_ontology_version :: string
  os_entity_types :: "string list"
  os_qualifiers :: "ontologyQualifierSource list"
  os_predicates :: "ontologyPredicateSource list"

datatype qualifierValueKind =
    qualifierValueEntity | qualifierValueLiteral | qualifierValueDate | qualifierValueNumber

record ontologyPredicate =
  subjectTypes :: "string list"
  objectTypes :: "string list"
  pred_qualifiers :: "string list"
  origins :: "assertion_origin list"
  allowSelf :: bool

record Ontology =
  on_version :: string
  on_entity_types :: "string list"
  on_qualifiers :: "(string \<times> qualifierValueKind list) list"
  on_predicates :: "(string \<times> ontologyPredicate) list"

section \<open>Leading comments\<close>

definition maximumOntologyBytes :: int where
  "maximumOntologyBytes = 1048576"

definition newline :: char where
  "newline = char_of (10 :: nat)"

text \<open>
  The lines of \<open>bufio.Scanner\<close>: a last line that is empty is no line, and one carriage return at the
  end of a line is dropped. A line that fills the buffer is an error of the scanner.
\<close>

function scan_lines :: "string \<Rightarrow> string list" where
  "scan_lines s = (if s = [] then [] else takeWhile (\<lambda>c. c \<noteq> newline) s # scan_lines (drop 1 (dropWhile (\<lambda>c. c \<noteq> newline) s)))"
  by pat_completeness auto
termination
proof (relation "measure length")
  fix s :: string
  assume "s \<noteq> []"
  have "length (dropWhile (\<lambda>c. c \<noteq> newline) s) \<le> length s" by (rule length_dropWhile_le)
  moreover from \<open>s \<noteq> []\<close> have "0 < length s" by simp
  ultimately show "(drop 1 (dropWhile (\<lambda>c. c \<noteq> newline) s), s) \<in> measure length" by (simp del: length_greater_0_conv)
qed simp

declare scan_lines.simps [simp del]

definition drop_return :: "string \<Rightarrow> string" where
  "drop_return l = (if l \<noteq> [] \<and> last l = char_of (13 :: nat) then butlast l else l)"

definition comment_line :: "string \<Rightarrow> bool" where
  "comment_line l \<longleftrightarrow> TrimSpace l = [] \<or> take 2 (TrimSpace l) = ''//''"

definition trimLeadingJSONCComments :: "string \<Rightarrow> string result" where
  "trimLeadingJSONCComments raw =
     (if take 3 raw = map char_of [239, 187, 191 :: nat] then Inl (Err ''ontology source must be UTF-8 without BOM'')
      else if list_ex (\<lambda>l. int (length l) \<ge> maximumOntologyBytes) (scan_lines raw)
      then Inl (Wrap ''scan ontology'' (Err ''bufio.Scanner: token too long''))
      else case dropWhile comment_line (map drop_return (scan_lines raw)) of
        [] \<Rightarrow> Inl (Err ''ontology JSON payload is missing'')
      | l # ls \<Rightarrow> Inr (concat (map (\<lambda>l. l @ [newline]) (l # ls))))"

text \<open>Only leading lines are dropped, and the payload starts with a line that is no comment.\<close>

lemma trimLeadingJSONCComments_Inr:
  assumes "trimLeadingJSONCComments raw = Inr payload"
  obtains comments l ls where "map drop_return (scan_lines raw) = comments @ l # ls"
    and "list_all comment_line comments" and "\<not> comment_line l" and "payload = concat (map (\<lambda>l. l @ [newline]) (l # ls))"
proof -
  let ?lines = "map drop_return (scan_lines raw)"
  from assms obtain l ls where rest: "dropWhile comment_line ?lines = l # ls"
    and payload: "payload = concat (map (\<lambda>l. l @ [newline]) (l # ls))"
    by (auto simp: trimLeadingJSONCComments_def split: if_splits list.splits)
  have "?lines = takeWhile comment_line ?lines @ l # ls" by (metis rest takeWhile_dropWhile_id)
  moreover have "list_all comment_line (takeWhile comment_line ?lines)" by (auto simp: list_all_iff dest: set_takeWhileD)
  moreover have "\<not> comment_line l" using rest by (metis hd_dropWhile list.distinct(1) list.sel(1))
  ultimately show thesis using payload that by blast
qed

section \<open>Compilation\<close>

definition vocabulary_tail :: "char \<Rightarrow> bool" where
  "vocabulary_tail c \<longleftrightarrow> is_digit c \<or> c = CHR ''_'' \<or> (CHR ''a'' \<le> c \<and> c \<le> CHR ''z'')"

fun validVocabularyID :: "string \<Rightarrow> bool" where
  "validVocabularyID [] = False"
| "validVocabularyID (c # cs) =
     (length (c # cs) \<le> 64 \<and> CHR ''a'' \<le> c \<and> c \<le> CHR ''z'' \<and> list_all vocabulary_tail cs)"

definition version_char :: "char \<Rightarrow> bool" where
  "version_char c \<longleftrightarrow> is_alnum c \<or> c \<in> set ''._:-''"

definition validOntologyVersion :: "string \<Rightarrow> bool" where
  "validOntologyVersion v \<longleftrightarrow> v \<noteq> [] \<and> length v \<le> 128 \<and> list_all version_char v"

definition parseQualifierValueKind :: "string \<Rightarrow> qualifierValueKind option" where
  "parseQualifierValueKind v =
     map_of [(''entity'', qualifierValueEntity), (''literal'', qualifierValueLiteral), (''date'', qualifierValueDate),
       (''number'', qualifierValueNumber)] v"

definition parseAssertionOrigin :: "string \<Rightarrow> assertion_origin option" where
  "parseAssertionOrigin v =
     map_of [(''explicit'', ASSERTION_ORIGIN_EXPLICIT), (''inferred'', ASSERTION_ORIGIN_INFERRED)] v"

fun compile_types :: "(string \<Rightarrow> string) \<Rightarrow> string list \<Rightarrow> string list \<Rightarrow> string list result" where
  "compile_types quote seen [] = Inr seen"
| "compile_types quote seen (t # ts) =
     (if \<not> validVocabularyID t then Inl (Err (''invalid ontology entity type '' @ quote t))
      else if t \<in> set seen then Inl (Err (''duplicate ontology entity type '' @ quote t))
      else compile_types quote (seen @ [t]) ts)"

text \<open>
  A list of names that are looked up one by one, with an error for an unknown and for a repeated
  one: the loops over value kinds, origins and, in \<open>addKnownIDs\<close>, over identifiers.
\<close>

fun add_parsed :: "(string \<Rightarrow> 'k option) \<Rightarrow> (string \<Rightarrow> error) \<Rightarrow> (string \<Rightarrow> error) \<Rightarrow> 'k list \<Rightarrow> string list \<Rightarrow> 'k list result" where
  "add_parsed parse unknown repeated seen [] = Inr seen"
| "add_parsed parse unknown repeated seen (v # vs) =
     (case parse v of
        None \<Rightarrow> Inl (unknown v)
      | Some k \<Rightarrow> if k \<in> set seen then Inl (repeated v) else add_parsed parse unknown repeated (seen @ [k]) vs)"

definition compile_kinds :: "(string \<Rightarrow> string) \<Rightarrow> string \<Rightarrow> string list \<Rightarrow> qualifierValueKind list result" where
  "compile_kinds quote i vs =
     add_parsed parseQualifierValueKind
       (\<lambda>v. Err (''qualifier '' @ quote i @ '' has unknown value kind '' @ quote v))
       (\<lambda>v. Err (''qualifier '' @ quote i @ '' repeats value kind '' @ quote v)) [] vs"

fun compile_qualifiers ::
    "(string \<Rightarrow> string) \<Rightarrow> (string \<times> qualifierValueKind list) list \<Rightarrow> ontologyQualifierSource list \<Rightarrow>
     (string \<times> qualifierValueKind list) list result" where
  "compile_qualifiers quote done [] = Inr done"
| "compile_qualifiers quote done (q # qs) =
     (if \<not> validVocabularyID (oq_id q) \<or> oq_value_kinds q = []
      then Inl (Err (''invalid ontology qualifier '' @ quote (oq_id q)))
      else if map_of done (oq_id q) \<noteq> None then Inl (Err (''duplicate ontology qualifier '' @ quote (oq_id q)))
      else bind_result (compile_kinds quote (oq_id q) (oq_value_kinds q)) (\<lambda>kinds.
        compile_qualifiers quote (done @ [(oq_id q, kinds)]) qs))"

definition addKnownIDs :: "(string \<Rightarrow> string) \<Rightarrow> string list \<Rightarrow> string list \<Rightarrow> string \<Rightarrow> string \<Rightarrow> string list result" where
  "addKnownIDs quote vs known what predicate =
     add_parsed (\<lambda>v. if v \<in> set known then Some v else None)
       (\<lambda>v. Err (''predicate '' @ quote predicate @ '' references unknown '' @ what @ '' '' @ quote v))
       (\<lambda>v. Err (''predicate '' @ quote predicate @ '' repeats '' @ what @ '' '' @ quote v)) [] vs"

definition compile_origins :: "(string \<Rightarrow> string) \<Rightarrow> string \<Rightarrow> string list \<Rightarrow> assertion_origin list result" where
  "compile_origins quote i vs =
     add_parsed parseAssertionOrigin
       (\<lambda>v. Err (''predicate '' @ quote i @ '' has unknown origin '' @ quote v))
       (\<lambda>v. Err (''predicate '' @ quote i @ '' repeats origin '' @ quote v)) [] vs"

definition compile_predicate ::
    "(string \<Rightarrow> string) \<Rightarrow> string list \<Rightarrow> string list \<Rightarrow> ontologyPredicateSource \<Rightarrow> ontologyPredicate result" where
  "compile_predicate quote types qualifierIDs p =
     bind_result (addKnownIDs quote (op_subject_types p) types ''subject type'' (op_id p)) (\<lambda>subjects.
     bind_result (addKnownIDs quote (op_object_types p) types ''object type'' (op_id p)) (\<lambda>objects.
     bind_result (addKnownIDs quote (op_qualifier_ids p) qualifierIDs ''qualifier'' (op_id p)) (\<lambda>quals.
     bind_result (compile_origins quote (op_id p) (op_origins p)) (\<lambda>ors.
     Inr \<lparr>subjectTypes = subjects, objectTypes = objects, pred_qualifiers = quals, origins = ors,
          allowSelf = op_allow_self p\<rparr>))))"

fun compile_predicates ::
    "(string \<Rightarrow> string) \<Rightarrow> string list \<Rightarrow> string list \<Rightarrow> (string \<times> ontologyPredicate) list \<Rightarrow> ontologyPredicateSource list \<Rightarrow>
     (string \<times> ontologyPredicate) list result" where
  "compile_predicates quote types qualifierIDs done [] = Inr done"
| "compile_predicates quote types qualifierIDs done (p # ps) =
     (if \<not> validVocabularyID (op_id p) \<or> op_subject_types p = [] \<or> op_object_types p = [] \<or> op_origins p = []
      then Inl (Err (''invalid ontology predicate '' @ quote (op_id p)))
      else if map_of done (op_id p) \<noteq> None then Inl (Err (''duplicate ontology predicate '' @ quote (op_id p)))
      else bind_result (compile_predicate quote types qualifierIDs p) (\<lambda>compiled.
        compile_predicates quote types qualifierIDs (done @ [(op_id p, compiled)]) ps))"

definition compileOntology :: "(string \<Rightarrow> string) \<Rightarrow> ontologySource \<Rightarrow> Ontology result" where
  "compileOntology quote source =
     (if os_schema_version source \<noteq> 1 \<or> \<not> validOntologyVersion (os_ontology_version source) \<or>
         os_entity_types source = [] \<or> os_qualifiers source = [] \<or> os_predicates source = []
      then Inl (Err ''ontology requires schema version 1, version, entity types, qualifiers, and predicates'')
      else
        bind_result (compile_types quote [] (os_entity_types source)) (\<lambda>types.
        bind_result (compile_qualifiers quote [] (os_qualifiers source)) (\<lambda>quals.
        bind_result (compile_predicates quote types (map fst quals) [] (os_predicates source)) (\<lambda>preds.
        Inr \<lparr>on_version = os_ontology_version source, on_entity_types = types, on_qualifiers = quals,
             on_predicates = preds\<rparr>))))"

section \<open>The gate for extraction records\<close>

fun qualifierKind :: "qualifier \<Rightarrow> qualifierValueKind option" where
  "qualifierKind q =
     (case qu_value q of
        QV_MentionId _ \<Rightarrow> Some qualifierValueEntity
      | QV_CanonicalId _ \<Rightarrow> Some qualifierValueEntity
      | QV_Literal _ \<Rightarrow> Some qualifierValueLiteral
      | QV_Date _ \<Rightarrow> Some qualifierValueDate
      | QV_Number _ \<Rightarrow> Some qualifierValueNumber
      | QV_None \<Rightarrow> None)"

fun check_mentions ::
    "(string \<Rightarrow> string) \<Rightarrow> Ontology \<Rightarrow> (string \<times> string) list \<Rightarrow> mention option list \<Rightarrow> (string \<times> string) list result" where
  "check_mentions quote ont seen [] = Inr seen"
| "check_mentions quote ont seen (None # ms) = Inl (Err ''ontology validation received an incomplete mention'')"
| "check_mentions quote ont seen (Some m # ms) =
     (let i = m_record_id (mn_meta m) in
      if i = [] then Inl (Err ''ontology validation received a mention without ID'')
      else if map_of seen i \<noteq> None then Inl (Err (''ontology validation received duplicate mention '' @ quote i))
      else if mn_candidate_type m \<notin> set (on_entity_types ont)
      then Inl (Err (''mention '' @ quote i @ '' has unknown ontology type '' @ quote (mn_candidate_type m)))
      else check_mentions quote ont ((i, mn_candidate_type m) # seen) ms)"

fun check_qualifiers ::
    "(string \<Rightarrow> string) \<Rightarrow> Ontology \<Rightarrow> string \<Rightarrow> string \<Rightarrow> ontologyPredicate \<Rightarrow> qualifier option list \<Rightarrow> unit result" where
  "check_qualifiers quote ont i pid p [] = Inr ()"
| "check_qualifiers quote ont i pid p (None # qs) = Inl (Err (''assertion '' @ quote i @ '' has a nil qualifier''))"
| "check_qualifiers quote ont i pid p (Some q # qs) =
     (if qu_predicate_id q \<notin> set (pred_qualifiers p)
      then Inl (Err (''assertion '' @ quote i @ '' uses qualifier '' @ quote (qu_predicate_id q) @ '' outside predicate '' @ quote pid))
      else case qualifierKind q of
        None \<Rightarrow> Inl (Err (''assertion '' @ quote i @ '' has empty qualifier '' @ quote (qu_predicate_id q)))
      | Some k \<Rightarrow>
          (if k \<notin> set (lookup_default [] (on_qualifiers ont) (qu_predicate_id q))
           then Inl (Err (''assertion '' @ quote i @ '' uses the wrong value kind for qualifier '' @ quote (qu_predicate_id q)))
           else check_qualifiers quote ont i pid p qs))"

definition check_assertion ::
    "(string \<Rightarrow> string) \<Rightarrow> Ontology \<Rightarrow> string \<Rightarrow> (string \<times> string) list \<Rightarrow> relation_assertion \<Rightarrow> unit result" where
  "check_assertion quote ont version mentions a =
     (let i = m_record_id (ra_meta a) in
      if i = [] \<or> ra_ontology_version a \<noteq> version
      then Inl (Err (''assertion '' @ quote i @ '' has no ID or differs from ontology version '' @ quote version))
      else case map_of (on_predicates ont) (ra_predicate_id a) of
        None \<Rightarrow> Inl (Err (''assertion '' @ quote i @ '' has unknown predicate '' @ quote (ra_predicate_id a)))
      | Some p \<Rightarrow>
          (case (map_of mentions (ra_subject_id a), map_of mentions (ra_object_id a)) of
             (Some s, Some t) \<Rightarrow>
               (if s \<notin> set (subjectTypes p)
                then Inl (Err (''assertion '' @ quote i @ '' rejects subject type '' @ quote s @ '' for predicate '' @ quote (ra_predicate_id a)))
                else if t \<notin> set (objectTypes p)
                then Inl (Err (''assertion '' @ quote i @ '' rejects object type '' @ quote t @ '' for predicate '' @ quote (ra_predicate_id a)))
                else if \<not> allowSelf p \<and> ra_subject_id a = ra_object_id a
                then Inl (Err (''assertion '' @ quote i @ '' uses a forbidden self edge''))
                else if ra_origin a \<notin> set (origins p)
                then Inl (Err (''assertion '' @ quote i @ '' has origin disallowed by predicate '' @ quote (ra_predicate_id a)))
                else check_qualifiers quote ont i (ra_predicate_id a) p (ra_qualifiers a))
           | _ \<Rightarrow> Inl (Err (''assertion '' @ quote i @ '' has endpoints outside its extraction mentions''))))"

fun check_assertions ::
    "(string \<Rightarrow> string) \<Rightarrow> Ontology \<Rightarrow> string \<Rightarrow> (string \<times> string) list \<Rightarrow> relation_assertion option list \<Rightarrow> unit result" where
  "check_assertions quote ont version mentions [] = Inr ()"
| "check_assertions quote ont version mentions (None # as) =
     Inl (Err ''ontology validation received an incomplete assertion'')"
| "check_assertions quote ont version mentions (Some a # as) =
     bind_result (check_assertion quote ont version mentions a) (\<lambda>_. check_assertions quote ont version mentions as)"

definition ValidateExtractionRecords ::
    "(string \<Rightarrow> string) \<Rightarrow> Ontology option \<Rightarrow> string \<Rightarrow> mention option list \<Rightarrow> relation_assertion option list \<Rightarrow> unit result" where
  "ValidateExtractionRecords quote ont version ms as =
     (case ont of
        None \<Rightarrow> Inl (Err ''extraction ontology is missing or has a different version'')
      | Some vocabulary \<Rightarrow>
          (if version \<noteq> on_version vocabulary then Inl (Err ''extraction ontology is missing or has a different version'')
           else bind_result (check_mentions quote vocabulary [] ms) (\<lambda>mentions.
             check_assertions quote vocabulary version mentions as)))"

definition ValidateExtractionOntology :: "(string \<Rightarrow> string) \<Rightarrow> Ontology option \<Rightarrow> extraction_batch option \<Rightarrow> unit result" where
  "ValidateExtractionOntology quote ont batch =
     (case (ont, batch) of
        (Some vocabulary, Some b) \<Rightarrow>
          (if xb_ontology_version b \<noteq> on_version vocabulary
           then Inl (Err ''extraction ontology is missing or has a different version'')
           else ValidateExtractionRecords quote ont (xb_ontology_version b) (xb_mentions b) (xb_assertions b))
      | _ \<Rightarrow> Inl (Err ''extraction ontology is missing or has a different version''))"

section \<open>What a compiled vocabulary contains\<close>

definition parses :: "(string \<Rightarrow> 'k option) \<Rightarrow> string list \<Rightarrow> bool" where
  "parses parse vs \<longleftrightarrow> list_all (\<lambda>v. parse v \<noteq> None) vs \<and> distinct (map parse vs)"

lemma parsed_iff:
  "parses parse vs \<Longrightarrow> k \<in> (\<lambda>v. the (parse v)) ` set vs \<longleftrightarrow> Some k \<in> parse ` set vs"
  by (force simp: parses_def list_all_iff image_iff)

text \<open>A list without nil entries.\<close>

lemma ex_map_Some_Cons:
  "(\<exists>rs. Some r # xs = map Some rs \<and> P rs) \<longleftrightarrow> (\<exists>rs. xs = map Some rs \<and> P (r # rs))"
  by (auto simp: Cons_eq_map_conv)

lemma not_map_Some_None: "None # xs \<noteq> map Some rs"
  by (cases rs) auto

lemma add_parsed_Inr:
  "add_parsed parse unknown repeated seen vs = Inr ks \<longleftrightarrow>
     parses parse vs \<and> set (map parse vs) \<inter> Some ` set seen = {} \<and> ks = seen @ map (\<lambda>v. the (parse v)) vs"
proof (induction vs arbitrary: seen)
  case (Cons v vs)
  show ?case
  proof (cases "parse v")
    case (Some k)
    with Cons show ?thesis by (auto simp: parses_def)
  qed (simp add: parses_def)
qed (auto simp: parses_def)

lemma compile_types_Inr:
  "compile_types quote seen ts = Inr types \<longleftrightarrow>
     list_all validVocabularyID ts \<and> distinct ts \<and> set ts \<inter> set seen = {} \<and> types = seen @ ts"
  by (induction ts arbitrary: seen) auto

definition declared_qualifier :: "ontologyQualifierSource \<Rightarrow> bool" where
  "declared_qualifier q \<longleftrightarrow> validVocabularyID (oq_id q) \<and> oq_value_kinds q \<noteq> [] \<and> parses parseQualifierValueKind (oq_value_kinds q)"

definition qualifier_entry :: "ontologyQualifierSource \<Rightarrow> string \<times> qualifierValueKind list" where
  "qualifier_entry q = (oq_id q, map (\<lambda>v. the (parseQualifierValueKind v)) (oq_value_kinds q))"

lemma compile_qualifiers_Inr:
  "compile_qualifiers quote acc qs = Inr out \<longleftrightarrow>
     list_all declared_qualifier qs \<and> distinct (map oq_id qs) \<and> oq_id ` set qs \<inter> fst ` set acc = {} \<and>
     out = acc @ map qualifier_entry qs"
proof (induction qs arbitrary: acc)
  case (Cons q qs)
  show ?case
    by (auto simp: Cons.IH bind_result_Inr_iff compile_kinds_def add_parsed_Inr declared_qualifier_def qualifier_entry_def
        map_of_eq_None_iff simp del: not_None_eq split: if_splits)
qed auto

definition known :: "string list \<Rightarrow> string list \<Rightarrow> bool" where
  "known ids vs \<longleftrightarrow> set vs \<subseteq> set ids \<and> distinct vs"

lemma addKnownIDs_Inr: "addKnownIDs quote vs ids what p = Inr out \<longleftrightarrow> known ids vs \<and> out = vs"
proof -
  have "parses (\<lambda>v. if v \<in> set ids then Some v else None) vs \<longleftrightarrow> known ids vs"
    by (auto simp: parses_def known_def list_all_iff distinct_map inj_on_def)
  moreover have "map (\<lambda>v. the (if v \<in> set ids then Some v else None)) vs = vs" if "known ids vs"
    using that by (auto simp: known_def subset_iff intro!: map_idI)
  ultimately show ?thesis by (auto simp: addKnownIDs_def add_parsed_Inr)
qed

definition declared_predicate :: "string list \<Rightarrow> string list \<Rightarrow> ontologyPredicateSource \<Rightarrow> bool" where
  "declared_predicate types qualifierIDs p \<longleftrightarrow>
     validVocabularyID (op_id p) \<and> op_subject_types p \<noteq> [] \<and> op_object_types p \<noteq> [] \<and> op_origins p \<noteq> [] \<and>
     known types (op_subject_types p) \<and> known types (op_object_types p) \<and> known qualifierIDs (op_qualifier_ids p) \<and>
     parses parseAssertionOrigin (op_origins p)"

definition predicate_entry :: "ontologyPredicateSource \<Rightarrow> string \<times> ontologyPredicate" where
  "predicate_entry p = (op_id p, \<lparr>subjectTypes = op_subject_types p, objectTypes = op_object_types p,
     pred_qualifiers = op_qualifier_ids p, origins = map (\<lambda>v. the (parseAssertionOrigin v)) (op_origins p),
     allowSelf = op_allow_self p\<rparr>)"

lemma compile_predicates_Inr:
  "compile_predicates quote types qualifierIDs acc ps = Inr out \<longleftrightarrow>
     list_all (declared_predicate types qualifierIDs) ps \<and> distinct (map op_id ps) \<and> op_id ` set ps \<inter> fst ` set acc = {} \<and>
     out = acc @ map predicate_entry ps"
proof (induction ps arbitrary: acc)
  case (Cons p ps)
  show ?case
    by (auto simp: Cons.IH bind_result_Inr_iff compile_predicate_def compile_origins_def addKnownIDs_Inr add_parsed_Inr
        declared_predicate_def predicate_entry_def map_of_eq_None_iff simp del: not_None_eq split: if_splits)
qed auto

text \<open>A vocabulary without dangling or repeated entries, and what it compiles to.\<close>

definition closed_source :: "ontologySource \<Rightarrow> bool" where
  "closed_source s \<longleftrightarrow>
     os_schema_version s = 1 \<and> validOntologyVersion (os_ontology_version s) \<and> os_entity_types s \<noteq> [] \<and>
     os_qualifiers s \<noteq> [] \<and> os_predicates s \<noteq> [] \<and>
     list_all validVocabularyID (os_entity_types s) \<and> distinct (os_entity_types s) \<and>
     list_all declared_qualifier (os_qualifiers s) \<and> distinct (map oq_id (os_qualifiers s)) \<and>
     list_all (declared_predicate (os_entity_types s) (map oq_id (os_qualifiers s))) (os_predicates s) \<and>
     distinct (map op_id (os_predicates s))"

definition compiled :: "ontologySource \<Rightarrow> Ontology" where
  "compiled s = \<lparr>on_version = os_ontology_version s, on_entity_types = os_entity_types s,
     on_qualifiers = map qualifier_entry (os_qualifiers s), on_predicates = map predicate_entry (os_predicates s)\<rparr>"

lemma fst_entries [simp]: "fst (qualifier_entry q) = oq_id q" "fst (predicate_entry p) = op_id p"
  by (simp_all add: qualifier_entry_def predicate_entry_def)

lemma map_fst_entries [simp]: "map (fst \<circ> qualifier_entry) qs = map oq_id qs" "map (fst \<circ> predicate_entry) ps = map op_id ps"
  by simp_all

lemma compileOntology_Inr: "compileOntology quote s = Inr ont \<longleftrightarrow> closed_source s \<and> ont = compiled s"
  by (auto simp: compileOntology_def guard_Inr_iff bind_result_Inr_iff compile_types_Inr compile_qualifiers_Inr compile_predicates_Inr
      closed_source_def compiled_def)

lemma compiled_predicate:
  assumes "closed_source s"
  shows "map_of (on_predicates (compiled s)) i = Some p \<longleftrightarrow> (\<exists>d \<in> set (os_predicates s). op_id d = i \<and> p = snd (predicate_entry d))"
  using assms by (auto simp: closed_source_def compiled_def image_iff predicate_entry_def)

lemma compiled_kinds:
  assumes "closed_source s"
  shows "k \<in> set (lookup_default [] (on_qualifiers (compiled s)) i) \<longleftrightarrow>
    (\<exists>d \<in> set (os_qualifiers s). oq_id d = i \<and> Some k \<in> parseQualifierValueKind ` set (oq_value_kinds d))"
proof -
  have d: "distinct (map fst (on_qualifiers (compiled s)))" "list_all declared_qualifier (os_qualifiers s)"
    using assms by (simp_all add: closed_source_def compiled_def)
  have "k \<in> set (lookup_default [] (on_qualifiers (compiled s)) i) \<longleftrightarrow>
      (\<exists>ks. (i, ks) \<in> set (on_qualifiers (compiled s)) \<and> k \<in> set ks)"
    using d(1) by (auto simp: lookup_default_def split: option.splits dest: map_of_SomeD)
  also have "\<dots> \<longleftrightarrow> (\<exists>q \<in> set (os_qualifiers s). oq_id q = i \<and> k \<in> (\<lambda>v. the (parseQualifierValueKind v)) ` set (oq_value_kinds q))"
    by (auto simp: compiled_def qualifier_entry_def)
  also have "\<dots> \<longleftrightarrow> (\<exists>d \<in> set (os_qualifiers s). oq_id d = i \<and> Some k \<in> parseQualifierValueKind ` set (oq_value_kinds d))"
    using d(2) parsed_iff [of parseQualifierValueKind] by (metis declared_qualifier_def list_all_iff)
  finally show ?thesis .
qed

section \<open>Typed assertions\<close>

text \<open>
  The typing judgement of the vocabulary: under a context that gives mentions their entity types,
  an assertion is typed by the predicate that it names.
\<close>

definition typed_qualifier :: "ontologySource \<Rightarrow> ontologyPredicateSource \<Rightarrow> qualifier option \<Rightarrow> bool" where
  "typed_qualifier s p q \<longleftrightarrow> (\<exists>r k d. q = Some r \<and> qualifierKind r = Some k \<and> qu_predicate_id r \<in> set (op_qualifier_ids p) \<and>
     d \<in> set (os_qualifiers s) \<and> oq_id d = qu_predicate_id r \<and> Some k \<in> parseQualifierValueKind ` set (oq_value_kinds d))"

inductive typed :: "ontologySource \<Rightarrow> (string \<rightharpoonup> string) \<Rightarrow> relation_assertion \<Rightarrow> bool" for s \<Gamma> where
  typedI: "p \<in> set (os_predicates s) \<Longrightarrow> op_id p = ra_predicate_id a \<Longrightarrow>
    \<Gamma> (ra_subject_id a) = Some t \<Longrightarrow> t \<in> set (op_subject_types p) \<Longrightarrow>
    \<Gamma> (ra_object_id a) = Some u \<Longrightarrow> u \<in> set (op_object_types p) \<Longrightarrow>
    op_allow_self p \<or> ra_subject_id a \<noteq> ra_object_id a \<Longrightarrow>
    Some (ra_origin a) \<in> parseAssertionOrigin ` set (op_origins p) \<Longrightarrow>
    list_all (typed_qualifier s p) (ra_qualifiers a) \<Longrightarrow> typed s \<Gamma> a"

inductive_cases typedE: "typed s \<Gamma> a"

definition mention_types :: "mention list \<Rightarrow> (string \<times> string) list" where
  "mention_types ms = map (\<lambda>m. (m_record_id (mn_meta m), mn_candidate_type m)) ms"

definition typed_context :: "ontologySource \<Rightarrow> mention list \<Rightarrow> bool" where
  "typed_context s ms \<longleftrightarrow> distinct (map fst (mention_types ms)) \<and> [] \<notin> set (map fst (mention_types ms)) \<and>
     set (map snd (mention_types ms)) \<subseteq> set (os_entity_types s)"

lemma check_mentions_Inr:
  "check_mentions quote ont seen ms = Inr out \<longleftrightarrow>
     (\<exists>rs. ms = map Some rs \<and> out = rev (mention_types rs) @ seen \<and> distinct (map fst (mention_types rs)) \<and>
        set (map fst (mention_types rs)) \<inter> fst ` set seen = {} \<and> [] \<notin> set (map fst (mention_types rs)) \<and>
        set (map snd (mention_types rs)) \<subseteq> set (on_entity_types ont))"
proof (induction ms arbitrary: seen)
  case (Cons m ms)
  show ?case
  proof (cases m)
    case (Some r)
    let ?i = "m_record_id (mn_meta r)"
    have "check_mentions quote ont seen (Some r # ms) = Inr out \<longleftrightarrow>
        ?i \<noteq> [] \<and> ?i \<notin> fst ` set seen \<and> mn_candidate_type r \<in> set (on_entity_types ont) \<and>
        check_mentions quote ont ((?i, mn_candidate_type r) # seen) ms = Inr out"
      by (auto simp: Let_def map_of_eq_None_iff simp del: not_None_eq split: if_splits)
    then show ?thesis
      unfolding Some ex_map_Some_Cons Cons.IH by (auto simp: mention_types_def)
  qed (simp add: not_map_Some_None)
qed (auto simp: mention_types_def)

lemma check_qualifiers_Inr:
  assumes "closed_source s" and "d \<in> set (os_predicates s)"
  shows "check_qualifiers quote (compiled s) i pid (snd (predicate_entry d)) qs = Inr () \<longleftrightarrow> list_all (typed_qualifier s d) qs"
proof (induction qs)
  case (Cons q qs)
  show ?case
  proof (cases q)
    case (Some r)
    show ?thesis using Cons by (auto simp: Some typed_qualifier_def predicate_entry_def compiled_kinds [OF assms(1)] split: option.splits)
  qed (simp add: typed_qualifier_def)
qed simp

lemma check_assertion_Inr:
  assumes "closed_source s"
  shows "check_assertion quote (compiled s) version mentions a = Inr () \<longleftrightarrow>
    m_record_id (ra_meta a) \<noteq> [] \<and> ra_ontology_version a = version \<and> typed s (map_of mentions) a"
proof -
  have origin: "ra_origin a \<in> set (origins (snd (predicate_entry d))) \<longleftrightarrow> Some (ra_origin a) \<in> parseAssertionOrigin ` set (op_origins d)"
    if "d \<in> set (os_predicates s)" for d
    using that assms parsed_iff [of parseAssertionOrigin "op_origins d"]
    by (auto simp: closed_source_def list_all_iff declared_predicate_def predicate_entry_def)
  show ?thesis
  proof (cases "map_of (on_predicates (compiled s)) (ra_predicate_id a)")
    case None
    then have "\<not> typed s (map_of mentions) a"
      using compiled_predicate [OF assms] by (metis option.distinct(1) typedE)
    with None show ?thesis by (simp add: check_assertion_def Let_def)
  next
    case (Some p)
    with compiled_predicate [OF assms] obtain d where
      d: "d \<in> set (os_predicates s)" "op_id d = ra_predicate_id a" and p: "p = snd (predicate_entry d)" by blast
    have unique: "d' = d" if "d' \<in> set (os_predicates s)" "op_id d' = ra_predicate_id a" for d'
      using assms d that by (auto simp: closed_source_def distinct_map inj_on_def)
    have "typed s (map_of mentions) a \<longleftrightarrow>
      (\<exists>t u. map_of mentions (ra_subject_id a) = Some t \<and> t \<in> set (op_subject_types d) \<and>
         map_of mentions (ra_object_id a) = Some u \<and> u \<in> set (op_object_types d)) \<and>
      (op_allow_self d \<or> ra_subject_id a \<noteq> ra_object_id a) \<and> ra_origin a \<in> set (origins p) \<and>
      list_all (typed_qualifier s d) (ra_qualifiers a)"
      unfolding p origin [OF d(1)] using typedI [OF d] unique by (blast elim: typedE)
    moreover note check_qualifiers_Inr [OF assms d(1), folded p]
    moreover have "subjectTypes p = op_subject_types d" "objectTypes p = op_object_types d" "allowSelf p = op_allow_self d"
      by (simp_all add: p predicate_entry_def)
    ultimately show ?thesis using Some
      by (auto simp: check_assertion_def Let_def split: option.splits if_splits)
  qed
qed

lemma check_assertions_Inr:
  "check_assertions quote ont version mentions as = Inr () \<longleftrightarrow>
     (\<exists>rs. as = map Some rs \<and> list_all (\<lambda>a. check_assertion quote ont version mentions a = Inr ()) rs)"
proof (induction as)
  case (Cons a as)
  show ?case
  proof (cases a)
    case (Some r)
    show ?thesis unfolding Some ex_map_Some_Cons by (auto simp: Cons.IH bind_result_Inr_iff)
  qed (simp add: not_map_Some_None)
qed simp

text \<open>The gate decides the judgement.\<close>

lemma gate_iff:
  assumes "compileOntology quote s = Inr ont"
  shows "ValidateExtractionRecords quote (Some ont) version ms as = Inr () \<longleftrightarrow>
    version = os_ontology_version s \<and>
    (\<exists>rs bs. ms = map Some rs \<and> as = map Some bs \<and> typed_context s rs \<and>
       list_all (\<lambda>a. m_record_id (ra_meta a) \<noteq> [] \<and> ra_ontology_version a = version \<and> typed s (map_of (mention_types rs)) a) bs)"
proof -
  from assms have c: "closed_source s" and ont: "ont = compiled s" by (simp_all add: compileOntology_Inr)
  have fields: "on_version ont = os_ontology_version s" "on_entity_types ont = os_entity_types s" by (simp_all add: ont compiled_def)
  have rev: "map_of (rev (mention_types rs)) = map_of (mention_types rs)" if "distinct (map fst (mention_types rs))" for rs
    using that by (intro map_of_inject_set [THEN iffD2]) (simp_all add: rev_map [symmetric])
  have "check_mentions quote ont [] ms = Inr out \<longleftrightarrow> (\<exists>rs. ms = map Some rs \<and> out = rev (mention_types rs) \<and> typed_context s rs)" for out
    by (auto simp: check_mentions_Inr typed_context_def fields)
  moreover have "check_assertions quote ont version (rev (mention_types rs)) as = Inr () \<longleftrightarrow>
      (\<exists>bs. as = map Some bs \<and> list_all (\<lambda>a. m_record_id (ra_meta a) \<noteq> [] \<and> ra_ontology_version a = version \<and>
         typed s (map_of (mention_types rs)) a) bs)" if "typed_context s rs" for rs
    using rev [of rs] that by (simp add: check_assertions_Inr ont check_assertion_Inr [OF c] typed_context_def)
  ultimately show ?thesis
    by (auto simp: ValidateExtractionRecords_def fields bind_result_Inr_iff)
qed

section \<open>Claims about the ontology\<close>

text \<open>
  A decoded vocabulary compiles exactly when it is closed: schema version 1, valid and
  distinct names, value kinds and origins that exist and are not repeated, and predicates whose
  subject types, object types and qualifiers are declared and not repeated. The compiled
  vocabulary holds each declaration and nothing else.
\<close>

theorem compileOntology_iff:
  "compileOntology quote source = Inr ont \<longleftrightarrow> closed_source source \<and> ont = compiled source"
  by (rule compileOntology_Inr)

text \<open>
  Claim C22. The gate is a type checker for extraction records: under a compiled vocabulary it
  accepts mentions and assertions exactly when the batch carries the version of the source, every
  mention has an identifier of its own and a declared type, and every assertion is typed by the
  source vocabulary in the context of the mentions: endpoint types, origin, self edges and the
  value kinds of all qualifiers as the predicate that it names declares them.
\<close>

theorem ValidateExtractionRecords_types:
  assumes "compileOntology quote source = Inr ont"
  shows "ValidateExtractionRecords quote (Some ont) version ms as = Inr () \<longleftrightarrow>
    version = os_ontology_version source \<and>
    (\<exists>rs bs. ms = map Some rs \<and> as = map Some bs \<and> typed_context source rs \<and>
       list_all (\<lambda>a. m_record_id (ra_meta a) \<noteq> [] \<and> ra_ontology_version a = version \<and>
         typed source (map_of (mention_types rs)) a) bs)"
  by (rule gate_iff [OF assms])

section \<open>The vocabulary of the repository\<close>

text \<open>The vocabulary of \<open>configs/ontology-v1.jsonc\<close>.\<close>

definition sx_types :: "string list" where
  "sx_types = [''regulation'', ''provision'', ''organization'', ''role'', ''person'', ''activity'',
     ''obligation'', ''requirement'', ''exception'', ''defined_term'', ''permit'', ''prohibition'',
     ''procedure'', ''document'', ''sanction'', ''date'', ''place'', ''legal_concept'']"

definition sx_qualifier :: "string \<Rightarrow> string list \<Rightarrow> ontologyQualifierSource" where
  "sx_qualifier i ks = \<lparr>oq_id = i, oq_value_kinds = ks\<rparr>"

definition sx_predicate :: "string \<Rightarrow> string list \<Rightarrow> string list \<Rightarrow> string list \<Rightarrow> string list \<Rightarrow> ontologyPredicateSource" where
  "sx_predicate i ss os qs rs = \<lparr>op_id = i, op_subject_types = ss, op_object_types = os, op_qualifier_ids = qs,
     op_origins = rs, op_allow_self = False\<rparr>"

definition sx_source :: ontologySource where
  "sx_source = \<lparr>os_schema_version = 1, os_ontology_version = ''id-regulation-ontology-v1'', os_entity_types = sx_types,
     os_qualifiers =
      [sx_qualifier ''scope'' [''entity'', ''literal''],
       sx_qualifier ''effective_on'' [''date''],
       sx_qualifier ''valid_until'' [''date''],
       sx_qualifier ''condition'' [''entity'', ''literal''],
       sx_qualifier ''threshold'' [''number'', ''literal''],
       sx_qualifier ''amount'' [''number'', ''literal''],
       sx_qualifier ''unit'' [''literal''],
       sx_qualifier ''legal_basis'' [''entity''],
       sx_qualifier ''actor'' [''entity''],
       sx_qualifier ''location'' [''entity''],
       sx_qualifier ''modality'' [''literal''],
       sx_qualifier ''frequency'' [''literal''],
       sx_qualifier ''deadline'' [''date'', ''literal'']],
     os_predicates =
      [sx_predicate ''references'' sx_types
         sx_types
         [''scope'', ''effective_on'', ''condition'', ''legal_basis''] [''explicit'', ''inferred''],
       sx_predicate ''amends'' [''regulation'', ''provision'', ''document'']
         [''regulation'', ''provision'', ''document'']
         [''effective_on'', ''condition'', ''legal_basis''] [''explicit'', ''inferred''],
       sx_predicate ''repeals'' [''regulation'', ''provision'', ''document'']
         [''regulation'', ''provision'', ''document'']
         [''effective_on'', ''condition'', ''legal_basis''] [''explicit'', ''inferred''],
       sx_predicate ''implements'' [''regulation'', ''provision'', ''document'']
         [''regulation'', ''provision'', ''document'']
         [''effective_on'', ''scope'', ''legal_basis''] [''explicit'', ''inferred''],
       sx_predicate ''defines'' [''regulation'', ''provision'', ''document'']
         [''defined_term'', ''legal_concept'']
         [''scope'', ''effective_on'', ''condition''] [''explicit''],
       sx_predicate ''requires'' [''regulation'', ''provision'', ''organization'', ''role'', ''person'', ''obligation'',
       ''legal_concept'']
         [''activity'', ''obligation'', ''requirement'', ''procedure'', ''legal_concept'']
         [''scope'', ''effective_on'', ''valid_until'', ''condition'', ''threshold'', ''amount'', ''unit'',
          ''actor'', ''location'', ''modality'', ''frequency'', ''deadline'', ''legal_basis''] [''explicit'', ''inferred''],
       sx_predicate ''permits'' [''regulation'', ''provision'', ''organization'', ''role'', ''person'', ''legal_concept'']
         [''activity'', ''permit'', ''procedure'', ''legal_concept'']
         [''scope'', ''effective_on'', ''valid_until'', ''condition'', ''actor'', ''location'', ''deadline'',
          ''legal_basis''] [''explicit'', ''inferred''],
       sx_predicate ''prohibits'' [''regulation'', ''provision'', ''organization'', ''role'', ''person'', ''legal_concept'']
         [''activity'', ''prohibition'', ''procedure'', ''legal_concept'']
         [''scope'', ''effective_on'', ''valid_until'', ''condition'', ''actor'', ''location'',
          ''legal_basis''] [''explicit'', ''inferred''],
       sx_predicate ''applies_to'' [''regulation'', ''provision'', ''obligation'', ''requirement'', ''permit'', ''prohibition'',
       ''procedure'', ''document'', ''sanction'', ''legal_concept'']
         [''organization'', ''role'', ''person'', ''activity'', ''place'', ''legal_concept'']
         [''scope'', ''effective_on'', ''valid_until'', ''condition'', ''location'', ''legal_basis''] [''explicit'', ''inferred''],
       sx_predicate ''exception_to'' [''regulation'', ''provision'', ''exception'', ''legal_concept'']
         [''regulation'', ''provision'', ''obligation'', ''requirement'', ''permit'', ''prohibition'',
       ''legal_concept'']
         [''scope'', ''effective_on'', ''valid_until'', ''condition'', ''legal_basis''] [''explicit'', ''inferred'']]\<rparr>"

definition sx_mention :: "string \<Rightarrow> string \<Rightarrow> mention" where
  "sx_mention i t = \<lparr>mn_meta = the (rx_meta i), mn_candidate_type = t, mn_rest = []\<rparr>"

definition sx_mentions :: "mention list" where
  "sx_mentions = [sx_mention ''mention:organization'' ''organization'', sx_mention ''mention:requirement'' ''requirement'']"

definition sx_assertion :: "string \<Rightarrow> string \<Rightarrow> relation_assertion" where
  "sx_assertion subject object = \<lparr>ra_meta = the (rx_meta ''assertion:requires''), ra_subject_id = subject, ra_object_id = object,
     ra_predicate_id = ''requires'',
     ra_qualifiers = [Some \<lparr>qu_predicate_id = ''scope'', qu_value = QV_MentionId ''mention:requirement''\<rparr>],
     ra_exception_refs = [], ra_origin = ASSERTION_ORIGIN_EXPLICIT, ra_ontology_version = ''id-regulation-ontology-v1'', ra_rest = []\<rparr>"

lemma sx_closed: "closed_source sx_source"
  by code_simp

lemma sx_compiled: "compileOntology quote sx_source = Inr (compiled sx_source)"
  using sx_closed by (simp add: compileOntology_Inr)

lemma sx_gate:
  "ValidateExtractionRecords id (Some (compiled sx_source)) ''id-regulation-ontology-v1'' (map Some sx_mentions)
     [Some (sx_assertion ''mention:organization'' ''mention:requirement'')] = Inr ()"
  "ValidateExtractionRecords id (Some (compiled sx_source)) ''id-regulation-ontology-v1'' (map Some sx_mentions)
     [Some (sx_assertion ''mention:requirement'' ''mention:organization'')] \<noteq> Inr ()"
  by code_simp+

theorem ValidateExtractionRecords_types_witness:
  "typed sx_source (map_of (mention_types sx_mentions)) (sx_assertion ''mention:organization'' ''mention:requirement'') \<and>
   \<not> typed sx_source (map_of (mention_types sx_mentions)) (sx_assertion ''mention:requirement'' ''mention:organization'')"
proof -
  note T = ValidateExtractionRecords_types [OF sx_compiled [of id], of "''id-regulation-ontology-v1''" "map Some sx_mentions"]
  from sx_gate(1) have "typed_context sx_source sx_mentions"
    "typed sx_source (map_of (mention_types sx_mentions)) (sx_assertion ''mention:organization'' ''mention:requirement'')"
    by (auto simp: T inj_map_eq_map Cons_eq_map_conv)
  moreover have "\<not> typed sx_source (map_of (mention_types sx_mentions)) (sx_assertion ''mention:requirement'' ''mention:organization'')"
  proof
    assume "typed sx_source (map_of (mention_types sx_mentions)) (sx_assertion ''mention:requirement'' ''mention:organization'')"
    with sx_gate(2) calculation(1) show False
      unfolding T by (auto simp: sx_source_def sx_assertion_def rx_meta_def inj_map_eq_map Cons_eq_map_conv)
  qed
  ultimately show ?thesis by blast
qed

text \<open>Every entity type of the vocabulary has a registry code of its own.\<close>

lemma sx_type_codes: "distinct (map CanonicalEntityTypeCode sx_types) \<and> 0 \<notin> set (map CanonicalEntityTypeCode sx_types)"
  by code_simp

end
