(* ===== verification/Documents.thy ===== *)
theory Documents
  imports Registry "HOL-Library.Code_Target_Nat"
begin

text \<open>
  The binding of a structured document batch to registry-owned identities (\<open>domain/documents.go\<close>):
  the plan of provision identities from the structure tree and the materialisation of regulations,
  editions, provisions and versions. A Go map is an association list; where the code ranges over a
  map, the model takes the order of the batch, and the closure check is characterised independently
  of that order. Protobuf encoding, SHA-256 and the Unicode case table are parameters.
\<close>

section \<open>Records\<close>

definition ProvisionIdentityKeyNamespace :: string where
  "ProvisionIdentityKeyNamespace = ''provision-structural-path:v1''"

definition DocumentBatchMediaType :: string where
  "DocumentBatchMediaType = ''application/vnd.regulagraph.document-batch+protobuf''"

definition IsDocumentBatchMediaType :: "string \<Rightarrow> bool" where
  "IsDocumentBatchMediaType media \<longleftrightarrow>
     media = DocumentBatchMediaType \<or> media = ''application/x-protobuf; message=regulagraph.v1.DocumentBatch''"

record ProvisionIdentityCandidate =
  pc_structure_node_id :: string
  pc_parent_structure_node_id :: string
  pc_source_blob_id :: string
  pc_text_artifact_id :: string
  pc_regulation_id :: string
  pc_structural_path :: "string list"
  pc_spans :: "text_span list"
  pc_identity_key :: string

record DocumentBindingConfig =
  bc_software :: string
  bc_build :: string
  bc_language :: string
  bc_jurisdiction :: string
  bc_registry_batch_size :: int
  bc_document_kind :: document_kind
  bc_registry_revision :: nat
  bc_maximum_records :: int
  bc_wire_limits :: WireLimits

abbreviation ta_id :: "text_artifact \<Rightarrow> string" where
  "ta_id a \<equiv> GetRecordId (ta_meta a)"

abbreviation sn_id :: "structure_node \<Rightarrow> string" where
  "sn_id n \<equiv> GetRecordId (sn_meta n)"

abbreviation sn_parent :: "structure_node \<Rightarrow> string" where
  "sn_parent n \<equiv> null_string (sn_parent_id n)"

definition validate_wire_limits :: "host \<Rightarrow> 'm codec \<Rightarrow> WireLimits \<Rightarrow> 'm \<Rightarrow> unit result" where
  "validate_wire_limits h c limits m = ValidateWire (url_parse h) (Some (c_reflect c m)) (c_size c m) limits"

section \<open>Provision claims\<close>

definition provision_payload :: "host \<Rightarrow> string \<Rightarrow> string list \<Rightarrow> json" where
  "provision_payload h regulationID path =
     JObj [(''namespace'', JStr ProvisionIdentityKeyNamespace), (''regulation_id'', JStr regulationID),
           (''path'', JArr (map (\<lambda>p. JStr (normalizeIdentityText h p)) path))]"

definition provisionIdentityKey :: "host \<Rightarrow> string \<Rightarrow> string list \<Rightarrow> string" where
  "provisionIdentityKey h regulationID path = sha256hex h (render (provision_payload h regulationID path))"

text \<open>The generated structure omits zero fields.\<close>

definition span_json :: "text_span \<Rightarrow> json" where
  "span_json s =
     JObj ((if sp_artifact_id s = [] then [] else [(''text_artifact_id'', JStr (sp_artifact_id s))]) @
           (if sp_start_byte s = 0 then [] else [(''start_byte'', JNum (sp_start_byte s))]) @
           (if sp_end_byte s = 0 then [] else [(''end_byte'', JNum (sp_end_byte s))]))"

definition provision_json :: "ProvisionIdentityCandidate \<Rightarrow> json" where
  "provision_json c =
     JObj [(''StructureNodeID'', JStr (pc_structure_node_id c)),
           (''ParentStructureNodeID'', JStr (pc_parent_structure_node_id c)),
           (''SourceBlobID'', JStr (pc_source_blob_id c)), (''TextArtifactID'', JStr (pc_text_artifact_id c)),
           (''RegulationID'', JStr (pc_regulation_id c)), (''StructuralPath'', json_strings (pc_structural_path c)),
           (''Spans'', if pc_spans c = [] then JNull else JArr (map span_json (pc_spans c))),
           (''IdentityKey'', JStr (pc_identity_key c))]"

definition ProvisionClaim :: "host \<Rightarrow> ProvisionIdentityCandidate \<Rightarrow> CanonicalIdentityClaim result" where
  "ProvisionClaim h c =
     (if \<not> validDocumentID (pc_structure_node_id c) \<or> \<not> validDocumentID (pc_source_blob_id c) \<or>
         \<not> validDocumentID (pc_text_artifact_id c) \<or> \<not> validDocumentID (pc_regulation_id c) \<or>
         pc_structural_path c = [] \<or> pc_spans c = []
      then Inl (Err ''complete provision identity candidate is required'')
      else if pc_identity_key c \<noteq> provisionIdentityKey h (pc_regulation_id c) (pc_structural_path c)
      then Inl (Err ''provision identity candidate key is stale or forged'')
      else Inr \<lparr>cc_proposal_key = ''provision-proposal:'' @
                  proposal_digest h [pc_structure_node_id c, pc_source_blob_id c, pc_identity_key c],
                cc_entity_type = CanonicalEntityTypeProvision, cc_identity_scope = ProvisionIdentityKeyNamespace,
                cc_identity_key = pc_identity_key c, cc_payload_hash = sha256hex h (render (provision_json c))\<rparr>)"

section \<open>Checks of bindings\<close>

definition validateRegulationBinding :: "host \<Rightarrow> RegulationDocumentBinding \<Rightarrow> unit result" where
  "validateRegulationBinding h b =
     (if \<not> validDocumentID (rb_regulation_id b) \<or> \<not> validDocumentID (rb_issuer_id b) \<or>
         \<not> validDocumentID (rb_issuer_proposal_key b) \<or> \<not> validDocumentID (rb_regulation_proposal_key b) \<or>
         rb_registry_revision b = 0
      then Inl (Err ''complete registry-owned regulation binding is required'')
      else case CanonicalIssuerClaim h (rb_candidate b) of
        Inl e \<Rightarrow> Inl (Wrap ''invalid regulation binding candidate'' e)
      | Inr issuerClaim \<Rightarrow>
          (case canonicalRegulationClaim h (rb_candidate b) (rb_issuer_id b) of
             Inl _ \<Rightarrow> Inl (Err ''regulation binding differs from its registry proposals'')
           | Inr regulationClaim \<Rightarrow>
               if cc_proposal_key issuerClaim \<noteq> rb_issuer_proposal_key b \<or>
                  cc_proposal_key regulationClaim \<noteq> rb_regulation_proposal_key b
               then Inl (Err ''regulation binding differs from its registry proposals'')
               else Inr ()))"

definition equalRegulationCandidates :: "RegulationIdentityCandidate \<Rightarrow> RegulationIdentityCandidate \<Rightarrow> bool" where
  "equalRegulationCandidates a b \<longleftrightarrow> render (candidate_json a) = render (candidate_json b)"

abbreviation rb_source :: "RegulationDocumentBinding \<Rightarrow> string" where
  "rb_source b \<equiv> rc_source_blob_id (rb_candidate b)"

fun check_bindings ::
    "host \<Rightarrow> string list \<Rightarrow> source_observation list \<Rightarrow> string list \<Rightarrow> RegulationDocumentBinding list \<Rightarrow> unit result" where
  "check_bindings h sources observations seen [] = Inr ()"
| "check_bindings h sources observations seen (b # bs) =
     bind_result (validateRegulationBinding h b) (\<lambda>_.
     if rb_source b \<notin> set sources
     then Inl (Err ''regulation binding references a source outside the document batch'')
     else if rb_source b \<in> set seen then Inl (Err ''duplicate regulation binding for source blob'')
     else let (fresh, problems) = regulationCandidate h (rb_source b) (observations_of (rb_source b) observations)
                (rc_jurisdiction (rb_candidate b)) in
       if problems \<noteq> [] \<or> \<not> equalRegulationCandidates fresh (rb_candidate b)
       then Inl (Err ''regulation binding candidate differs from current source observations'')
       else check_bindings h sources observations (rb_source b # seen) bs)"

section \<open>The structure tree\<close>

abbreviation node_of :: "structure_node list \<Rightarrow> string \<Rightarrow> structure_node option" where
  "node_of nodes i \<equiv> row_of sn_id i nodes"

fun spans_ok :: "string \<Rightarrow> nat \<Rightarrow> nat \<Rightarrow> text_span list \<Rightarrow> bool" where
  "spans_ok textID limit previousEnd [] = True"
| "spans_ok textID limit previousEnd (s # ss) =
     (sp_artifact_id s = textID \<and> sp_end_byte s \<le> limit \<and> sp_start_byte s < sp_end_byte s \<and>
      previousEnd \<le> sp_start_byte s \<and> spans_ok textID limit (sp_end_byte s) ss)"

text \<open>
  The ordered children of one node: every child exists, names the node as its parent, is listed
  once and starts where the previous one ends or later. The owners of children that were seen so
  far are threaded through.
\<close>

fun check_children ::
    "structure_node list \<Rightarrow> string \<Rightarrow> string list \<Rightarrow> nat \<Rightarrow> (string \<times> string) list \<Rightarrow> string list \<Rightarrow>
     (string \<times> string) list result" where
  "check_children nodes i seen previousEnd owner [] = Inr owner"
| "check_children nodes i seen previousEnd owner (child # rest) =
     (case node_of nodes child of
        None \<Rightarrow> Inl (Err ''structure ordered child closure is invalid'')
      | Some n \<Rightarrow>
          (if child \<in> set seen \<or> sn_parent n \<noteq> i \<or> sn_source_spans n = [] \<or>
              sp_start_byte (hd (sn_source_spans n)) < previousEnd
           then Inl (Err ''structure ordered child closure is invalid'')
           else case map_of owner child of
             Some other \<Rightarrow>
               (if other \<noteq> i then Inl (Err ''structure child belongs to multiple parents'')
                else check_children nodes i (child # seen) (sp_end_byte (last (sn_source_spans n)))
                       (AList.update child i owner) rest)
           | None \<Rightarrow> check_children nodes i (child # seen) (sp_end_byte (last (sn_source_spans n)))
                      (AList.update child i owner) rest))"

record closure_state =
  cl_document_root :: "(string \<times> string) list"
  cl_child_owner :: "(string \<times> string) list"

definition node_text :: "structure_node \<Rightarrow> string" where
  "node_text n = sp_artifact_id (hd (sn_source_spans n))"

definition check_node ::
    "structure_node list \<Rightarrow> (string \<times> string) list \<Rightarrow> (string \<times> nat) list \<Rightarrow> structure_node \<Rightarrow> closure_state \<Rightarrow>
     closure_state result" where
  "check_node nodes textSource textSize n st =
     (if sn_source_spans n = [] then Inl (Err ''structure node has no source span'')
      else if map_of textSource (node_text n) = None
      then Inl (Err ''structure node references an unknown text artifact'')
      else if \<not> spans_ok (node_text n) (lookup_default 0 textSize (node_text n)) 0 (sn_source_spans n)
      then Inl (Err ''structure node has an invalid or overlapping normalized source span'')
      else if sn_parent_id n = None \<and> sn_kind n \<noteq> STRUCTURE_KIND_DOCUMENT
      then Inl (Err ''structure root must be a document node'')
      else if sn_parent_id n = None \<and> map_of (cl_document_root st) (node_text n) \<noteq> None
      then Inl (Err ''text artifact has multiple document roots'')
      else let roots = (if sn_parent_id n = None then (node_text n, sn_id n) # cl_document_root st else cl_document_root st) in
        bind_result (check_children nodes (sn_id n) [] 0 (cl_child_owner st) (sn_ordered_children n)) (\<lambda>owner.
        Inr \<lparr>cl_document_root = roots, cl_child_owner = owner\<rparr>))"

fun check_nodes ::
    "structure_node list \<Rightarrow> (string \<times> string) list \<Rightarrow> (string \<times> nat) list \<Rightarrow> structure_node list \<Rightarrow> closure_state \<Rightarrow>
     closure_state result" where
  "check_nodes nodes textSource textSize [] st = Inr st"
| "check_nodes nodes textSource textSize (n # ns) st =
     bind_result (check_node nodes textSource textSize n st) (check_nodes nodes textSource textSize ns)"

fun spansContain :: "text_span list \<Rightarrow> text_span list \<Rightarrow> bool" where
  "spansContain parents [] = True"
| "spansContain parents (child # children) =
     (case dropWhile (\<lambda>p. sp_end_byte p \<le> sp_start_byte child) parents of
        [] \<Rightarrow> False
      | p # ps \<Rightarrow> sp_artifact_id p = sp_artifact_id child \<and> sp_start_byte p \<le> sp_start_byte child \<and>
                  sp_end_byte child \<le> sp_end_byte p \<and> spansContain (p # ps) children)"

fun spans_adjacent :: "text_span list \<Rightarrow> bool" where
  "spans_adjacent (a # b # ss) = (sp_end_byte a = sp_start_byte b \<and> spans_adjacent (b # ss))"
| "spans_adjacent _ = True"

definition spansCoverRange :: "text_span list \<Rightarrow> nat \<Rightarrow> bool" where
  "spansCoverRange spans limit \<longleftrightarrow>
     spans \<noteq> [] \<and> sp_start_byte (hd spans) = 0 \<and> sp_end_byte (last spans) = limit \<and> spans_adjacent spans"

definition root_covers :: "structure_node list \<Rightarrow> (string \<times> string) list \<Rightarrow> string \<times> nat \<Rightarrow> bool" where
  "root_covers nodes roots ts =
     (case node_of nodes (lookup_default [] roots (fst ts)) of
        None \<Rightarrow> False | Some n \<Rightarrow> spansCoverRange (sn_source_spans n) (snd ts))"

definition parent_ok :: "structure_node list \<Rightarrow> (string \<times> string) list \<Rightarrow> structure_node \<Rightarrow> bool" where
  "parent_ok nodes owner n =
     (case sn_parent_id n of
        None \<Rightarrow> True
      | Some p \<Rightarrow>
          (case node_of nodes p of
             None \<Rightarrow> False
           | Some parent \<Rightarrow> sn_source_spans parent \<noteq> [] \<and> node_text parent = node_text n \<and>
               lookup_default [] owner (sn_id n) = p \<and> spansContain (sn_source_spans parent) (sn_source_spans n)))"

definition validateStructureBindingClosure ::
    "structure_node list \<Rightarrow> (string \<times> string) list \<Rightarrow> text_artifact list \<Rightarrow> unit result" where
  "validateStructureBindingClosure nodes textSource artifacts =
     (if list_ex (\<lambda>a. ta_normalized_text_ref a = None) artifacts
      then Inl (Err ''structure binding requires normalized text references'')
      else let textSize = map (\<lambda>a. (ta_id a, ar_byte_size (the (ta_normalized_text_ref a)))) artifacts in
        bind_result (check_nodes nodes textSource textSize nodes \<lparr>cl_document_root = [], cl_child_owner = []\<rparr>) (\<lambda>st.
        if \<not> list_all (root_covers nodes (cl_document_root st)) textSize
        then Inl (Err ''text artifact lacks one full-coverage document root'')
        else if \<not> list_all (parent_ok nodes (cl_child_owner st)) nodes
        then Inl (Err ''structure parent/child closure is invalid'')
        else Inr ()))"

section \<open>Structural paths\<close>

text \<open>
  The walk from a node to its root. Paths that were found are cached; the nodes on the way are
  marked, so that a cycle is an error. Every call marks one more node of the batch.
\<close>

type_synonym path_cache = "(string \<times> string list) list"

definition component :: "structure_node \<Rightarrow> string" where
  "component n = Itoa (structure_kind_number (sn_kind n)) @ '':'' @ Join '' '' (Fields (TrimSpace (sn_label n)))"

definition path_bytes :: "string list \<Rightarrow> nat" where
  "path_bytes path = sum_list (map length path)"

definition extend_structural_path ::
    "WireLimits \<Rightarrow> structure_node \<Rightarrow> string list \<times> path_cache \<Rightarrow> (string list \<times> path_cache) result" where
  "extend_structural_path limits n x =
     (let path = fst x @ [component n] in
      if int (path_bytes path) > MaxBytes limits then Inl (Err ''structure path exceeds configured byte limit'')
      else Inr (path, (sn_id n, path) # snd x))"

function structuralPath ::
    "structure_node list \<Rightarrow> WireLimits \<Rightarrow> path_cache \<Rightarrow> string list \<Rightarrow> string \<Rightarrow> (string list \<times> path_cache) result" where
  "structuralPath nodes limits cache visiting i =
     (case map_of cache i of
        Some path \<Rightarrow> Inr (path, cache)
      | None \<Rightarrow>
          (case node_of nodes i of
             None \<Rightarrow> Inl (Err ''structure node references an unknown parent'')
           | Some n \<Rightarrow>
               (if i \<in> set visiting then Inl (Err ''structure parent cycle in provision input'')
                else case sn_parent_id n of
                  None \<Rightarrow> extend_structural_path limits n ([], cache)
                | Some p \<Rightarrow>
                    bind_result (structuralPath nodes limits cache (i # visiting) p) (\<lambda>x.
                    if int (length (fst x)) \<ge> MaxDepth limits then Inl (Err ''structure path exceeds configured depth limit'')
                    else extend_structural_path limits n x))))"
  by pat_completeness auto
termination
proof (relation "measure (\<lambda>(nodes, limits, cache, visiting, i). card (set (map sn_id nodes) - set visiting))")
  fix nodes :: "structure_node list" and limits cache visiting i n p
  assume "node_of nodes i = Some n" and i: "i \<notin> set visiting"
  then have "i \<in> set (map sn_id nodes)" by (auto dest: row_of_Some)
  with i have "set (map sn_id nodes) - set (i # visiting) \<subset> set (map sn_id nodes) - set visiting" by auto
  then show "((nodes, limits, cache, i # visiting, p), nodes, limits, cache, visiting, i) \<in>
      measure (\<lambda>(nodes, limits, cache, visiting, i). card (set (map sn_id nodes) - set visiting))"
    by (simp add: psubset_card_mono)
qed simp

declare structuralPath.simps [simp del]

fun all_paths :: "structure_node list \<Rightarrow> WireLimits \<Rightarrow> path_cache \<Rightarrow> string list \<Rightarrow> path_cache result" where
  "all_paths nodes limits cache [] = Inr cache"
| "all_paths nodes limits cache (i # is) =
     bind_result (structuralPath nodes limits cache [] i) (\<lambda>x. all_paths nodes limits (snd x) is)"

section \<open>The plan of provision identities\<close>

definition node_candidate ::
    "host \<Rightarrow> structure_node list \<Rightarrow> WireLimits \<Rightarrow> path_cache \<Rightarrow> string \<Rightarrow> RegulationDocumentBinding \<Rightarrow> structure_node \<Rightarrow>
     ProvisionIdentityCandidate result" where
  "node_candidate h nodes limits cache source b n =
     bind_result (structuralPath nodes limits cache [] (sn_id n)) (\<lambda>x.
     Inr \<lparr>pc_structure_node_id = sn_id n, pc_parent_structure_node_id = sn_parent n, pc_source_blob_id = source,
          pc_text_artifact_id = node_text n, pc_regulation_id = rb_regulation_id b, pc_structural_path = fst x,
          pc_spans = sn_source_spans n, pc_identity_key = provisionIdentityKey h (rb_regulation_id b) (fst x)\<rparr>)"

fun plan_nodes ::
    "host \<Rightarrow> structure_node list \<Rightarrow> WireLimits \<Rightarrow> path_cache \<Rightarrow> (string \<times> string) list \<Rightarrow>
     RegulationDocumentBinding list \<Rightarrow> string list \<Rightarrow> structure_node list \<Rightarrow> ProvisionIdentityCandidate list result" where
  "plan_nodes h nodes limits cache textSource bindings seen [] = Inr []"
| "plan_nodes h nodes limits cache textSource bindings seen (n # ns) =
     (if sn_source_spans n = [] then Inl (Err ''structure node has no source span'')
      else if \<not> list_all (\<lambda>s. sp_artifact_id s = node_text n) (sn_source_spans n)
      then Inl (Err ''one structure node spans multiple text artifacts'')
      else case map_of textSource (node_text n) of
        None \<Rightarrow> Inl (Err ''structure node references an unknown text artifact'')
      | Some source \<Rightarrow>
          (case row_of rb_source source bindings of
             None \<Rightarrow> plan_nodes h nodes limits cache textSource bindings seen ns
           | Some b \<Rightarrow>
               bind_result (node_candidate h nodes limits cache source b n) (\<lambda>c.
               let localKey = source @ NUL @ pc_identity_key c in
               if localKey \<in> set seen then Inl (Err ''ambiguous duplicate structural path within one source'')
               else bind_result (plan_nodes h nodes limits cache textSource bindings (localKey # seen) ns) (\<lambda>rest.
                 Inr (c # rest)))))"

definition candidate_before :: "ProvisionIdentityCandidate \<Rightarrow> ProvisionIdentityCandidate \<Rightarrow> bool" where
  "candidate_before a b \<longleftrightarrow>
     (if pc_structure_node_id a = pc_structure_node_id b then pc_source_blob_id a < pc_source_blob_id b
      else pc_structure_node_id a < pc_structure_node_id b)"

definition plan_batch ::
    "host \<Rightarrow> document_batch \<Rightarrow> RegulationDocumentBinding list \<Rightarrow> WireLimits \<Rightarrow> ProvisionIdentityCandidate list result" where
  "plan_batch h b bindings limits =
     (let sources = map sb_id (db_sources b); nodes = db_structures b;
          textSource = map (\<lambda>a. (ta_id a, ta_source_blob_id a)) (db_text_artifacts b) in
      if \<not> distinct sources then Inl (Err ''duplicate source blob in provision input'')
      else bind_result (check_bindings h sources (db_observations b) [] bindings) (\<lambda>_.
        if \<not> distinct (map fst textSource) \<or> \<not> list_all (\<lambda>p. snd p \<in> set sources) textSource
        then Inl (Err ''text artifact identity or source reference is invalid'')
        else if \<not> distinct (map sn_id nodes) then Inl (Err ''duplicate structure node in provision input'')
        else bind_result (validateStructureBindingClosure nodes textSource (db_text_artifacts b)) (\<lambda>_.
          bind_result (all_paths nodes limits [] (sort (map sn_id nodes))) (\<lambda>cache.
          bind_result (plan_nodes h nodes limits cache textSource bindings [] nodes) (\<lambda>candidates.
          Inr (sort_by candidate_before candidates))))))"

definition planProvisionIdentities ::
    "host \<Rightarrow> document_batch codec \<Rightarrow> document_batch option \<Rightarrow> RegulationDocumentBinding list \<Rightarrow> int \<Rightarrow> WireLimits \<Rightarrow>
     ProvisionIdentityCandidate list result" where
  "planProvisionIdentities h c batch bindings maximumItems limits =
     (case batch of
        None \<Rightarrow> Inl (Err ''document batch and positive provision item limit are required'')
      | Some b \<Rightarrow>
          (if db_meta b = None \<or> maximumItems \<le> 0
           then Inl (Err ''document batch and positive provision item limit are required'')
           else if int (length (db_structures b)) > maximumItems \<or> int (length (db_text_artifacts b)) > maximumItems \<or>
                   int (length bindings) > maximumItems
           then Inl (Err ''provision identity input exceeds configured item limit'')
           else if db_structures b = [] \<or> db_text_artifacts b = []
           then Inl (Err ''provision planning requires structured text records'')
           else case validate_wire_limits h c limits b of
             Inl e \<Rightarrow> Inl (Wrap ''validate provision identity input'' e)
           | Inr _ \<Rightarrow>
               (if db_regulations b \<noteq> [] \<or> db_editions b \<noteq> [] \<or> db_provisions b \<noteq> [] \<or> db_versions b \<noteq> [] \<or>
                   db_chunks b \<noteq> []
                then Inl (Err ''provision planning requires an unbound STRUCTURE batch'')
                else plan_batch h b bindings limits)))"

definition PlanProvisionIdentities ::
    "host \<Rightarrow> document_batch codec \<Rightarrow> document_batch option \<Rightarrow> RegulationDocumentBinding list \<Rightarrow> int \<Rightarrow>
     ProvisionIdentityCandidate list result" where
  "PlanProvisionIdentities h c batch bindings maximumItems =
     planProvisionIdentities h c batch bindings maximumItems DefaultWireLimits"

section \<open>Materialisation\<close>

definition preferredDisplay :: "string \<Rightarrow> string \<Rightarrow> string" where
  "preferredDisplay left right = (if right < left then right else left)"

definition equalNormalizedStrings :: "host \<Rightarrow> string list \<Rightarrow> string list \<Rightarrow> bool" where
  "equalNormalizedStrings h left right \<longleftrightarrow>
     map (normalizeIdentityText h) left = map (normalizeIdentityText h) right"

definition equalProvisionPlans :: "ProvisionIdentityCandidate list \<Rightarrow> ProvisionIdentityCandidate list \<Rightarrow> bool" where
  "equalProvisionPlans left right \<longleftrightarrow>
     map (\<lambda>c. render (provision_json c)) left = map (\<lambda>c. render (provision_json c)) right"

definition derivedDocumentID :: "host \<Rightarrow> string \<Rightarrow> string list \<Rightarrow> string" where
  "derivedDocumentID h prefix parts =
     prefix @ '':'' @ sha256hex h (concat (map (\<lambda>p. Itoa (length p) @ NUL @ p) ((prefix @ ''-v1'') # parts)))"

definition provisionVersionID :: "host \<Rightarrow> string \<Rightarrow> string \<Rightarrow> artifact_ref \<Rightarrow> text_span list \<Rightarrow> string" where
  "provisionVersionID h provisionID editionID textRef spans =
     derivedDocumentID h ''provision-version''
       ([provisionID, editionID, null_string (ar_content_hash textRef)] @
        concat (map (\<lambda>s. [sp_artifact_id s, Itoa (sp_start_byte s), Itoa (sp_end_byte s)]) spans))"

definition regulationMetadataAssertions :: "RegulationIdentityCandidate \<Rightarrow> metadata_assertion list" where
  "regulationMetadataAssertions c =
     map (\<lambda>(name, value). \<lparr>ma_field = name, ma_value = value, ma_observation_refs = rc_observation_ids c,
                         ma_review_state = REVIEW_STATE_UNREVIEWED\<rparr>)
       [(''kind'', rc_kind c), (''issuer_label'', rc_issuer_label c), (''jurisdiction'', rc_jurisdiction c),
        (''official_number'', rc_official_number c), (''year'', Itoa (rc_year c)), (''title'', rc_title c)]"

definition blank_config :: "DocumentBindingConfig \<Rightarrow> bool" where
  "blank_config config \<longleftrightarrow>
     TrimSpace (bc_software config) = [] \<or> TrimSpace (bc_build config) = [] \<or> TrimSpace (bc_language config) = [] \<or>
     TrimSpace (bc_jurisdiction config) = []"

definition validateDocumentBindingConfig :: "DocumentBindingConfig \<Rightarrow> unit result" where
  "validateDocumentBindingConfig config =
     (if blank_config config \<or> bc_registry_batch_size config \<le> 0 \<or>
         bc_document_kind config = DOCUMENT_KIND_UNSPECIFIED \<or> bc_maximum_records config \<le> 0 \<or>
         MaxBytes (bc_wire_limits config) \<le> 0 \<or> MaxDepth (bc_wire_limits config) \<le> 0 \<or>
         MaxItems (bc_wire_limits config) \<le> 0
      then Inl (Err ''complete bounded document binding config is required'') else Inr ())"

definition record_in :: "string \<Rightarrow> string \<Rightarrow> record_meta option" where
  "record_in corpus i = Some \<lparr>m_schema_version = 1, m_corpus_id = corpus, m_record_id = i, m_visibility = None\<rparr>"

text \<open>Regulations and editions of the bindings.\<close>

definition bound_regulation :: "string \<Rightarrow> RegulationDocumentBinding \<Rightarrow> regulation" where
  "bound_regulation corpus b =
     \<lparr>rg_meta = record_in corpus (rb_regulation_id b), rg_kind = rc_kind (rb_candidate b), rg_issuer_id = rb_issuer_id b,
      rg_jurisdiction = rc_jurisdiction (rb_candidate b), rg_official_number = rc_official_number (rb_candidate b),
      rg_year = rc_year (rb_candidate b), rg_title = rc_title (rb_candidate b),
      rg_identity_status = IDENTITY_STATUS_UNRESOLVED\<rparr>"

definition same_regulation :: "host \<Rightarrow> regulation \<Rightarrow> regulation \<Rightarrow> bool" where
  "same_regulation h a b \<longleftrightarrow>
     normalizeIdentityText h (rg_kind a) = normalizeIdentityText h (rg_kind b) \<and> rg_issuer_id a = rg_issuer_id b \<and>
     normalizeIdentityText h (rg_jurisdiction a) = normalizeIdentityText h (rg_jurisdiction b) \<and>
     normalizeIdentityText h (rg_official_number a) = normalizeIdentityText h (rg_official_number b) \<and>
     rg_year a = rg_year b"

definition merge_regulation :: "regulation \<Rightarrow> regulation \<Rightarrow> regulation" where
  "merge_regulation previous current =
     previous\<lparr>rg_kind := preferredDisplay (rg_kind previous) (rg_kind current),
       rg_jurisdiction := preferredDisplay (rg_jurisdiction previous) (rg_jurisdiction current),
       rg_official_number := preferredDisplay (rg_official_number previous) (rg_official_number current),
       rg_title := (if rg_title current < rg_title previous then rg_title current else rg_title previous)\<rparr>"

definition editionID :: "host \<Rightarrow> RegulationDocumentBinding \<Rightarrow> string" where
  "editionID h b = derivedDocumentID h ''edition'' [rb_regulation_id b, rb_source b]"

definition bound_edition :: "host \<Rightarrow> string \<Rightarrow> DocumentBindingConfig \<Rightarrow> RegulationDocumentBinding \<Rightarrow> document_edition" where
  "bound_edition h corpus config b =
     \<lparr>ed_meta = record_in corpus (editionID h b), ed_regulation_id = Some (rb_regulation_id b),
      ed_source_refs = rc_observation_ids (rb_candidate b), ed_language = bc_language config,
      ed_document_kind = bc_document_kind config,
      ed_metadata_assertions = regulationMetadataAssertions (rb_candidate b), ed_rest = []\<rparr>"

fun bind_regulations ::
    "host \<Rightarrow> string \<Rightarrow> DocumentBindingConfig \<Rightarrow> (string \<times> regulation) list \<Rightarrow> RegulationDocumentBinding list \<Rightarrow>
     (string \<times> regulation) list result" where
  "bind_regulations h corpus config regulations [] = Inr regulations"
| "bind_regulations h corpus config regulations (b # bs) =
     bind_result (validateRegulationBinding h b) (\<lambda>_.
     if rb_registry_revision b > bc_registry_revision config
     then Inl (Err ''regulation binding revision is ahead of materialization revision'')
     else case map_of regulations (rb_regulation_id b) of
       None \<Rightarrow> bind_regulations h corpus config
                 (AList.update (rb_regulation_id b) (bound_regulation corpus b) regulations) bs
     | Some previous \<Rightarrow>
         (if \<not> same_regulation h previous (bound_regulation corpus b)
          then Inl (Err ''one canonical regulation received conflicting exact identity fields'')
          else bind_regulations h corpus config
                 (AList.update (rb_regulation_id b) (merge_regulation previous (bound_regulation corpus b)) regulations) bs))"

text \<open>The assignment of every candidate, by structure node.\<close>

fun assign_candidates ::
    "host \<Rightarrow> assignment_index \<Rightarrow> (string \<times> string) list \<Rightarrow> ProvisionIdentityCandidate list \<Rightarrow> (string \<times> string) list result" where
  "assign_candidates h index byNode [] = Inr byNode"
| "assign_candidates h index byNode (c # cs) =
     bind_result (ProvisionClaim h c) (\<lambda>claim.
     case map_of index (cc_proposal_key claim) of
       None \<Rightarrow> Inl (Err ''missing provision registry assignment'')
     | Some a \<Rightarrow> assign_candidates h index (AList.update (pc_structure_node_id c) (ca_canonical_id a) byNode) cs)"

definition merge_provision :: "provision \<Rightarrow> provision \<Rightarrow> provision" where
  "merge_provision previous current =
     previous\<lparr>pv_structural_path := map2 preferredDisplay (pv_structural_path previous) (pv_structural_path current)\<rparr>"

definition unknown_interval :: legal_interval where
  "unknown_interval = \<lparr>li_start = Some \<lparr>da_knowledge = DATE_KNOWLEDGE_UNKNOWN, da_rest = []\<rparr>,
     li_end = Some \<lparr>da_knowledge = DATE_KNOWLEDGE_UNKNOWN, da_rest = []\<rparr>\<rparr>"

definition bound_version :: "host \<Rightarrow> string \<Rightarrow> string \<Rightarrow> string \<Rightarrow> artifact_ref \<Rightarrow> text_span list \<Rightarrow> provision_version" where
  "bound_version h corpus provisionID edition textRef spans =
     \<lparr>vn_meta = record_in corpus (provisionVersionID h provisionID edition textRef spans),
      vn_provision_id = provisionID, vn_text_ref = Some textRef, vn_spans = spans,
      vn_legal_interval = Some unknown_interval, vn_legal_status = LEGAL_STATUS_UNKNOWN, vn_supporting_events = [],
      vn_review_state = REVIEW_STATE_UNREVIEWED, vn_rest = []\<rparr>"

record bound_records =
  bo_provisions :: "(string \<times> provision) list"
  bo_versions :: "provision_version list"

definition bind_provision ::
    "host \<Rightarrow> string \<Rightarrow> (string \<times> string) list \<Rightarrow> text_artifact list \<Rightarrow> (string \<times> string) list \<Rightarrow>
     ProvisionIdentityCandidate \<Rightarrow> bound_records \<Rightarrow> bound_records result" where
  "bind_provision h corpus byNode artifacts editions c st =
     (let provisionID = lookup_default [] byNode (pc_structure_node_id c) in
      if pc_parent_structure_node_id c \<noteq> [] \<and> map_of byNode (pc_parent_structure_node_id c) = None
      then Inl (Err ''bound provision parent is missing'')
      else
        let current = \<lparr>pv_meta = record_in corpus provisionID, pv_regulation_id = pc_regulation_id c,
              pv_structural_path = pc_structural_path c,
              pv_parent_provision_id = (if pc_parent_structure_node_id c = [] then None
                else map_of byNode (pc_parent_structure_node_id c)), pv_lineage_refs = []\<rparr>;
            provisions = (case map_of (bo_provisions st) provisionID of
                None \<Rightarrow> Some (AList.update provisionID current (bo_provisions st))
              | Some previous \<Rightarrow>
                  if pv_regulation_id previous \<noteq> pv_regulation_id current \<or>
                     \<not> equalNormalizedStrings h (pv_structural_path previous) (pv_structural_path current) \<or>
                     null_string (pv_parent_provision_id previous) \<noteq> null_string (pv_parent_provision_id current)
                  then None
                  else Some (AList.update provisionID (merge_provision previous current) (bo_provisions st)))
        in case provisions of
          None \<Rightarrow> Inl (Err ''one canonical provision received conflicting structure'')
        | Some ps \<Rightarrow>
            (case Option.bind (row_of ta_id (pc_text_artifact_id c) artifacts) ta_normalized_text_ref of
               None \<Rightarrow> Inl (Err ''bound provision version is missing normalized text'')
             | Some textRef \<Rightarrow>
                 (case map_of editions (pc_source_blob_id c) of
                    None \<Rightarrow> Inl (Err ''bound provision version is missing an edition'')
                  | Some edition \<Rightarrow>
                      Inr \<lparr>bo_provisions = ps,
                           bo_versions = bo_versions st @ [bound_version h corpus provisionID edition textRef (pc_spans c)]\<rparr>)))"

fun bind_provisions ::
    "host \<Rightarrow> string \<Rightarrow> (string \<times> string) list \<Rightarrow> text_artifact list \<Rightarrow> (string \<times> string) list \<Rightarrow>
     ProvisionIdentityCandidate list \<Rightarrow> bound_records \<Rightarrow> bound_records result" where
  "bind_provisions h corpus byNode artifacts editions [] st = Inr st"
| "bind_provisions h corpus byNode artifacts editions (c # cs) st =
     bind_result (bind_provision h corpus byNode artifacts editions c st)
       (bind_provisions h corpus byNode artifacts editions cs)"

section \<open>Dependencies, issues and the bound batch\<close>

definition bindingProducerManifest :: "host \<Rightarrow> DocumentBindingConfig \<Rightarrow> string \<Rightarrow> producer_manifest" where
  "bindingProducerManifest h config inputHash =
     \<lparr>pd_software = bc_software config, pd_build = bc_build config, pd_schema_version = 1,
      pd_config_hash = Some (sha256hex h (render
        (JObj [(''language'', JStr (bc_language config)), (''jurisdiction'', JStr (bc_jurisdiction config)),
               (''document_kind'', JNum (document_kind_number (bc_document_kind config))),
               (''registry_batch_size'', JNum (nat (bc_registry_batch_size config))),
               (''metadata_policy'', JStr RegulationIdentityMetadataPolicy)]))),
      pd_input_hashes = [inputHash], pd_rest = []\<rparr>"

definition manifest_dependencies :: "document_batch \<Rightarrow> dependency list" where
  "manifest_dependencies b = (case db_dependency_manifest b of None \<Rightarrow> [] | Some m \<Rightarrow> dm_dependencies m)"

definition manifest_lookups :: "document_batch \<Rightarrow> lookup_scope_revision list" where
  "manifest_lookups b = (case db_dependency_manifest b of None \<Rightarrow> [] | Some m \<Rightarrow> dm_lookup_scope_revisions m)"

text \<open>
  One dependency with the fingerprint that it has to have; the dependencies that were seen are
  threaded through together with the list that is built.
\<close>

definition add_dependency ::
    "string \<Rightarrow> string \<Rightarrow> string \<Rightarrow> dependency list \<times> (string \<times> string) list \<Rightarrow>
     (dependency list \<times> (string \<times> string) list) result" where
  "add_dependency message i hash st =
     (case map_of (snd st) i of
        Some previous \<Rightarrow> if previous \<noteq> hash then Inl (Err message) else Inr st
      | None \<Rightarrow> Inr (fst st @ [\<lparr>dp_dependency_id = i, dp_fingerprint = Some hash\<rparr>], (i, hash) # snd st))"

fun input_dependencies ::
    "dependency list \<Rightarrow> dependency list \<times> (string \<times> string) list \<Rightarrow> (dependency list \<times> (string \<times> string) list) result" where
  "input_dependencies [] st = Inr st"
| "input_dependencies (d # ds) st =
     (case dp_fingerprint d of
        None \<Rightarrow> Inl (Err ''binding input dependency is missing a fingerprint'')
      | Some hash \<Rightarrow>
          bind_result (add_dependency ''binding input has conflicting dependency fingerprints'' (dp_dependency_id d) hash st)
            (input_dependencies ds))"

definition issuer_fingerprint :: "host \<Rightarrow> string \<Rightarrow> nat \<Rightarrow> string" where
  "issuer_fingerprint h issuerID registryRevision =
     sha256hex h (Join NUL [''canonical-registry'', ''organization'', issuerID, Itoa registryRevision])"

fun issuer_dependencies ::
    "host \<Rightarrow> nat \<Rightarrow> RegulationDocumentBinding list \<Rightarrow> dependency list \<times> (string \<times> string) list \<Rightarrow>
     (dependency list \<times> (string \<times> string) list) result" where
  "issuer_dependencies h revision [] st = Inr st"
| "issuer_dependencies h revision (b # bs) st =
     bind_result (add_dependency ''canonical issuer dependency conflicts with an existing dependency''
        (rb_issuer_id b) (issuer_fingerprint h (rb_issuer_id b) revision) st)
       (issuer_dependencies h revision bs)"

definition bindingDependencies ::
    "host \<Rightarrow> document_batch \<Rightarrow> string \<Rightarrow> RegulationDocumentBinding list \<Rightarrow> nat \<Rightarrow> dependency list result" where
  "bindingDependencies h b inputHash bindings revision =
     bind_result (input_dependencies (manifest_dependencies b) ([], [])) (\<lambda>st.
     bind_result (add_dependency ''binding input batch dependency conflicts with an existing dependency''
        (GetRecordId (db_meta b)) inputHash st) (\<lambda>st.
     bind_result (issuer_dependencies h revision bindings st) (\<lambda>st.
     Inr (sort_by (\<lambda>x y. dp_dependency_id x < dp_dependency_id y) (fst st)))))"

definition bindingLookupRevisions :: "document_batch \<Rightarrow> nat \<Rightarrow> lookup_scope_revision list" where
  "bindingLookupRevisions b revision =
     (let byScope = foldl (\<lambda>m l. AList.update (ls_scope_id l) l m) [] (manifest_lookups b) in
      sort_by (\<lambda>x y. ls_scope_id x < ls_scope_id y)
        (map snd (AList.update ''canonical-registry'' \<lparr>ls_scope_id = ''canonical-registry'', ls_revision = revision,
           ls_empty_result = (revision = 0)\<rparr> byScope)))"

definition issue_before :: "validation_issue \<Rightarrow> validation_issue \<Rightarrow> bool" where
  "issue_before a b \<longleftrightarrow>
     (if vi_record_id a = vi_record_id b then vi_code a < vi_code b else vi_record_id a < vi_record_id b)"

definition unbound_issue :: "source_observation list \<Rightarrow> string \<Rightarrow> validation_issue" where
  "unbound_issue observations source =
     (let refs = map so_id (observations_of source observations) in
      \<lparr>vi_code = ''REGULATION_IDENTITY_REVIEW_REQUIRED'', vi_severity = SEVERITY_ERROR, vi_record_id = source,
       vi_field_path = ''regulations'', vi_evidence_refs = sort (if refs = [] then [source] else refs),
       vi_disposition = ''quarantine until a registry-owned regulation and issuer identity are assigned''\<rparr>)"

definition appendUnboundSourceIssues :: "RegulationDocumentBinding list \<Rightarrow> document_batch \<Rightarrow> document_batch" where
  "appendUnboundSourceIssues bindings b =
     b\<lparr>db_issues := sort_by issue_before (db_issues b @
        map (unbound_issue (db_observations b))
          (filter (\<lambda>s. s \<notin> set (map rb_source bindings)) (map sb_id (db_sources b))))\<rparr>"

definition boundSourcesWithoutText :: "document_batch \<Rightarrow> RegulationDocumentBinding list \<Rightarrow> (string \<times> string list) list" where
  "boundSourcesWithoutText b bindings =
     foldl (\<lambda>m x. AList.update (rb_source x) (rc_observation_ids (rb_candidate x)) m) []
       (filter (\<lambda>x. rb_source x \<notin> set (map ta_source_blob_id (db_text_artifacts b))) bindings)"

definition missing_text_issue :: "string \<times> string list \<Rightarrow> validation_issue" where
  "missing_text_issue p =
     \<lparr>vi_code = ''STRUCTURED_TEXT_MISSING'', vi_severity = SEVERITY_ERROR, vi_record_id = fst p,
      vi_field_path = ''text_artifacts'', vi_evidence_refs = sort (snd p),
      vi_disposition = ''retain edition provenance but quarantine provision publication until structured text is available''\<rparr>"

definition appendMissingStructuredSourceIssues :: "(string \<times> string list) list \<Rightarrow> document_batch \<Rightarrow> document_batch" where
  "appendMissingStructuredSourceIssues missing b =
     b\<lparr>db_issues := sort_by issue_before (db_issues b @ map missing_text_issue missing)\<rparr>"

definition degradeToPartial :: "document_batch \<Rightarrow> document_batch" where
  "degradeToPartial b =
     (if db_completeness b = COMPLETENESS_COMPLETE then b\<lparr>db_completeness := COMPLETENESS_PARTIAL\<rparr> else b)"

definition documentRecordCount :: "document_batch \<Rightarrow> nat" where
  "documentRecordCount b =
     1 + length (db_sources b) + length (db_text_artifacts b) + length (db_structures b) + length (db_provisions b) +
     length (db_versions b) + length (db_chunks b) + length (db_issues b) + length (db_editions b) +
     length (db_regulations b) + length (db_observations b) + length (db_changes b)"

abbreviation rg_id :: "regulation \<Rightarrow> string" where "rg_id r \<equiv> GetRecordId (rg_meta r)"
abbreviation pv_id :: "provision \<Rightarrow> string" where "pv_id p \<equiv> GetRecordId (pv_meta p)"
abbreviation ed_id :: "document_edition \<Rightarrow> string" where "ed_id e \<equiv> GetRecordId (ed_meta e)"
abbreviation vn_id :: "provision_version \<Rightarrow> string" where "vn_id v \<equiv> GetRecordId (vn_meta v)"

definition sorted_on :: "('a \<Rightarrow> string) \<Rightarrow> 'a list \<Rightarrow> 'a list" where
  "sorted_on key xs = sort_by (\<lambda>x y. key x < key y) xs"

text \<open>The digest that names the output: input, revision, bound identities and producer.\<close>

definition outputIdentity ::
    "host \<Rightarrow> document_batch \<Rightarrow> DocumentBindingConfig \<Rightarrow> string \<Rightarrow> regulation list \<Rightarrow> provision list \<Rightarrow> string" where
  "outputIdentity h b config inputHash regulations provisions =
     (let producer = bindingProducerManifest h config inputHash in
      sha256hex h (concat (map (\<lambda>p. Itoa (length p) @ NUL @ p)
        (''bound-v1'' # GetRecordId (db_meta b) # Itoa (bc_registry_revision config) #
         map rg_id regulations @ map pv_id provisions @
         [inputHash, pd_software producer, pd_build producer, null_string (pd_config_hash producer)]))))"

definition assemble_output ::
    "host \<Rightarrow> document_batch \<Rightarrow> RegulationDocumentBinding list \<Rightarrow> DocumentBindingConfig \<Rightarrow> string \<Rightarrow> regulation list \<Rightarrow>
     bound_records \<Rightarrow> dependency list \<Rightarrow> document_batch" where
  "assemble_output h b bindings config inputHash regulations st dependencies =
     (let provisions = sorted_on pv_id (map snd (bo_provisions st));
          identity = outputIdentity h b config inputHash regulations provisions;
          out = b\<lparr>db_meta := map_option (\<lambda>m. m\<lparr>m_record_id := ''document-batch:'' @ identity\<rparr>) (db_meta b),
            db_regulations := regulations,
            db_editions := sorted_on ed_id (map (bound_edition h (GetCorpusId (db_meta b)) config) bindings),
            db_provisions := provisions, db_versions := sorted_on vn_id (bo_versions st), db_chunks := [],
            db_dependency_manifest := Some \<lparr>dm_artifact_id = ''dependency-manifest:'' @ identity,
              dm_dependencies = dependencies,
              dm_producer_manifest = Some (bindingProducerManifest h config inputHash),
              dm_lookup_scope_revisions = bindingLookupRevisions b (bc_registry_revision config)\<rparr>\<rparr>;
          out' = (if length bindings < length (db_sources b)
            then appendUnboundSourceIssues bindings (degradeToPartial out) else out);
          missing = boundSourcesWithoutText b bindings
      in if missing \<noteq> [] then appendMissingStructuredSourceIssues missing (degradeToPartial out') else out')"

definition provision_assignment_ok :: "nat \<Rightarrow> CanonicalIdentityAssignment \<Rightarrow> bool" where
  "provision_assignment_ok revision a \<longleftrightarrow> assignment_ok a \<and> ca_revision a \<le> revision"

definition BindDocumentBatch ::
    "host \<Rightarrow> document_batch codec \<Rightarrow> document_batch option \<Rightarrow> RegulationDocumentBinding list \<Rightarrow>
     ProvisionIdentityCandidate list \<Rightarrow> CanonicalIdentityAssignment list \<Rightarrow> DocumentBindingConfig \<Rightarrow> document_batch result" where
  "BindDocumentBatch h c batch bindings candidates assignments config =
     bind_result (validateDocumentBindingConfig config) (\<lambda>_.
     bind_result (planProvisionIdentities h c batch bindings (bc_maximum_records config) (bc_wire_limits config)) (\<lambda>planned.
     if \<not> equalProvisionPlans planned candidates then Inl (Err ''provision candidates differ from a fresh plan'')
     else bind_result (index_assignments ''provision'' (provision_assignment_ok (bc_registry_revision config)) [] assignments) (\<lambda>index.
     if length index \<noteq> length candidates then Inl (Err ''provision assignment cardinality mismatch'')
     else let b = the batch; corpus = GetCorpusId (db_meta b); inputHash = sha256hex h (c_marshal c b) in
     bind_result (bind_regulations h corpus config [] bindings) (\<lambda>regulations.
     bind_result (assign_candidates h index [] candidates) (\<lambda>byNode.
     bind_result (bind_provisions h corpus byNode (db_text_artifacts b)
        (map (\<lambda>x. (rb_source x, editionID h x)) bindings) candidates \<lparr>bo_provisions = [], bo_versions = []\<rparr>) (\<lambda>st.
     bind_result (bindingDependencies h b inputHash bindings (bc_registry_revision config)) (\<lambda>dependencies.
     let output = assemble_output h b bindings config inputHash (sorted_on rg_id (map snd regulations)) st dependencies in
     if int (documentRecordCount output) > bc_maximum_records config
     then Inl (Err ''bound document batch exceeds configured record limit'')
     else case validate_wire_limits h c (bc_wire_limits config) output of
       Inl e \<Rightarrow> Inl (Wrap ''validate bound document batch'' e)
     | Inr _ \<Rightarrow> Inr output)))))))"

section \<open>Structural paths lead to a root\<close>

text \<open>The components from the root of a node down to the node itself.\<close>

inductive rooted :: "structure_node list \<Rightarrow> string \<Rightarrow> string list \<Rightarrow> bool" for nodes where
  root: "node_of nodes i = Some n \<Longrightarrow> sn_parent_id n = None \<Longrightarrow> rooted nodes i [component n]"
| child: "node_of nodes i = Some n \<Longrightarrow> sn_parent_id n = Some p \<Longrightarrow> rooted nodes p path \<Longrightarrow>
    rooted nodes i (path @ [component n])"

inductive_cases rootedE: "rooted nodes i path"

lemma rooted_functional: "rooted nodes i path \<Longrightarrow> rooted nodes i path' \<Longrightarrow> path = path'"
proof (induction arbitrary: path' rule: rooted.induct)
  case (root i n)
  from root.prems root.hyps show ?case by (auto elim: rootedE)
next
  case (child i n p path)
  from child.prems obtain path'' where "path' = path'' @ [component n]" "rooted nodes p path''"
    using child.hyps(1,2) by (auto elim: rootedE)
  with child.IH show ?case by simp
qed

lemma rooted_nonempty: "rooted nodes i path \<Longrightarrow> path \<noteq> []"
  by (auto elim: rootedE)

definition path_fits :: "WireLimits \<Rightarrow> string list \<Rightarrow> bool" where
  "path_fits limits path \<longleftrightarrow> int (path_bytes path) \<le> MaxBytes limits \<and>
     (length path = 1 \<or> int (length path) \<le> MaxDepth limits)"

definition cache_sound :: "structure_node list \<Rightarrow> WireLimits \<Rightarrow> path_cache \<Rightarrow> bool" where
  "cache_sound nodes limits cache \<longleftrightarrow> (\<forall>(i, path) \<in> set cache. rooted nodes i path \<and> path_fits limits path)"

lemma cached_rooted: "cache_sound nodes limits cache \<Longrightarrow> map_of cache i = Some path \<Longrightarrow> rooted nodes i path"
  by (auto simp: cache_sound_def dest: map_of_SomeD)

lemma path_bytes_snoc: "path_bytes (path @ [c]) = path_bytes path + length c"
  by (simp add: path_bytes_def)

lemma path_fits_prefix: "path_fits limits (path @ [c]) \<Longrightarrow> path \<noteq> [] \<Longrightarrow> path_fits limits path \<and> int (length path) < MaxDepth limits"
  by (auto simp: path_fits_def path_bytes_snoc)

lemma structuralPath_sound:
  assumes "structuralPath nodes limits cache visiting i = Inr (path, cache')" and "cache_sound nodes limits cache"
  shows "rooted nodes i path \<and> path_fits limits path \<and> cache_sound nodes limits cache' \<and> map_of cache' i = Some path"
  using assms
proof (induction nodes limits cache visiting i arbitrary: path cache' rule: structuralPath.induct)
  case (1 nodes limits cache visiting i)
  show ?case
  proof (cases "map_of cache i")
    case (Some found)
    with "1.prems" show ?thesis
      by (auto simp: structuralPath.simps [of nodes] cache_sound_def dest: map_of_SomeD)
  next
    case None
    with "1.prems"(1) obtain n where n: "node_of nodes i = Some n" "i \<notin> set visiting"
      by (auto simp: structuralPath.simps [of nodes] split: option.splits if_splits)
    note [simp] = row_of_key [OF n(1)]
    show ?thesis
    proof (cases "sn_parent_id n")
      case root: None
      with "1.prems" None n have "path = [component n]" "cache' = (i, path) # cache" "int (path_bytes path) \<le> MaxBytes limits"
        by (auto simp: structuralPath.simps [of nodes] extend_structural_path_def Let_def split: if_splits)
      with rooted.root [OF n(1) root] "1.prems"(2) show ?thesis by (simp add: cache_sound_def path_fits_def)
    next
      case (Some p)
      with "1.prems"(1) None n obtain above cache'' where up: "structuralPath nodes limits cache (i # visiting) p = Inr (above, cache'')"
        and new: "path = above @ [component n]" "cache' = (i, path) # cache''" "int (path_bytes path) \<le> MaxBytes limits"
          "int (length above) < MaxDepth limits"
        by (auto simp: structuralPath.simps [of nodes limits cache visiting] bind_result_Inr_iff extend_structural_path_def
            Let_def split: if_splits)
      from "1.IH" [OF None n Some up "1.prems"(2)] have "rooted nodes p above" "cache_sound nodes limits cache''" by simp_all
      with rooted.child [OF n(1) Some] new show ?thesis by (simp add: cache_sound_def path_fits_def)
    qed
  qed
qed

lemma structuralPath_complete:
  assumes "rooted nodes i path" and "path_fits limits path" and "cache_sound nodes limits cache"
    and "\<And>v. v \<in> set visiting \<Longrightarrow> \<exists>below. rooted nodes v below \<and> length path < length below"
  shows "\<exists>cache'. structuralPath nodes limits cache visiting i = Inr (path, cache')"
  using assms
proof (induction arbitrary: visiting rule: rooted.induct)
  case (root i n)
  have "i \<notin> set visiting"
    using root.prems(3) rooted_functional [OF rooted.root [OF root.hyps]] by fastforce
  moreover have "found = [component n]" if "map_of cache i = Some found" for found
    using rooted_functional [OF rooted.root [OF root.hyps] cached_rooted [OF root.prems(2) that]] by simp
  ultimately show ?case
    using root by (auto simp: structuralPath.simps [of nodes] extend_structural_path_def Let_def path_fits_def split: option.splits)
next
  case (child i n p path)
  note here = rooted.child [OF child.hyps]
  have i: "i \<notin> set visiting"
    using child.prems(3) rooted_functional [OF here] by fastforce
  have found: "found = path @ [component n]" if "map_of cache i = Some found" for found
    using rooted_functional [OF here cached_rooted [OF child.prems(2) that]] by simp
  have fits: "path_fits limits path" "int (length path) < MaxDepth limits"
    using path_fits_prefix [OF child.prems(1)] rooted_nonempty [OF child.hyps(3)] by simp_all
  have "\<exists>below. rooted nodes v below \<and> length path < length below" if "v \<in> set (i # visiting)" for v
    using that here child.prems(3) [of v] by fastforce
  from child.IH [OF fits(1) child.prems(2) this] obtain cache' where
    "structuralPath nodes limits cache (i # visiting) p = Inr (path, cache')" by blast
  with i found fits child.hyps child.prems(1) show ?case
    by (auto simp: structuralPath.simps [of nodes limits cache visiting i] extend_structural_path_def Let_def path_fits_def split: option.splits)
qed

lemma structuralPath_iff:
  assumes "cache_sound nodes limits cache"
  shows "(\<exists>cache'. structuralPath nodes limits cache [] i = Inr (path, cache')) \<longleftrightarrow>
    rooted nodes i path \<and> path_fits limits path"
  using structuralPath_sound [OF _ assms] structuralPath_complete [OF _ _ assms] by fastforce

lemma all_paths_sound:
  "all_paths nodes limits cache is = Inr cache' \<Longrightarrow> cache_sound nodes limits cache \<Longrightarrow>
   cache_sound nodes limits cache' \<and> (\<forall>i \<in> set is. \<exists>path. rooted nodes i path \<and> path_fits limits path)"
proof (induction "is" arbitrary: cache)
  case (Cons i "is")
  then obtain x where x: "structuralPath nodes limits cache [] i = Inr x" "all_paths nodes limits (snd x) is = Inr cache'"
    by (auto simp: bind_result_Inr_iff)
  obtain path cache'' where p: "x = (path, cache'')" by (cases x)
  from structuralPath_sound [OF x(1) [unfolded p] Cons.prems(2)] have "cache_sound nodes limits (snd x)" "rooted nodes i path" "path_fits limits path"
    by (simp_all add: p)
  with Cons.IH [OF x(2)] show ?case by auto
qed simp

section \<open>Planned candidates\<close>

definition bound_node :: "(string \<times> string) list \<Rightarrow> RegulationDocumentBinding list \<Rightarrow> structure_node \<Rightarrow> bool" where
  "bound_node textSource bindings n \<longleftrightarrow>
     (\<exists>source b. map_of textSource (node_text n) = Some source \<and> row_of rb_source source bindings = Some b)"

text \<open>What a candidate says about the node that it was planned for.\<close>

definition planned_for ::
    "host \<Rightarrow> structure_node list \<Rightarrow> WireLimits \<Rightarrow> (string \<times> string) list \<Rightarrow> RegulationDocumentBinding list \<Rightarrow>
     structure_node \<Rightarrow> ProvisionIdentityCandidate \<Rightarrow> bool" where
  "planned_for h nodes limits textSource bindings n c \<longleftrightarrow>
     map_of textSource (node_text n) = Some (pc_source_blob_id c) \<and>
     (\<exists>b. row_of rb_source (pc_source_blob_id c) bindings = Some b \<and> pc_regulation_id c = rb_regulation_id b) \<and>
     pc_structure_node_id c = sn_id n \<and> pc_parent_structure_node_id c = sn_parent n \<and>
     pc_text_artifact_id c = node_text n \<and> pc_spans c = sn_source_spans n \<and>
     rooted nodes (sn_id n) (pc_structural_path c) \<and> path_fits limits (pc_structural_path c) \<and>
     pc_identity_key c = provisionIdentityKey h (pc_regulation_id c) (pc_structural_path c)"

definition local_key :: "ProvisionIdentityCandidate \<Rightarrow> string" where
  "local_key c = pc_source_blob_id c @ NUL @ pc_identity_key c"

lemma node_candidate_Inr:
  assumes "node_candidate h nodes limits cache source b n = Inr c" and "cache_sound nodes limits cache"
    and "map_of textSource (node_text n) = Some source" and "row_of rb_source source bindings = Some b"
  shows "planned_for h nodes limits textSource bindings n c \<and> pc_source_blob_id c = source"
  using assms structuralPath_sound [OF _ assms(2), of "[]" "sn_id n"]
  by (auto simp: node_candidate_def bind_result_Inr_iff planned_for_def)

lemma plan_nodes_Inr:
  assumes "plan_nodes h nodes limits cache textSource bindings seen ns = Inr cs" and "cache_sound nodes limits cache"
  shows "list_all2 (planned_for h nodes limits textSource bindings) (filter (bound_node textSource bindings) ns) cs \<and>
    distinct (map local_key cs) \<and> set (map local_key cs) \<inter> set seen = {}"
  using assms(1)
proof (induction ns arbitrary: seen cs)
  case (Cons n ns)
  from Cons.prems obtain source where s: "map_of textSource (node_text n) = Some source"
    by (auto split: if_splits option.splits)
  show ?case
  proof (cases "row_of rb_source source bindings")
    case None
    with Cons.prems s have "plan_nodes h nodes limits cache textSource bindings seen ns = Inr cs" by (auto split: if_splits)
    from Cons.IH [OF this] None s show ?thesis by (simp add: bound_node_def)
  next
    case (Some b)
    with Cons.prems s obtain c cs' where c: "node_candidate h nodes limits cache source b n = Inr c"
      and new: "source @ NUL @ pc_identity_key c \<notin> set seen" "cs = c # cs'"
      and rest: "plan_nodes h nodes limits cache textSource bindings ((source @ NUL @ pc_identity_key c) # seen) ns = Inr cs'"
      by (auto simp: bind_result_Inr_iff Let_def split: if_splits)
    from node_candidate_Inr [OF c assms(2) s Some] have p: "planned_for h nodes limits textSource bindings n c" "local_key c = source @ NUL @ pc_identity_key c"
      by (simp_all add: local_key_def)
    with Cons.IH [OF rest] new s Some show ?thesis by (auto simp: bound_node_def)
  qed
qed simp

text \<open>The text table of a batch and what a successful plan has checked.\<close>

abbreviation text_source :: "document_batch \<Rightarrow> (string \<times> string) list" where
  "text_source b \<equiv> map (\<lambda>a. (ta_id a, ta_source_blob_id a)) (db_text_artifacts b)"

lemma plan_batch_Inr:
  assumes "plan_batch h b bindings limits = Inr cs"
  shows "\<exists>cs'. mset cs = mset cs' \<and>
      list_all2 (planned_for h (db_structures b) limits (text_source b) bindings)
        (filter (bound_node (text_source b) bindings) (db_structures b)) cs' \<and> distinct (map local_key cs')"
    and "distinct (map sb_id (db_sources b))" and "distinct (map sn_id (db_structures b))"
    and "distinct (map ta_id (db_text_artifacts b))"
    and "list_all (\<lambda>a. ta_source_blob_id a \<in> set (map sb_id (db_sources b))) (db_text_artifacts b)"
    and "check_bindings h (map sb_id (db_sources b)) (db_observations b) [] bindings = Inr ()"
    and "validateStructureBindingClosure (db_structures b) (text_source b) (db_text_artifacts b) = Inr ()"
proof -
  from assms obtain cache cs' where
    cache: "all_paths (db_structures b) limits [] (sort (map sn_id (db_structures b))) = Inr cache"
    and nodes: "plan_nodes h (db_structures b) limits cache (text_source b) bindings [] (db_structures b) = Inr cs'"
    and cs: "cs = sort_by candidate_before cs'"
    and rest: "distinct (map sb_id (db_sources b))" "distinct (map sn_id (db_structures b))"
      "distinct (map fst (text_source b))" "list_all (\<lambda>p. snd p \<in> set (map sb_id (db_sources b))) (text_source b)"
      "check_bindings h (map sb_id (db_sources b)) (db_observations b) [] bindings = Inr ()"
      "validateStructureBindingClosure (db_structures b) (text_source b) (db_text_artifacts b) = Inr ()"
    by (auto simp: plan_batch_def Let_def bind_result_Inr_iff guard_Inr_iff)
  from all_paths_sound [OF cache] have "cache_sound (db_structures b) limits cache" by (simp add: cache_sound_def)
  from plan_nodes_Inr [OF nodes this] show "\<exists>cs'. mset cs = mset cs' \<and>
      list_all2 (planned_for h (db_structures b) limits (text_source b) bindings)
        (filter (bound_node (text_source b) bindings) (db_structures b)) cs' \<and> distinct (map local_key cs')"
    by (intro exI [of _ cs']) (simp add: cs)
  show "distinct (map sb_id (db_sources b))" "distinct (map sn_id (db_structures b))"
    "distinct (map ta_id (db_text_artifacts b))"
    "list_all (\<lambda>a. ta_source_blob_id a \<in> set (map sb_id (db_sources b))) (db_text_artifacts b)"
    "check_bindings h (map sb_id (db_sources b)) (db_observations b) [] bindings = Inr ()"
    "validateStructureBindingClosure (db_structures b) (text_source b) (db_text_artifacts b) = Inr ()"
    using rest by (simp_all add: comp_def list_all_iff)
qed

lemma planned_candidate:
  assumes "plan_batch h b bindings limits = Inr cs" and "c \<in> set cs"
  shows "\<exists>n \<in> set (db_structures b). planned_for h (db_structures b) limits (text_source b) bindings n c"
proof -
  obtain cs' where "mset cs = mset cs'"
    and l: "list_all2 (planned_for h (db_structures b) limits (text_source b) bindings)
        (filter (bound_node (text_source b) bindings) (db_structures b)) cs'"
    using plan_batch_Inr(1) [OF assms(1)] by blast
  then have "c \<in> set cs'" using assms(2) mset_eq_setD by blast
  then obtain k where k: "k < length cs'" "c = cs' ! k" by (auto simp: in_set_conv_nth)
  let ?ns = "filter (bound_node (text_source b) bindings) (db_structures b)"
  from l k have "planned_for h (db_structures b) limits (text_source b) bindings (?ns ! k) c" and "k < length ?ns"
    by (simp_all add: list_all2_conv_all_nth)
  moreover from this(2) have "?ns ! k \<in> set ?ns" by (rule nth_mem)
  ultimately have "planned_for h (db_structures b) limits (text_source b) bindings (?ns ! k) c" "?ns ! k \<in> set ?ns" by blast+
  then show ?thesis by auto
qed

section \<open>What the materialisation produces\<close>

lemma dom_map_of_update: "dom (map_of (AList.update k v m)) = insert k (dom (map_of m))"
  by (simp add: update_conv')

definition regulations_ok :: "string set \<Rightarrow> (string \<times> regulation) list \<Rightarrow> bool" where
  "regulations_ok issuers regs \<longleftrightarrow> distinct (map fst regs) \<and>
     (\<forall>i r. map_of regs i = Some r \<longrightarrow>
        rg_id r = i \<and> rg_identity_status r = IDENTITY_STATUS_UNRESOLVED \<and> rg_issuer_id r \<in> issuers)"

lemma record_in_id [simp]: "GetRecordId (record_in corpus i) = i"
  by (simp add: record_in_def GetRecordId_def)

lemma bind_regulations_Inr:
  assumes "bind_regulations h corpus config regs bs = Inr regs'" and "regulations_ok issuers regs"
    and "rb_issuer_id ` set bs \<subseteq> issuers"
  shows "regulations_ok issuers regs' \<and> dom (map_of regs') = dom (map_of regs) \<union> rb_regulation_id ` set bs \<and>
    (\<forall>b \<in> set bs. rb_registry_revision b \<le> bc_registry_revision config)"
  using assms
proof (induction bs arbitrary: regs)
  case (Cons b bs)
  let ?new = "bound_regulation corpus b"
  obtain r where r: "bind_regulations h corpus config (AList.update (rb_regulation_id b) r regs) bs = Inr regs'"
    and rev: "rb_registry_revision b \<le> bc_registry_revision config"
    and ok: "r = ?new \<or> (\<exists>p. map_of regs (rb_regulation_id b) = Some p \<and> same_regulation h p ?new \<and> r = merge_regulation p ?new)"
    using Cons.prems(1) by (auto simp: bind_result_Inr_iff split: if_splits option.splits)
  have "regulations_ok issuers (AList.update (rb_regulation_id b) r regs)"
    using Cons.prems(2,3) ok
    by (auto simp: regulations_ok_def update_conv' distinct_update bound_regulation_def merge_regulation_def)
  from Cons.IH [OF r this] Cons.prems(3) rev show ?case by (simp add: dom_map_of_update)
qed simp

lemma assign_candidates_Inr:
  assumes "assign_candidates h index byNode cs = Inr byNode'"
  shows "dom (map_of byNode') = dom (map_of byNode) \<union> pc_structure_node_id ` set cs"
  using assms
proof (induction cs arbitrary: byNode)
  case (Cons c cs)
  then have "\<exists>a :: CanonicalIdentityAssignment. assign_candidates h index (AList.update (pc_structure_node_id c) (ca_canonical_id a) byNode) cs = Inr byNode'"
    by (auto simp: bind_result_Inr_iff split: option.splits)
  then obtain a :: CanonicalIdentityAssignment where "assign_candidates h index (AList.update (pc_structure_node_id c) (ca_canonical_id a) byNode) cs = Inr byNode'" ..
  from Cons.IH [OF this] show ?case by (auto simp: dom_map_of_update)
qed simp

definition provisions_ok :: "string set \<Rightarrow> string set \<Rightarrow> (string \<times> provision) list \<Rightarrow> bool" where
  "provisions_ok regs ids ps \<longleftrightarrow> distinct (map fst ps) \<and>
     (\<forall>i p. map_of ps i = Some p \<longrightarrow> pv_id p = i \<and> pv_regulation_id p \<in> regs \<and>
        (\<forall>q. pv_parent_provision_id p = Some q \<longrightarrow> q \<in> ids) \<and> pv_lineage_refs p = [])"

text \<open>The version that a candidate gets.\<close>

definition version_for ::
    "host \<Rightarrow> string \<Rightarrow> (string \<times> string) list \<Rightarrow> text_artifact list \<Rightarrow> (string \<times> string) list \<Rightarrow>
     ProvisionIdentityCandidate \<Rightarrow> provision_version \<Rightarrow> bool" where
  "version_for h corpus byNode artifacts editions c v \<longleftrightarrow>
     (\<exists>a textRef edition. row_of ta_id (pc_text_artifact_id c) artifacts = Some a \<and>
        ta_normalized_text_ref a = Some textRef \<and> map_of editions (pc_source_blob_id c) = Some edition \<and>
        v = bound_version h corpus (lookup_default [] byNode (pc_structure_node_id c)) edition textRef (pc_spans c))"

lemma bind_provision_Inr:
  assumes "bind_provision h corpus byNode artifacts editions c st = Inr st'"
    and "provisions_ok regs ids (bo_provisions st)" and "pc_regulation_id c \<in> regs" and "ran (map_of byNode) \<subseteq> ids"
  shows "provisions_ok regs ids (bo_provisions st') \<and>
    dom (map_of (bo_provisions st')) = insert (lookup_default [] byNode (pc_structure_node_id c)) (dom (map_of (bo_provisions st))) \<and>
    (\<exists>v. bo_versions st' = bo_versions st @ [v] \<and> version_for h corpus byNode artifacts editions c v)"
proof -
  let ?i = "lookup_default [] byNode (pc_structure_node_id c)"
  from assms(1) obtain p where p: "bo_provisions st' = AList.update ?i p (bo_provisions st)"
    and ok: "pv_id p = ?i \<and> pv_regulation_id p \<in> regs \<and> (\<forall>q. pv_parent_provision_id p = Some q \<longrightarrow> q \<in> ids) \<and> pv_lineage_refs p = []"
    and v: "\<exists>v. bo_versions st' = bo_versions st @ [v] \<and> version_for h corpus byNode artifacts editions c v"
    using assms(2-4)
    by (fastforce simp: bind_provision_def Let_def version_for_def provisions_ok_def merge_provision_def bind_eq_Some_conv
        intro: ranI split: if_splits option.splits)
  from p ok assms(2) have "provisions_ok regs ids (bo_provisions st')"
    by (auto simp: provisions_ok_def update_conv' distinct_update)
  with p v show ?thesis by (simp add: dom_map_of_update)
qed

lemma bind_provisions_Inr:
  assumes "bind_provisions h corpus byNode artifacts editions cs st = Inr st'"
    and "provisions_ok regs ids (bo_provisions st)" and "pc_regulation_id ` set cs \<subseteq> regs" and "ran (map_of byNode) \<subseteq> ids"
  shows "provisions_ok regs ids (bo_provisions st') \<and>
    dom (map_of (bo_provisions st')) =
      dom (map_of (bo_provisions st)) \<union> (\<lambda>c. lookup_default [] byNode (pc_structure_node_id c)) ` set cs \<and>
    (\<exists>vs. bo_versions st' = bo_versions st @ vs \<and> list_all2 (version_for h corpus byNode artifacts editions) cs vs)"
  using assms(1-3)
proof (induction cs arbitrary: st)
  case (Cons c cs)
  then obtain st1 where st1: "bind_provision h corpus byNode artifacts editions c st = Inr st1"
    and rest: "bind_provisions h corpus byNode artifacts editions cs st1 = Inr st'"
    by (auto simp: bind_result_Inr_iff)
  from bind_provision_Inr [OF st1 Cons.prems(2) _ assms(4)] Cons.prems(3)
  have s: "provisions_ok regs ids (bo_provisions st1)"
    "dom (map_of (bo_provisions st1)) = insert (lookup_default [] byNode (pc_structure_node_id c)) (dom (map_of (bo_provisions st)))"
    and "\<exists>v. bo_versions st1 = bo_versions st @ [v] \<and> version_for h corpus byNode artifacts editions c v" by simp_all
  then obtain v where v: "bo_versions st1 = bo_versions st @ [v]" "version_for h corpus byNode artifacts editions c v" by blast
  from Cons.IH [OF rest s(1)] Cons.prems(3) obtain vs where r: "provisions_ok regs ids (bo_provisions st')"
    "dom (map_of (bo_provisions st')) =
      dom (map_of (bo_provisions st1)) \<union> (\<lambda>c. lookup_default [] byNode (pc_structure_node_id c)) ` set cs"
    "bo_versions st' = bo_versions st1 @ vs" "list_all2 (version_for h corpus byNode artifacts editions) cs vs" by auto
  then have "bo_versions st' = bo_versions st @ (v # vs)" "list_all2 (version_for h corpus byNode artifacts editions) (c # cs) (v # vs)"
    by (simp_all add: v)
  with r s(2) show ?case by (simp del: list_all2_Cons)
qed simp

definition dependencies_ok :: "dependency list \<times> (string \<times> string) list \<Rightarrow> bool" where
  "dependencies_ok st \<longleftrightarrow>
     (\<forall>i x. map_of (snd st) i = Some x \<longrightarrow> \<lparr>dp_dependency_id = i, dp_fingerprint = Some x\<rparr> \<in> set (fst st))"

lemma add_dependency_Inr:
  assumes "add_dependency message i x st = Inr st'" and "dependencies_ok st"
  shows "dependencies_ok st' \<and> map_of (snd st') i = Some x \<and> map_of (snd st) \<subseteq>\<^sub>m map_of (snd st')"
  using assms by (auto simp: add_dependency_def dependencies_ok_def map_le_def split: option.splits if_splits)

lemma input_dependencies_Inr:
  "input_dependencies ds st = Inr st' \<Longrightarrow> dependencies_ok st \<Longrightarrow> dependencies_ok st'"
proof (induction ds arbitrary: st)
  case (Cons d ds)
  then show ?case by (auto simp: bind_result_Inr_iff split: option.splits dest: add_dependency_Inr)
qed simp

lemma issuer_dependencies_Inr:
  "issuer_dependencies h revision bs st = Inr st' \<Longrightarrow> dependencies_ok st \<Longrightarrow>
   dependencies_ok st' \<and> map_of (snd st) \<subseteq>\<^sub>m map_of (snd st') \<and>
   (\<forall>b \<in> set bs. map_of (snd st') (rb_issuer_id b) = Some (issuer_fingerprint h (rb_issuer_id b) revision))"
proof (induction bs arbitrary: st)
  case (Cons b bs)
  then obtain st1 where a: "add_dependency ''canonical issuer dependency conflicts with an existing dependency''
      (rb_issuer_id b) (issuer_fingerprint h (rb_issuer_id b) revision) st = Inr st1"
    and r: "issuer_dependencies h revision bs st1 = Inr st'" by (auto simp: bind_result_Inr_iff)
  note A = add_dependency_Inr [OF a Cons.prems(2)]
  note R = Cons.IH [OF r conjunct1 [OF A]]
  have "map_of (snd st') (rb_issuer_id b) = Some (issuer_fingerprint h (rb_issuer_id b) revision)"
    using A R by (metis domI map_le_def)
  with A R show ?case by (auto intro: map_le_trans)
qed simp

lemma bindingDependencies_issuer:
  assumes "bindingDependencies h b inputHash bindings revision = Inr ds" and "x \<in> set bindings"
  shows "\<lparr>dp_dependency_id = rb_issuer_id x, dp_fingerprint = Some (issuer_fingerprint h (rb_issuer_id x) revision)\<rparr> \<in> set ds"
proof -
  from assms(1) obtain st1 st2 st3 where s: "input_dependencies (manifest_dependencies b) ([], []) = Inr st1"
    "add_dependency ''binding input batch dependency conflicts with an existing dependency'' (GetRecordId (db_meta b)) inputHash st1 = Inr st2"
    "issuer_dependencies h revision bindings st2 = Inr st3"
    and ds: "ds = sort_by (\<lambda>x y. dp_dependency_id x < dp_dependency_id y) (fst st3)"
    by (auto simp: bindingDependencies_def bind_result_Inr_iff)
  have "dependencies_ok ([], [])" by (simp add: dependencies_ok_def)
  from input_dependencies_Inr [OF s(1) this] add_dependency_Inr [OF s(2)] have "dependencies_ok st2" by blast
  from issuer_dependencies_Inr [OF s(3) this] assms(2) show ?thesis by (simp add: dependencies_ok_def ds)
qed

lemma revision_recorded:
  "\<exists>l \<in> set (bindingLookupRevisions b revision). ls_scope_id l = ''canonical-registry'' \<and> ls_revision l = revision"
proof -
  let ?l = "\<lparr>ls_scope_id = ''canonical-registry'', ls_revision = revision, ls_empty_result = (revision = 0)\<rparr>"
  have "map_of (AList.update ''canonical-registry'' ?l m) ''canonical-registry'' = Some ?l" for m by (simp add: update_conv')
  from map_of_SomeD [OF this] have "(''canonical-registry'', ?l) \<in> set (AList.update ''canonical-registry'' ?l m)" for m .
  then show ?thesis by (auto simp: bindingLookupRevisions_def Let_def intro!: bexI [of _ "(''canonical-registry'', ?l)"])
qed

lemma check_bindings_Inr:
  "check_bindings h sources observations seen bs = Inr () \<Longrightarrow>
   distinct (map rb_source bs) \<and> set (map rb_source bs) \<subseteq> set sources \<and> set (map rb_source bs) \<inter> set seen = {} \<and>
   list_all (\<lambda>b. validateRegulationBinding h b = Inr ()) bs"
proof (induction bs arbitrary: seen)
  case (Cons b bs)
  then have "check_bindings h sources observations (rb_source b # seen) bs = Inr ()"
    and "validateRegulationBinding h b = Inr ()" "rb_source b \<in> set sources" "rb_source b \<notin> set seen"
    by (auto simp: bind_result_Inr_iff Let_def split: if_splits prod.splits)
  with Cons.IH [of "rb_source b # seen"] show ?case by auto
qed simp

lemma planProvisionIdentities_Inr:
  "planProvisionIdentities h c (Some b) bindings maximum limits = Inr cs \<Longrightarrow> plan_batch h b bindings limits = Inr cs"
  by (auto simp: planProvisionIdentities_def split: if_splits sum.splits)

lemma BindDocumentBatch_Inr:
  assumes "BindDocumentBatch h c (Some b) bindings candidates assignments config = Inr out"
  obtains planned index regulations byNode st dependencies where
    "plan_batch h b bindings (bc_wire_limits config) = Inr planned"
    "index_assignments ''provision'' (provision_assignment_ok (bc_registry_revision config)) [] assignments = Inr index"
    "bind_regulations h (GetCorpusId (db_meta b)) config [] bindings = Inr regulations"
    "assign_candidates h index [] candidates = Inr byNode"
    "bind_provisions h (GetCorpusId (db_meta b)) byNode (db_text_artifacts b)
       (map (\<lambda>x. (rb_source x, editionID h x)) bindings) candidates \<lparr>bo_provisions = [], bo_versions = []\<rparr> = Inr st"
    "bindingDependencies h b (sha256hex h (c_marshal c b)) bindings (bc_registry_revision config) = Inr dependencies"
    "out = assemble_output h b bindings config (sha256hex h (c_marshal c b)) (sorted_on rg_id (map snd regulations)) st dependencies"
  using assms
  by (auto simp: BindDocumentBatch_def bind_result_Inr_iff guard_Inr_iff wrapped_Inr_iff Let_def
      dest!: planProvisionIdentities_Inr)

lemma assemble_output_fields:
  fixes h b bindings config x regulations st dependencies
  defines "out \<equiv> assemble_output h b bindings config x regulations st dependencies"
  shows "db_sources out = db_sources b" "db_observations out = db_observations b"
    "db_text_artifacts out = db_text_artifacts b" "db_structures out = db_structures b" "db_changes out = db_changes b"
    "db_chunks out = []" "db_regulations out = regulations" "set (db_provisions out) = snd ` set (bo_provisions st)"
    "mset (db_versions out) = mset (bo_versions st)"
    "set (db_editions out) = bound_edition h (GetCorpusId (db_meta b)) config ` set bindings"
    "map_option dm_dependencies (db_dependency_manifest out) = Some dependencies"
    "map_option dm_lookup_scope_revisions (db_dependency_manifest out) =
       Some (bindingLookupRevisions b (bc_registry_revision config))"
  unfolding out_def assemble_output_def Let_def
  by (auto simp: appendUnboundSourceIssues_def appendMissingStructuredSourceIssues_def degradeToPartial_def sorted_on_def)

lemma boundSourcesWithoutText_Nil:
  assumes "boundSourcesWithoutText b bindings = []"
  shows "set (map rb_source bindings) \<subseteq> set (map ta_source_blob_id (db_text_artifacts b))"
proof -
  have keys: "dom (map_of (foldl (\<lambda>m x. AList.update (rb_source x) (rc_observation_ids (rb_candidate x)) m) m xs)) =
      dom (map_of m) \<union> rb_source ` set xs" for m xs
    by (induction xs arbitrary: m) (auto simp: dom_map_of_update)
  show ?thesis
    using keys [of "[]" "filter (\<lambda>x. rb_source x \<notin> set (map ta_source_blob_id (db_text_artifacts b))) bindings"] assms
    by (auto simp: boundSourcesWithoutText_def)
qed

lemma assemble_output_complete:
  assumes "db_completeness (assemble_output h b bindings config x regulations st dependencies) = COMPLETENESS_COMPLETE"
  shows "length (db_sources b) \<le> length bindings \<and> set (map rb_source bindings) \<subseteq> set (map ta_source_blob_id (db_text_artifacts b))"
proof -
  have "\<not> length bindings < length (db_sources b)" "boundSourcesWithoutText b bindings = []"
    using assms unfolding assemble_output_def Let_def
    by (auto simp: appendUnboundSourceIssues_def appendMissingStructuredSourceIssues_def degradeToPartial_def split: if_splits)
  then show ?thesis using boundSourcesWithoutText_Nil by auto
qed

definition source_bound :: "document_batch \<Rightarrow> RegulationDocumentBinding list \<Rightarrow> string \<Rightarrow> bool" where
  "source_bound b bindings s \<longleftrightarrow>
     s \<in> set (map rb_source bindings) \<and> s \<in> set (map ta_source_blob_id (db_text_artifacts b))"

text \<open>A version is the text of one structure node, and nothing about it is asserted.\<close>

definition version_of_node :: "document_batch \<Rightarrow> provision_version \<Rightarrow> bool" where
  "version_of_node b v \<longleftrightarrow>
     (\<exists>n \<in> set (db_structures b). \<exists>a \<in> set (db_text_artifacts b).
        ta_id a = node_text n \<and> vn_spans v = sn_source_spans n \<and> vn_text_ref v = ta_normalized_text_ref a) \<and>
     vn_legal_interval v = Some unknown_interval \<and> vn_legal_status v = LEGAL_STATUS_UNKNOWN \<and>
     vn_review_state v = REVIEW_STATE_UNREVIEWED"

lemma version_of_node:
  assumes "version_for h corpus byNode (db_text_artifacts b) editions c v"
    and "\<exists>n \<in> set (db_structures b). planned_for h (db_structures b) limits (text_source b) bindings n c"
  shows "version_of_node b v \<and> vn_provision_id v = lookup_default [] byNode (pc_structure_node_id c)"
proof -
  from assms(1) obtain a textRef edition where a: "row_of ta_id (pc_text_artifact_id c) (db_text_artifacts b) = Some a"
    "ta_normalized_text_ref a = Some textRef"
    and v: "v = bound_version h corpus (lookup_default [] byNode (pc_structure_node_id c)) edition textRef (pc_spans c)"
    by (auto simp: version_for_def)
  from assms(2) obtain n where n: "n \<in> set (db_structures b)" "pc_text_artifact_id c = node_text n" "pc_spans c = sn_source_spans n"
    by (auto simp: planned_for_def)
  have "ta_id a = node_text n" "a \<in> set (db_text_artifacts b)" using row_of_Some [OF a(1)] n(2) by simp_all
  with n(1) a(2) show ?thesis
    by (auto simp: version_of_node_def v bound_version_def n(3) intro!: bexI [of _ n] bexI [of _ a])
qed

text \<open>The parts of a successful materialisation.\<close>

definition bound_parts where
  "bound_parts h b bindings candidates regulations byNode st dependencies \<longleftrightarrow>
     regulations_ok (rb_issuer_id ` set bindings) regulations \<and>
     dom (map_of regulations) = rb_regulation_id ` set bindings \<and>
     dom (map_of byNode) = pc_structure_node_id ` set candidates \<and>
     provisions_ok (rb_regulation_id ` set bindings) (ran (map_of byNode)) (bo_provisions st) \<and>
     dom (map_of (bo_provisions st)) = (\<lambda>c. lookup_default [] byNode (pc_structure_node_id c)) ` set candidates \<and>
     list_all2 (version_for h (GetCorpusId (db_meta b)) byNode (db_text_artifacts b)
       (map (\<lambda>x. (rb_source x, editionID h x)) bindings)) candidates (bo_versions st) \<and>
     rb_issuer_id ` set bindings \<subseteq> dp_dependency_id ` set dependencies"

lemma planned_regulations:
  assumes "plan_batch h b bindings limits = Inr candidates"
  shows "pc_regulation_id ` set candidates \<subseteq> rb_regulation_id ` set bindings"
proof safe
  fix c
  assume "c \<in> set candidates"
  from planned_candidate [OF assms this] obtain x where "row_of rb_source (pc_source_blob_id c) bindings = Some x"
    "pc_regulation_id c = rb_regulation_id x"
    by (auto simp: planned_for_def)
  then show "pc_regulation_id c \<in> rb_regulation_id ` set bindings" by (auto dest: row_of_mem)
qed

lemma BindDocumentBatch_parts:
  assumes plan: "plan_batch h b bindings limits = Inr candidates"
    and bind: "BindDocumentBatch h c (Some b) bindings candidates assignments config = Inr out"
  obtains regulations byNode st dependencies where
    "bound_parts h b bindings candidates regulations byNode st dependencies"
    "out = assemble_output h b bindings config (sha256hex h (c_marshal c b)) (sorted_on rg_id (map snd regulations)) st dependencies"
proof (rule BindDocumentBatch_Inr [OF bind])
  fix planned index regulations byNode st dependencies
  assume regs: "bind_regulations h (GetCorpusId (db_meta b)) config [] bindings = Inr regulations"
    and nodes: "assign_candidates h index [] candidates = Inr byNode"
    and provs: "bind_provisions h (GetCorpusId (db_meta b)) byNode (db_text_artifacts b)
       (map (\<lambda>x. (rb_source x, editionID h x)) bindings) candidates \<lparr>bo_provisions = [], bo_versions = []\<rparr> = Inr st"
    and deps: "bindingDependencies h b (sha256hex h (c_marshal c b)) bindings (bc_registry_revision config) = Inr dependencies"
    and out: "out = assemble_output h b bindings config (sha256hex h (c_marshal c b)) (sorted_on rg_id (map snd regulations)) st dependencies"
  have "regulations_ok (rb_issuer_id ` set bindings) regulations \<and> dom (map_of regulations) = rb_regulation_id ` set bindings"
    using bind_regulations_Inr [OF regs, of "rb_issuer_id ` set bindings"] by (auto simp: regulations_ok_def)
  moreover have "dom (map_of byNode) = pc_structure_node_id ` set candidates"
    using assign_candidates_Inr [OF nodes] by simp
  moreover have "rb_issuer_id ` set bindings \<subseteq> dp_dependency_id ` set dependencies"
    using bindingDependencies_issuer [OF deps] by force
  moreover have "provisions_ok (rb_regulation_id ` set bindings) (ran (map_of byNode)) (bo_provisions \<lparr>bo_provisions = [], bo_versions = []\<rparr>)"
    by (simp add: provisions_ok_def)
  note bind_provisions_Inr [OF provs this planned_regulations [OF plan] order_refl]
  ultimately have "bound_parts h b bindings candidates regulations byNode st dependencies"
    by (simp add: bound_parts_def)
  with out show thesis by (intro that)
qed

lemma distinct_entry: "distinct (map fst m) \<Longrightarrow> x \<in> snd ` set m \<Longrightarrow> \<exists>i. map_of m i = Some x"
  by force

lemma parts_regulations:
  assumes "bound_parts h b bindings candidates regulations byNode st dependencies" and "r \<in> snd ` set regulations"
  shows "rg_identity_status r = IDENTITY_STATUS_UNRESOLVED \<and> rg_issuer_id r \<in> dp_dependency_id ` set dependencies"
  using assms distinct_entry [of regulations r] by (fastforce simp: bound_parts_def regulations_ok_def)

lemma parts_provision_ids:
  assumes "bound_parts h b bindings candidates regulations byNode st dependencies"
  shows "pv_id ` snd ` set (bo_provisions st) = (\<lambda>c. lookup_default [] byNode (pc_structure_node_id c)) ` set candidates"
proof -
  have ok: "provisions_ok (rb_regulation_id ` set bindings) (ran (map_of byNode)) (bo_provisions st)"
    and d: "dom (map_of (bo_provisions st)) = (\<lambda>c. lookup_default [] byNode (pc_structure_node_id c)) ` set candidates"
    using assms by (simp_all add: bound_parts_def)
  have "pv_id p = i" if "(i, p) \<in> set (bo_provisions st)" for i p
    using that ok by (auto simp: provisions_ok_def)
  then have "pv_id ` snd ` set (bo_provisions st) = fst ` set (bo_provisions st)" by (force simp: image_iff)
  with d show ?thesis by (simp add: dom_map_of_conv_image_fst)
qed

lemma parts_provisions:
  assumes "bound_parts h b bindings candidates regulations byNode st dependencies" and "p \<in> snd ` set (bo_provisions st)"
  shows "pv_regulation_id p \<in> rg_id ` snd ` set regulations"
    and "pv_parent_provision_id p = Some q \<Longrightarrow> q \<in> pv_id ` snd ` set (bo_provisions st)"
proof -
  have ok: "provisions_ok (rb_regulation_id ` set bindings) (ran (map_of byNode)) (bo_provisions st)"
    and regs: "dom (map_of regulations) = rb_regulation_id ` set bindings"
    using assms(1) by (simp_all add: bound_parts_def)
  from ok assms(2) obtain i where "map_of (bo_provisions st) i = Some p"
    using distinct_entry [of "bo_provisions st" p] by (auto simp: provisions_ok_def)
  with ok regs have p: "pv_regulation_id p \<in> dom (map_of regulations)" "\<forall>q. pv_parent_provision_id p = Some q \<longrightarrow> q \<in> ran (map_of byNode)"
    unfolding provisions_ok_def by blast+
  then obtain r where "map_of regulations (pv_regulation_id p) = Some r" by blast
  with assms(1) have "rg_id r = pv_regulation_id p" "(pv_regulation_id p, r) \<in> set regulations"
    by (auto simp: bound_parts_def regulations_ok_def dest: map_of_SomeD)
  then have "rg_id r = pv_regulation_id p" "r \<in> snd ` set regulations" by force+
  then show "pv_regulation_id p \<in> rg_id ` snd ` set regulations" by (metis imageI)
  assume "pv_parent_provision_id p = Some q"
  with p(2) obtain i where i: "map_of byNode i = Some q" by (auto simp: ran_def)
  then have "i \<in> dom (map_of byNode)" by blast
  also have "dom (map_of byNode) = pc_structure_node_id ` set candidates" using assms(1) by (simp add: bound_parts_def)
  finally obtain c where "c \<in> set candidates" "pc_structure_node_id c = i" by blast
  with i show "q \<in> pv_id ` snd ` set (bo_provisions st)"
    by (auto simp: parts_provision_ids [OF assms(1)] lookup_default_def intro!: image_eqI [of _ _ c])
qed

lemma parts_versions:
  assumes "bound_parts h b bindings candidates regulations byNode st dependencies"
    and "plan_batch h b bindings limits = Inr candidates" and "v \<in> set (bo_versions st)"
  shows "version_of_node b v \<and> vn_provision_id v \<in> pv_id ` snd ` set (bo_provisions st)"
proof -
  have l: "list_all2 (version_for h (GetCorpusId (db_meta b)) byNode (db_text_artifacts b)
      (map (\<lambda>x. (rb_source x, editionID h x)) bindings)) candidates (bo_versions st)"
    using assms(1) by (simp add: bound_parts_def)
  obtain k where "k < length (bo_versions st)" "v = bo_versions st ! k" using assms(3) by (auto simp: in_set_conv_nth)
  with l have c: "candidates ! k \<in> set candidates"
    "version_for h (GetCorpusId (db_meta b)) byNode (db_text_artifacts b) (map (\<lambda>x. (rb_source x, editionID h x)) bindings) (candidates ! k) v"
    by (auto simp: list_all2_conv_all_nth)
  from version_of_node [OF c(2) planned_candidate [OF assms(2) c(1)]] c(1) parts_provision_ids [OF assms(1)]
  show ?thesis by auto
qed

lemma complete_sources_bound:
  assumes "plan_batch h b bindings limits = Inr candidates" and "length (db_sources b) \<le> length bindings"
    and "set (map rb_source bindings) \<subseteq> set (map ta_source_blob_id (db_text_artifacts b))"
    and "s \<in> set (map sb_id (db_sources b))"
  shows "source_bound b bindings s"
proof -
  from check_bindings_Inr [OF plan_batch_Inr(6) [OF assms(1)]] plan_batch_Inr(2) [OF assms(1)]
  have d: "distinct (map rb_source bindings)" "distinct (map sb_id (db_sources b))"
    "set (map rb_source bindings) \<subseteq> set (map sb_id (db_sources b))" by simp_all
  have "card (set (map sb_id (db_sources b))) \<le> card (set (map rb_source bindings))"
    using assms(2) unfolding distinct_card [OF d(1)] distinct_card [OF d(2)] by simp
  with d(3) have "set (map rb_source bindings) = set (map sb_id (db_sources b))" by (intro card_seteq) auto
  with assms(3,4) show ?thesis by (auto simp: source_bound_def)
qed

section \<open>Containment of spans\<close>

definition lies_in :: "text_span \<Rightarrow> text_span \<Rightarrow> bool" where
  "lies_in child p \<longleftrightarrow> sp_artifact_id p = sp_artifact_id child \<and> sp_start_byte p \<le> sp_start_byte child \<and>
     sp_end_byte child \<le> sp_end_byte p"

lemma spans_ok_later: "spans_ok t limit e ss \<Longrightarrow> s \<in> set ss \<Longrightarrow> e \<le> sp_start_byte s \<and> sp_start_byte s < sp_end_byte s"
  by (induction ss arbitrary: e) fastforce+

lemma spans_ok_dropWhile: "spans_ok t limit e ss \<Longrightarrow> \<exists>e'. spans_ok t limit e' (dropWhile P ss)"
  by (induction ss arbitrary: e) auto

lemma spansContain_iff:
  assumes "spans_ok t limit e parents" and "spans_ok t' limit' e' children"
  shows "spansContain parents children \<longleftrightarrow> (\<forall>c \<in> set children. \<exists>p \<in> set parents. lies_in c p)"
  using assms
proof (induction children arbitrary: parents e e')
  case (Cons c cs)
  let ?gone = "\<lambda>p. sp_end_byte p \<le> sp_start_byte c"
  let ?rest = "dropWhile ?gone parents"
  have c: "sp_start_byte c < sp_end_byte c" and cs: "spans_ok t' limit' (sp_end_byte c) cs" using Cons.prems(2) by simp_all
  obtain e'' where ok: "spans_ok t limit e'' ?rest" using spans_ok_dropWhile [OF Cons.prems(1)] by blast
  have later: "sp_end_byte p \<le> sp_start_byte c \<Longrightarrow> \<not> lies_in d p" if "d \<in> set (c # cs)" for d p
    using spans_ok_later [OF Cons.prems(2) that] that spans_ok_later [OF cs, of d] c by (auto simp: lies_in_def)
  have "set parents = set (takeWhile ?gone parents) \<union> set ?rest"
    by (metis set_append takeWhile_dropWhile_id)
  then have same: "(\<exists>p \<in> set parents. lies_in d p) \<longleftrightarrow> (\<exists>p \<in> set ?rest. lies_in d p)" if "d \<in> set (c # cs)" for d
    using later [OF that] by (auto dest: set_takeWhileD)
  show ?case
  proof (cases ?rest)
    case Nil
    have "\<not> spansContain parents (c # cs)" unfolding spansContain.simps Nil by simp
    moreover have "\<not> (\<exists>p \<in> set parents. lies_in c p)" using same [of c] unfolding Nil by simp
    ultimately show ?thesis by (simp del: spansContain.simps)
  next
    case (Cons p ps)
    have p: "\<not> ?gone p" using Cons by (metis hd_dropWhile list.distinct(1) list.sel(1))
    have "\<not> lies_in c q" if "q \<in> set ps" for q
      using that ok Cons p spans_ok_later [of t limit "sp_end_byte p" ps q] by (fastforce simp: lies_in_def)
    then have "(\<exists>q \<in> set ?rest. lies_in c q) \<longleftrightarrow> lies_in c p" by (auto simp: Cons)
    moreover have "spansContain (p # ps) cs \<longleftrightarrow> (\<forall>d \<in> set cs. \<exists>q \<in> set ?rest. lies_in d q)"
      using Cons.IH [OF ok cs] by (simp add: Cons)
    ultimately show ?thesis using same by (simp add: Cons lies_in_def)
  qed
qed simp

section \<open>Bindings that the registry plan produced are accepted\<close>

lemma regulationCandidate_again:
  assumes "regulationCandidate h s os j = (c, [])"
  shows "rc_jurisdiction c = TrimSpace j" and "regulationCandidate h s os (TrimSpace j) = (c, [])"
proof -
  show "rc_jurisdiction c = TrimSpace j"
    using assms by (auto simp: regulationCandidate_def Let_def split: if_splits prod.splits)
  show "regulationCandidate h s os (TrimSpace j) = (c, [])" using assms by (simp add: regulationCandidate_def)
qed

lemma plan_sources_fresh:
  "c \<in> set (pl_candidates (plan_sources h corpus j os ss)) \<Longrightarrow>
   rc_source_blob_id c \<in> set ss \<and>
   regulationCandidate h (rc_source_blob_id c) (observations_of (rc_source_blob_id c) os) (rc_jurisdiction c) = (c, [])"
proof (induction ss)
  case (Cons s ss)
  obtain c' ps where c: "regulationCandidate h s (observations_of s os) j = (c', ps)" by (metis surj_pair)
  have "rc_source_blob_id c' = s \<and> regulationCandidate h s (observations_of s os) (rc_jurisdiction c') = (c', [])" if "ps = []"
    using c that regulationCandidate_settled [of h s "observations_of s os" j c'] regulationCandidate_again [of h s _ j c'] by metis
  with Cons c show ?case by (auto simp: Let_def split: if_splits)
qed simp

lemma index_assignments_Inr:
  "index_assignments what ok index as = Inr index' \<Longrightarrow> map_of index' k = Some a \<Longrightarrow>
   map_of index k = Some a \<or> ok a \<and> ca_proposal_key a = k"
  by (induction as arbitrary: index) (fastforce split: if_splits)+

lemma map_result_Inr: "map_result f xs = Inr ys \<longleftrightarrow> list_all2 (\<lambda>x y. f x = Inr y) xs ys"
  by (induction xs arbitrary: ys) (auto simp: bind_result_Inr_iff list_all2_Cons1)

lemma plan_claims_candidates: "plan_claims h issuers seen cs = Inr planned \<Longrightarrow> map cr_candidate planned = cs"
  by (induction cs arbitrary: seen planned) (auto simp: bind_result_Inr_iff split: if_splits option.splits)

lemma binding_of_valid:
  assumes "binding_of h issuers regulations item = Inr b"
    and "\<And>k a. map_of issuers k = Some a \<Longrightarrow> assignment_ok a \<and> ca_proposal_key a = k"
    and "\<And>k a. map_of regulations k = Some a \<Longrightarrow> assignment_ok a \<and> ca_proposal_key a = k"
  shows "validateRegulationBinding h b = Inr () \<and> rb_candidate b = cr_candidate item"
proof -
  from assms(1) obtain issuer regulation where
    i: "map_of issuers (cc_proposal_key (cr_issuer_claim item)) = Some issuer"
      "map_of regulations (cc_proposal_key (cr_claim item)) = Some regulation"
    and ids: "ca_canonical_id issuer = cr_issuer_id item"
      "CanonicalIssuerClaim h (cr_candidate item) = Inr (cr_issuer_claim item)"
      "canonicalRegulationClaim h (cr_candidate item) (cr_issuer_id item) = Inr (cr_claim item)"
    and b: "b = \<lparr>rb_candidate = cr_candidate item, rb_regulation_id = ca_canonical_id regulation,
      rb_issuer_id = cr_issuer_id item, rb_issuer_proposal_key = cc_proposal_key (cr_issuer_claim item),
      rb_regulation_proposal_key = cc_proposal_key (cr_claim item),
      rb_registry_revision = max (ca_revision issuer) (ca_revision regulation)\<rparr>"
    by (auto simp: binding_of_def split: if_splits option.splits)
  from assms(2) [OF i(1)] assms(3) [OF i(2)] ids show ?thesis
    by (auto simp: b validateRegulationBinding_def assignment_ok_def max_def)
qed

lemma check_bindings_intro:
  assumes "list_all (\<lambda>b. validateRegulationBinding h b = Inr () \<and> rb_source b \<in> set sources \<and>
      regulationCandidate h (rb_source b) (observations_of (rb_source b) os) (rc_jurisdiction (rb_candidate b)) =
        (rb_candidate b, [])) bs"
    and "distinct (map rb_source bs)" and "set (map rb_source bs) \<inter> set seen = {}"
  shows "check_bindings h sources os seen bs = Inr ()"
  using assms by (induction bs arbitrary: seen) (auto simp: equalRegulationCandidates_def)

lemma registry_bindings_accepted:
  assumes plan: "PlanRegulationIdentities h c (Some b) policy = Inr plan"
    and claims: "PlanCanonicalRegulationClaims h (pl_candidates plan) issuers = Inr planned"
    and build: "BuildRegulationDocumentBindings h planned issuers regulations = Inr bindings"
  shows "check_bindings h (map sb_id (db_sources b)) (db_observations b) [] bindings = Inr ()"
    and "mset (map rb_candidate bindings) = mset (pl_candidates plan)"
proof -
  from claims have p: "map cr_candidate planned = sort_by (\<lambda>a b. rc_source_blob_id a < rc_source_blob_id b) (pl_candidates plan)"
    by (auto simp: PlanCanonicalRegulationClaims_def bind_result_Inr_iff guard_Inr_iff dest: plan_claims_candidates)
  from build obtain ix rs where i: "index_assignments ''issuer'' assignment_ok [] issuers = Inr ix"
    and r: "index_assignments ''regulation'' assignment_ok [] regulations = Inr rs"
    and bs: "list_all2 (\<lambda>x y. binding_of h ix rs x = Inr y) planned bindings"
    by (auto simp: BuildRegulationDocumentBindings_def bind_result_Inr_iff guard_Inr_iff map_result_Inr)
  from index_assignments_Inr [OF i] index_assignments_Inr [OF r]
  have idx: "map_of ix k = Some a \<Longrightarrow> assignment_ok a \<and> ca_proposal_key a = k"
    "map_of rs k = Some a \<Longrightarrow> assignment_ok a \<and> ca_proposal_key a = k" for k a by auto
  have v: "list_all2 (\<lambda>x y. validateRegulationBinding h y = Inr () \<and> rb_candidate y = cr_candidate x) planned bindings"
    by (rule list_all2_mono [OF bs]) (rule binding_of_valid [OF _ idx])
  then have "map rb_candidate bindings = map cr_candidate planned" by (auto simp: list_all2_conv_all_nth intro: nth_equalityI)
  with p show m: "mset (map rb_candidate bindings) = mset (pl_candidates plan)" by simp
  have valid: "validateRegulationBinding h y = Inr ()" if "y \<in> set bindings" for y
    using v that by (auto simp: list_all2_conv_all_nth in_set_conv_nth)
  have fresh: "rb_source y \<in> set (map sb_id (db_sources b)) \<and>
      regulationCandidate h (rb_source y) (observations_of (rb_source y) (db_observations b)) (rc_jurisdiction (rb_candidate y)) =
        (rb_candidate y, [])" if "y \<in> set bindings" for y
  proof -
    from that have "rb_candidate y \<in> set (pl_candidates plan)" using mset_eq_setD [OF m] by auto
    from plan_sources_fresh [OF this [unfolded PlanRegulationIdentities_Inr(1) [OF plan]]] show ?thesis by simp
  qed
  have "mset (map rb_source bindings) = mset (map rc_source_blob_id (pl_candidates plan))"
    using m by (metis (no_types, lifting) list.map_comp comp_def mset_map map_eq_conv)
  then have "distinct (map rb_source bindings)"
    using plan_partition(3) [OF plan] mset_eq_imp_distinct_iff by blast
  with valid fresh show "check_bindings h (map sb_id (db_sources b)) (db_observations b) [] bindings = Inr ()"
    by (intro check_bindings_intro) (auto simp: list_all_iff)
qed

section \<open>Claims about binding\<close>

text \<open>
  Claim C20. The walk up the structure tree always ends and decides: from an empty cache it returns
  a path exactly when the node has a root, the path is the one from that root down to the node,
  and it keeps within the byte and depth limits. On a cycle or an unknown parent it is an error.
\<close>

theorem structuralPath_decides:
  "(\<exists>cache. structuralPath nodes limits [] [] i = Inr (path, cache)) \<longleftrightarrow>
     rooted nodes i path \<and> path_fits limits path"
  by (rule structuralPath_iff) (simp add: cache_sound_def)

text \<open>
  The single pass of \<open>spansContain\<close> over two ordered lists of disjoint spans, the form
  that the check of every node establishes, decides containment: every span of the child lies
  inside some span of the parent.
\<close>

theorem spansContain_exact:
  assumes "spans_ok t limit 0 parents" and "spans_ok t' limit' 0 children"
  shows "spansContain parents children \<longleftrightarrow>
    (\<forall>child \<in> set children. \<exists>p \<in> set parents. sp_artifact_id p = sp_artifact_id child \<and>
       sp_start_byte p \<le> sp_start_byte child \<and> sp_end_byte child \<le> sp_end_byte p)"
  using spansContain_iff [OF assms] by (simp add: lies_in_def)

text \<open>
  Claim C11. The stages of identity resolution fit together: the bindings that are built from the
  plan of a batch and from any registry assignments that the two registry steps accept are
  accepted again when the same batch is bound, for every candidate of the plan and no other.
\<close>

theorem registry_bindings_fit:
  assumes "PlanRegulationIdentities h c (Some b) policy = Inr plan"
    and "PlanCanonicalRegulationClaims h (pl_candidates plan) issuers = Inr planned"
    and "BuildRegulationDocumentBindings h planned issuers regulations = Inr bindings"
  shows "check_bindings h (map sb_id (db_sources b)) (db_observations b) [] bindings = Inr () \<and>
    mset (map rb_candidate bindings) = mset (pl_candidates plan)"
  using registry_bindings_accepted [OF assms] by blast

text \<open>
  Claim C19. A plan of provision identities has exactly one candidate for every structure node
  whose text belongs to a bound source, in some order; the candidate carries the spans of the
  node, the regulation of the binding and the path from the root of the node, its key is the
  digest of regulation and path, and no two candidates of one source share a key.
\<close>

theorem PlanProvisionIdentities_sound:
  assumes "PlanProvisionIdentities h c (Some b) bindings maximum = Inr candidates"
  shows "\<exists>cs. mset candidates = mset cs \<and>
    list_all2 (planned_for h (db_structures b) DefaultWireLimits (text_source b) bindings)
      (filter (bound_node (text_source b) bindings) (db_structures b)) cs \<and>
    distinct (map local_key cs)"
  using assms by (auto simp: PlanProvisionIdentities_def dest!: planProvisionIdentities_Inr plan_batch_Inr(1))

text \<open>
  Claim C5. Materialisation adds records and asserts nothing: the sources, observations, texts and
  structure of the batch are kept, every regulation is unresolved and its issuer is among the
  recorded dependencies, every provision belongs to a regulation of the output and its parent is a
  provision of the output, every version is the text of one structure node, unreviewed and of
  unknown legal status, there is one version for every candidate, and the registry revision is
  recorded as a lookup.
\<close>

theorem BindDocumentBatch_closed:
  assumes "PlanProvisionIdentities h c (Some b) bindings maximum = Inr candidates"
    and "BindDocumentBatch h c (Some b) bindings candidates assignments config = Inr out"
  shows "db_sources out = db_sources b \<and> db_observations out = db_observations b \<and>
    db_text_artifacts out = db_text_artifacts b \<and> db_structures out = db_structures b \<and>
    (\<exists>m. db_dependency_manifest out = Some m \<and>
       (\<forall>r \<in> set (db_regulations out). rg_identity_status r = IDENTITY_STATUS_UNRESOLVED \<and>
          rg_issuer_id r \<in> dp_dependency_id ` set (dm_dependencies m)) \<and>
       (\<exists>l \<in> set (dm_lookup_scope_revisions m). ls_scope_id l = ''canonical-registry'' \<and>
          ls_revision l = bc_registry_revision config)) \<and>
    (\<forall>p \<in> set (db_provisions out). pv_regulation_id p \<in> rg_id ` set (db_regulations out) \<and>
       (\<forall>q. pv_parent_provision_id p = Some q \<longrightarrow> q \<in> pv_id ` set (db_provisions out))) \<and>
    (\<forall>v \<in> set (db_versions out). version_of_node b v \<and> vn_provision_id v \<in> pv_id ` set (db_provisions out)) \<and>
    length (db_versions out) = length candidates"
proof -
  from assms(1) have plan: "plan_batch h b bindings DefaultWireLimits = Inr candidates"
    by (auto simp: PlanProvisionIdentities_def dest: planProvisionIdentities_Inr)
  obtain regulations byNode st dependencies where
    parts: "bound_parts h b bindings candidates regulations byNode st dependencies" and
    out: "out = assemble_output h b bindings config (sha256hex h (c_marshal c b)) (sorted_on rg_id (map snd regulations)) st dependencies"
    using BindDocumentBatch_parts [OF plan assms(2)] .
  note F = assemble_output_fields [of h b bindings config "sha256hex h (c_marshal c b)" "sorted_on rg_id (map snd regulations)" st dependencies,
    folded out]
  have regs: "set (db_regulations out) = snd ` set regulations" by (simp add: F sorted_on_def)
  have vs: "set (db_versions out) = set (bo_versions st)" "length (db_versions out) = length (bo_versions st)"
    using F(9) by (metis mset_eq_setD, metis mset_eq_length)
  have len: "length (bo_versions st) = length candidates" using parts by (auto simp: bound_parts_def dest: list_all2_lengthD)
  obtain m where m: "db_dependency_manifest out = Some m" "dm_dependencies m = dependencies"
    "dm_lookup_scope_revisions m = bindingLookupRevisions b (bc_registry_revision config)"
    using F(11,12) by auto
  have "\<forall>r \<in> snd ` set regulations. rg_identity_status r = IDENTITY_STATUS_UNRESOLVED \<and>
      rg_issuer_id r \<in> dp_dependency_id ` set (dm_dependencies m)"
    unfolding m(2) by (rule ballI) (rule parts_regulations [OF parts])
  moreover have "\<exists>l \<in> set (dm_lookup_scope_revisions m). ls_scope_id l = ''canonical-registry'' \<and> ls_revision l = bc_registry_revision config"
    unfolding m(3) by (rule revision_recorded)
  moreover have "\<forall>p \<in> snd ` set (bo_provisions st). pv_regulation_id p \<in> rg_id ` snd ` set regulations \<and>
      (\<forall>q. pv_parent_provision_id p = Some q \<longrightarrow> q \<in> pv_id ` snd ` set (bo_provisions st))"
    by (intro ballI conjI allI impI parts_provisions [OF parts])
  moreover have "\<forall>v \<in> set (bo_versions st). version_of_node b v \<and> vn_provision_id v \<in> pv_id ` snd ` set (bo_provisions st)"
    by (rule ballI) (rule parts_versions [OF parts plan])
  ultimately show ?thesis unfolding F(1-4) F(8) regs vs len m(1) by (simp only: option.inject ex_simps simp_thms)
qed

text \<open>
  Claim C26. A bound batch is never more complete than its input supports: it is marked complete
  only when every source blob is bound to a regulation and has a text.
\<close>

theorem BindDocumentBatch_complete:
  assumes "BindDocumentBatch h c (Some b) bindings candidates assignments config = Inr out"
    and "db_completeness out = COMPLETENESS_COMPLETE" and "s \<in> set (map sb_id (db_sources b))"
  shows "s \<in> set (map rb_source bindings) \<and> s \<in> set (map ta_source_blob_id (db_text_artifacts b))"
proof (rule BindDocumentBatch_Inr [OF assms(1)])
  fix planned regulations st dependencies
  assume plan: "plan_batch h b bindings (bc_wire_limits config) = Inr planned"
    and out: "out = assemble_output h b bindings config (sha256hex h (c_marshal c b)) (sorted_on rg_id (map snd regulations)) st dependencies"
  from assemble_output_complete [OF assms(2) [unfolded out]] complete_sources_bound [OF plan _ _ assms(3)]
  show ?thesis by (simp add: source_bound_def)
qed

section \<open>A worked binding\<close>

definition dx_host :: host where
  "dx_host = \<lparr>sha256hex = (\<lambda>s. take 8 (rev (filter is_alnum s))), url_parse = (\<lambda>_. None), to_lower = (\<lambda>r. r)\<rparr>"

definition dx_artifact :: artifact_ref where
  "dx_artifact = \<lparr>ar_artifact_id = ''a'', ar_content_hash = Some ''hash'', ar_storage_key = ''k'', ar_byte_size = 9,
     ar_media_type = ''text/plain'', ar_schema_version = 1\<rparr>"

definition dx_text :: text_artifact where
  "dx_text = \<lparr>ta_meta = rx_meta ''t'', ta_source_blob_id = ''s1'', ta_normalized_text_ref = Some dx_artifact,
     ta_page_results = [], ta_rest = []\<rparr>"

definition dx_span :: "nat \<Rightarrow> nat \<Rightarrow> text_span" where
  "dx_span i j = \<lparr>sp_artifact_id = ''t'', sp_start_byte = i, sp_end_byte = j\<rparr>"

definition dx_node :: "string \<Rightarrow> structure_kind \<Rightarrow> string \<Rightarrow> string option \<Rightarrow> string list \<Rightarrow> text_span \<Rightarrow> structure_node" where
  "dx_node i kind label parent children s = \<lparr>sn_meta = rx_meta i, sn_kind = kind, sn_label = label, sn_parent_id = parent,
     sn_ordered_children = children, sn_source_spans = [s], sn_page_locators = [], sn_rest = []\<rparr>"

definition dx_full :: "(string \<times> string) list" where
  "dx_full = [(''regulation_type'', ''UU''), (''issuer'', ''RI''), (''number'', ''1''), (''title'', ''T''), (''year'', ''1000'')]"

definition dx_batch :: document_batch where
  "dx_batch = rx_batch\<lparr>db_sources := [rx_source ''s1''], db_observations := [rx_observation ''o1'' ''s1'' dx_full],
     db_text_artifacts := [dx_text],
     db_structures := [dx_node ''d'' STRUCTURE_KIND_DOCUMENT ''UU'' None [''p''] (dx_span 0 9),
       dx_node ''p'' STRUCTURE_KIND_ARTICLE ''Pasal 1'' (Some ''d'') [] (dx_span 2 7)]\<rparr>"

definition dx_assign :: "string \<Rightarrow> string \<Rightarrow> CanonicalIdentityAssignment" where
  "dx_assign key i = \<lparr>ca_proposal_key = key, ca_canonical_id = i, ca_revision = 1, ca_created = True\<rparr>"

definition dx_config :: DocumentBindingConfig where
  "dx_config = \<lparr>bc_software = ''binder'', bc_build = ''1'', bc_language = ''id'', bc_jurisdiction = ''ID'',
     bc_registry_batch_size = 1, bc_document_kind = DOCUMENT_KIND_REGULATION, bc_registry_revision = 1,
     bc_maximum_records = 100, bc_wire_limits = DefaultWireLimits\<rparr>"

definition dx_candidate :: RegulationIdentityCandidate where
  "dx_candidate = \<lparr>rc_source_blob_id = ''s1'', rc_observation_ids = [''o1''], rc_kind = ''UU'', rc_issuer_label = ''RI'',
     rc_jurisdiction = ''ID'', rc_official_number = ''1'', rc_year = 1000, rc_title = ''T'', rc_identity_key = ''0001raey''\<rparr>"

definition dx_plan :: RegulationIdentityPlan where
  "dx_plan = \<lparr>pl_candidates = [dx_candidate], pl_reviews = []\<rparr>"

definition dx_issuers :: "CanonicalIdentityAssignment list" where
  "dx_issuers = [dx_assign ''issuer-proposal:ictionID'' ''organization:1'']"

definition dx_regulations :: "CanonicalIdentityAssignment list" where
  "dx_regulations = [dx_assign ''regulation-v2-proposal:year1000'' ''regulation:1'']"

definition dx_planned :: "RegulationCanonicalCandidate list" where
  "dx_planned =
     [\<lparr>cr_candidate = dx_candidate, cr_issuer_id = ''organization:1'',
       cr_issuer_claim = \<lparr>cc_proposal_key = ''issuer-proposal:ictionID'', cc_entity_type = 2,
         cc_identity_scope = ''issuer-exact-label-jurisdiction:v1'', cc_identity_key = ''DInoitci'', cc_payload_hash = ''DInoitci''\<rparr>,
       cr_claim = \<lparr>cc_proposal_key = ''regulation-v2-proposal:year1000'', cc_entity_type = 1,
         cc_identity_scope = ''regulation-canonical-issuer-key:v2'', cc_identity_key = ''0001raey'', cc_payload_hash = ''1noitazi''\<rparr>\<rparr>]"

definition dx_bindings :: "RegulationDocumentBinding list" where
  "dx_bindings = [\<lparr>rb_candidate = dx_candidate, rb_regulation_id = ''regulation:1'', rb_issuer_id = ''organization:1'',
     rb_issuer_proposal_key = ''issuer-proposal:ictionID'', rb_regulation_proposal_key = ''regulation-v2-proposal:year1000'',
     rb_registry_revision = 1\<rparr>]"

definition dx_candidates :: "ProvisionIdentityCandidate list" where
  "dx_candidates =
     [\<lparr>pc_structure_node_id = ''d'', pc_parent_structure_node_id = [], pc_source_blob_id = ''s1'', pc_text_artifact_id = ''t'',
       pc_regulation_id = ''regulation:1'', pc_structural_path = [''1:UU''], pc_spans = [dx_span 0 9], pc_identity_key = ''UU1htap1''\<rparr>,
      \<lparr>pc_structure_node_id = ''p'', pc_parent_structure_node_id = ''d'', pc_source_blob_id = ''s1'', pc_text_artifact_id = ''t'',
       pc_regulation_id = ''regulation:1'', pc_structural_path = [''1:UU'', ''4:Pasal 1''], pc_spans = [dx_span 2 7],
       pc_identity_key = ''1lasaP4U''\<rparr>]"

definition dx_assignments :: "CanonicalIdentityAssignment list" where
  "dx_assignments = [dx_assign ''provision-proposal:1path1UU'' ''provision:d'', dx_assign ''provision-proposal:U4Pasal1'' ''provision:p'']"

lemma dx_step1: "PlanRegulationIdentities dx_host (bx_codec dx_batch) (Some dx_batch) rx_policy = Inr dx_plan"
  by code_simp

lemma dx_step2: "PlanCanonicalRegulationClaims dx_host (pl_candidates dx_plan) dx_issuers = Inr dx_planned"
  by code_simp

lemma dx_step3: "BuildRegulationDocumentBindings dx_host dx_planned dx_issuers dx_regulations = Inr dx_bindings"
  by code_simp

lemma dx_step4: "PlanProvisionIdentities dx_host (bx_codec dx_batch) (Some dx_batch) dx_bindings 100 = Inr dx_candidates"
  by code_simp

text \<open>The stages of the materialisation, each evaluated on the results of the ones before.\<close>

definition dx_index :: assignment_index where
  "dx_index = projr (index_assignments ''provision'' (provision_assignment_ok 1) [] dx_assignments)"

definition dx_bound_regulations :: "(string \<times> regulation) list" where
  "dx_bound_regulations = projr (bind_regulations dx_host ''c'' dx_config [] dx_bindings)"

definition dx_nodes :: "(string \<times> string) list" where
  "dx_nodes = projr (assign_candidates dx_host dx_index [] dx_candidates)"

definition dx_records :: bound_records where
  "dx_records = projr (bind_provisions dx_host ''c'' dx_nodes [dx_text] [(''s1'', editionID dx_host (hd dx_bindings))]
     dx_candidates \<lparr>bo_provisions = [], bo_versions = []\<rparr>)"

definition dx_dependencies :: "dependency list" where
  "dx_dependencies = projr (bindingDependencies dx_host dx_batch [] dx_bindings 1)"

definition dx_out :: document_batch where
  "dx_out = assemble_output dx_host dx_batch dx_bindings dx_config [] (sorted_on rg_id (map snd dx_bound_regulations)) dx_records dx_dependencies"

lemma dx_config_ok: "validateDocumentBindingConfig dx_config = Inr ()"
  by code_simp

lemma dx_indexed: "isl (index_assignments ''provision'' (provision_assignment_ok 1) [] dx_assignments) = False \<and> length dx_index = 2"
  by code_simp

lemma dx_regulated: "isl (bind_regulations dx_host ''c'' dx_config [] dx_bindings) = False"
  by code_simp

lemma dx_assigned: "isl (assign_candidates dx_host dx_index [] dx_candidates) = False"
  by code_simp

lemma dx_recorded: "isl (bind_provisions dx_host ''c'' dx_nodes [dx_text] [(''s1'', editionID dx_host (hd dx_bindings))]
     dx_candidates \<lparr>bo_provisions = [], bo_versions = []\<rparr>) = False"
  by code_simp

lemma dx_depends: "isl (bindingDependencies dx_host dx_batch [] dx_bindings 1) = False"
  by code_simp

lemma dx_sizes:
  "length dx_bindings = 1" "length (db_sources dx_batch) = 1" "boundSourcesWithoutText dx_batch dx_bindings = []"
  "length dx_bound_regulations = 1" "length (bo_provisions dx_records) = 2" "length (bo_versions dx_records) = 2"
  "map fst (bo_provisions dx_records) = [''provision:d'', ''provision:p'']"
  by code_simp+

lemma dx_output:
  "db_completeness dx_out = COMPLETENESS_COMPLETE" "documentRecordCount dx_out = 12"
  "length (db_provisions dx_out) = 2" "length (db_versions dx_out) = 2"
  by (simp_all add: dx_out_def assemble_output_def Let_def dx_sizes documentRecordCount_def sorted_on_def)
     (simp_all add: dx_batch_def rx_batch_def)

lemma not_isl_Inr: "\<not> isl x \<Longrightarrow> projr x = y \<Longrightarrow> x = Inr y"
  by (cases x) auto

lemma dx_stages:
  "index_assignments ''provision'' (provision_assignment_ok 1) [] dx_assignments = Inr dx_index"
  "bind_regulations dx_host ''c'' dx_config [] dx_bindings = Inr dx_bound_regulations"
  "assign_candidates dx_host dx_index [] dx_candidates = Inr dx_nodes"
  "bind_provisions dx_host ''c'' dx_nodes [dx_text] [(''s1'', editionID dx_host (hd dx_bindings))]
     dx_candidates \<lparr>bo_provisions = [], bo_versions = []\<rparr> = Inr dx_records"
  "bindingDependencies dx_host dx_batch [] dx_bindings 1 = Inr dx_dependencies"
  using dx_indexed dx_regulated dx_assigned dx_recorded dx_depends
  by (auto intro!: not_isl_Inr simp: dx_index_def dx_bound_regulations_def dx_nodes_def dx_records_def dx_dependencies_def)

lemma dx_planned_provisions:
  "planProvisionIdentities dx_host (bx_codec dx_batch) (Some dx_batch) dx_bindings 100 DefaultWireLimits = Inr dx_candidates"
  using dx_step4 by (simp add: PlanProvisionIdentities_def)

lemma dx_fields:
  "GetCorpusId (db_meta dx_batch) = ''c''" "db_text_artifacts dx_batch = [dx_text]" "map rb_source dx_bindings = [''s1'']"
  "sha256hex dx_host (c_marshal (bx_codec dx_batch) dx_batch) = []" "length dx_candidates = 2" "length dx_index = 2"
  "validate_wire_limits dx_host (bx_codec dx_batch) DefaultWireLimits dx_out = Inr ()"
  subgoal by code_simp
  subgoal by (simp add: dx_batch_def)
  subgoal by code_simp
  subgoal by code_simp
  subgoal by code_simp
  subgoal by (simp add: dx_indexed)
  subgoal by (simp add: validate_wire_limits_def bx_codec_def) code_simp
  done

lemma dx_config_fields:
  "bc_registry_revision dx_config = 1" "bc_maximum_records dx_config = 100" "bc_wire_limits dx_config = DefaultWireLimits"
  by (simp_all add: dx_config_def)

lemma dx_editions: "map (\<lambda>x. (rb_source x, editionID dx_host x)) dx_bindings = [(''s1'', editionID dx_host (hd dx_bindings))]"
  by (simp add: dx_bindings_def dx_candidate_def)

lemma dx_bound:
  "BindDocumentBatch dx_host (bx_codec dx_batch) (Some dx_batch) dx_bindings dx_candidates dx_assignments dx_config = Inr dx_out"
  by (simp add: BindDocumentBatch_def dx_config_ok dx_config_fields dx_planned_provisions equalProvisionPlans_def dx_stages
      dx_fields dx_editions Let_def dx_output(2) dx_out_def [symmetric] del: One_nat_def)

theorem spansContain_exact_witness:
  "spansContain [dx_span 0 4, dx_span 4 9] [dx_span 1 2, dx_span 5 6] \<and>
   \<not> spansContain [dx_span 0 4, dx_span 4 9] [dx_span 3 5]"
proof -
  have ok: "spans_ok ''t'' 9 0 [dx_span 0 4, dx_span 4 9]" "spans_ok ''t'' 9 0 [dx_span 1 2, dx_span 5 6]"
    "spans_ok ''t'' 9 0 [dx_span 3 5]" by (simp_all add: dx_span_def)
  from spansContain_exact [OF ok(1,2)] spansContain_exact [OF ok(1,3)] show ?thesis by (simp add: dx_span_def)
qed

theorem registry_bindings_fit_witness:
  "check_bindings dx_host [''s1''] (db_observations dx_batch) [] dx_bindings = Inr () \<and> map rb_candidate dx_bindings = [dx_candidate]"
proof -
  have "map sb_id (db_sources dx_batch) = [''s1'']" by code_simp
  with registry_bindings_fit [OF dx_step1 dx_step2 dx_step3] show ?thesis by (simp add: dx_bindings_def)
qed

theorem PlanProvisionIdentities_sound_witness:
  "\<exists>cs. mset dx_candidates = mset cs \<and>
    list_all2 (planned_for dx_host (db_structures dx_batch) DefaultWireLimits (text_source dx_batch) dx_bindings)
      (filter (bound_node (text_source dx_batch) dx_bindings) (db_structures dx_batch)) cs \<and> length cs = 2"
proof -
  obtain cs where cs: "mset dx_candidates = mset cs"
    "list_all2 (planned_for dx_host (db_structures dx_batch) DefaultWireLimits (text_source dx_batch) dx_bindings)
      (filter (bound_node (text_source dx_batch) dx_bindings) (db_structures dx_batch)) cs"
    using PlanProvisionIdentities_sound [OF dx_step4] by blast
  from mset_eq_length [OF cs(1)] dx_fields(5) have "length cs = 2" by simp
  with cs show ?thesis by blast
qed

theorem BindDocumentBatch_closed_witness:
  "length (db_provisions dx_out) = 2 \<and>
   list_all (\<lambda>p. pv_regulation_id p \<in> rg_id ` set (db_regulations dx_out)) (db_provisions dx_out) \<and>
   list_all (version_of_node dx_batch) (db_versions dx_out) \<and> length (db_versions dx_out) = 2"
proof -
  note C = BindDocumentBatch_closed [OF dx_step4 dx_bound]
  have "\<forall>p \<in> set (db_provisions dx_out). pv_regulation_id p \<in> rg_id ` set (db_regulations dx_out)"
    "\<forall>v \<in> set (db_versions dx_out). version_of_node dx_batch v" using C by simp_all
  with dx_output show ?thesis unfolding list_all_iff by blast
qed

theorem BindDocumentBatch_complete_witness:
  "db_completeness dx_out = COMPLETENESS_COMPLETE \<and> ''s1'' \<in> set (map rb_source dx_bindings)"
proof -
  have "''s1'' \<in> set (map sb_id (db_sources dx_batch))" by code_simp
  from BindDocumentBatch_complete [OF dx_bound dx_output(1) this] dx_output(1) show ?thesis by blast
qed

end
