(* ===== verification/Spans.thy ===== *)
theory Spans
  imports Contract "HOL-Library.Multiset" "HOL-Library.AList"
begin

text \<open>
  The interval indexes of the document validators (\<open>domain/document_validation.go\<close>,
  \<open>domain/extraction_validation.go\<close>) and the binary search of \<open>sort.Search\<close> that they use. \<open>sort.Slice\<close>
  is not stable: the sort by start offset is an argument, and the theorems hold for every sorted
  permutation. The locale \<open>cut_search\<close> is the contract of the search.
\<close>

section \<open>Binary search\<close>

function search_loop :: "(nat \<Rightarrow> bool) \<Rightarrow> nat \<Rightarrow> nat \<Rightarrow> nat" where
  "search_loop f i j =
     (if i < j then let h = (i + j) div 2 in if \<not> f h then search_loop f (h + 1) j else search_loop f i h else i)"
  by pat_completeness auto
termination by (relation "measure (\<lambda>(f, i, j). j - i)") auto

declare search_loop.simps [simp del]

definition sort_Search :: "nat \<Rightarrow> (nat \<Rightarrow> bool) \<Rightarrow> nat" where
  "sort_Search n f = search_loop f 0 n"

text \<open>A search that cuts a monotone predicate at its first true index.\<close>

locale cut_search =
  fixes search :: "nat \<Rightarrow> (nat \<Rightarrow> bool) \<Rightarrow> nat"
  assumes search_le: "search n f \<le> n"
    and search_before: "(\<And>i j. i \<le> j \<Longrightarrow> j < n \<Longrightarrow> f i \<Longrightarrow> f j) \<Longrightarrow> k < search n f \<Longrightarrow> \<not> f k"
    and search_after: "(\<And>i j. i \<le> j \<Longrightarrow> j < n \<Longrightarrow> f i \<Longrightarrow> f j) \<Longrightarrow> search n f \<le> k \<Longrightarrow> k < n \<Longrightarrow> f k"
begin

text \<open>On an ascending list the search takes exactly the elements up to a value.\<close>

lemma take_search:
  fixes key :: "'a \<Rightarrow> nat"
  assumes "sorted (map key xs)"
  shows "take (search (length xs) (\<lambda>i. v < key (xs ! i))) xs = filter (\<lambda>x. key x \<le> v) xs"
proof -
  let ?f = "\<lambda>i. v < key (xs ! i)" and ?p = "search (length xs) (\<lambda>i. v < key (xs ! i))"
  have mono: "?f j" if "i \<le> j" "j < length xs" "?f i" for i j
    using sorted_nth_mono [OF assms, of i j] that by auto
  have "\<not> ?f k" if "k < ?p" for k
    by (rule search_before [of "length xs" ?f, OF _ that]) (rule mono)
  then have "filter (\<lambda>x. key x \<le> v) (take ?p xs) = take ?p xs"
    by (auto simp: filter_id_conv in_set_conv_nth not_less)
  moreover have "?f k" if "?p \<le> k" "k < length xs" for k
    by (rule search_after [of "length xs" ?f, OF _ that]) (rule mono)
  then have "filter (\<lambda>x. key x \<le> v) (drop ?p xs) = []"
    by (auto simp: filter_empty_conv in_set_conv_nth not_le)
  ultimately show ?thesis by (metis append_Nil2 append_take_drop_id filter_append)
qed

end

lemma search_loop_bounds: "i \<le> j \<Longrightarrow> i \<le> search_loop f i j \<and> search_loop f i j \<le> j"
proof (induction f i j rule: search_loop.induct)
  case (1 f i j)
  show ?case
  proof (cases "i < j")
    case True
    let ?h = "(i + j) div 2"
    have "i \<le> ?h" "?h < j" using True by auto
    with "1.IH" [OF True refl] show ?thesis
      by (cases "f ?h") (auto simp: search_loop.simps [of f i j] True Let_def)
  qed (use "1.prems" in \<open>simp add: search_loop.simps\<close>)
qed

lemma search_loop_cut:
  assumes "\<And>a b. a \<le> b \<Longrightarrow> b < n \<Longrightarrow> f a \<Longrightarrow> f b" and "i \<le> j" and "j \<le> n"
    and "\<And>k. k < i \<Longrightarrow> \<not> f k" and "\<And>k. j \<le> k \<Longrightarrow> k < n \<Longrightarrow> f k"
  shows "(k < search_loop f i j \<longrightarrow> \<not> f k) \<and> (search_loop f i j \<le> k \<and> k < n \<longrightarrow> f k)"
  using assms
proof (induction f i j rule: search_loop.induct)
  case (1 f i j)
  show ?case
  proof (cases "i < j")
    case True
    let ?h = "(i + j) div 2"
    have h: "i \<le> ?h" "?h < j" using True by auto
    show ?thesis
    proof (cases "f ?h")
      case fh: True
      have "f k'" if "?h \<le> k'" "k' < n" for k' using "1.prems"(1) [OF that] fh by blast
      with "1.IH"(2) [OF True refl] fh "1.prems" h show ?thesis by (subst (1 2) search_loop.simps) (simp add: True Let_def)
    next
      case fh: False
      have "\<not> f k'" if "k' < ?h + 1" for k' using "1.prems"(1) [of k' ?h] that fh h "1.prems"(3) by fastforce
      with "1.IH"(1) [OF True refl] fh "1.prems" h show ?thesis by (subst (1 2) search_loop.simps) (simp add: True Let_def)
    qed
  next
    case False
    with "1.prems" show ?thesis by (subst (1 2) search_loop.simps) simp
  qed
qed

interpretation binary: cut_search sort_Search
proof
  fix n f k
  show "sort_Search n f \<le> n" using search_loop_bounds [of 0 n f] by (simp add: sort_Search_def)
  assume "\<And>i j. i \<le> j \<Longrightarrow> j < n \<Longrightarrow> f i \<Longrightarrow> f j"
  then have "(k < sort_Search n f \<longrightarrow> \<not> f k) \<and> (sort_Search n f \<le> k \<and> k < n \<longrightarrow> f k)"
    unfolding sort_Search_def by (intro search_loop_cut) auto
  then show "k < sort_Search n f \<Longrightarrow> \<not> f k" "sort_Search n f \<le> k \<Longrightarrow> k < n \<Longrightarrow> f k" by blast+
qed

section \<open>Ranges by text artifact\<close>

record byteRange =
  br_start :: nat
  br_end :: nat

type_synonym ranges = "(string \<times> byteRange list) list"

type_synonym recordSpanIndex = "(string \<times> ranges) list"

definition range_of :: "text_span \<Rightarrow> byteRange" where
  "range_of s = \<lparr>br_start = sp_start_byte s, br_end = sp_end_byte s\<rparr>"

definition at_key :: "string \<Rightarrow> (string \<times> 'v list) list \<Rightarrow> 'v list" where
  "at_key k m = (case map_of m k of None \<Rightarrow> [] | Some vs \<Rightarrow> vs)"

definition group_ranges :: "text_span list \<Rightarrow> ranges" where
  "group_ranges spans =
     foldl (\<lambda>m s. AList.update (sp_artifact_id s) (at_key (sp_artifact_id s) m @ [range_of s]) m) [] spans"

definition buildRecordSpanIndex ::
    "(byteRange list \<Rightarrow> byteRange list) \<Rightarrow> ('r \<Rightarrow> string) \<Rightarrow> ('r \<Rightarrow> text_span list) \<Rightarrow> 'r list \<Rightarrow> recordSpanIndex" where
  "buildRecordSpanIndex sorter ident spans records =
     foldl (\<lambda>m r. AList.update (ident r) (map (\<lambda>(t, rs). (t, sorter rs)) (group_ranges (spans r))) m) [] records"

definition index_contains :: "recordSpanIndex \<Rightarrow> string \<Rightarrow> text_span option \<Rightarrow> bool" where
  "index_contains index recordID target =
     (case target of
        None \<Rightarrow> False
      | Some s \<Rightarrow>
          let ranges = at_key (sp_artifact_id s) (at_key recordID index);
              position = sort_Search (length ranges) (\<lambda>i. sp_start_byte s < br_start (ranges ! i))
          in position \<noteq> 0 \<and> br_start (ranges ! (position - 1)) \<le> sp_start_byte s \<and>
             sp_end_byte s \<le> br_end (ranges ! (position - 1)))"

section \<open>Coverage\<close>

record textCoverage =
  tc_ranges :: "byteRange list"
  tc_prefix_max :: "nat list"

type_synonym spanCoverage = "(string \<times> textCoverage) list"

fun running_max :: "nat \<Rightarrow> byteRange list \<Rightarrow> nat list" where
  "running_max m [] = []"
| "running_max m (r # rs) = max m (br_end r) # running_max (max m (br_end r)) rs"

definition buildGroupedSpanCoverage :: "(byteRange list \<Rightarrow> byteRange list) \<Rightarrow> ranges \<Rightarrow> spanCoverage" where
  "buildGroupedSpanCoverage sorter grouped =
     map (\<lambda>(t, rs). (t, \<lparr>tc_ranges = sorter rs, tc_prefix_max = running_max 0 (sorter rs)\<rparr>)) grouped"

definition buildSpanCoverage :: "(byteRange list \<Rightarrow> byteRange list) \<Rightarrow> chunk list \<Rightarrow> spanCoverage" where
  "buildSpanCoverage sorter chunks =
     buildGroupedSpanCoverage sorter
       (group_ranges (concat (map (\<lambda>c. case cn_text_span c of None \<Rightarrow> [] | Some s \<Rightarrow> [s]) chunks)))"

definition buildEvidenceCoverage :: "(byteRange list \<Rightarrow> byteRange list) \<Rightarrow> text_span list \<Rightarrow> spanCoverage" where
  "buildEvidenceCoverage sorter spans =
     buildGroupedSpanCoverage sorter (group_ranges (filter (\<lambda>s. sp_start_byte s < sp_end_byte s) spans))"

definition coverage_contains :: "spanCoverage \<Rightarrow> text_span option \<Rightarrow> bool" where
  "coverage_contains coverage target =
     (case target of
        None \<Rightarrow> False
      | Some s \<Rightarrow>
          (case map_of coverage (sp_artifact_id s) of
             None \<Rightarrow> False
           | Some entry \<Rightarrow>
               let found = sort_Search (length (tc_ranges entry)) (\<lambda>i. sp_start_byte s < br_start (tc_ranges entry ! i)) in
               found \<noteq> 0 \<and> sp_end_byte s \<le> tc_prefix_max entry ! (found - 1)))"

section \<open>What the indexes answer\<close>

definition sorts_ranges :: "(byteRange list \<Rightarrow> byteRange list) \<Rightarrow> bool" where
  "sorts_ranges sorter \<longleftrightarrow> (\<forall>rs. mset (sorter rs) = mset rs \<and> sorted (map br_start (sorter rs)))"

lemma sorts_rangesD: "sorts_ranges sorter \<Longrightarrow> set (sorter rs) = set rs \<and> sorted (map br_start (sorter rs))"
  unfolding sorts_ranges_def by (metis mset_eq_setD)

definition lies_within :: "text_span \<Rightarrow> text_span \<Rightarrow> bool" where
  "lies_within s r \<longleftrightarrow> sp_artifact_id r = sp_artifact_id s \<and> sp_start_byte r \<le> sp_start_byte s \<and> sp_end_byte s \<le> sp_end_byte r"

lemma group_ranges_snoc:
  "group_ranges (ss @ [s]) =
     AList.update (sp_artifact_id s) (at_key (sp_artifact_id s) (group_ranges ss) @ [range_of s]) (group_ranges ss)"
  by (simp add: group_ranges_def)

lemma at_key_update: "at_key k (AList.update k' v m) = (if k = k' then v else at_key k m)"
  by (simp add: at_key_def update_conv')

lemma at_group_ranges: "at_key t (group_ranges ss) = map range_of (filter (\<lambda>s. sp_artifact_id s = t) ss)"
proof (induction ss rule: rev_induct)
  case Nil
  show ?case by (simp add: group_ranges_def at_key_def)
next
  case (snoc s ss)
  then show ?case by (auto simp: group_ranges_snoc at_key_update)
qed

lemma map_of_group_ranges_None:
  "map_of (group_ranges ss) t = None \<longleftrightarrow> filter (\<lambda>s. sp_artifact_id s = t) ss = []"
proof (induction ss rule: rev_induct)
  case Nil
  show ?case by (simp add: group_ranges_def)
next
  case (snoc s ss)
  then show ?case by (auto simp: group_ranges_snoc update_conv')
qed

lemma at_key_map:
  "at_key t (map (\<lambda>(t, rs). (t, f rs)) m) = (if map_of m t = None then [] else f (at_key t m))"
  by (induction m) (auto simp: at_key_def)

text \<open>The ranges up to a start offset, and the last of them.\<close>

definition upto_start :: "nat \<Rightarrow> byteRange list \<Rightarrow> byteRange list" where
  "upto_start v rs = filter (\<lambda>r. br_start r \<le> v) rs"

lemma take_ranges:
  assumes "sorted (map br_start rs)"
  shows "take (sort_Search (length rs) (\<lambda>i. v < br_start (rs ! i))) rs = upto_start v rs"
  unfolding upto_start_def using assms by (rule binary.take_search)

lemma found_last:
  assumes "sorted (map br_start rs)" and "p = sort_Search (length rs) (\<lambda>i. v < br_start (rs ! i))"
  shows "p \<noteq> 0 \<longleftrightarrow> upto_start v rs \<noteq> []" and "p \<noteq> 0 \<Longrightarrow> rs ! (p - 1) = last (upto_start v rs)"
    and "p = length (upto_start v rs)"
proof -
  have t: "upto_start v rs = take p rs" using take_ranges [OF assms(1), of v] assms(2) by simp
  have p: "p \<le> length rs" using binary.search_le assms(2) by simp
  show len: "p = length (upto_start v rs)" using t p by simp
  then show "p \<noteq> 0 \<longleftrightarrow> upto_start v rs \<noteq> []" by auto
  show "rs ! (p - 1) = last (upto_start v rs)" if "p \<noteq> 0"
    using t p that by (subst t, subst last_conv_nth) auto
qed

lemma le_running_max:
  "k < length rs \<Longrightarrow> x \<le> running_max m rs ! k \<longleftrightarrow> x \<le> m \<or> (\<exists>r \<in> set (take (Suc k) rs). x \<le> br_end r)"
proof (induction rs arbitrary: m k)
  case (Cons r rs)
  then show ?case by (cases k) (auto simp: le_max_iff_disj)
qed simp

lemma length_running_max [simp]: "length (running_max m rs) = length rs"
  by (induction rs arbitrary: m) simp_all

text \<open>Coverage consults every range: the running maximum covers the earlier ones.\<close>

lemma coverage_entry:
  "map_of (buildGroupedSpanCoverage sorter m) t =
     map_option (\<lambda>rs. \<lparr>tc_ranges = sorter rs, tc_prefix_max = running_max 0 (sorter rs)\<rparr>) (map_of m t)"
  by (induction m) (auto simp: buildGroupedSpanCoverage_def)

lemma coverage_contains_ranges:
  assumes "sorts_ranges sorter" and "0 < sp_end_byte s"
  shows "coverage_contains (buildGroupedSpanCoverage sorter (group_ranges ss)) (Some s) \<longleftrightarrow>
    (\<exists>r \<in> set ss. lies_within s r)"
proof -
  let ?t = "sp_artifact_id s" and ?v = "sp_start_byte s"
  show ?thesis
  proof (cases "map_of (group_ranges ss) ?t")
    case None
    then have "\<not> lies_within s r" if "r \<in> set ss" for r
      using that by (auto simp: map_of_group_ranges_None filter_empty_conv lies_within_def)
    with None show ?thesis by (auto simp: coverage_contains_def coverage_entry)
  next
    case (Some rs)
    then have rs: "rs = map range_of (filter (\<lambda>x. sp_artifact_id x = ?t) ss)"
      using at_group_ranges [of ?t ss] by (simp add: at_key_def)
    let ?sorted = "sorter rs"
    define p where "p = sort_Search (length ?sorted) (\<lambda>i. ?v < br_start (?sorted ! i))"
    have set: "set ?sorted = set rs" and ord: "sorted (map br_start ?sorted)" using sorts_rangesD [OF assms(1)] by auto
    have le: "p \<le> length ?sorted" by (simp add: p_def binary.search_le)
    have take: "take p ?sorted = upto_start ?v ?sorted" unfolding p_def by (rule take_ranges [OF ord])
    have "p \<noteq> 0 \<and> sp_end_byte s \<le> running_max 0 ?sorted ! (p - 1) \<longleftrightarrow> p \<noteq> 0 \<and> (\<exists>r \<in> set (take p ?sorted). sp_end_byte s \<le> br_end r)"
      using le assms(2) by (cases p) (auto simp: le_running_max)
    also have "\<dots> \<longleftrightarrow> (\<exists>r \<in> set rs. br_start r \<le> ?v \<and> sp_end_byte s \<le> br_end r)"
    proof -
      have "set (take p ?sorted) = {r \<in> set rs. br_start r \<le> ?v}" by (simp add: take upto_start_def set)
      moreover have "p \<noteq> 0" if "r \<in> set (take p ?sorted)" for r using that by (cases p) auto
      ultimately show ?thesis by blast
    qed
    also have "\<dots> \<longleftrightarrow> (\<exists>r \<in> set ss. lies_within s r)" by (auto simp: rs range_of_def lies_within_def)
    finally show ?thesis using Some by (simp add: coverage_contains_def coverage_entry p_def Let_def)
  qed
qed

text \<open>The index of a record consults one range: the last one that starts early enough.\<close>

lemma foldl_update_absent:
  "i \<notin> ident ` set rs \<Longrightarrow> map_of (foldl (\<lambda>m r. AList.update (ident r) (f r) m) m rs) i = map_of m i"
  by (induction rs arbitrary: m) (auto simp: update_conv')

lemma index_entry:
  assumes "distinct (map ident records)" and "r \<in> set records"
  shows "at_key (ident r) (buildRecordSpanIndex sorter ident spans records) =
    map (\<lambda>(t, rs). (t, sorter rs)) (group_ranges (spans r))"
proof -
  obtain before rest where split: "records = before @ r # rest" using assms(2) by (meson split_list)
  with assms(1) have "ident r \<notin> ident ` set rest" by auto
  then show ?thesis
    by (simp add: at_key_def buildRecordSpanIndex_def split foldl_update_absent update_conv')
qed

lemma index_entry_absent:
  "i \<notin> ident ` set records \<Longrightarrow> at_key i (buildRecordSpanIndex sorter ident spans records) = []"
  by (simp add: at_key_def buildRecordSpanIndex_def foldl_update_absent)

definition disjoint_spans :: "text_span list \<Rightarrow> bool" where
  "disjoint_spans ss \<longleftrightarrow> (\<forall>a \<in> set ss. sp_start_byte a < sp_end_byte a) \<and>
     (\<forall>a \<in> set ss. \<forall>b \<in> set ss. sp_artifact_id a = sp_artifact_id b \<longrightarrow>
        a = b \<or> sp_end_byte a \<le> sp_start_byte b \<or> sp_end_byte b \<le> sp_start_byte a)"

lemma index_ranges:
  assumes "distinct (map ident records)" and "r \<in> set records" and "sorts_ranges sorter"
  obtains rs where "at_key t (at_key (ident r) (buildRecordSpanIndex sorter ident spans records)) = rs"
    and "set rs = range_of ` {x \<in> set (spans r). sp_artifact_id x = t}" and "sorted (map br_start rs)"
proof (rule that [OF refl])
  let ?rs = "at_key t (at_key (ident r) (buildRecordSpanIndex sorter ident spans records))"
  have "?rs = (if filter (\<lambda>x. sp_artifact_id x = t) (spans r) = [] then [] else sorter (map range_of (filter (\<lambda>x. sp_artifact_id x = t) (spans r))))"
    by (simp add: index_entry [OF assms(1,2)] at_key_map at_group_ranges map_of_group_ranges_None)
  then show "set ?rs = range_of ` {x \<in> set (spans r). sp_artifact_id x = t}" "sorted (map br_start ?rs)"
    using sorts_rangesD [OF assms(3)] by (auto simp: filter_empty_conv)
qed

lemma index_contains_last:
  assumes "rs = at_key (sp_artifact_id s) (at_key i index)" and "sorted (map br_start rs)"
  shows "index_contains index i (Some s) \<longleftrightarrow>
    upto_start (sp_start_byte s) rs \<noteq> [] \<and> sp_end_byte s \<le> br_end (last (upto_start (sp_start_byte s) rs))"
proof -
  let ?v = "sp_start_byte s"
  define p where "p = sort_Search (length rs) (\<lambda>i. ?v < br_start (rs ! i))"
  note F = found_last [OF assms(2) p_def]
  have "br_start (last (upto_start ?v rs)) \<le> ?v" if "upto_start ?v rs \<noteq> []"
    using last_in_set [OF that] by (simp add: upto_start_def)
  with F show ?thesis by (auto simp: index_contains_def assms(1) [symmetric] Let_def p_def [symmetric])
qed

lemma index_contains_sound:
  assumes "distinct (map ident records)" and "sorts_ranges sorter"
    and "index_contains (buildRecordSpanIndex sorter ident spans records) i (Some s)"
  shows "\<exists>r \<in> set records. ident r = i \<and> (\<exists>x \<in> set (spans r). lies_within s x)"
proof (cases "i \<in> ident ` set records")
  case False
  then have "[] = at_key (sp_artifact_id s) (at_key i (buildRecordSpanIndex sorter ident spans records))"
    by (simp add: index_entry_absent) (simp add: at_key_def)
  from index_contains_last [OF this] assms(3) show ?thesis by (simp add: upto_start_def)
next
  case True
  then obtain r where r: "r \<in> set records" "ident r = i" by blast
  obtain rs where rs: "at_key (sp_artifact_id s) (at_key (ident r) (buildRecordSpanIndex sorter ident spans records)) = rs"
    "set rs = range_of ` {x \<in> set (spans r). sp_artifact_id x = sp_artifact_id s}" "sorted (map br_start rs)"
    using index_ranges [OF assms(1) r(1) assms(2)] .
  let ?c = "last (upto_start (sp_start_byte s) rs)"
  have c: "upto_start (sp_start_byte s) rs \<noteq> []" "sp_end_byte s \<le> br_end ?c"
    using assms(3) index_contains_last [OF rs(1) [symmetric] rs(3)] r(2) by simp_all
  from last_in_set [OF c(1)] have "?c \<in> set rs" "br_start ?c \<le> sp_start_byte s" by (simp_all add: upto_start_def)
  with c(2) rs(2) have "\<exists>x \<in> set (spans r). lies_within s x" by (auto simp: range_of_def lies_within_def)
  with r show ?thesis by blast
qed

lemma sorted_last_greatest: "sorted (map f xs) \<Longrightarrow> a \<in> set xs \<Longrightarrow> f a \<le> f (last xs)"
  by (induction xs rule: rev_induct) (auto simp: sorted_append)

lemma last_upto_start_greatest:
  assumes "sorted (map br_start rs)" and "a \<in> set (upto_start v rs)"
  shows "br_start a \<le> br_start (last (upto_start v rs))"
  using assms sorted_filter [of br_start rs] by (intro sorted_last_greatest) (simp_all add: upto_start_def)

lemma index_contains_complete:
  assumes "distinct (map ident records)" and "sorts_ranges sorter" and "r \<in> set records"
    and "disjoint_spans (spans r)" and "x \<in> set (spans r)" and "lies_within s x" and "sp_start_byte s < sp_end_byte s"
  shows "index_contains (buildRecordSpanIndex sorter ident spans records) (ident r) (Some s)"
proof -
  obtain rs where rs: "at_key (sp_artifact_id s) (at_key (ident r) (buildRecordSpanIndex sorter ident spans records)) = rs"
    "set rs = range_of ` {x \<in> set (spans r). sp_artifact_id x = sp_artifact_id s}" "sorted (map br_start rs)"
    using index_ranges [OF assms(1,3,2)] .
  let ?up = "upto_start (sp_start_byte s) rs"
  have x: "range_of x \<in> set ?up" using rs(2) assms(5,6) by (auto simp: upto_start_def lies_within_def range_of_def)
  then have ne: "?up \<noteq> []" by auto
  from last_in_set [OF ne] obtain y where y: "y \<in> set (spans r)" "sp_artifact_id y = sp_artifact_id s"
    "last ?up = range_of y" "sp_start_byte y \<le> sp_start_byte s" using rs(2) by (auto simp: upto_start_def range_of_def)
  have "sp_start_byte x \<le> sp_start_byte y"
    using last_upto_start_greatest [OF rs(3) x] y(3) by (simp add: range_of_def)
  moreover have "x = y \<or> sp_end_byte x \<le> sp_start_byte y \<or> sp_end_byte y \<le> sp_start_byte x"
    "sp_start_byte y < sp_end_byte y"
    using assms(4-6) y(1,2) unfolding disjoint_spans_def lies_within_def by auto
  ultimately have "sp_end_byte s \<le> sp_end_byte y" using assms(6,7) y(4) by (auto simp: lies_within_def)
  with ne y(3) show ?thesis by (simp add: index_contains_last [OF rs(1) [symmetric] rs(3)] range_of_def)
qed

section \<open>Claims about the indexes\<close>

text \<open>
  Claim C30. The coverage of chunks answers exactly: for every way to sort the ranges by their start,
  a span with an end beyond zero is covered if and only if it lies inside the text span of one
  chunk. The binary search and the running maximum of range ends lose nothing, also where chunks
  overlap or nest.
\<close>

theorem span_coverage_exact:
  assumes "sorts_ranges sorter" and "0 < sp_end_byte s"
  shows "coverage_contains (buildSpanCoverage sorter chunks) (Some s) \<longleftrightarrow>
    (\<exists>c \<in> set chunks. \<exists>r. cn_text_span c = Some r \<and> sp_artifact_id r = sp_artifact_id s \<and>
       sp_start_byte r \<le> sp_start_byte s \<and> sp_end_byte s \<le> sp_end_byte r)"
proof -
  have "r \<in> set (concat (map (\<lambda>c. case cn_text_span c of None \<Rightarrow> [] | Some s \<Rightarrow> [s]) chunks)) \<longleftrightarrow>
      (\<exists>c \<in> set chunks. cn_text_span c = Some r)" for r
    by (auto split: option.splits) (metis option.inject)+
  then show ?thesis
    unfolding buildSpanCoverage_def coverage_contains_ranges [OF assms] lies_within_def by blast
qed

text \<open>
  Claim C31. The span index of records with distinct identifiers is sound: a span that it finds lies
  inside a span of that record. For a record with disjoint, nonempty spans it is also complete, for
  every way to sort the ranges by their start.
\<close>

theorem record_span_index_exact:
  assumes "distinct (map ident records)" and "sorts_ranges sorter" and "r \<in> set records"
    and "sp_start_byte s < sp_end_byte s"
  shows "(index_contains (buildRecordSpanIndex sorter ident spans records) (ident r) (Some s) \<longrightarrow>
      (\<exists>x \<in> set (spans r). lies_within s x)) \<and>
    (disjoint_spans (spans r) \<longrightarrow>
      index_contains (buildRecordSpanIndex sorter ident spans records) (ident r) (Some s) =
      (\<exists>x \<in> set (spans r). lies_within s x))"
proof -
  have "\<exists>x \<in> set (spans r). lies_within s x"
    if "index_contains (buildRecordSpanIndex sorter ident spans records) (ident r) (Some s)"
  proof -
    from index_contains_sound [OF assms(1,2) that] obtain r' where "r' \<in> set records" "ident r' = ident r"
      "\<exists>x \<in> set (spans r'). lies_within s x" by blast
    with assms(1,3) show ?thesis by (metis distinct_map inj_onD)
  qed
  with index_contains_complete [OF assms(1-3) _ _ _ assms(4)] show ?thesis by blast
qed

section \<open>Worked spans\<close>

definition wx_span :: "nat \<Rightarrow> nat \<Rightarrow> text_span" where
  "wx_span i j = \<lparr>sp_artifact_id = ''t'', sp_start_byte = i, sp_end_byte = j\<rparr>"

definition wx_chunk :: "nat \<Rightarrow> nat \<Rightarrow> chunk" where
  "wx_chunk i j = \<lparr>cn_meta = None, cn_provision_version_refs = [], cn_text_span = Some (wx_span i j), cn_structure_node_refs = [],
     cn_parent_refs = [], cn_exception_refs = [], cn_token_counts = [], cn_rest = []\<rparr>"

definition wx_sort :: "byteRange list \<Rightarrow> byteRange list" where
  "wx_sort = sort_key br_start"

lemma wx_sorts: "sorts_ranges wx_sort"
  by (simp add: sorts_ranges_def wx_sort_def)

theorem span_coverage_exact_witness:
  "coverage_contains (buildSpanCoverage wx_sort [wx_chunk 0 9, wx_chunk 2 4]) (Some (wx_span 3 6)) \<and>
   \<not> coverage_contains (buildSpanCoverage wx_sort [wx_chunk 0 5, wx_chunk 5 9]) (Some (wx_span 3 6))"
proof -
  have e: "0 < sp_end_byte (wx_span 3 6)" by (simp add: wx_span_def)
  show ?thesis
    unfolding span_coverage_exact [OF wx_sorts e] by (simp add: wx_chunk_def wx_span_def)
qed

theorem record_span_index_exact_witness:
  "index_contains (buildRecordSpanIndex wx_sort fst snd [(''v'', [wx_span 0 4, wx_span 4 9])]) ''v'' (Some (wx_span 5 6)) \<and>
   \<not> index_contains (buildRecordSpanIndex wx_sort fst snd [(''v'', [wx_span 0 4, wx_span 4 9])]) ''v'' (Some (wx_span 3 5))"
proof -
  let ?records = "[(''v'', [wx_span 0 4, wx_span 4 9])]"
  have "distinct (map fst ?records)" "disjoint_spans (snd (hd ?records))" by (simp_all add: disjoint_spans_def wx_span_def)
  with record_span_index_exact [of fst ?records wx_sort "hd ?records" "wx_span 5 6" snd, OF _ wx_sorts]
    record_span_index_exact [of fst ?records wx_sort "hd ?records" "wx_span 3 5" snd, OF _ wx_sorts]
  show ?thesis by (simp add: wx_span_def lies_within_def)
qed

text \<open>
  Where the spans of one record nest, the index only looks at the last range that starts early
  enough and misses a range that encloses the span.
\<close>

lemma nested_span_missed:
  "lies_within (wx_span 5 8) (wx_span 0 9) \<and>
   \<not> index_contains (buildRecordSpanIndex wx_sort fst snd [(''v'', [wx_span 0 9, wx_span 2 4])]) ''v'' (Some (wx_span 5 8))"
proof -
  let ?index = "buildRecordSpanIndex wx_sort fst snd [(''v'', [wx_span 0 9, wx_span 2 4])]"
  have "at_key ''t'' (at_key ''v'' ?index) = [\<lparr>br_start = 0, br_end = 9\<rparr>, \<lparr>br_start = 2, br_end = 4\<rparr>]"
    by (simp add: buildRecordSpanIndex_def group_ranges_def at_key_def range_of_def wx_span_def wx_sort_def)
  then show ?thesis
    using index_contains_last [OF refl, of "wx_span 5 8" "''v''" ?index] by (simp add: wx_span_def upto_start_def lies_within_def)
qed

end
