(* ===== verification/Closure.thy ===== *)
theory Closure
  imports Documents Spans
begin

text \<open>
  The semantic closure of a document batch (\<open>domain/document_validation.go\<close>): identities of records,
  references with their bound, spans, and a structure without cycles. The validator is a sequence
  of steps, each a counted reference or a guard, that stops at the first failing one. The iteration
  order of the map of parents and the sort by start offset are arguments; \<open>quote\<close> is \<open>strconv.Quote\<close>.
\<close>

section \<open>Records and dependencies\<close>

fun check_dependency_ids :: "(string \<Rightarrow> string) \<Rightarrow> string list \<Rightarrow> dependency list \<Rightarrow> unit result" where
  "check_dependency_ids quote seen [] = Inr ()"
| "check_dependency_ids quote seen (d # ds) =
     (if dp_dependency_id d = [] then Inl (Err ''dependency manifest contains an empty dependency'')
      else if dp_dependency_id d \<in> set seen then Inl (Err (''duplicate dependency '' @ quote (dp_dependency_id d)))
      else check_dependency_ids quote (dp_dependency_id d # seen) ds)"

fun index_records :: "(string \<Rightarrow> string) \<Rightarrow> string \<Rightarrow> string \<Rightarrow> string list \<Rightarrow> record_meta option list \<Rightarrow> unit result" where
  "index_records quote corpus kind seen [] = Inr ()"
| "index_records quote corpus kind seen (m # ms) =
     (case m of
        None \<Rightarrow> Inl (Err (kind @ '' has missing identity or foreign corpus''))
      | Some meta \<Rightarrow>
          (if m_record_id meta = [] \<or> m_corpus_id meta \<noteq> corpus
           then Inl (Err (kind @ '' has missing identity or foreign corpus''))
           else if m_record_id meta \<in> set seen then Inl (Err (''duplicate '' @ kind @ '' id '' @ quote (m_record_id meta)))
           else index_records quote corpus kind (m_record_id meta # seen) ms))"

text \<open>The record kinds in the order in which they are indexed.\<close>

definition record_kinds :: "document_batch \<Rightarrow> (string \<times> record_meta option list) list" where
  "record_kinds b =
     [(''source'', map sb_meta (db_sources b)), (''text artifact'', map ta_meta (db_text_artifacts b)),
      (''structure'', map sn_meta (db_structures b)), (''provision'', map pv_meta (db_provisions b)),
      (''version'', map vn_meta (db_versions b)), (''chunk'', map cn_meta (db_chunks b)),
      (''regulation'', map rg_meta (db_regulations b)), (''observation'', map so_meta (db_observations b)),
      (''edition'', map ed_meta (db_editions b)), (''change'', map lc_meta (db_changes b))]"

fun index_kinds :: "(string \<Rightarrow> string) \<Rightarrow> string \<Rightarrow> (string \<times> record_meta option list) list \<Rightarrow> unit result" where
  "index_kinds quote corpus [] = Inr ()"
| "index_kinds quote corpus (k # ks) =
     bind_result (index_records quote corpus (fst k) [] (snd k)) (\<lambda>_. index_kinds quote corpus ks)"

section \<open>Counted references\<close>

datatype closure_step = Edge string string bool | Guard bool error

fun run_steps :: "(string \<Rightarrow> string) \<Rightarrow> int \<Rightarrow> int \<Rightarrow> closure_step list \<Rightarrow> int result" where
  "run_steps quote maximumEdges edges [] = Inr edges"
| "run_steps quote maximumEdges edges (Edge what i exists # steps) =
     (if edges + 1 > maximumEdges then Inl (Err (''document reference count exceeds '' @ Itoa (nat maximumEdges)))
      else if i = [] \<or> \<not> exists then Inl (Err (what @ '' references unavailable record '' @ quote i))
      else run_steps quote maximumEdges (edges + 1) steps)"
| "run_steps quote maximumEdges edges (Guard ok e # steps) =
     (if ok then run_steps quote maximumEdges edges steps else Inl e)"

abbreviation cn_id :: "chunk \<Rightarrow> string" where "cn_id c \<equiv> GetRecordId (cn_meta c)"
abbreviation lc_id :: "legal_change_event \<Rightarrow> string" where "lc_id e \<equiv> GetRecordId (lc_meta e)"

definition hasDependency :: "document_batch \<Rightarrow> string \<Rightarrow> bool" where
  "hasDependency b i \<longleftrightarrow> i \<in> dp_dependency_id ` set (manifest_dependencies b)"

definition text_of :: "document_batch \<Rightarrow> string \<Rightarrow> text_artifact option" where
  "text_of b i = row_of ta_id i (db_text_artifacts b)"

definition spanFits :: "document_batch \<Rightarrow> text_span \<Rightarrow> bool" where
  "spanFits b s \<longleftrightarrow> sp_start_byte s \<le> sp_end_byte s \<and>
     (case Option.bind (text_of b (sp_artifact_id s)) ta_normalized_text_ref of
        None \<Rightarrow> False | Some r \<Rightarrow> sp_end_byte s \<le> ar_byte_size r)"

definition local_source :: "document_batch \<Rightarrow> string \<Rightarrow> bool" where
  "local_source b i \<longleftrightarrow> i \<in> set (map sb_id (db_sources b))"

definition text_steps :: "document_batch \<Rightarrow> text_artifact \<Rightarrow> closure_step list" where
  "text_steps b t =
     Edge ''text_artifact.source_blob_id'' (ta_source_blob_id t) (local_source b (ta_source_blob_id t)) #
     concat (map (\<lambda>page. map (\<lambda>s. Edge ''text_artifact.page_results.spans'' (sp_artifact_id s)
       (spanFits b s \<and> sp_artifact_id s = ta_id t)) (pr_spans page)) (ta_page_results t))"

section \<open>The structure\<close>

fun list_children ::
    "(string \<Rightarrow> string) \<Rightarrow> string \<Rightarrow> (string \<times> string) list \<Rightarrow> string list \<Rightarrow> (string \<times> string) list result" where
  "list_children quote parent listed [] = Inr listed"
| "list_children quote parent listed (child # rest) =
     (if map_of listed child \<noteq> None \<and> map_of listed child \<noteq> Some parent
      then Inl (Err (''structure '' @ quote child @ '' is listed by multiple parents''))
      else list_children quote parent (AList.update child parent listed) rest)"

fun list_parents ::
    "(string \<Rightarrow> string) \<Rightarrow> (string \<times> string) list \<Rightarrow> structure_node list \<Rightarrow> (string \<times> string) list result" where
  "list_parents quote listed [] = Inr listed"
| "list_parents quote listed (n # ns) =
     bind_result (list_children quote (sn_id n) listed (sn_ordered_children n)) (\<lambda>listed. list_parents quote listed ns)"

definition structure_steps :: "document_batch \<Rightarrow> (string \<times> string) list \<Rightarrow> structure_node \<Rightarrow> closure_step list" where
  "structure_steps b listed n =
     (case sn_parent_id n of
        None \<Rightarrow> []
      | Some p \<Rightarrow> [Edge ''structure.parent_id'' p
          (node_of (db_structures b) p \<noteq> None \<and> lookup_default [] listed (sn_id n) = p)]) @
     map (\<lambda>child. Edge ''structure.ordered_children'' child
       (case node_of (db_structures b) child of None \<Rightarrow> False | Some c \<Rightarrow> sn_parent c = sn_id n)) (sn_ordered_children n) @
     map (\<lambda>s. Edge ''structure.source_spans'' (sp_artifact_id s) (spanFits b s)) (sn_source_spans n) @
     map (\<lambda>l. Edge ''structure.page_locators'' (pl_source_blob_id l)
       (local_source b (pl_source_blob_id l) \<or> hasDependency b (pl_source_blob_id l))) (sn_page_locators n)"

definition parents_of :: "structure_node list \<Rightarrow> (string \<times> string) list" where
  "parents_of ns = foldl (\<lambda>m n. case sn_parent_id n of None \<Rightarrow> m | Some p \<Rightarrow> AList.update (sn_id n) p m) [] ns"

text \<open>
  The walk from one node to its root. \<open>walked\<close> holds the nodes of earlier walks (state 2), \<open>path\<close> the
  ones of this walk (state 1).
\<close>

function walk_parents :: "(string \<times> string) list \<Rightarrow> nat \<Rightarrow> string list \<Rightarrow> string list \<Rightarrow> string \<Rightarrow> string list result" where
  "walk_parents parents maximum walked path current =
     (if current = [] \<or> current \<in> set walked then Inr path
      else if current \<in> set path then Inl (Err ''structure parent graph contains a cycle'')
      else if length path + 1 > maximum then Inl (Err ''structure parent graph exceeds its record bound'')
      else walk_parents parents maximum walked (path @ [current]) (lookup_default [] parents current))"
  by pat_completeness auto
termination by (relation "measure (\<lambda>(parents, maximum, walked, path, current). maximum - length path)") auto

declare walk_parents.simps [simp del]

fun walk_all :: "(string \<times> string) list \<Rightarrow> nat \<Rightarrow> string list \<Rightarrow> string list \<Rightarrow> unit result" where
  "walk_all parents maximum walked [] = Inr ()"
| "walk_all parents maximum walked (start # starts) =
     (if start \<in> set walked then walk_all parents maximum walked starts
      else bind_result (walk_parents parents maximum walked [] start) (\<lambda>path.
        walk_all parents maximum (path @ walked) starts))"

definition validateStructureParents :: "(string list \<Rightarrow> string list) \<Rightarrow> (string \<times> string) list \<Rightarrow> nat \<Rightarrow> unit result" where
  "validateStructureParents order parents maximum = walk_all parents maximum [] (order (map fst parents))"

section \<open>The records of a bound batch\<close>

definition regulation_steps :: "document_batch \<Rightarrow> regulation \<Rightarrow> closure_step list" where
  "regulation_steps b r = [Edge ''regulation.issuer_id'' (rg_issuer_id r) (hasDependency b (rg_issuer_id r))]"

definition local_provision :: "document_batch \<Rightarrow> string \<Rightarrow> bool" where
  "local_provision b i \<longleftrightarrow> i \<in> set (map pv_id (db_provisions b))"

definition provision_steps :: "document_batch \<Rightarrow> provision \<Rightarrow> closure_step list" where
  "provision_steps b p =
     Edge ''provision.regulation_id'' (pv_regulation_id p) (pv_regulation_id p \<in> set (map rg_id (db_regulations b))) #
     (case pv_parent_provision_id p of
        None \<Rightarrow> [] | Some i \<Rightarrow> [Edge ''provision.parent_provision_id'' i (local_provision b i)]) @
     map (\<lambda>i. Edge ''provision.lineage_refs'' i (local_provision b i \<or> hasDependency b i)) (pv_lineage_refs p)"

text \<open>The spans of a version: the text of the first one owns the version.\<close>

fun version_span_steps :: "document_batch \<Rightarrow> string option \<Rightarrow> text_span list \<Rightarrow> closure_step list" where
  "version_span_steps b owner [] = []"
| "version_span_steps b owner (s # ss) =
     Edge ''version.spans'' (sp_artifact_id s) (spanFits b s) #
     (case owner of
        None \<Rightarrow> version_span_steps b (Some (sp_artifact_id s)) ss
      | Some t \<Rightarrow> Guard (t = sp_artifact_id s) (Err ''version spans cross text artifacts'') # version_span_steps b owner ss)"

definition owning_text :: "document_batch \<Rightarrow> provision_version \<Rightarrow> text_artifact option" where
  "owning_text b v = (case vn_spans v of [] \<Rightarrow> None | s # _ \<Rightarrow> text_of b (sp_artifact_id s))"

definition version_steps :: "(string \<Rightarrow> string) \<Rightarrow> document_batch \<Rightarrow> provision_version \<Rightarrow> closure_step list" where
  "version_steps quote b v =
     Edge ''version.provision_id'' (vn_provision_id v) (local_provision b (vn_provision_id v)) #
     version_span_steps b None (vn_spans v) @
     Guard (case owning_text b v of None \<Rightarrow> False | Some t \<Rightarrow> vn_text_ref v = ta_normalized_text_ref t)
       (Err (''version '' @ quote (vn_id v) @ '' text_ref does not match its normalized artifact'')) #
     map (\<lambda>i. Edge ''version.supporting_events'' i (i \<in> set (map lc_id (db_changes b)) \<or> hasDependency b i)) (vn_supporting_events v)"

definition next_tokenizer :: "string \<Rightarrow> chunk \<Rightarrow> string" where
  "next_tokenizer tokenizer c =
     (if tokenizer = [] then (case cn_token_counts c of [] \<Rightarrow> [] | t # _ \<Rightarrow> tu_tokenizer_id t) else tokenizer)"

definition one_token_count :: "chunk \<Rightarrow> bool" where
  "one_token_count c = (case cn_token_counts c of [t] \<Rightarrow> tu_input_tokens t \<noteq> 0 \<and> tu_output_tokens t = 0 | _ \<Rightarrow> False)"

fun chunk_steps ::
    "(string \<Rightarrow> string) \<Rightarrow> document_batch \<Rightarrow> recordSpanIndex \<Rightarrow> recordSpanIndex \<Rightarrow> string \<Rightarrow> chunk list \<Rightarrow> closure_step list" where
  "chunk_steps quote b versionSpans structureSpans tokenizer [] = []"
| "chunk_steps quote b versionSpans structureSpans tokenizer (c # cs) =
     map (\<lambda>i. Edge ''chunk.provision_version_refs'' i
       (i \<in> set (map vn_id (db_versions b)) \<and> index_contains versionSpans i (cn_text_span c))) (cn_provision_version_refs c) @
     [Guard (case cn_text_span c of None \<Rightarrow> False | Some s \<Rightarrow> sp_start_byte s < sp_end_byte s)
        (Err (''chunk '' @ quote (cn_id c) @ '' has an empty text span'')),
      Guard (one_token_count c) (Err (''chunk '' @ quote (cn_id c) @ '' must carry exactly one positive input token count'')),
      Guard (tokenizer = [] \<or> tokenizer = next_tokenizer [] c)
        (Err (''chunk '' @ quote (cn_id c) @ '' uses a tokenizer inconsistent with its batch''))] @
     (case cn_text_span c of
        None \<Rightarrow> [] | Some s \<Rightarrow> [Edge ''chunk.text_span'' (sp_artifact_id s) (spanFits b s)]) @
     map (\<lambda>i. Edge ''chunk.structure_refs'' i
       (node_of (db_structures b) i \<noteq> None \<and> index_contains structureSpans i (cn_text_span c)))
       (cn_structure_node_refs c @ cn_parent_refs c) @
     map (\<lambda>i. Edge ''chunk.exception_refs'' i (i \<in> set (map cn_id (db_chunks b)) \<or> hasDependency b i)) (cn_exception_refs c) @
     chunk_steps quote b versionSpans structureSpans (next_tokenizer tokenizer c) cs"

definition edition_steps :: "document_batch \<Rightarrow> document_edition \<Rightarrow> closure_step list" where
  "edition_steps b e =
     (case ed_regulation_id e of
        None \<Rightarrow> []
      | Some i \<Rightarrow> [Edge ''edition.regulation_id'' i (i \<in> set (map rg_id (db_regulations b)) \<or> hasDependency b i)]) @
     map (\<lambda>i. Edge ''edition.source_refs'' i (i \<in> set (map so_id (db_observations b)) \<or> hasDependency b i)) (ed_source_refs e)"

definition observation_steps :: "document_batch \<Rightarrow> source_observation \<Rightarrow> closure_step list" where
  "observation_steps b obs =
     (case so_source_blob_id obs of
        None \<Rightarrow> [] | Some i \<Rightarrow> [Edge ''observation.source_blob_id'' i (local_source b i \<or> hasDependency b i)])"

definition change_steps :: "document_batch \<Rightarrow> legal_change_event \<Rightarrow> closure_step list" where
  "change_steps b c =
     (case lc_amending_source c of
        None \<Rightarrow> [Guard False (Err ''change has no amending source'')]
      | Some r \<Rightarrow>
          [Edge ''change.amending_source.source_blob_id'' (sv_source_blob_id r)
             (local_source b (sv_source_blob_id r) \<or> hasDependency b (sv_source_blob_id r)),
           Edge ''change.amending_source.provision_version_id'' (sv_provision_version_id r)
             (sv_provision_version_id r \<in> set (map vn_id (db_versions b)) \<or> hasDependency b (sv_provision_version_id r)),
           Edge ''change.amending_source.regulation_id'' (sv_regulation_id r)
             (sv_regulation_id r \<in> set (map rg_id (db_regulations b)) \<or> hasDependency b (sv_regulation_id r))]) @
     map (\<lambda>i. Edge ''change.affected_provisions'' i (local_provision b i \<or> hasDependency b i)) (lc_affected_provisions c) @
     map (\<lambda>s. Edge ''change.replacement_spans'' (sp_artifact_id s) (spanFits b s)) (lc_replacement_spans c)"

definition bound_steps :: "(string \<Rightarrow> string) \<Rightarrow> (byteRange list \<Rightarrow> byteRange list) \<Rightarrow> document_batch \<Rightarrow> closure_step list" where
  "bound_steps quote sorter b =
     concat (map (regulation_steps b) (db_regulations b)) @ concat (map (provision_steps b) (db_provisions b)) @
     concat (map (version_steps quote b) (db_versions b)) @
     chunk_steps quote b (buildRecordSpanIndex sorter vn_id vn_spans (db_versions b))
       (buildRecordSpanIndex sorter sn_id sn_source_spans (db_structures b)) [] (db_chunks b) @
     concat (map (edition_steps b) (db_editions b)) @ concat (map (observation_steps b) (db_observations b)) @
     concat (map (change_steps b) (db_changes b))"

definition ValidateDocumentBatchClosure ::
    "(string \<Rightarrow> string) \<Rightarrow> (byteRange list \<Rightarrow> byteRange list) \<Rightarrow> (string list \<Rightarrow> string list) \<Rightarrow> document_batch option \<Rightarrow> int \<Rightarrow>
     unit result" where
  "ValidateDocumentBatchClosure quote sorter order batch maximumEdges =
     (case batch of
        None \<Rightarrow> Inl (Err ''document batch and a positive reference limit are required'')
      | Some b \<Rightarrow>
          (if db_meta b = None \<or> db_dependency_manifest b = None \<or> maximumEdges \<le> 0
           then Inl (Err ''document batch and a positive reference limit are required'')
           else
             bind_result (check_dependency_ids quote [] (manifest_dependencies b)) (\<lambda>_.
             bind_result (index_kinds quote (GetCorpusId (db_meta b)) (record_kinds b)) (\<lambda>_.
             bind_result (run_steps quote maximumEdges 0 (concat (map (text_steps b) (db_text_artifacts b)))) (\<lambda>edges.
             bind_result (list_parents quote [] (db_structures b)) (\<lambda>listed.
             bind_result (run_steps quote maximumEdges edges (concat (map (structure_steps b listed) (db_structures b)))) (\<lambda>edges.
             bind_result (validateStructureParents order (parents_of (db_structures b)) (length (db_structures b))) (\<lambda>_.
             bind_result (run_steps quote maximumEdges edges (bound_steps quote sorter b)) (\<lambda>_.
             Inr ())))))))))"

section \<open>The parent graph\<close>

definition parent_edges :: "(string \<times> string) list \<Rightarrow> (string \<times> string) set" where
  "parent_edges parents = {(i, p). map_of parents i = Some p}"

text \<open>A node whose chain of parents ends.\<close>

inductive grounded :: "(string \<times> string) list \<Rightarrow> string \<Rightarrow> bool" for parents where
  end_of_chain: "map_of parents i = None \<Longrightarrow> grounded parents i"
| parent: "map_of parents i = Some p \<Longrightarrow> grounded parents p \<Longrightarrow> grounded parents i"

lemma grounded_no_cycle: "grounded parents i \<Longrightarrow> (i, i) \<notin> (parent_edges parents)\<^sup>+"
proof (induction rule: grounded.induct)
  case (end_of_chain i)
  then show ?case by (auto simp: parent_edges_def dest: tranclD)
next
  case (parent i p)
  show ?case
  proof
    assume "(i, i) \<in> (parent_edges parents)\<^sup>+"
    with parent.hyps(1) have "(p, i) \<in> (parent_edges parents)\<^sup>*" by (auto simp: parent_edges_def dest: tranclD)
    moreover have "(i, p) \<in> parent_edges parents" using parent.hyps(1) by (simp add: parent_edges_def)
    ultimately have "(p, p) \<in> (parent_edges parents)\<^sup>+" by (rule rtrancl_into_trancl1)
    with parent.IH show False by blast
  qed
qed

lemma acyclic_iff_grounded: "acyclic (parent_edges parents) \<longleftrightarrow> (\<forall>i. grounded parents i)"
proof
  assume "\<forall>i. grounded parents i"
  then show "acyclic (parent_edges parents)" by (auto simp: acyclic_def dest: grounded_no_cycle)
next
  assume a: "acyclic (parent_edges parents)"
  have "parent_edges parents \<subseteq> set parents" by (auto simp: parent_edges_def dest: map_of_SomeD)
  then have "finite (parent_edges parents)" by (rule finite_subset) simp
  from finite_acyclic_wf_converse [OF this a] have wf: "wf ((parent_edges parents)\<inverse>)" .
  show "\<forall>i. grounded parents i"
  proof
    fix i
    show "grounded parents i"
      using wf
    proof (induction i rule: wf_induct_rule)
      case (less i)
      then show ?case by (cases "map_of parents i") (auto intro: grounded.intros simp: parent_edges_def)
    qed
  qed
qed

definition real_ids :: "(string \<times> string) list \<Rightarrow> bool" where
  "real_ids parents \<longleftrightarrow> [] \<notin> fst ` set parents \<union> snd ` set parents"

lemma real_ids_map_of: "real_ids parents \<Longrightarrow> map_of parents i = Some p \<Longrightarrow> i \<noteq> [] \<and> p \<noteq> []"
  by (force simp: real_ids_def dest: map_of_SomeD)

lemma walk_parents_grounded:
  assumes "walk_parents parents maximum walked path current = Inr out" and "real_ids parents"
    and "\<forall>i \<in> set walked. grounded parents i"
  shows "grounded parents current \<and> set path \<subseteq> set out \<and> (\<forall>i \<in> set out - set path. grounded parents i) \<and>
    (current \<in> set out \<or> current \<in> set walked \<or> current = [])"
  using assms(1)
proof (induction "length path" arbitrary: path current rule: measure_induct_rule [of "\<lambda>n. maximum - n"])
  case (less path)
  have nil: "grounded parents []" using real_ids_map_of [OF assms(2)] by (cases "map_of parents []") (auto intro: grounded.intros)
  show ?case
  proof (cases "current = [] \<or> current \<in> set walked")
    case True
    with less.prems assms(3) nil show ?thesis by (auto simp: walk_parents.simps [of _ _ _ _ current])
  next
    case False
    let ?next = "lookup_default [] parents current"
    from False less.prems have n: "walk_parents parents maximum walked (path @ [current]) ?next = Inr out"
      and l: "length path < maximum" by (auto simp: walk_parents.simps [of _ _ _ path current] split: if_splits)
    have "maximum - length (path @ [current]) < maximum - length path" using l by simp
    from less.hyps [OF this n] have IH: "grounded parents ?next" "set (path @ [current]) \<subseteq> set out"
      "\<forall>i \<in> set out - set (path @ [current]). grounded parents i" by blast+
    have "grounded parents current"
      using IH(1) by (cases "map_of parents current") (auto simp: lookup_default_def intro: grounded.intros)
    with IH show ?thesis by auto
  qed
qed

lemma walk_all_grounded:
  assumes "walk_all parents maximum walked starts = Inr ()" and "real_ids parents" and "\<forall>i \<in> set walked. grounded parents i"
  shows "\<forall>i \<in> set starts. grounded parents i"
  using assms(1,3)
proof (induction starts arbitrary: walked)
  case (Cons start starts)
  show ?case
  proof (cases "start \<in> set walked")
    case True
    with Cons show ?thesis by auto
  next
    case False
    with Cons.prems obtain path where w: "walk_parents parents maximum walked [] start = Inr path"
      and r: "walk_all parents maximum (path @ walked) starts = Inr ()" by (auto simp: bind_result_Inr_iff)
    from walk_parents_grounded [OF w assms(2) Cons.prems(2)] have "grounded parents start" "\<forall>i \<in> set path. grounded parents i" by auto
    with Cons.IH [OF r] Cons.prems(2) show ?thesis by auto
  qed
qed simp

lemma walk_parents_succeeds:
  assumes "acyclic (parent_edges parents)" and "real_ids parents" and "snd ` set parents \<subseteq> ids" and "finite ids" and "card ids \<le> maximum"
    and "distinct path" and "set path \<subseteq> ids" and "current = [] \<or> current \<in> ids" and "\<forall>x \<in> set path. current = [] \<or> (x, current) \<in> (parent_edges parents)\<^sup>+"
  shows "\<exists>out. walk_parents parents maximum walked path current = Inr out"
  using assms(6-9)
proof (induction "length path" arbitrary: path current rule: measure_induct_rule [of "\<lambda>n. maximum - n"])
  case (less path)
  show ?case
  proof (cases "current = [] \<or> current \<in> set walked")
    case True
    then show ?thesis by (auto simp: walk_parents.simps [of _ _ _ _ current])
  next
    case False
    let ?next = "lookup_default [] parents current"
    have new: "current \<notin> set path" using less.prems(4) assms(1) False by (auto simp: acyclic_def)
    have ids: "set (path @ [current]) \<subseteq> ids" using less.prems(2,3) False by auto
    have dist: "distinct (path @ [current])" using less.prems(1) new by simp
    from distinct_card [OF dist] card_mono [OF assms(4) ids] assms(5) have l: "length path + 1 \<le> maximum" by simp
    have edge: "?next = [] \<or> (current, ?next) \<in> parent_edges parents"
      by (auto simp: lookup_default_def parent_edges_def split: option.splits)
    have "?next = [] \<or> ?next \<in> ids" using edge assms(3) by (force simp: parent_edges_def dest: map_of_SomeD)
    moreover have "\<forall>x \<in> set (path @ [current]). ?next = [] \<or> (x, ?next) \<in> (parent_edges parents)\<^sup>+"
      using edge less.prems(4) False by (auto intro: trancl_into_trancl)
    moreover have "maximum - length (path @ [current]) < maximum - length path" using l by simp
    ultimately have "\<exists>out. walk_parents parents maximum walked (path @ [current]) ?next = Inr out"
      using less.hyps [OF _ dist ids] by blast
    with False new l show ?thesis by (auto simp: walk_parents.simps [of _ _ _ path current])
  qed
qed

lemma walk_all_succeeds:
  assumes "acyclic (parent_edges parents)" and "real_ids parents" and "snd ` set parents \<subseteq> ids" and "finite ids" and "card ids \<le> maximum"
    and "set starts \<subseteq> ids"
  shows "walk_all parents maximum walked starts = Inr ()"
  using assms(6)
proof (induction starts arbitrary: walked)
  case (Cons start starts)
  have "\<exists>out. walk_parents parents maximum walked [] start = Inr out"
    using walk_parents_succeeds [OF assms(1-5), of "[]" start] Cons.prems by auto
  with Cons show ?case by auto
qed simp

lemma validateStructureParents_iff:
  assumes "\<And>xs. set (order xs) = set xs" and "real_ids parents" and "fst ` set parents \<union> snd ` set parents \<subseteq> ids"
    and "finite ids" and "card ids \<le> maximum"
  shows "validateStructureParents order parents maximum = Inr () \<longleftrightarrow> acyclic (parent_edges parents)"
proof
  assume "validateStructureParents order parents maximum = Inr ()"
  then have g: "\<forall>i \<in> fst ` set parents. grounded parents i"
    using walk_all_grounded [OF _ assms(2), of maximum "[]" "order (map fst parents)"] assms(1)
    by (simp add: validateStructureParents_def)
  have "grounded parents i" for i
  proof (cases "map_of parents i")
    case (Some p)
    then have "i \<in> fst ` set parents" by (force dest: map_of_SomeD)
    with g show ?thesis by blast
  qed (rule grounded.end_of_chain)
  then show "acyclic (parent_edges parents)" by (simp add: acyclic_iff_grounded)
next
  assume "acyclic (parent_edges parents)"
  then show "validateStructureParents order parents maximum = Inr ()"
    unfolding validateStructureParents_def using assms by (intro walk_all_succeeds) auto
qed

section \<open>Successful runs\<close>

fun step_ok :: "closure_step \<Rightarrow> bool" where
  "step_ok (Edge what i exists) = (i \<noteq> [] \<and> exists)"
| "step_ok (Guard ok e) = ok"

definition edge_count :: "closure_step list \<Rightarrow> nat" where
  "edge_count steps = length (filter (\<lambda>s. case s of Edge _ _ _ \<Rightarrow> True | Guard _ _ \<Rightarrow> False) steps)"

lemma run_steps_Inr:
  "run_steps quote maximum edges steps = Inr out \<longleftrightarrow>
     list_all step_ok steps \<and> out = edges + int (edge_count steps) \<and> (edge_count steps = 0 \<or> out \<le> maximum)"
proof (induction steps arbitrary: edges)
  case (Cons s steps)
  show ?case by (cases s) (auto simp: Cons edge_count_def)
qed (auto simp: edge_count_def)

lemma list_all_concat: "list_all P (concat xss) \<longleftrightarrow> list_all (list_all P) xss"
  by (induction xss) auto

lemma step_ok_map_Edge: "list_all step_ok (map (\<lambda>x. Edge what (f x) (g x)) xs) \<longleftrightarrow> list_all (\<lambda>x. f x \<noteq> [] \<and> g x) xs"
  by (simp add: list_all_iff)

lemmas steps_iff = list_all_concat list.pred_map comp_def step_ok_map_Edge

definition identified :: "string \<Rightarrow> record_meta option list \<Rightarrow> bool" where
  "identified corpus ms \<longleftrightarrow> list_all (\<lambda>m. \<exists>meta. m = Some meta \<and> m_record_id meta \<noteq> [] \<and> m_corpus_id meta = corpus) ms \<and>
     distinct (map GetRecordId ms)"

lemma index_records_Inr:
  "index_records quote corpus kind seen ms = Inr () \<longleftrightarrow> identified corpus ms \<and> set (map GetRecordId ms) \<inter> set seen = {}"
proof (induction ms arbitrary: seen)
  case (Cons m ms)
  show ?case by (cases m) (auto simp: Cons identified_def GetRecordId_def)
qed (simp add: identified_def)

lemma index_kinds_Inr: "index_kinds quote corpus ks = Inr () \<longleftrightarrow> list_all (\<lambda>k. identified corpus (snd k)) ks"
  by (induction ks) (auto simp: bind_result_Inr_iff index_records_Inr)

lemma map_of_parents:
  assumes "distinct (map sn_id ns)"
  shows "map_of (parents_of ns) i = Some p \<longleftrightarrow> (\<exists>n \<in> set ns. sn_id n = i \<and> sn_parent_id n = Some p)"
proof -
  have "map_of (foldl (\<lambda>m n. case sn_parent_id n of None \<Rightarrow> m | Some p \<Rightarrow> AList.update (sn_id n) p m) m ns) i = Some p \<longleftrightarrow>
      (\<exists>n \<in> set ns. sn_id n = i \<and> sn_parent_id n = Some p) \<or>
      map_of m i = Some p \<and> (\<forall>n \<in> set ns. sn_id n = i \<longrightarrow> sn_parent_id n = None)" for m
    using assms
  proof (induction ns arbitrary: m)
    case (Cons n ns)
    then show ?case by (cases "sn_parent_id n") (auto simp: update_conv' image_iff)
  qed simp
  then show ?thesis by (simp add: parents_of_def)
qed

lemma distinct_parents_of: "distinct (map fst (parents_of ns))"
proof -
  have "distinct (map fst m) \<Longrightarrow>
    distinct (map fst (foldl (\<lambda>m n. case sn_parent_id n of None \<Rightarrow> m | Some p \<Rightarrow> AList.update (sn_id n) p m) m ns))" for m
    by (induction ns arbitrary: m) (auto simp: distinct_update split: option.splits)
  then show ?thesis by (simp add: parents_of_def)
qed

section \<open>Closed batches\<close>

definition node_closed :: "document_batch \<Rightarrow> structure_node \<Rightarrow> bool" where
  "node_closed b n \<longleftrightarrow>
     (\<forall>p. sn_parent_id n = Some p \<longrightarrow> p \<noteq> [] \<and> p \<in> set (map sn_id (db_structures b))) \<and>
     (\<forall>i \<in> set (sn_ordered_children n). \<exists>c \<in> set (db_structures b). sn_id c = i \<and> sn_parent c = sn_id n) \<and>
     list_all (spanFits b) (sn_source_spans n)"

definition version_closed :: "document_batch \<Rightarrow> provision_version \<Rightarrow> bool" where
  "version_closed b v \<longleftrightarrow> local_provision b (vn_provision_id v) \<and> list_all (spanFits b) (vn_spans v) \<and>
     (\<exists>t \<in> set (db_text_artifacts b). list_all (\<lambda>s. sp_artifact_id s = ta_id t) (vn_spans v) \<and>
        vn_text_ref v = ta_normalized_text_ref t)"

definition chunk_closed :: "document_batch \<Rightarrow> chunk \<Rightarrow> bool" where
  "chunk_closed b c \<longleftrightarrow> (\<exists>s. cn_text_span c = Some s \<and> sp_start_byte s < sp_end_byte s \<and> spanFits b s \<and>
     (\<forall>i \<in> set (cn_provision_version_refs c). \<exists>v \<in> set (db_versions b). vn_id v = i \<and> (\<exists>x \<in> set (vn_spans v). lies_within s x)) \<and>
     (\<forall>i \<in> set (cn_structure_node_refs c @ cn_parent_refs c).
        \<exists>n \<in> set (db_structures b). sn_id n = i \<and> (\<exists>x \<in> set (sn_source_spans n). lies_within s x))) \<and> one_token_count c"

lemma version_span_steps_ok:
  "list_all step_ok (version_span_steps b owner ss) \<Longrightarrow>
     list_all (spanFits b) ss \<and> (\<forall>s \<in> set ss. \<forall>t. owner = Some t \<longrightarrow> sp_artifact_id s = t)"
  by (induction ss arbitrary: owner) (auto split: option.splits)

lemma version_span_steps_same:
  "list_all step_ok (version_span_steps b None (s # ss)) \<Longrightarrow> \<forall>x \<in> set (s # ss). sp_artifact_id x = sp_artifact_id s"
  using version_span_steps_ok [of b "Some (sp_artifact_id s)" ss] by simp

lemma version_steps_closed:
  assumes "list_all step_ok (version_steps quote b v)"
  shows "version_closed b v"
proof -
  from assms have p: "local_provision b (vn_provision_id v)" and ss: "list_all step_ok (version_span_steps b None (vn_spans v))"
    and o: "case owning_text b v of None \<Rightarrow> False | Some t \<Rightarrow> vn_text_ref v = ta_normalized_text_ref t"
    by (simp_all add: version_steps_def)
  from o obtain t s rest where t: "text_of b (sp_artifact_id s) = Some t" "vn_text_ref v = ta_normalized_text_ref t"
    and s: "vn_spans v = s # rest" by (auto simp: owning_text_def split: option.splits list.splits)
  have "ta_id t = sp_artifact_id s" "t \<in> set (db_text_artifacts b)" using row_of_Some [OF t(1) [unfolded text_of_def]] by auto
  moreover from version_span_steps_same [OF ss [unfolded s]] have "\<forall>x \<in> set (vn_spans v). sp_artifact_id x = sp_artifact_id s"
    unfolding s .
  ultimately have "list_all (\<lambda>x. sp_artifact_id x = ta_id t) (vn_spans v)" "t \<in> set (db_text_artifacts b)"
    by (simp_all add: list_all_iff)
  with t(2) have "\<exists>t \<in> set (db_text_artifacts b). list_all (\<lambda>s. sp_artifact_id s = ta_id t) (vn_spans v) \<and>
      vn_text_ref v = ta_normalized_text_ref t" by blast
  with p version_span_steps_ok [OF ss] show ?thesis by (simp add: version_closed_def)
qed

lemma chunk_steps_closed:
  assumes "list_all step_ok (chunk_steps quote b (buildRecordSpanIndex sorter vn_id vn_spans (db_versions b))
       (buildRecordSpanIndex sorter sn_id sn_source_spans (db_structures b)) tokenizer cs)"
    and "sorts_ranges sorter" and "distinct (map vn_id (db_versions b))" and "distinct (map sn_id (db_structures b))"
  shows "list_all (chunk_closed b) cs"
  using assms(1)
proof (induction cs arbitrary: tokenizer)
  case (Cons c cs)
  let ?vs = "buildRecordSpanIndex sorter vn_id vn_spans (db_versions b)"
    and ?ns = "buildRecordSpanIndex sorter sn_id sn_source_spans (db_structures b)"
  from Cons.prems obtain s where s: "cn_text_span c = Some s" "sp_start_byte s < sp_end_byte s" "spanFits b s" "one_token_count c"
    by (auto split: option.splits)
  from Cons.prems s(1) have refs: "list_all (\<lambda>i. index_contains ?vs i (Some s)) (cn_provision_version_refs c)"
    "list_all (\<lambda>i. index_contains ?ns i (Some s)) (cn_structure_node_refs c @ cn_parent_refs c)"
    and rest: "list_all step_ok (chunk_steps quote b ?vs ?ns (next_tokenizer tokenizer c) cs)"
    by (auto simp: step_ok_map_Edge elim!: list.pred_mono_strong)
  from s refs [unfolded list_all_iff] index_contains_sound [OF assms(3,2), of vn_spans _ s] index_contains_sound [OF assms(4,2), of sn_source_spans _ s]
  have "chunk_closed b c" unfolding chunk_closed_def by blast
  with Cons.IH [OF rest] show ?case by simp
qed simp

lemma structure_steps_closed:
  assumes "list_all step_ok (structure_steps b listed n)"
  shows "node_closed b n"
proof -
  have "\<exists>c \<in> set (db_structures b). sn_id c = i \<and> sn_parent c = sn_id n" if "i \<in> set (sn_ordered_children n)" for i
  proof -
    have "list_all (\<lambda>i. case node_of (db_structures b) i of None \<Rightarrow> False | Some c \<Rightarrow> sn_parent c = sn_id n) (sn_ordered_children n)"
      using assms by (auto simp: structure_steps_def step_ok_map_Edge elim!: list.pred_mono_strong)
    with that obtain c where "node_of (db_structures b) i = Some c" "sn_parent c = sn_id n"
      by (auto simp: list_all_iff split: option.splits)
    with row_of_Some [OF this(1)] show ?thesis by blast
  qed
  moreover have "p \<noteq> [] \<and> p \<in> set (map sn_id (db_structures b))" if "sn_parent_id n = Some p" for p
  proof -
    from assms that obtain c where "p \<noteq> []" "node_of (db_structures b) p = Some c" by (auto simp: structure_steps_def)
    with row_of_Some [OF this(2)] show ?thesis by auto
  qed
  moreover have "list_all (spanFits b) (sn_source_spans n)"
    using assms by (auto simp: structure_steps_def step_ok_map_Edge elim!: list.pred_mono_strong)
  ultimately show ?thesis by (simp add: node_closed_def)
qed

text \<open>What a successful validation has run.\<close>

lemma ValidateDocumentBatchClosure_Inr:
  assumes "ValidateDocumentBatchClosure quote sorter order (Some b) maximum = Inr ()"
  obtains listed where
    "list_all (\<lambda>k. identified (GetCorpusId (db_meta b)) (snd k)) (record_kinds b)"
    "list_all (\<lambda>t. list_all step_ok (text_steps b t)) (db_text_artifacts b)"
    "list_all (\<lambda>n. list_all step_ok (structure_steps b listed n)) (db_structures b)"
    "validateStructureParents order (parents_of (db_structures b)) (length (db_structures b)) = Inr ()"
    "list_all step_ok (bound_steps quote sorter b)"
    "int (edge_count (concat (map (text_steps b) (db_text_artifacts b)) @ concat (map (structure_steps b listed) (db_structures b)) @
       bound_steps quote sorter b)) \<le> maximum"
proof -
  from assms obtain e1 listed e2 e3 where
    k: "index_kinds quote (GetCorpusId (db_meta b)) (record_kinds b) = Inr ()"
    and t: "run_steps quote maximum 0 (concat (map (text_steps b) (db_text_artifacts b))) = Inr e1"
    and s: "run_steps quote maximum e1 (concat (map (structure_steps b listed) (db_structures b))) = Inr e2"
    and v: "validateStructureParents order (parents_of (db_structures b)) (length (db_structures b)) = Inr ()"
    and r: "run_steps quote maximum e2 (bound_steps quote sorter b) = Inr e3" and m: "0 < maximum"
    by (auto simp: ValidateDocumentBatchClosure_def guard_Inr_iff bind_result_Inr_iff)
  have "int (edge_count (concat (map (text_steps b) (db_text_artifacts b)) @ concat (map (structure_steps b listed) (db_structures b)) @
       bound_steps quote sorter b)) \<le> maximum"
    using t s r m unfolding run_steps_Inr by (auto simp: edge_count_def)
  with k t s v r show thesis
    by (intro that [of listed]) (simp_all only: index_kinds_Inr run_steps_Inr list_all_concat list.pred_map comp_def)
qed

definition provision_closed :: "document_batch \<Rightarrow> provision \<Rightarrow> bool" where
  "provision_closed b p \<longleftrightarrow> pv_regulation_id p \<in> set (map rg_id (db_regulations b)) \<and>
     (\<forall>i. pv_parent_provision_id p = Some i \<longrightarrow> local_provision b i)"

text \<open>A batch in which every identity is unique and every reference leads somewhere.\<close>

definition batch_closed :: "document_batch \<Rightarrow> bool" where
  "batch_closed b \<longleftrightarrow>
     list_all (\<lambda>k. identified (GetCorpusId (db_meta b)) (snd k)) (record_kinds b) \<and>
     list_all (\<lambda>t. local_source b (ta_source_blob_id t)) (db_text_artifacts b) \<and>
     list_all (node_closed b) (db_structures b) \<and> acyclic (parent_edges (parents_of (db_structures b))) \<and>
     list_all (\<lambda>r. hasDependency b (rg_issuer_id r)) (db_regulations b) \<and> list_all (provision_closed b) (db_provisions b) \<and>
     list_all (version_closed b) (db_versions b) \<and> list_all (chunk_closed b) (db_chunks b)"

lemma identified_ids:
  assumes "list_all (\<lambda>k. identified corpus (snd k)) (record_kinds b)"
  shows "distinct (map sn_id (db_structures b))" and "distinct (map vn_id (db_versions b))"
    and "n \<in> set (db_structures b) \<Longrightarrow> sn_id n \<noteq> []"
  using assms by (auto simp: record_kinds_def identified_def comp_def list_all_iff GetRecordId_def)

lemma structure_acyclic:
  assumes "\<And>xs. set (order xs) = set xs" and "list_all (node_closed b) (db_structures b)"
    and "list_all (\<lambda>k. identified corpus (snd k)) (record_kinds b)"
  shows "validateStructureParents order (parents_of (db_structures b)) (length (db_structures b)) = Inr () \<longleftrightarrow>
    acyclic (parent_edges (parents_of (db_structures b)))"
proof -
  let ?ns = "db_structures b" and ?ps = "parents_of (db_structures b)"
  note ids = identified_ids [OF assms(3)]
  have entry: "i \<in> sn_id ` set ?ns \<and> p \<in> sn_id ` set ?ns \<and> i \<noteq> [] \<and> p \<noteq> []" if "(i, p) \<in> set ?ps" for i p
  proof -
    from map_of_is_SomeI [OF distinct_parents_of that] obtain n where "n \<in> set ?ns" "sn_id n = i" "sn_parent_id n = Some p"
      using map_of_parents [OF ids(1)] by blast
    with assms(2) ids(3) show ?thesis by (auto simp: node_closed_def list_all_iff)
  qed
  have "real_ids ?ps" "fst ` set ?ps \<union> snd ` set ?ps \<subseteq> sn_id ` set ?ns" using entry by (force simp: real_ids_def)+
  moreover have "card (sn_id ` set ?ns) \<le> length ?ns" by (metis card_image_le card_length finite_set order_trans)
  ultimately show ?thesis using assms(1) by (intro validateStructureParents_iff) auto
qed

lemma closure_sound:
  assumes "ValidateDocumentBatchClosure quote sorter order (Some b) maximum = Inr ()" and "sorts_ranges sorter"
    and "\<And>xs. set (order xs) = set xs"
  shows "batch_closed b"
proof (rule ValidateDocumentBatchClosure_Inr [OF assms(1)])
  fix listed
  assume k: "list_all (\<lambda>k. identified (GetCorpusId (db_meta b)) (snd k)) (record_kinds b)"
    and t: "list_all (\<lambda>t. list_all step_ok (text_steps b t)) (db_text_artifacts b)"
    and s: "list_all (\<lambda>n. list_all step_ok (structure_steps b listed n)) (db_structures b)"
    and v: "validateStructureParents order (parents_of (db_structures b)) (length (db_structures b)) = Inr ()"
    and r: "list_all step_ok (bound_steps quote sorter b)"
  have nodes: "list_all (node_closed b) (db_structures b)"
    using s by (rule list.pred_mono_strong) (rule structure_steps_closed)
  have "list_all (\<lambda>r. list_all step_ok (regulation_steps b r)) (db_regulations b)"
    "list_all (\<lambda>p. list_all step_ok (provision_steps b p)) (db_provisions b)"
    and vs: "list_all (\<lambda>v. list_all step_ok (version_steps quote b v)) (db_versions b)"
    and cs: "list_all step_ok (chunk_steps quote b (buildRecordSpanIndex sorter vn_id vn_spans (db_versions b))
       (buildRecordSpanIndex sorter sn_id sn_source_spans (db_structures b)) [] (db_chunks b))"
    using r by (simp_all add: bound_steps_def list_all_concat list.pred_map comp_def)
  then have "list_all (\<lambda>r. hasDependency b (rg_issuer_id r)) (db_regulations b)" "list_all (provision_closed b) (db_provisions b)"
    by (auto simp: regulation_steps_def provision_steps_def provision_closed_def elim!: list.pred_mono_strong)
  moreover have "list_all (version_closed b) (db_versions b)"
    using vs by (rule list.pred_mono_strong) (rule version_steps_closed)
  moreover have "list_all (chunk_closed b) (db_chunks b)"
    using chunk_steps_closed [OF cs assms(2)] identified_ids(1,2) [OF k] by blast
  moreover have "list_all (\<lambda>t. local_source b (ta_source_blob_id t)) (db_text_artifacts b)"
    using t by (rule list.pred_mono_strong) (simp add: text_steps_def)
  ultimately show ?thesis
    using k nodes structure_acyclic [OF assms(3) nodes k] v by (simp add: batch_closed_def)
qed

section \<open>Claims about closure\<close>

text \<open>
  Claim C23. The search for cycles in the structure always ends and decides: whatever order the map
  of parents is walked in, it succeeds exactly when no node is its own ancestor, provided that all
  identifiers are real and belong to the records that bound the walk. Sharing the results of
  earlier walks neither hides a cycle nor reports one that is not there.
\<close>

theorem validateStructureParents_acyclic:
  assumes "\<And>xs. set (order xs) = set xs" and "real_ids parents"
    and "fst ` set parents \<union> snd ` set parents \<subseteq> set ids" and "length ids \<le> maximum"
  shows "validateStructureParents order parents maximum = Inr () \<longleftrightarrow> acyclic {(i, p). map_of parents i = Some p}"
proof -
  have "card (set ids) \<le> maximum" using assms(4) card_length [of ids] by linarith
  from validateStructureParents_iff [OF assms(1-3) _ this] show ?thesis by (simp add: parent_edges_def)
qed


section \<open>A worked closure\<close>

definition cx_chunk :: chunk where
  "cx_chunk = \<lparr>cn_meta = rx_meta ''c1'', cn_provision_version_refs = [], cn_text_span = Some (dx_span 3 6),
     cn_structure_node_refs = [''p''], cn_parent_refs = [''d''], cn_exception_refs = [],
     cn_token_counts = [\<lparr>tu_input_tokens = 2, tu_output_tokens = 0, tu_tokenizer_id = ''tok''\<rparr>], cn_rest = []\<rparr>"

definition cx_batch :: document_batch where
  "cx_batch = dx_batch\<lparr>db_chunks := [cx_chunk], db_dependency_manifest := Some \<lparr>dm_artifact_id = ''m'', dm_dependencies = [],
     dm_producer_manifest = None, dm_lookup_scope_revisions = []\<rparr>\<rparr>"

lemma cx_accepted: "ValidateDocumentBatchClosure id wx_sort rev (Some cx_batch) 100 = Inr ()"
  unfolding wx_sort_def by code_simp

theorem validateStructureParents_acyclic_witness:
  "validateStructureParents rev [(''a'', ''b''), (''b'', ''c'')] 3 = Inr () \<and>
   \<not> acyclic {(i, p). map_of [(''a'', ''b''), (''b'', ''a'')] i = Some p}"
proof
  show "validateStructureParents rev [(''a'', ''b''), (''b'', ''c'')] 3 = Inr ()" by code_simp
  have r: "real_ids [(''a'', ''b''), (''b'', ''a'')]" by (simp add: real_ids_def)
  have "validateStructureParents rev [(''a'', ''b''), (''b'', ''a'')] 3 \<noteq> Inr ()" by code_simp
  with validateStructureParents_acyclic [OF set_rev r, of "[''a'', ''b'']" 3]
  show "\<not> acyclic {(i, p). map_of [(''a'', ''b''), (''b'', ''a'')] i = Some p}" by simp
qed


end
