(* ===== verification/Canonical.thy ===== *)
theory Canonical
  imports Registry "HOL-Library.Multiset" "HOL-Library.Code_Target_Nat"
begin

text \<open>
  The canonical registry of \<open>adapters/postgres/registry.go\<close>: \<open>ResolveCanonicalIdentities\<close> resolves
  a batch of exact identity claims in one serialisable transaction over four tables. The tables
  carry the keys, foreign keys and checks of the migrations 0001 and 0005: an insert that violates
  one fails and the transaction is rolled back. Random identifiers are drawn from an argument, so
  that a statement about any drawing holds for \<open>crypto/rand\<close>. The claims are sorted by proposal key;
  \<open>sort.Slice\<close> may order equal keys in any way, and a batch with equal keys is refused.

  The lemmas show that the registry is exact: an identity key is bound to one canonical identifier,
  forever, and two keys never share one; and that an operation key can be replayed at any later
  time with the same result and without effect.
\<close>

section \<open>Tables\<close>

record identity_row =
  ci_corpus_id :: string
  ci_canonical_id :: string
  ci_entity_type :: int
  ci_identity_scope :: string
  ci_identity_key :: string
  ci_valid_from :: nat
  ci_valid_to :: "nat option"

record decision_row =
  rd_decision_id :: string
  rd_corpus_id :: string
  rd_operation_key :: string
  rd_proposal_key :: string
  rd_canonical_id :: string
  rd_revision :: nat
  rd_payload_hash :: string
  rd_created :: bool
  rd_identity_scope :: string
  rd_identity_key :: string
  rd_entity_type :: int

record registry_operation_row =
  ro_corpus_id :: string
  ro_operation_key :: string
  ro_claims_hash :: string
  ro_claim_count :: nat
  ro_revision :: nat

text \<open>\<open>rs_revisions\<close> holds the column \<open>registry_revision\<close> of \<open>corpus_state\<close> by corpus.\<close>

record registry_store =
  rs_revisions :: "(string \<times> nat) list"
  rs_identities :: "identity_row list"
  rs_decisions :: "decision_row list"
  rs_operations :: "registry_operation_row list"

text \<open>The keys of the tables.\<close>

definition canonical_pk :: "identity_row \<Rightarrow> string \<times> string" where
  "canonical_pk i = (ci_corpus_id i, ci_canonical_id i)"

definition identity_uk :: "identity_row \<Rightarrow> string \<times> string \<times> string" where
  "identity_uk i = (ci_corpus_id i, ci_identity_scope i, ci_identity_key i)"

definition decision_uk :: "decision_row \<Rightarrow> string \<times> string \<times> string" where
  "decision_uk d = (rd_corpus_id d, rd_operation_key d, rd_proposal_key d)"

definition decision_operation :: "decision_row \<Rightarrow> string \<times> string" where
  "decision_operation d = (rd_corpus_id d, rd_operation_key d)"

definition decision_identity :: "decision_row \<Rightarrow> string \<times> string" where
  "decision_identity d = (rd_corpus_id d, rd_canonical_id d)"

definition operation_pk :: "registry_operation_row \<Rightarrow> string \<times> string" where
  "operation_pk r = (ro_corpus_id r, ro_operation_key r)"

text \<open>What the server accepts as a value of type \<open>text\<close>.\<close>

definition pg_text :: "string \<Rightarrow> bool" where
  "pg_text s \<longleftrightarrow> utf8_valid s \<and> CHR 0x00 \<notin> set s"

definition ensure_registry_corpus :: "string \<Rightarrow> (string \<times> nat) list \<Rightarrow> (string \<times> nat) list result" where
  "ensure_registry_corpus corpus revisions =
     (if length corpus > 128 then Inl (DbError ''ensure registry corpus'')
      else if map_of revisions corpus = None then Inr (revisions @ [(corpus, 1)])
      else Inr revisions)"

definition insert_identity :: "identity_row \<Rightarrow> identity_row list \<Rightarrow> identity_row list result" where
  "insert_identity i rows =
     (if row_of canonical_pk (canonical_pk i) rows \<noteq> None \<or> row_of identity_uk (identity_uk i) rows \<noteq> None
      then Inl (DbError ''insert canonical identity'')
      else Inr (rows @ [i]))"

definition insert_decision :: "identity_row list \<Rightarrow> decision_row \<Rightarrow> decision_row list \<Rightarrow> decision_row list result" where
  "insert_decision identities d rows =
     (if row_of rd_decision_id (rd_decision_id d) rows \<noteq> None \<or> row_of decision_uk (decision_uk d) rows \<noteq> None \<or>
         row_of canonical_pk (decision_identity d) identities = None
      then Inl (DbError ''record resolution decision'')
      else Inr (rows @ [d]))"

definition insert_operation ::
    "registry_operation_row \<Rightarrow> registry_operation_row list \<Rightarrow> registry_operation_row list result" where
  "insert_operation r rows =
     (if row_of operation_pk (operation_pk r) rows \<noteq> None \<or> \<not> sha256Pattern (ro_claims_hash r) \<or> ro_claim_count r = 0
      then Inl (DbError ''record registry operation'')
      else Inr (rows @ [r]))"

section \<open>Validation and digests\<close>

definition maximumRegistryClaims :: nat where
  "maximumRegistryClaims = 10000"

definition MaxInt64 :: nat where
  "MaxInt64 = 2 ^ 63 - 1"

definition claim_ok :: "CanonicalIdentityClaim \<Rightarrow> bool" where
  "claim_ok c \<longleftrightarrow> storageIDPattern (cc_proposal_key c) \<and> cc_entity_type c > 0 \<and>
     cc_identity_scope c \<noteq> [] \<and> length (cc_identity_scope c) \<le> 255 \<and>
     sha256Pattern (cc_identity_key c) \<and> sha256Pattern (cc_payload_hash c)"

fun check_registry_claims :: "string option \<Rightarrow> CanonicalIdentityClaim list \<Rightarrow> unit result" where
  "check_registry_claims previous [] = Inr ()"
| "check_registry_claims previous (c # cs) =
     (if \<not> claim_ok c then Inl (Err ''invalid canonical identity claim'')
      else if previous = Some (cc_proposal_key c) then Inl (Err ''duplicate registry proposal key'')
      else check_registry_claims (Some (cc_proposal_key c)) cs)"

definition validateRegistryClaims ::
    "string \<Rightarrow> string \<Rightarrow> nat \<Rightarrow> CanonicalIdentityClaim list \<Rightarrow> CanonicalIdentityClaim list result" where
  "validateRegistryClaims corpusID operationKey expectedRevision claims =
     (if \<not> storageIDPattern corpusID \<or> \<not> storageIDPattern operationKey \<or> expectedRevision > MaxInt64 \<or>
         claims = [] \<or> length claims > maximumRegistryClaims
      then Inl (Err ''valid bounded registry operation is required'')
      else let ordered = sort_key cc_proposal_key claims in
        bind_result (check_registry_claims None ordered) (\<lambda>_. Inr ordered))"

definition claim_json :: "CanonicalIdentityClaim \<Rightarrow> json" where
  "claim_json c =
     JObj [(''ProposalKey'', JStr (cc_proposal_key c)), (''EntityType'', JNum (nat (cc_entity_type c))),
           (''IdentityScope'', JStr (cc_identity_scope c)), (''IdentityKey'', JStr (cc_identity_key c)),
           (''PayloadHash'', JStr (cc_payload_hash c))]"

definition registryClaimsHash :: "host \<Rightarrow> CanonicalIdentityClaim list \<Rightarrow> string" where
  "registryClaimsHash h claims = sha256hex h (render (JArr (map claim_json claims)))"

definition hex_EncodeToString :: "string \<Rightarrow> string" where
  "hex_EncodeToString bytes = concat (map (\<lambda>c. [hex_digit (byte c div 16), hex_digit (byte c mod 16)]) bytes)"

text \<open>\<open>random\<close> says what \<open>rand.Read\<close> puts into each of the sixteen bytes; it is \<open>None\<close> when that fails.\<close>

definition allocateCanonicalID :: "string \<Rightarrow> (nat \<Rightarrow> char) option \<Rightarrow> string result" where
  "allocateCanonicalID prefix random =
     (case random of
        None \<Rightarrow> Inl (Err ''allocate canonical identity'')
      | Some bytes \<Rightarrow> Inr (prefix @ hex_EncodeToString (map bytes [0..<16])))"

definition registryDecisionID :: "host \<Rightarrow> string \<Rightarrow> string \<Rightarrow> CanonicalIdentityClaim \<Rightarrow> string" where
  "registryDecisionID h corpusID operationKey claim =
     ''resolution:'' @ sha256hex h (Join NUL [corpusID, operationKey, cc_proposal_key claim, cc_payload_hash claim])"

section \<open>Replay\<close>

text \<open>The decisions of an operation joined with their identities, in the order of proposal keys.\<close>

definition joined_rows :: "registry_store \<Rightarrow> string \<Rightarrow> string \<Rightarrow> (decision_row \<times> identity_row) list" where
  "joined_rows s corpusID operationKey =
     concat (map (\<lambda>d. map (Pair d) (filter (\<lambda>i. canonical_pk i = decision_identity d) (rs_identities s)))
       (sort_key rd_proposal_key (filter (\<lambda>d. decision_operation d = (corpusID, operationKey)) (rs_decisions s))))"

definition joined_ok :: "nat \<Rightarrow> decision_row \<times> identity_row \<Rightarrow> bool" where
  "joined_ok storedRevision = (\<lambda>(d, i).
     rd_revision d = storedRevision \<and> rd_identity_scope d = ci_identity_scope i \<and>
     rd_identity_key d = ci_identity_key i \<and> rd_entity_type d = ci_entity_type i \<and>
     ci_valid_from i \<le> rd_revision d \<and> (case ci_valid_to i of None \<Rightarrow> True | Some validTo \<Rightarrow> rd_revision d < validTo))"

definition payload_text :: "string \<Rightarrow> string \<Rightarrow> string \<Rightarrow> int \<Rightarrow> string" where
  "payload_text payload scope key type = Join NUL [payload, scope, key, Itoa (nat type)]"

definition decision_matches :: "decision_row \<Rightarrow> CanonicalIdentityClaim \<Rightarrow> bool" where
  "decision_matches d c \<longleftrightarrow> rd_proposal_key d = cc_proposal_key c \<and>
     payload_text (rd_payload_hash d) (rd_identity_scope d) (rd_identity_key d) (rd_entity_type d) =
     payload_text (cc_payload_hash c) (cc_identity_scope c) (cc_identity_key c) (cc_entity_type c)"

definition replayed_assignment :: "nat \<Rightarrow> decision_row \<Rightarrow> CanonicalIdentityAssignment" where
  "replayed_assignment revision d =
     \<lparr>ca_proposal_key = rd_proposal_key d, ca_canonical_id = rd_canonical_id d, ca_revision = revision,
      ca_created = rd_created d\<rparr>"

definition loadRegistryOperation ::
    "registry_store \<Rightarrow> string \<Rightarrow> string \<Rightarrow> string \<Rightarrow> CanonicalIdentityClaim list \<Rightarrow>
     (CanonicalIdentityAssignment list \<times> nat) option result" where
  "loadRegistryOperation s corpusID operationKey claimsHash claims =
     (case row_of operation_pk (corpusID, operationKey) (rs_operations s) of
        None \<Rightarrow>
          if list_ex (\<lambda>d. decision_operation d = (corpusID, operationKey)) (rs_decisions s)
          then Inl (Wrap ''registry operation header is missing'' ErrPersistentIntegrity)
          else Inr None
      | Some r \<Rightarrow>
          if ro_revision r = 0 \<or> ro_claim_count r \<noteq> length claims \<or> ro_claims_hash r \<noteq> claimsHash
          then Inl (Wrap ''operation key reused with different claims'' ErrConflict)
          else let rows = joined_rows s corpusID operationKey in
            if \<not> list_all (joined_ok (ro_revision r)) rows
            then Inl (Wrap ''stored registry operation revision is invalid'' ErrPersistentIntegrity)
            else if rows = [] then Inl (Wrap ''registry operation has no decision rows'' ErrPersistentIntegrity)
            else if length rows \<noteq> length claims
            then Inl (Wrap ''registry operation is partially persisted'' ErrPersistentIntegrity)
            else if \<not> list_all2 decision_matches (map fst rows) claims
            then Inl (Wrap ''stored registry decision differs from its operation header'' ErrPersistentIntegrity)
            else Inr (Some (map (replayed_assignment (ro_revision r) \<circ> fst) rows, ro_revision r)))"

section \<open>Resolution\<close>

record registryResolvedIdentity =
  ri_canonical_id :: string
  ri_entity_type :: int
  ri_created :: bool

type_synonym by_identity = "string \<rightharpoonup> registryResolvedIdentity"

definition lookup_key :: "CanonicalIdentityClaim \<Rightarrow> string" where
  "lookup_key c = cc_identity_scope c @ NUL @ cc_identity_key c"

definition claim_uk :: "string \<Rightarrow> CanonicalIdentityClaim \<Rightarrow> string \<times> string \<times> string" where
  "claim_uk corpusID c = (corpusID, cc_identity_scope c, cc_identity_key c)"

text \<open>The loop that looks every identity key up, and collects the keys that are new.\<close>

fun lookup_claims ::
    "identity_row list \<Rightarrow> string \<Rightarrow> nat \<Rightarrow> by_identity \<Rightarrow> string list \<Rightarrow> CanonicalIdentityClaim list \<Rightarrow>
     (by_identity \<times> string list) result" where
  "lookup_claims rows corpusID current byIdentity newKeys [] = Inr (byIdentity, newKeys)"
| "lookup_claims rows corpusID current byIdentity newKeys (c # cs) =
     (case byIdentity (lookup_key c) of
        Some resolved \<Rightarrow>
          if ri_entity_type resolved \<noteq> cc_entity_type c
          then Inl (Wrap ''identity key reused across entity types'' ErrConflict)
          else lookup_claims rows corpusID current byIdentity newKeys cs
      | None \<Rightarrow>
          if \<not> pg_text (cc_identity_scope c) then Inl (DbError ''lookup canonical identity'')
          else case row_of identity_uk (claim_uk corpusID c) rows of
            None \<Rightarrow>
              lookup_claims rows corpusID current
                (byIdentity(lookup_key c \<mapsto> \<lparr>ri_canonical_id = [], ri_entity_type = cc_entity_type c, ri_created = True\<rparr>))
                (newKeys @ [lookup_key c]) cs
          | Some i \<Rightarrow>
              if ci_valid_from i > current
              then Inl (Wrap ''canonical identity starts after the corpus revision'' ErrPersistentIntegrity)
              else if ci_valid_to i \<noteq> None \<or> ci_entity_type i \<noteq> cc_entity_type c
              then Inl (Wrap ''canonical identity is closed or has another type'' ErrConflict)
              else lookup_claims rows corpusID current
                (byIdentity(lookup_key c \<mapsto>
                   \<lparr>ri_canonical_id = ci_canonical_id i, ri_entity_type = ci_entity_type i, ri_created = False\<rparr>))
                newKeys cs)"

definition resolved_at :: "by_identity \<Rightarrow> string \<Rightarrow> registryResolvedIdentity" where
  "resolved_at byIdentity key =
     (case byIdentity key of
        Some resolved \<Rightarrow> resolved
      | None \<Rightarrow> \<lparr>ri_canonical_id = [], ri_entity_type = 0, ri_created = False\<rparr>)"

text \<open>The loop that inserts the new identities; \<open>draw n\<close> is the result of the \<open>n\<close>-th drawing.\<close>

fun insert_identities ::
    "(nat \<Rightarrow> (nat \<Rightarrow> char) option) \<Rightarrow> string \<Rightarrow> nat \<Rightarrow> nat \<Rightarrow> by_identity \<Rightarrow> identity_row list \<Rightarrow> string list \<Rightarrow>
     (by_identity \<times> identity_row list) result" where
  "insert_identities draw corpusID current n byIdentity rows [] = Inr (byIdentity, rows)"
| "insert_identities draw corpusID current n byIdentity rows (key # keys) =
     (let resolved = resolved_at byIdentity key in
      bind_result (allocateCanonicalID ''canonical:entity:'' (draw n)) (\<lambda>canonicalID.
      bind_result (insert_identity
        \<lparr>ci_corpus_id = corpusID, ci_canonical_id = canonicalID, ci_entity_type = ri_entity_type resolved,
         ci_identity_scope = takeWhile (\<lambda>b. b \<noteq> CHR 0x00) key,
         ci_identity_key = tl (dropWhile (\<lambda>b. b \<noteq> CHR 0x00) key),
         ci_valid_from = current, ci_valid_to = None\<rparr> rows) (\<lambda>rows'.
      insert_identities draw corpusID current (Suc n)
        (byIdentity(key \<mapsto> resolved\<lparr>ri_canonical_id := canonicalID\<rparr>)) rows' keys)))"

definition decision_for ::
    "host \<Rightarrow> string \<Rightarrow> string \<Rightarrow> nat \<Rightarrow> by_identity \<Rightarrow> CanonicalIdentityClaim \<Rightarrow> decision_row" where
  "decision_for h corpusID operationKey revision byIdentity c =
     (let resolved = resolved_at byIdentity (lookup_key c) in
      \<lparr>rd_decision_id = registryDecisionID h corpusID operationKey c, rd_corpus_id = corpusID,
       rd_operation_key = operationKey, rd_proposal_key = cc_proposal_key c,
       rd_canonical_id = ri_canonical_id resolved, rd_revision = revision, rd_payload_hash = cc_payload_hash c,
       rd_created = ri_created resolved, rd_identity_scope = cc_identity_scope c,
       rd_identity_key = cc_identity_key c, rd_entity_type = cc_entity_type c\<rparr>)"

definition assignment_for :: "nat \<Rightarrow> by_identity \<Rightarrow> CanonicalIdentityClaim \<Rightarrow> CanonicalIdentityAssignment" where
  "assignment_for revision byIdentity c =
     (let resolved = resolved_at byIdentity (lookup_key c) in
      \<lparr>ca_proposal_key = cc_proposal_key c, ca_canonical_id = ri_canonical_id resolved,
       ca_revision = revision, ca_created = ri_created resolved\<rparr>)"

fun record_decisions ::
    "host \<Rightarrow> string \<Rightarrow> string \<Rightarrow> nat \<Rightarrow> by_identity \<Rightarrow> identity_row list \<Rightarrow> decision_row list \<Rightarrow>
     CanonicalIdentityAssignment list \<Rightarrow> CanonicalIdentityClaim list \<Rightarrow>
     (CanonicalIdentityAssignment list \<times> decision_row list) result" where
  "record_decisions h corpusID operationKey revision byIdentity identities rows assignments [] = Inr (assignments, rows)"
| "record_decisions h corpusID operationKey revision byIdentity identities rows assignments (c # cs) =
     bind_result (insert_decision identities (decision_for h corpusID operationKey revision byIdentity c) rows) (\<lambda>rows'.
     record_decisions h corpusID operationKey revision byIdentity identities rows'
       (assignments @ [assignment_for revision byIdentity c]) cs)"

text \<open>The part of the transaction that writes: lines 75 to 163.\<close>

definition resolve_new ::
    "host \<Rightarrow> (nat \<Rightarrow> (nat \<Rightarrow> char) option) \<Rightarrow> string \<Rightarrow> string \<Rightarrow> nat \<Rightarrow> string \<Rightarrow> CanonicalIdentityClaim list \<Rightarrow> nat \<Rightarrow>
     registry_store \<Rightarrow> ((CanonicalIdentityAssignment list \<times> nat) \<times> registry_store) result" where
  "resolve_new h draw corpusID operationKey expectedRevision claimsHash ordered current s =
     (if expectedRevision \<noteq> 0 \<and> expectedRevision \<noteq> current
      then Inl (Wrap ''registry revision changed'' ErrConflict)
      else bind_result (lookup_claims (rs_identities s) corpusID current Map.empty [] ordered) (\<lambda>(found, newKeys).
        if newKeys \<noteq> [] \<and> current = MaxInt64 then Inl (Err ''registry revision exhausted'')
        else let revision = (if newKeys \<noteq> [] then current + 1 else current);
                 revisions = (if newKeys \<noteq> []
                   then map (\<lambda>(c, r). (c, if c = corpusID then revision else r)) (rs_revisions s) else rs_revisions s) in
          bind_result (insert_identities draw corpusID revision 0 found (rs_identities s) (sort newKeys)) (\<lambda>(byIdentity, identities).
          bind_result (record_decisions h corpusID operationKey revision byIdentity identities (rs_decisions s) [] ordered)
            (\<lambda>(assignments, decisions).
          bind_result (insert_operation
            \<lparr>ro_corpus_id = corpusID, ro_operation_key = operationKey, ro_claims_hash = claimsHash,
             ro_claim_count = length ordered, ro_revision = revision\<rparr> (rs_operations s)) (\<lambda>operations.
          Inr ((assignments, revision),
            \<lparr>rs_revisions = revisions, rs_identities = identities, rs_decisions = decisions,
             rs_operations = operations\<rparr>))))))"

text \<open>
  The transaction. Every error and a replay end in the deferred rollback: the tables stay as they
  were. The revision of the corpus is read after the row is ensured.
\<close>

definition resolve_tx ::
    "host \<Rightarrow> (nat \<Rightarrow> (nat \<Rightarrow> char) option) \<Rightarrow> string \<Rightarrow> string \<Rightarrow> nat \<Rightarrow> CanonicalIdentityClaim list \<Rightarrow> registry_store \<Rightarrow>
     ((CanonicalIdentityAssignment list \<times> nat) \<times> registry_store) result" where
  "resolve_tx h draw corpusID operationKey expectedRevision claims s =
     bind_result (validateRegistryClaims corpusID operationKey expectedRevision claims) (\<lambda>ordered.
     bind_result (ensure_registry_corpus corpusID (rs_revisions s)) (\<lambda>revisions.
     case map_of revisions corpusID of
       None \<Rightarrow> Inl (DbError ''lock registry revision'')
     | Some current \<Rightarrow>
         let claimsHash = registryClaimsHash h ordered in
         bind_result (loadRegistryOperation s corpusID operationKey claimsHash ordered) (\<lambda>replayed.
         case replayed of
           Some (assignments, revision) \<Rightarrow>
             if revision > current
             then Inl (Wrap ''registry operation is ahead of corpus revision'' ErrPersistentIntegrity)
             else Inr ((assignments, revision), s)
         | None \<Rightarrow> resolve_new h draw corpusID operationKey expectedRevision claimsHash ordered current
                     (s\<lparr>rs_revisions := revisions\<rparr>))))"

definition ResolveCanonicalIdentities ::
    "host \<Rightarrow> (nat \<Rightarrow> (nat \<Rightarrow> char) option) \<Rightarrow> string \<Rightarrow> string \<Rightarrow> nat \<Rightarrow> CanonicalIdentityClaim list \<Rightarrow> registry_store \<Rightarrow>
     (CanonicalIdentityAssignment list \<times> nat) result \<times> registry_store" where
  "ResolveCanonicalIdentities h draw corpusID operationKey expectedRevision claims s =
     (case resolve_tx h draw corpusID operationKey expectedRevision claims s of
        Inl e \<Rightarrow> (Inl e, s)
      | Inr (result, s') \<Rightarrow> (Inr result, s'))"

section \<open>Validated batches\<close>

lemma check_registry_claims_after:
  assumes "sorted (p # map cc_proposal_key cs)"
  shows "check_registry_claims (Some p) cs = Inr () \<longleftrightarrow> list_all claim_ok cs \<and> distinct (p # map cc_proposal_key cs)"
  using assms
proof (induction cs arbitrary: p)
  case (Cons c cs)
  from Cons.prems have "p \<le> cc_proposal_key c" "\<forall>d \<in> set cs. cc_proposal_key c \<le> cc_proposal_key d" by auto
  then have "p \<noteq> cc_proposal_key c \<Longrightarrow> p \<notin> set (map cc_proposal_key cs)" by fastforce
  with Cons.IH [of "cc_proposal_key c"] Cons.prems show ?case by auto
qed simp

lemma check_registry_claims_iff:
  assumes "sorted (map cc_proposal_key cs)"
  shows "check_registry_claims None cs = Inr () \<longleftrightarrow> list_all claim_ok cs \<and> distinct (map cc_proposal_key cs)"
proof (cases cs)
  case (Cons c ds)
  with assms show ?thesis using check_registry_claims_after [of "cc_proposal_key c" ds] by simp
qed simp

definition batch_ok :: "string \<Rightarrow> string \<Rightarrow> nat \<Rightarrow> CanonicalIdentityClaim list \<Rightarrow> bool" where
  "batch_ok corpusID operationKey expectedRevision claims \<longleftrightarrow>
     storageIDPattern corpusID \<and> storageIDPattern operationKey \<and> expectedRevision \<le> MaxInt64 \<and> claims \<noteq> [] \<and>
     length claims \<le> maximumRegistryClaims \<and> list_all claim_ok claims \<and> distinct (map cc_proposal_key claims)"

lemma list_all_mset: "mset xs = mset ys \<Longrightarrow> list_all P xs \<longleftrightarrow> list_all P ys"
  by (metis list_all_iff set_mset_mset)

lemma validateRegistryClaims_iff:
  "validateRegistryClaims corpusID operationKey expectedRevision claims = Inr ordered \<longleftrightarrow>
   batch_ok corpusID operationKey expectedRevision claims \<and> ordered = sort_key cc_proposal_key claims"
proof -
  let ?o = "sort_key cc_proposal_key claims"
  have "check_registry_claims None ?o = Inr () \<longleftrightarrow> list_all claim_ok claims \<and> distinct (map cc_proposal_key claims)"
    using check_registry_claims_iff [of ?o] list_all_mset [of ?o claims claim_ok]
      distinct_map_mset [of ?o claims cc_proposal_key] by (simp del: distinct_map)
  then show ?thesis
    by (auto simp: validateRegistryClaims_def batch_ok_def Let_def bind_result_Inr_iff not_le)
qed

lemma sort_claims_perm:
  assumes "mset xs = mset ys" and "distinct (map cc_proposal_key xs)"
  shows "sort_key cc_proposal_key xs = sort_key cc_proposal_key ys"
proof (rule sort_key_inj_key_eq)
  show "mset xs = mset (sort_key cc_proposal_key ys)" using assms(1) by simp
  show "inj_on cc_proposal_key (set xs)" using assms(2) by (simp add: distinct_map)
qed simp

lemma batch_ok_perm:
  assumes "mset xs = mset ys" and "batch_ok corpusID operationKey e xs" and "e' \<le> MaxInt64"
  shows "batch_ok corpusID operationKey e' ys"
  using assms list_all_mset [OF assms(1)] distinct_map_mset [OF assms(1)] mset_eq_length [OF assms(1)]
  by (auto simp: batch_ok_def)

section \<open>Lookup keys\<close>

lemma last_split:
  assumes "z \<notin> set b" and "z \<notin> set b'"
  shows "a @ z # b = a' @ z # b' \<longleftrightarrow> a = a' \<and> b = b'"
proof
  assume eq: "a @ z # b = a' @ z # b'"
  have tail: "takeWhile (\<lambda>y. y \<noteq> z) (rev (x @ z # y)) = rev y" if "z \<notin> set y" for x y
    using that by (induction y rule: rev_induct) auto
  have "rev b = rev b'" using tail [OF assms(1), of a] tail [OF assms(2), of a'] eq by simp
  with eq show "a = a' \<and> b = b'" by simp
qed simp

lemma sha256Pattern_no_nul: "sha256Pattern s \<Longrightarrow> CHR 0x00 \<notin> set s"
proof -
  assume "sha256Pattern s"
  then have "list_all is_lower_hex s" by (simp add: sha256Pattern_def)
  moreover have "\<not> is_lower_hex CHR 0x00" by code_simp
  ultimately show ?thesis by (auto simp: list_all_iff)
qed

lemma lookup_key_eq_iff:
  assumes "claim_ok c" and "claim_ok d"
  shows "lookup_key c = lookup_key d \<longleftrightarrow> claim_uk corpusID c = claim_uk corpusID d"
  using last_split [of "CHR 0x00" "cc_identity_key c" "cc_identity_key d"] assms
  by (simp add: lookup_key_def claim_uk_def NUL_def claim_ok_def sha256Pattern_no_nul)

definition row_key :: "identity_row \<Rightarrow> string" where
  "row_key i = ci_identity_scope i @ NUL @ ci_identity_key i"

lemma split_lookup_key:
  assumes "CHR 0x00 \<notin> set scope"
  shows "takeWhile (\<lambda>b. b \<noteq> CHR 0x00) (scope @ NUL @ key) = scope"
    and "tl (dropWhile (\<lambda>b. b \<noteq> CHR 0x00) (scope @ NUL @ key)) = key"
  using assms by (induction scope) (auto simp: NUL_def)

lemma payload_text_eq_iff:
  assumes "sha256Pattern k" and "sha256Pattern k'" and "sha256Pattern p" and "sha256Pattern p'"
  shows "payload_text p s k t = payload_text p' s' k' t' \<longleftrightarrow> p = p' \<and> s = s' \<and> k = k' \<and> nat t = nat t'"
proof -
  have digits: "CHR 0x00 \<notin> set (Itoa n)" for n
    using Itoa_digits [of n] by (auto simp: is_digit_def list_all_iff)
  have "payload_text p s k t = payload_text p' s' k' t' \<longleftrightarrow>
      ((p @ NUL @ s) @ CHR 0x00 # k) @ CHR 0x00 # Itoa (nat t) = ((p' @ NUL @ s') @ CHR 0x00 # k') @ CHR 0x00 # Itoa (nat t')"
    by (simp add: payload_text_def NUL_def)
  also have "\<dots> \<longleftrightarrow> (p @ NUL @ s) @ CHR 0x00 # k = (p' @ NUL @ s') @ CHR 0x00 # k' \<and> nat t = nat t'"
    by (simp only: last_split [OF digits digits] Itoa_inject)
  also have "\<dots> \<longleftrightarrow> (p @ NUL @ s = p' @ NUL @ s' \<and> k = k') \<and> nat t = nat t'"
    by (simp only: last_split [OF assms(1,2) [THEN sha256Pattern_no_nul]])
  also have "p @ NUL @ s = p' @ NUL @ s' \<longleftrightarrow> p = p' \<and> s = s'"
    using assms(3,4) by (simp add: sha256Pattern_def)
  finally show ?thesis by auto
qed

section \<open>The loops of a resolution\<close>

lemma row_of_None_image: "row_of key k rows = None \<longleftrightarrow> k \<notin> key ` set rows"
  unfolding row_of_None_iff by (metis (mono_tags) imageE imageI)

text \<open>What the lookup of a claim finds; a claim whose key is new is to be created.\<close>

definition resolution :: "identity_row list \<Rightarrow> string \<Rightarrow> CanonicalIdentityClaim \<Rightarrow> registryResolvedIdentity" where
  "resolution rows corpusID c =
     (case row_of identity_uk (claim_uk corpusID c) rows of
        None \<Rightarrow> \<lparr>ri_canonical_id = [], ri_entity_type = cc_entity_type c, ri_created = True\<rparr>
      | Some i \<Rightarrow> \<lparr>ri_canonical_id = ci_canonical_id i, ri_entity_type = cc_entity_type c, ri_created = False\<rparr>)"

definition open_row :: "nat \<Rightarrow> CanonicalIdentityClaim \<Rightarrow> identity_row \<Rightarrow> bool" where
  "open_row current c i \<longleftrightarrow>
     ci_valid_from i \<le> current \<and> ci_valid_to i = None \<and> ci_entity_type i = cc_entity_type c"

definition looked_up ::
    "identity_row list \<Rightarrow> string \<Rightarrow> nat \<Rightarrow> by_identity \<Rightarrow> string list \<Rightarrow> CanonicalIdentityClaim list \<Rightarrow> bool" where
  "looked_up rows corpusID current m new cs \<longleftrightarrow>
     (\<forall>c \<in> set cs. pg_text (cc_identity_scope c) \<and> m (lookup_key c) = Some (resolution rows corpusID c) \<and>
        (\<forall>i. row_of identity_uk (claim_uk corpusID c) rows = Some i \<longrightarrow> open_row current c i)) \<and>
     dom m = lookup_key ` set cs \<and> distinct new \<and>
     set new = lookup_key ` {c \<in> set cs. row_of identity_uk (claim_uk corpusID c) rows = None}"

lemma lookup_claims_step:
  assumes ok: "list_all claim_ok (done @ [c])" and so_far: "looked_up rows corpusID current m new done"
    and seen: "m (lookup_key c) = Some r" "ri_entity_type r = cc_entity_type c"
  shows "looked_up rows corpusID current m new (done @ [c])"
proof -
  from so_far seen(1) have "lookup_key c \<in> lookup_key ` set done" by (auto simp: looked_up_def)
  then obtain d where d: "d \<in> set done" "lookup_key c = lookup_key d" by auto
  with ok have uk: "claim_uk corpusID c = claim_uk corpusID d" using lookup_key_eq_iff by (auto simp: list_all_iff)
  then have scope: "cc_identity_scope c = cc_identity_scope d" by (simp add: claim_uk_def)
  from so_far d have r: "r = resolution rows corpusID d" using seen(1) by (simp add: looked_up_def)
  then have type: "cc_entity_type c = cc_entity_type d"
    using seen(2) by (simp add: resolution_def split: option.splits)
  have same: "resolution rows corpusID c = resolution rows corpusID d" "open_row current c = open_row current d"
    using uk type by (auto simp: resolution_def open_row_def split: option.splits)
  have "{x \<in> set (done @ [c]). row_of identity_uk (claim_uk corpusID x) rows = None} =
      {x \<in> set done. row_of identity_uk (claim_uk corpusID x) rows = None} \<union>
      (if row_of identity_uk (claim_uk corpusID d) rows = None then {c} else {})" using uk by auto
  then show ?thesis using so_far d uk scope r seen(1) same by (auto simp: looked_up_def)
qed

lemma lookup_claims_new:
  assumes "looked_up rows corpusID current m new done" and "m (lookup_key c) = None"
    and "pg_text (cc_identity_scope c)"
    and "\<And>i. row_of identity_uk (claim_uk corpusID c) rows = Some i \<Longrightarrow> open_row current c i"
    and "m' = m(lookup_key c \<mapsto> resolution rows corpusID c)"
    and "new' = (if row_of identity_uk (claim_uk corpusID c) rows = None then new @ [lookup_key c] else new)"
  shows "looked_up rows corpusID current m' new' (done @ [c])"
proof -
  from assms(1,2) have fresh: "lookup_key c \<notin> lookup_key ` set done" by (auto simp: looked_up_def)
  with assms(1) have "lookup_key c \<notin> set new" by (auto simp: looked_up_def)
  moreover have "\<And>d. d \<in> set done \<Longrightarrow> lookup_key d \<noteq> lookup_key c" using fresh by (metis imageI)
  moreover have "{x \<in> set (done @ [c]). row_of identity_uk (claim_uk corpusID x) rows = None} =
      {x \<in> set done. row_of identity_uk (claim_uk corpusID x) rows = None} \<union>
      (if row_of identity_uk (claim_uk corpusID c) rows = None then {c} else {})" by auto
  ultimately show ?thesis using assms by (auto simp: looked_up_def)
qed

lemma lookup_claims_looked_up:
  assumes "lookup_claims rows corpusID current m new cs = Inr (m', new')"
    and "looked_up rows corpusID current m new done" and "list_all claim_ok (done @ cs)"
  shows "looked_up rows corpusID current m' new' (done @ cs)"
  using assms
proof (induction cs arbitrary: m new "done")
  case (Cons c cs)
  from Cons.prems(3) have ok: "list_all claim_ok (done @ [c])" "list_all claim_ok ((done @ [c]) @ cs)" by simp_all
  obtain m1 new1 where rest: "lookup_claims rows corpusID current m1 new1 cs = Inr (m', new')"
    and one: "looked_up rows corpusID current m1 new1 (done @ [c])"
  proof (cases "m (lookup_key c)")
    case None
    let ?m = "m(lookup_key c \<mapsto> resolution rows corpusID c)"
    let ?new = "if row_of identity_uk (claim_uk corpusID c) rows = None then new @ [lookup_key c] else new"
    from None Cons.prems(1) have "lookup_claims rows corpusID current ?m ?new cs = Inr (m', new')"
      and "pg_text (cc_identity_scope c)"
      and "\<And>i. row_of identity_uk (claim_uk corpusID c) rows = Some i \<Longrightarrow> open_row current c i"
      by (auto simp: resolution_def open_row_def split: if_splits option.splits)
    with lookup_claims_new [OF Cons.prems(2) None] that show thesis by blast
  next
    case (Some r)
    with Cons.prems(1) lookup_claims_step [OF ok(1) Cons.prems(2) Some] that show thesis
      by (auto split: if_splits)
  qed
  from Cons.IH [OF rest one ok(2)] show ?case by simp
qed simp

lemma looked_up_Nil: "looked_up rows corpusID current Map.empty [] []"
  by (simp add: looked_up_def)

text \<open>The rows that the insertion loop adds for the new keys.\<close>

definition added_rows ::
    "(nat \<Rightarrow> (nat \<Rightarrow> char) option) \<Rightarrow> string \<Rightarrow> nat \<Rightarrow> by_identity \<Rightarrow> by_identity \<Rightarrow> identity_row list \<Rightarrow> bool" where
  "added_rows draw corpusID current m m' extra \<longleftrightarrow>
     (\<forall>i \<in> set extra. ci_corpus_id i = corpusID \<and> ci_valid_from i = current \<and> ci_valid_to i = None \<and>
        CHR 0x00 \<notin> set (ci_identity_scope i) \<and> ci_entity_type i = ri_entity_type (resolved_at m (row_key i)) \<and>
        m' (row_key i) = Some ((resolved_at m (row_key i))\<lparr>ri_canonical_id := ci_canonical_id i\<rparr>) \<and>
        (\<exists>n bytes. draw n = Some bytes \<and> ci_canonical_id i = ''canonical:entity:'' @ hex_EncodeToString (map bytes [0..<16])))"

lemma insert_identity_Inr:
  "insert_identity i rows = Inr rows' \<longleftrightarrow>
     rows' = rows @ [i] \<and> canonical_pk i \<notin> canonical_pk ` set rows \<and> identity_uk i \<notin> identity_uk ` set rows"
  by (auto simp: insert_identity_def row_of_None_image)

lemma insert_identities_Inr:
  assumes "insert_identities draw corpusID current n m rows keys = Inr (m', rows')"
    and "distinct keys" and "\<And>k. k \<in> set keys \<Longrightarrow> CHR 0x00 \<in> set k"
    and "distinct (map canonical_pk rows)" and "distinct (map identity_uk rows)"
  shows "\<exists>extra. rows' = rows @ extra \<and> map row_key extra = keys \<and> added_rows draw corpusID current m m' extra \<and>
    (\<forall>k. k \<notin> set keys \<longrightarrow> m' k = m k) \<and> distinct (map canonical_pk rows') \<and> distinct (map identity_uk rows')"
  using assms
proof (induction keys arbitrary: n m rows)
  case Nil
  then show ?case by (auto simp: added_rows_def)
next
  case (Cons k keys)
  from Cons.prems(3) have "CHR 0x00 \<in> set k" by simp
  then obtain scope key where k: "k = scope @ NUL @ key" "CHR 0x00 \<notin> set scope"
    by (auto simp: NUL_def dest: split_list_first)
  from Cons.prems(1) obtain bytes i where bytes: "draw n = Some bytes"
    and i: "i = \<lparr>ci_corpus_id = corpusID, ci_canonical_id = ''canonical:entity:'' @ hex_EncodeToString (map bytes [0..<16]),
      ci_entity_type = ri_entity_type (resolved_at m k), ci_identity_scope = scope, ci_identity_key = key,
      ci_valid_from = current, ci_valid_to = None\<rparr>"
    and new: "canonical_pk i \<notin> canonical_pk ` set rows" "identity_uk i \<notin> identity_uk ` set rows"
    and rest: "insert_identities draw corpusID current (Suc n)
      (m(k \<mapsto> (resolved_at m k)\<lparr>ri_canonical_id := ci_canonical_id i\<rparr>)) (rows @ [i]) keys = Inr (m', rows')"
    by (auto simp: Let_def bind_result_Inr_iff allocateCanonicalID_def insert_identity_Inr k
        split_lookup_key [OF k(2)] split: option.splits)
  let ?m = "m(k \<mapsto> (resolved_at m k)\<lparr>ri_canonical_id := ci_canonical_id i\<rparr>)"
  have "row_key i = k" by (simp add: row_key_def i k)
  have keys: "distinct keys" "\<And>x. x \<in> set keys \<Longrightarrow> CHR 0x00 \<in> set x"
    and unique: "distinct (map canonical_pk (rows @ [i]))" "distinct (map identity_uk (rows @ [i]))"
    using Cons.prems new by auto
  from Cons.IH [OF rest keys unique] obtain extra where
    ex: "rows' = (rows @ [i]) @ extra" "map row_key extra = keys" "added_rows draw corpusID current ?m m' extra"
      "\<forall>x. x \<notin> set keys \<longrightarrow> m' x = ?m x" "distinct (map canonical_pk rows')" "distinct (map identity_uk rows')"
    by blast
  have other: "resolved_at ?m (row_key j) = resolved_at m (row_key j)" if "j \<in> set extra" for j
  proof -
    from that have "row_key j \<in> set keys" using ex(2) by auto
    with Cons.prems(2) have "row_key j \<noteq> k" by auto
    then show ?thesis by (simp add: resolved_at_def)
  qed
  have "added_rows draw corpusID current m m' (i # extra)"
    using ex(3,4) other Cons.prems(2) \<open>row_key i = k\<close> bytes k(2) by (auto simp: added_rows_def i)
  with ex \<open>row_key i = k\<close> show ?case by (intro exI [of _ "i # extra"]) auto
qed

lemma insert_decision_Inr:
  "insert_decision identities d rows = Inr rows' \<longleftrightarrow>
     rows' = rows @ [d] \<and> rd_decision_id d \<notin> rd_decision_id ` set rows \<and> decision_uk d \<notin> decision_uk ` set rows \<and>
     decision_identity d \<in> canonical_pk ` set identities"
  by (auto simp: insert_decision_def row_of_None_image)

lemma record_decisions_Inr:
  assumes "record_decisions h corpusID operationKey revision m identities rows as cs = Inr (as', rows')"
  shows "as' = as @ map (assignment_for revision m) cs \<and>
    rows' = rows @ map (decision_for h corpusID operationKey revision m) cs"
  using assms
proof (induction cs arbitrary: rows as)
  case (Cons c cs)
  then have "record_decisions h corpusID operationKey revision m identities
      (rows @ [decision_for h corpusID operationKey revision m c]) (as @ [assignment_for revision m c]) cs = Inr (as', rows')"
    by (simp add: bind_result_Inr_iff insert_decision_Inr)
  from Cons.IH [OF this] show ?case by simp
qed simp

text \<open>What a claim is granted: a row of the identity table with its key, its type and an open validity.\<close>

definition granted ::
    "identity_row list \<Rightarrow> identity_row list \<Rightarrow> string \<Rightarrow> nat \<Rightarrow> by_identity \<Rightarrow> CanonicalIdentityClaim \<Rightarrow> bool" where
  "granted old rows corpusID revision m c \<longleftrightarrow>
     pg_text (cc_identity_scope c) \<and>
     (\<exists>i \<in> set rows. identity_uk i = claim_uk corpusID c \<and> open_row revision c i \<and>
        ci_canonical_id i = ri_canonical_id (resolved_at m (lookup_key c))) \<and>
     (ri_created (resolved_at m (lookup_key c)) \<longleftrightarrow> claim_uk corpusID c \<notin> identity_uk ` set old)"

lemma row_key_eq:
  assumes "row_key i = lookup_key c" and "CHR 0x00 \<notin> set (ci_identity_scope i)" and "CHR 0x00 \<notin> set (cc_identity_scope c)"
  shows "ci_identity_scope i = cc_identity_scope c \<and> ci_identity_key i = cc_identity_key c"
  using split_lookup_key [OF assms(2), of "ci_identity_key i"] split_lookup_key [OF assms(3), of "cc_identity_key c"] assms(1)
  by (simp add: row_key_def lookup_key_def)

lemma new_key_iff:
  assumes "looked_up rows corpusID current m new cs" and "list_all claim_ok cs" and "c \<in> set cs"
  shows "lookup_key c \<in> set new \<longleftrightarrow> row_of identity_uk (claim_uk corpusID c) rows = None"
proof
  assume "lookup_key c \<in> set new"
  with assms(1) obtain d where d: "d \<in> set cs" "row_of identity_uk (claim_uk corpusID d) rows = None" "lookup_key c = lookup_key d"
    by (auto simp: looked_up_def)
  with assms(2,3) have "claim_uk corpusID c = claim_uk corpusID d" using lookup_key_eq_iff by (auto simp: list_all_iff)
  with d(2) show "row_of identity_uk (claim_uk corpusID c) rows = None" by simp
next
  assume "row_of identity_uk (claim_uk corpusID c) rows = None"
  with assms(1,3) show "lookup_key c \<in> set new" by (auto simp: looked_up_def)
qed

lemma granted_new:
  assumes found: "looked_up rows corpusID current m0 new cs" and c: "c \<in> set cs"
    and none: "row_of identity_uk (claim_uk corpusID c) rows = None"
    and keys: "map row_key extra = sort new" and added: "added_rows draw corpusID revision m0 m extra"
  shows "granted rows (rows @ extra) corpusID revision m c"
proof -
  from found c none have k: "lookup_key c \<in> set new" and valid: "pg_text (cc_identity_scope c)"
    and m0: "m0 (lookup_key c) = Some (resolution rows corpusID c)"
    by (auto simp: looked_up_def)
  from k keys obtain i where i: "i \<in> set extra" "row_key i = lookup_key c"
    by (metis (no_types, lifting) in_set_conv_nth length_map nth_map set_sort)
  from added i(1) have row: "ci_corpus_id i = corpusID" "ci_valid_from i = revision" "ci_valid_to i = None"
      "CHR 0x00 \<notin> set (ci_identity_scope i)" "ci_entity_type i = ri_entity_type (resolved_at m0 (row_key i))"
      "m (row_key i) = Some ((resolved_at m0 (row_key i))\<lparr>ri_canonical_id := ci_canonical_id i\<rparr>)"
    by (auto simp: added_rows_def)
  have same: "ci_identity_scope i = cc_identity_scope c \<and> ci_identity_key i = cc_identity_key c"
    using row_key_eq [OF i(2) row(4)] valid by (simp add: pg_text_def)
  have res: "resolved_at m0 (lookup_key c) = resolution rows corpusID c" using m0 by (simp add: resolved_at_def)
  have r: "resolution rows corpusID c = \<lparr>ri_canonical_id = [], ri_entity_type = cc_entity_type c, ri_created = True\<rparr>"
    using none by (simp add: resolution_def)
  have m: "resolved_at m (lookup_key c) =
      \<lparr>ri_canonical_id = ci_canonical_id i, ri_entity_type = cc_entity_type c, ri_created = True\<rparr>"
    using row(6) by (simp add: resolved_at_def i(2) res [unfolded resolved_at_def] r)
  have "identity_uk i = claim_uk corpusID c" using same row(1) by (simp add: identity_uk_def claim_uk_def)
  moreover have "open_row revision c i" using row i(2) res r by (simp add: open_row_def)
  ultimately show ?thesis
    using valid m i(1) none row_of_None_image [of identity_uk "claim_uk corpusID c" rows]
    by (auto simp: granted_def)
qed

lemma granted_found:
  assumes found: "looked_up rows corpusID current m0 new cs" and c: "c \<in> set cs"
    and some: "row_of identity_uk (claim_uk corpusID c) rows = Some i"
    and m: "m (lookup_key c) = m0 (lookup_key c)" and "current \<le> revision"
  shows "granted rows (rows @ extra) corpusID revision m c"
proof -
  from found c some have valid: "pg_text (cc_identity_scope c)" and row: "open_row current c i"
    and m0: "m0 (lookup_key c) = Some (resolution rows corpusID c)"
    by (auto simp: looked_up_def)
  have r: "resolved_at m (lookup_key c) =
      \<lparr>ri_canonical_id = ci_canonical_id i, ri_entity_type = cc_entity_type c, ri_created = False\<rparr>"
    using m m0 some by (simp add: resolved_at_def resolution_def)
  have "i \<in> set rows \<and> identity_uk i = claim_uk corpusID c" using row_of_Some [OF some] by simp
  moreover have "open_row revision c i" using row \<open>current \<le> revision\<close> by (simp add: open_row_def)
  ultimately show ?thesis using valid r by (force simp: granted_def)
qed

lemma inserted_granted:
  assumes found: "looked_up rows corpusID current m0 new cs" and ok: "list_all claim_ok cs"
    and inserted: "insert_identities draw corpusID revision 0 m0 rows (sort new) = Inr (m, rows')"
    and unique: "distinct (map canonical_pk rows)" "distinct (map identity_uk rows)" and "current \<le> revision"
  obtains extra where "rows' = rows @ extra" and "added_rows draw corpusID revision m0 m extra"
    and "map row_key extra = sort new" and "\<And>c. c \<in> set cs \<Longrightarrow> granted rows rows' corpusID revision m c"
    and "distinct (map canonical_pk rows')" and "distinct (map identity_uk rows')"
proof -
  from found have "distinct (sort new)" and "\<And>k. k \<in> set (sort new) \<Longrightarrow> CHR 0x00 \<in> set k"
    by (auto simp: looked_up_def lookup_key_def NUL_def)
  from insert_identities_Inr [OF inserted this unique] obtain extra where
    e: "rows' = rows @ extra" "map row_key extra = sort new" "added_rows draw corpusID revision m0 m extra"
      "\<forall>k. k \<notin> set (sort new) \<longrightarrow> m k = m0 k" "distinct (map canonical_pk rows')" "distinct (map identity_uk rows')"
    by blast
  have "granted rows rows' corpusID revision m c" if c: "c \<in> set cs" for c
  proof (cases "row_of identity_uk (claim_uk corpusID c) rows")
    case None
    from granted_new [OF found c None e(2,3)] show ?thesis by (simp add: e(1))
  next
    case (Some i)
    with new_key_iff [OF found ok c] e(4) have "m (lookup_key c) = m0 (lookup_key c)" by simp
    with granted_found [OF found c Some] \<open>current \<le> revision\<close> show ?thesis by (simp add: e(1))
  qed
  with e that show thesis by blast
qed

text \<open>The effect of a transaction that writes, on every table.\<close>

definition new_identity ::
    "(nat \<Rightarrow> (nat \<Rightarrow> char) option) \<Rightarrow> string \<Rightarrow> nat \<Rightarrow> CanonicalIdentityClaim list \<Rightarrow> identity_row \<Rightarrow> bool" where
  "new_identity draw corpusID revision ordered i \<longleftrightarrow>
     ci_corpus_id i = corpusID \<and> ci_valid_from i = revision \<and> ci_valid_to i = None \<and>
     (\<exists>c \<in> set ordered. identity_uk i = claim_uk corpusID c \<and> ci_entity_type i = cc_entity_type c) \<and>
     (\<exists>n bytes. draw n = Some bytes \<and> ci_canonical_id i = ''canonical:entity:'' @ hex_EncodeToString (map bytes [0..<16]))"

record registry_write =
  w_resolved :: by_identity
  w_identities :: "identity_row list"
  w_revision :: nat

definition writes ::
    "host \<Rightarrow> (nat \<Rightarrow> (nat \<Rightarrow> char) option) \<Rightarrow> string \<Rightarrow> string \<Rightarrow> CanonicalIdentityClaim list \<Rightarrow> nat \<Rightarrow> registry_write \<Rightarrow>
     registry_store \<Rightarrow> registry_store \<Rightarrow> bool" where
  "writes h draw corpusID operationKey ordered current w s s' \<longleftrightarrow>
     w_revision w = (if w_identities w = [] then current else current + 1) \<and>
     (w_identities w \<noteq> [] \<longrightarrow> current \<noteq> MaxInt64) \<and>
     rs_revisions s' = map (\<lambda>(c, r). (c, if c = corpusID \<and> w_identities w \<noteq> [] then current + 1 else r)) (rs_revisions s) \<and>
     rs_identities s' = rs_identities s @ w_identities w \<and>
     rs_decisions s' = rs_decisions s @ map (decision_for h corpusID operationKey (w_revision w) (w_resolved w)) ordered \<and>
     rs_operations s' = rs_operations s @
       [\<lparr>ro_corpus_id = corpusID, ro_operation_key = operationKey, ro_claims_hash = registryClaimsHash h ordered,
         ro_claim_count = length ordered, ro_revision = w_revision w\<rparr>] \<and>
     (corpusID, operationKey) \<notin> operation_pk ` set (rs_operations s) \<and>
     list_all (new_identity draw corpusID (w_revision w) ordered) (w_identities w) \<and>
     list_all (granted (rs_identities s) (rs_identities s') corpusID (w_revision w) (w_resolved w)) ordered \<and>
     distinct (map canonical_pk (rs_identities s')) \<and> distinct (map identity_uk (rs_identities s'))"

lemma writesD:
  assumes "writes h draw corpusID operationKey ordered current w s s'"
  shows "w_revision w = (if w_identities w = [] then current else current + 1)"
    and "rs_identities s' = rs_identities s @ w_identities w"
    and "rs_decisions s' = rs_decisions s @ map (decision_for h corpusID operationKey (w_revision w) (w_resolved w)) ordered"
    and "rs_operations s' = rs_operations s @
       [\<lparr>ro_corpus_id = corpusID, ro_operation_key = operationKey, ro_claims_hash = registryClaimsHash h ordered,
         ro_claim_count = length ordered, ro_revision = w_revision w\<rparr>]"
    and "(corpusID, operationKey) \<notin> operation_pk ` set (rs_operations s)"
    and "i \<in> set (w_identities w) \<Longrightarrow> new_identity draw corpusID (w_revision w) ordered i"
    and "c \<in> set ordered \<Longrightarrow> granted (rs_identities s) (rs_identities s') corpusID (w_revision w) (w_resolved w) c"
    and "distinct (map canonical_pk (rs_identities s'))" and "distinct (map identity_uk (rs_identities s'))"
  using assms unfolding writes_def list_all_iff by blast+

lemma added_row_new:
  assumes found: "looked_up rows corpusID current m0 new ordered" and keys: "map row_key extra = sort new"
    and added: "added_rows draw corpusID revision m0 m extra" and i: "i \<in> set extra"
  shows "new_identity draw corpusID revision ordered i"
proof -
  from i have "row_key i \<in> set (map row_key extra)" by simp
  with keys found obtain c where c: "c \<in> set ordered" "row_of identity_uk (claim_uk corpusID c) rows = None"
      "row_key i = lookup_key c" by (auto simp: looked_up_def)
  from found c have valid: "pg_text (cc_identity_scope c)" and m0: "m0 (lookup_key c) = Some (resolution rows corpusID c)"
    by (auto simp: looked_up_def)
  from added i have row: "ci_corpus_id i = corpusID" "ci_valid_from i = revision" "ci_valid_to i = None"
      "CHR 0x00 \<notin> set (ci_identity_scope i)" "ci_entity_type i = ri_entity_type (resolved_at m0 (row_key i))"
      "\<exists>n bytes. draw n = Some bytes \<and> ci_canonical_id i = ''canonical:entity:'' @ hex_EncodeToString (map bytes [0..<16])"
    unfolding added_rows_def by blast+
  have "ci_identity_scope i = cc_identity_scope c \<and> ci_identity_key i = cc_identity_key c"
    using row_key_eq [OF c(3) row(4)] valid by (simp add: pg_text_def)
  then have "identity_uk i = claim_uk corpusID c" using row(1) by (simp add: identity_uk_def claim_uk_def)
  moreover have "ci_entity_type i = cc_entity_type c"
    using row(5) c(2,3) m0 by (simp add: resolved_at_def resolution_def)
  ultimately show ?thesis using c(1) row by (auto simp: new_identity_def)
qed

lemma resolve_new_steps:
  assumes run: "resolve_new h draw corpusID operationKey e claimsHash ordered current s = Inr ((as, revision), s')"
  obtains m0 new m rows decisions operations where
    "lookup_claims (rs_identities s) corpusID current Map.empty [] ordered = Inr (m0, new)"
    and "new = [] \<or> current \<noteq> MaxInt64" and "revision = (if new \<noteq> [] then current + 1 else current)"
    and "insert_identities draw corpusID revision 0 m0 (rs_identities s) (sort new) = Inr (m, rows)"
    and "record_decisions h corpusID operationKey revision m rows (rs_decisions s) [] ordered = Inr (as, decisions)"
    and "insert_operation \<lparr>ro_corpus_id = corpusID, ro_operation_key = operationKey,
        ro_claims_hash = claimsHash, ro_claim_count = length ordered, ro_revision = revision\<rparr>
        (rs_operations s) = Inr operations"
    and "s' = \<lparr>rs_revisions = (if new \<noteq> []
          then map (\<lambda>(c, r). (c, if c = corpusID then revision else r)) (rs_revisions s) else rs_revisions s),
        rs_identities = rows, rs_decisions = decisions, rs_operations = operations\<rparr>"
proof -
  let ?rev = "\<lambda>new. if new \<noteq> [] then current + 1 else current"
  let ?header = "\<lambda>rev. \<lparr>ro_corpus_id = corpusID, ro_operation_key = operationKey,
    ro_claims_hash = claimsHash, ro_claim_count = length ordered, ro_revision = rev\<rparr>"
  note step = resolve_new_def guard_Inr_iff Let_def prod.case
  from run obtain m0 new where lookup: "lookup_claims (rs_identities s) corpusID current Map.empty [] ordered = Inr (m0, new)"
    by (cases "lookup_claims (rs_identities s) corpusID current Map.empty [] ordered") (auto simp: step)
  note step = step lookup bind_result_simps
  from run have bound: "new = [] \<or> current \<noteq> MaxInt64" by (auto simp: step)
  from run obtain m rows where
    ins: "insert_identities draw corpusID (?rev new) 0 m0 (rs_identities s) (sort new) = Inr (m, rows)"
    by (cases "insert_identities draw corpusID (?rev new) 0 m0 (rs_identities s) (sort new)") (auto simp only: step bind_result_simps)
  note step = step ins
  from run obtain as' decisions where
    rec: "record_decisions h corpusID operationKey (?rev new) m rows (rs_decisions s) [] ordered = Inr (as', decisions)"
    by (cases "record_decisions h corpusID operationKey (?rev new) m rows (rs_decisions s) [] ordered") (auto simp only: step)
  note step = step rec
  from run obtain operations where op: "insert_operation (?header (?rev new)) (rs_operations s) = Inr operations"
    by (cases "insert_operation (?header (?rev new)) (rs_operations s)") (auto simp only: step)
  from run have final: "((as', ?rev new), \<lparr>rs_revisions = (if new \<noteq> []
          then map (\<lambda>(c, r). (c, if c = corpusID then ?rev new else r)) (rs_revisions s) else rs_revisions s),
        rs_identities = rows, rs_decisions = decisions, rs_operations = operations\<rparr>) = ((as, revision), s')"
    by (simp only: step op sum.inject)
  from that [OF lookup bound] ins rec op final show thesis by blast
qed

lemma resolve_new_Inr:
  assumes run: "resolve_new h draw corpusID operationKey e (registryClaimsHash h ordered) ordered current s = Inr ((as, revision), s')"
    and ok: "list_all claim_ok ordered"
    and unique: "distinct (map canonical_pk (rs_identities s))" "distinct (map identity_uk (rs_identities s))"
  obtains w where "writes h draw corpusID operationKey ordered current w s s'" and "revision = w_revision w"
    and "as = map (assignment_for revision (w_resolved w)) ordered"
proof -
  obtain m0 new m rows decisions operations where
    lookup: "lookup_claims (rs_identities s) corpusID current Map.empty [] ordered = Inr (m0, new)"
    and bound: "new = [] \<or> current \<noteq> MaxInt64" and rev: "revision = (if new \<noteq> [] then current + 1 else current)"
    and inserted: "insert_identities draw corpusID revision 0 m0 (rs_identities s) (sort new) = Inr (m, rows)"
    and recorded: "record_decisions h corpusID operationKey revision m rows (rs_decisions s) [] ordered = Inr (as, decisions)"
    and operation: "insert_operation \<lparr>ro_corpus_id = corpusID, ro_operation_key = operationKey,
        ro_claims_hash = registryClaimsHash h ordered, ro_claim_count = length ordered, ro_revision = revision\<rparr>
        (rs_operations s) = Inr operations"
    and s': "s' = \<lparr>rs_revisions = (if new \<noteq> []
          then map (\<lambda>(c, r). (c, if c = corpusID then revision else r)) (rs_revisions s) else rs_revisions s),
        rs_identities = rows, rs_decisions = decisions, rs_operations = operations\<rparr>"
    by (rule resolve_new_steps [OF run])
  have found: "looked_up (rs_identities s) corpusID current m0 new ordered"
    using lookup_claims_looked_up [OF lookup looked_up_Nil] ok by simp
  have "current \<le> revision" using rev by simp
  from inserted_granted [OF found ok inserted unique this] obtain extra where
    e: "rows = rs_identities s @ extra" "added_rows draw corpusID revision m0 m extra" "map row_key extra = sort new"
      "\<And>c. c \<in> set ordered \<Longrightarrow> granted (rs_identities s) rows corpusID revision m c"
      "distinct (map canonical_pk rows)" "distinct (map identity_uk rows)" by blast
  have none: "extra = [] \<longleftrightarrow> new = []" using arg_cong [OF e(3), of length] by auto
  let ?w = "\<lparr>w_resolved = m, w_identities = extra, w_revision = revision\<rparr>"
  have decided: "as = map (assignment_for revision m) ordered"
      "decisions = rs_decisions s @ map (decision_for h corpusID operationKey revision m) ordered"
    using record_decisions_Inr [OF recorded] by simp_all
  have revisions: "rs_revisions s' =
      map (\<lambda>(c, r). (c, if c = corpusID \<and> extra \<noteq> [] then current + 1 else r)) (rs_revisions s)"
    using none rev by (auto simp: s' intro!: map_idI [symmetric])
  have header: "operations = rs_operations s @ [\<lparr>ro_corpus_id = corpusID, ro_operation_key = operationKey,
        ro_claims_hash = registryClaimsHash h ordered, ro_claim_count = length ordered, ro_revision = revision\<rparr>]"
      "(corpusID, operationKey) \<notin> operation_pk ` set (rs_operations s)"
    using operation by (auto simp: insert_operation_def row_of_None_image operation_pk_def split: if_splits)
  have "list_all (new_identity draw corpusID revision ordered) extra"
    using added_row_new [OF found e(3,2)] by (simp add: list_all_iff)
  moreover have "list_all (granted (rs_identities s) rows corpusID revision m) ordered" using e(4) by (simp add: list_all_iff)
  ultimately have "writes h draw corpusID operationKey ordered current ?w s s'"
    using none bound rev decided(2) header e(5,6) revisions by (auto simp: writes_def s' e(1))
  from that [OF this] decided(1) show thesis by simp
qed

section \<open>The invariant of the registry\<close>

definition claim_of :: "decision_row \<Rightarrow> CanonicalIdentityClaim" where
  "claim_of d =
     \<lparr>cc_proposal_key = rd_proposal_key d, cc_entity_type = rd_entity_type d, cc_identity_scope = rd_identity_scope d,
      cc_identity_key = rd_identity_key d, cc_payload_hash = rd_payload_hash d\<rparr>"

text \<open>The decisions of an operation, and the claims that it recorded, in the order of proposal keys.\<close>

definition decisions_of :: "registry_store \<Rightarrow> string \<times> string \<Rightarrow> decision_row list" where
  "decisions_of s operation = sort_key rd_proposal_key (filter (\<lambda>d. decision_operation d = operation) (rs_decisions s))"

definition recorded :: "registry_store \<Rightarrow> string \<times> string \<Rightarrow> CanonicalIdentityClaim list" where
  "recorded s operation = map claim_of (decisions_of s operation)"

text \<open>The corpus exists and its revision is at least \<open>n\<close>.\<close>

definition revision_covers :: "(string \<times> nat) list \<Rightarrow> string \<Rightarrow> nat \<Rightarrow> bool" where
  "revision_covers revisions corpusID n = (case map_of revisions corpusID of None \<Rightarrow> False | Some r \<Rightarrow> n \<le> r)"

definition identity_ok :: "(string \<times> nat) list \<Rightarrow> identity_row \<Rightarrow> bool" where
  "identity_ok revisions i \<longleftrightarrow> ci_entity_type i > 0 \<and> pg_text (ci_identity_scope i) \<and> sha256Pattern (ci_identity_key i) \<and>
     ci_valid_from i > 0 \<and> ci_valid_to i = None \<and> validDocumentID (ci_canonical_id i) \<and> revision_covers revisions (ci_corpus_id i) (ci_valid_from i)"

definition decided_by :: "decision_row \<Rightarrow> identity_row \<Rightarrow> bool" where
  "decided_by d i \<longleftrightarrow> canonical_pk i = decision_identity d \<and> rd_identity_scope d = ci_identity_scope i \<and>
     rd_identity_key d = ci_identity_key i \<and> rd_entity_type d = ci_entity_type i \<and>
     ci_valid_from i \<le> rd_revision d \<and> ci_valid_to i = None"

definition decision_ok :: "identity_row list \<Rightarrow> registry_operation_row list \<Rightarrow> decision_row \<Rightarrow> bool" where
  "decision_ok identities operations d \<longleftrightarrow> claim_ok (claim_of d) \<and> pg_text (rd_identity_scope d) \<and>
     list_ex (decided_by d) identities \<and>
     list_ex (\<lambda>r. operation_pk r = decision_operation d \<and> ro_revision r = rd_revision d) operations"

definition operation_ok :: "host \<Rightarrow> registry_store \<Rightarrow> registry_operation_row \<Rightarrow> bool" where
  "operation_ok h s r \<longleftrightarrow> ro_revision r > 0 \<and> revision_covers (rs_revisions s) (ro_corpus_id r) (ro_revision r) \<and>
     recorded s (operation_pk r) \<noteq> [] \<and> ro_claim_count r = length (recorded s (operation_pk r)) \<and>
     ro_claims_hash r = registryClaimsHash h (recorded s (operation_pk r))"

definition revision_ok :: "string \<times> nat \<Rightarrow> bool" where
  "revision_ok = (\<lambda>(c, r). 0 < r \<and> r \<le> MaxInt64)"

definition registry_ok :: "host \<Rightarrow> registry_store \<Rightarrow> bool" where
  "registry_ok h s \<longleftrightarrow>
     list_all revision_ok (rs_revisions s) \<and>
     distinct (map canonical_pk (rs_identities s)) \<and> distinct (map identity_uk (rs_identities s)) \<and>
     distinct (map decision_uk (rs_decisions s)) \<and> distinct (map operation_pk (rs_operations s)) \<and>
     list_all (identity_ok (rs_revisions s)) (rs_identities s) \<and>
     list_all (decision_ok (rs_identities s) (rs_operations s)) (rs_decisions s) \<and>
     list_all (operation_ok h s) (rs_operations s)"

definition empty_registry :: registry_store where
  "empty_registry = \<lparr>rs_revisions = [], rs_identities = [], rs_decisions = [], rs_operations = []\<rparr>"

lemma empty_registry_ok: "registry_ok h empty_registry"
  by (simp add: registry_ok_def empty_registry_def)

definition revisions_grow :: "(string \<times> nat) list \<Rightarrow> (string \<times> nat) list \<Rightarrow> bool" where
  "revisions_grow revisions revisions' \<longleftrightarrow> (\<forall>corpusID n. revision_covers revisions corpusID n \<longrightarrow> revision_covers revisions' corpusID n)"

lemma map_of_update_values: "map_of (map (\<lambda>(k, v). (k, f k v)) xs) k = map_option (f k) (map_of xs k)"
  by (induction xs) auto

lemma identity_ok_grows: "revisions_grow r r' \<Longrightarrow> identity_ok r i \<Longrightarrow> identity_ok r' i"
  by (auto simp: identity_ok_def revisions_grow_def)

lemma decision_ok_append: "decision_ok ids ops d \<Longrightarrow> decision_ok (ids @ ids') (ops @ ops') d"
  by (auto simp: decision_ok_def)

lemma ensure_registry_corpus_grows:
  assumes "ensure_registry_corpus corpusID revisions = Inr revisions'" and "list_all revision_ok revisions"
  shows "revisions_grow revisions revisions' \<and> list_all revision_ok revisions' \<and>
    (\<exists>r. map_of revisions' corpusID = Some r \<and> 0 < r \<and> r \<le> MaxInt64)"
proof -
  have "revision_ok (corpusID, 1)" by (simp add: revision_ok_def MaxInt64_def)
  moreover have "revisions_grow revisions (revisions @ [(corpusID, 1)])"
    by (auto simp: revisions_grow_def revision_covers_def map_add_def split: option.splits)
  ultimately have *: "revisions_grow revisions revisions' \<and> list_all revision_ok revisions' \<and> map_of revisions' corpusID \<noteq> None"
    using assms by (auto simp: ensure_registry_corpus_def revisions_grow_def map_add_def split: if_splits)
  then obtain r where r: "map_of revisions' corpusID = Some r" by blast
  then have "(corpusID, r) \<in> set revisions'" by (rule map_of_SomeD)
  with * have "0 < r \<and> r \<le> MaxInt64" by (auto simp: list_all_iff revision_ok_def)
  with * r show ?thesis by blast
qed

lemma operation_ok_cong:
  "revisions_grow (rs_revisions s) (rs_revisions t) \<Longrightarrow> recorded t (operation_pk r) = recorded s (operation_pk r) \<Longrightarrow>
   operation_ok h s r \<Longrightarrow> operation_ok h t r"
  by (simp add: operation_ok_def revisions_grow_def)

lemma registry_ok_revisions:
  assumes "registry_ok h s" and "revisions_grow (rs_revisions s) revisions" and "list_all revision_ok revisions"
  shows "registry_ok h (s\<lparr>rs_revisions := revisions\<rparr>)"
proof -
  have "operation_ok h s r \<Longrightarrow> operation_ok h (s\<lparr>rs_revisions := revisions\<rparr>) r" for r
    using operation_ok_cong [of s "s\<lparr>rs_revisions := revisions\<rparr>"] assms(2) by (simp add: recorded_def decisions_of_def)
  with assms identity_ok_grows show ?thesis by (auto simp: registry_ok_def list_all_iff)
qed

subsection \<open>A transaction that writes\<close>

lemma claim_of_decision_for [simp]: "claim_of (decision_for h corpusID operationKey revision m c) = c"
  by (simp add: claim_of_def decision_for_def Let_def)

lemma decision_for_simps [simp]:
  "decision_operation (decision_for h corpusID operationKey revision m c) = (corpusID, operationKey)"
  "decision_uk (decision_for h corpusID operationKey revision m c) = (corpusID, operationKey, cc_proposal_key c)"
  "rd_proposal_key (decision_for h corpusID operationKey revision m c) = cc_proposal_key c"
  "rd_revision (decision_for h corpusID operationKey revision m c) = revision"
  "rd_identity_scope (decision_for h corpusID operationKey revision m c) = cc_identity_scope c"
  by (simp_all add: decision_operation_def decision_uk_def decision_for_def Let_def)

lemma decisions_of_writes:
  assumes "writes h draw corpusID operationKey ordered current w s s'"
    and "sorted (map cc_proposal_key ordered)"
    and "list_all (\<lambda>d. decision_operation d \<noteq> (corpusID, operationKey)) (rs_decisions s)"
  shows "decisions_of s' operation =
    (if operation = (corpusID, operationKey)
     then map (decision_for h corpusID operationKey (w_revision w) (w_resolved w)) ordered else decisions_of s operation)"
proof -
  let ?new = "map (decision_for h corpusID operationKey (w_revision w) (w_resolved w)) ordered"
  have none: "filter (\<lambda>d. decision_operation d = (corpusID, operationKey)) (rs_decisions s) = []"
    using assms(3) by (auto simp: filter_empty_conv list_all_iff)
  have "sorted (map rd_proposal_key ?new)" using assms(2) by (simp add: comp_def)
  then have "sort_key rd_proposal_key ?new = ?new" by (rule sort_key_id_if_sorted)
  moreover have "filter (\<lambda>d. decision_operation d = operation) ?new = (if operation = (corpusID, operationKey) then ?new else [])"
    by (auto simp: filter_map comp_def)
  moreover have "rs_decisions s' = rs_decisions s @ ?new" by (rule writesD [OF assms(1)])
  ultimately show ?thesis using none by (auto simp: decisions_of_def)
qed

lemma writes_grows:
  assumes "writes h draw corpusID operationKey ordered current w s s'" and "map_of (rs_revisions s) corpusID = Some current"
  shows "revisions_grow (rs_revisions s) (rs_revisions s')" and "revision_covers (rs_revisions s') corpusID (w_revision w)"
  using assms by (auto simp: writes_def revisions_grow_def revision_covers_def map_of_update_values split: option.splits if_splits)

lemma granted_decision:
  assumes "granted old rows corpusID revision m c" and "claim_ok c"
    and "list_ex (\<lambda>r. operation_pk r = (corpusID, operationKey) \<and> ro_revision r = revision) operations"
  shows "decision_ok rows operations (decision_for h corpusID operationKey revision m c)"
proof -
  from assms(1) obtain i where i: "i \<in> set rows" "identity_uk i = claim_uk corpusID c" "open_row revision c i"
      "ci_canonical_id i = ri_canonical_id (resolved_at m (lookup_key c))"
    by (auto simp: granted_def)
  then have "decided_by (decision_for h corpusID operationKey revision m c) i"
    by (simp add: decided_by_def decision_for_def Let_def canonical_pk_def decision_identity_def open_row_def
        identity_uk_def claim_uk_def)
  with i(1) assms show ?thesis by (auto simp: decision_ok_def granted_def list_ex_iff)
qed

lemma hex_digit_printable: "n < 16 \<Longrightarrow> 33 \<le> byte (hex_digit n) \<and> byte (hex_digit n) \<le> 126"
  by (simp add: hex_digit_def)

lemma ascii_document_id:
  assumes "s \<noteq> []" and "length s \<le> 256" and "list_all (\<lambda>c. 33 \<le> byte c \<and> byte c \<le> 126) s"
  shows "validDocumentID s"
proof -
  have "runes_of s = map byte s" using assms(3)
  proof (induction s)
    case (Cons c s)
    then have "DecodeRune (c # s) = (byte c, 1)" by (simp add: DecodeRune_def)
    with Cons show ?case by (simp add: runes_of.simps [of "c # s"])
  qed (simp add: runes_of.simps)
  with assms show ?thesis by (auto simp: validDocumentID_def list_all_iff)
qed

lemma allocated_valid: "validDocumentID (''canonical:entity:'' @ hex_EncodeToString (map bytes [0..<16]))"
proof (rule ascii_document_id)
  let ?hex = "hex_EncodeToString (map bytes [0..<16])"
  have "length (hex_EncodeToString cs) = 2 * length cs" for cs by (induction cs) (simp_all add: hex_EncodeToString_def)
  then show "length (''canonical:entity:'' @ ?hex) \<le> 256" by simp
  have "byte c div 16 < 16" for c by (rule less_mult_imp_div_less) simp
  then have "list_all (\<lambda>c. 33 \<le> byte c \<and> byte c \<le> 126) (hex_EncodeToString cs)" for cs
    by (auto simp: hex_EncodeToString_def list_all_iff hex_digit_printable)
  then show "list_all (\<lambda>c. 33 \<le> byte c \<and> byte c \<le> 126) (''canonical:entity:'' @ ?hex)" by simp
qed simp

lemma writes_identities_ok:
  assumes w: "writes h draw corpusID operationKey ordered current w s s'"
    and ok: "list_all claim_ok ordered" "list_all (identity_ok (rs_revisions s)) (rs_identities s)"
    and current: "map_of (rs_revisions s) corpusID = Some current" "0 < current"
  shows "list_all (identity_ok (rs_revisions s')) (rs_identities s')"
proof -
  have new: "identity_ok (rs_revisions s') i" if "i \<in> set (w_identities w)" for i
  proof -
    from writesD(6) [OF w that] have row: "new_identity draw corpusID (w_revision w) ordered i" .
    then obtain c where c: "c \<in> set ordered" "identity_uk i = claim_uk corpusID c" "ci_entity_type i = cc_entity_type c"
      by (auto simp: new_identity_def)
    have "pg_text (cc_identity_scope c)" using writesD(7) [OF w c(1)] by (simp add: granted_def)
    moreover have "claim_ok c" using ok(1) c(1) by (simp add: list_all_iff)
    moreover have "w_revision w > 0" using writesD(1) [OF w] current(2) by simp
    moreover have "validDocumentID (ci_canonical_id i)" using row allocated_valid unfolding new_identity_def by metis
    ultimately show ?thesis
      using c(2,3) row writes_grows(2) [OF w current(1)]
      by (simp add: identity_ok_def new_identity_def identity_uk_def claim_uk_def claim_ok_def)
  qed
  with writesD(2) [OF w] show ?thesis
    using ok(2) identity_ok_grows [OF writes_grows(1) [OF w current(1)]] by (auto simp: list_all_iff)
qed

lemma decision_uk_operation: "decision_uk d = (corpusID, operationKey, p) \<Longrightarrow> decision_operation d = (corpusID, operationKey)"
  by (simp add: decision_uk_def decision_operation_def)

lemma writes_decisions_ok:
  assumes w: "writes h draw corpusID operationKey ordered current w s s'" and s: "registry_ok h s"
    and batch: "list_all claim_ok ordered" "distinct (map cc_proposal_key ordered)"
    and fresh: "list_all (\<lambda>d. decision_operation d \<noteq> (corpusID, operationKey)) (rs_decisions s)"
  shows "list_all (decision_ok (rs_identities s') (rs_operations s')) (rs_decisions s') \<and> distinct (map decision_uk (rs_decisions s'))"
proof
  let ?new = "map (decision_for h corpusID operationKey (w_revision w) (w_resolved w)) ordered"
  have "decision_ok (rs_identities s') (rs_operations s') d" if "d \<in> set ?new" for d
  proof -
    from that obtain c where c: "c \<in> set ordered" "d = decision_for h corpusID operationKey (w_revision w) (w_resolved w) c" by auto
    from writesD(7) [OF w c(1)] show ?thesis unfolding c(2)
      by (rule granted_decision) (use batch(1) c(1) in \<open>auto simp: list_all_iff writesD(4) [OF w] operation_pk_def\<close>)
  qed
  moreover have "decision_ok (rs_identities s') (rs_operations s') d" if "d \<in> set (rs_decisions s)" for d
    using s that decision_ok_append [of "rs_identities s" "rs_operations s" d]
    by (simp add: registry_ok_def list_all_iff writesD(2,4) [OF w])
  ultimately show "list_all (decision_ok (rs_identities s') (rs_operations s')) (rs_decisions s')"
    by (auto simp: list_all_iff writesD(3) [OF w])
  have "decision_uk d \<notin> decision_uk ` set ?new" if "d \<in> set (rs_decisions s)" for d
    using fresh that decision_uk_operation [of d corpusID operationKey] by (auto simp: list_all_iff)
  then have "decision_uk ` set (rs_decisions s) \<inter> decision_uk ` set ?new = {}" by blast
  moreover have "distinct (map decision_uk ?new)"
    using batch(2) by (simp add: comp_def distinct_map inj_on_def)
  ultimately show "distinct (map decision_uk (rs_decisions s'))"
    using s unfolding writesD(3) [OF w] map_append distinct_append set_map registry_ok_def by blast
qed

lemma writes_operations_ok:
  assumes w: "writes h draw corpusID operationKey ordered current w s s'" and s: "registry_ok h s"
    and batch: "sorted (map cc_proposal_key ordered)" "ordered \<noteq> []"
    and current: "map_of (rs_revisions s) corpusID = Some current" "0 < current"
    and fresh: "list_all (\<lambda>d. decision_operation d \<noteq> (corpusID, operationKey)) (rs_decisions s)"
  shows "list_all (operation_ok h s') (rs_operations s')"
proof -
  let ?r = "\<lparr>ro_corpus_id = corpusID, ro_operation_key = operationKey, ro_claims_hash = registryClaimsHash h ordered,
    ro_claim_count = length ordered, ro_revision = w_revision w\<rparr>"
  note decisions = decisions_of_writes [OF w batch(1) fresh]
  have "operation_pk ?r = (corpusID, operationKey)" by (simp add: operation_pk_def)
  moreover have "recorded s' (corpusID, operationKey) = ordered" by (simp add: recorded_def decisions comp_def)
  ultimately have "operation_ok h s' ?r"
    using writes_grows(2) [OF w current(1)] writesD(1) [OF w] current(2) batch(2) by (simp add: operation_ok_def)
  moreover have "operation_ok h s' r" if "r \<in> set (rs_operations s)" for r
  proof (rule operation_ok_cong [OF writes_grows(1) [OF w current(1)]])
    show "operation_ok h s r" using s that by (simp add: registry_ok_def list_all_iff)
    from that writesD(5) [OF w] have "operation_pk r \<noteq> (corpusID, operationKey)" by (metis imageI)
    then show "recorded s' (operation_pk r) = recorded s (operation_pk r)" by (simp add: recorded_def decisions)
  qed
  ultimately show ?thesis by (simp add: writesD(4) [OF w] list_all_iff)
qed

lemma writes_ok:
  assumes w: "writes h draw corpusID operationKey ordered current w s s'" and s: "registry_ok h s"
    and batch: "list_all claim_ok ordered" "distinct (map cc_proposal_key ordered)" "sorted (map cc_proposal_key ordered)" "ordered \<noteq> []"
    and current: "map_of (rs_revisions s) corpusID = Some current" "0 < current" "current \<le> MaxInt64"
    and fresh: "list_all (\<lambda>d. decision_operation d \<noteq> (corpusID, operationKey)) (rs_decisions s)"
  shows "registry_ok h s'"
proof -
  have "list_all revision_ok (rs_revisions s')"
    using w s current(3) by (auto simp: writes_def registry_ok_def list_all_iff revision_ok_def)
  moreover have "distinct (map operation_pk (rs_operations s'))"
    using s writesD(5) [OF w] by (simp add: writesD(4) [OF w] registry_ok_def operation_pk_def)
  moreover have "list_all (identity_ok (rs_revisions s')) (rs_identities s')"
    using writes_identities_ok [OF w batch(1) _ current(1,2)] s by (simp add: registry_ok_def)
  ultimately show ?thesis
    using writesD(8,9) [OF w] writes_decisions_ok [OF w s batch(1,2) fresh]
      writes_operations_ok [OF w s batch(3,4) current(1,2) fresh]
    by (simp add: registry_ok_def)
qed

section \<open>Transactions\<close>

text \<open>The revision that a transaction reads: a corpus that has no row gets one with the default.\<close>

definition revision_of :: "registry_store \<Rightarrow> string \<Rightarrow> nat" where
  "revision_of s corpusID = (case map_of (rs_revisions s) corpusID of None \<Rightarrow> 1 | Some r \<Rightarrow> r)"

lemma ensure_registry_corpus_revision:
  "ensure_registry_corpus corpusID (rs_revisions s) = Inr revisions \<Longrightarrow> map_of revisions corpusID = Some (revision_of s corpusID)"
  by (auto simp: ensure_registry_corpus_def revision_of_def map_add_def split: if_splits option.splits)

text \<open>A call that succeeds either replays a recorded operation or writes a new one.\<close>

lemma ResolveCanonicalIdentities_cases:
  assumes run: "ResolveCanonicalIdentities h draw corpusID operationKey e claims s = (Inr (as, revision), s')"
    and ok: "registry_ok h s"
  obtains (replay) "batch_ok corpusID operationKey e claims"
      and "loadRegistryOperation s corpusID operationKey (registryClaimsHash h (sort_key cc_proposal_key claims))
        (sort_key cc_proposal_key claims) = Inr (Some (as, revision))" and "s' = s"
  | (new_op) revisions current w where "batch_ok corpusID operationKey e claims"
      and "revisions_grow (rs_revisions s) revisions" and "list_all revision_ok revisions"
      and "map_of revisions corpusID = Some current" and "0 < current" and "current \<le> MaxInt64"
      and "list_all (\<lambda>d. decision_operation d \<noteq> (corpusID, operationKey)) (rs_decisions s)"
      and "writes h draw corpusID operationKey (sort_key cc_proposal_key claims) current w (s\<lparr>rs_revisions := revisions\<rparr>) s'"
      and "revision = w_revision w"
      and "as = map (assignment_for revision (w_resolved w)) (sort_key cc_proposal_key claims)"
      and "current = revision_of s corpusID"
proof -
  let ?ordered = "sort_key cc_proposal_key claims"
  let ?load = "loadRegistryOperation s corpusID operationKey (registryClaimsHash h ?ordered) ?ordered"
  from run have tx: "resolve_tx h draw corpusID operationKey e claims s = Inr ((as, revision), s')"
    by (auto simp: ResolveCanonicalIdentities_def split: sum.splits)
  then obtain ordered where "validateRegistryClaims corpusID operationKey e claims = Inr ordered"
    by (auto simp: resolve_tx_def bind_result_Inr_iff)
  then have batch: "batch_ok corpusID operationKey e claims"
    and validated: "validateRegistryClaims corpusID operationKey e claims = Inr ?ordered"
    by (auto simp: validateRegistryClaims_iff)
  from tx obtain revisions where ensured: "ensure_registry_corpus corpusID (rs_revisions s) = Inr revisions"
    by (auto simp: resolve_tx_def validated bind_result_Inr_iff)
  from ok have "list_all revision_ok (rs_revisions s)" by (simp add: registry_ok_def)
  from ensure_registry_corpus_grows [OF ensured this] obtain current where
    revisions: "revisions_grow (rs_revisions s) revisions" "list_all revision_ok revisions"
      "map_of revisions corpusID = Some current" "0 < current" "current \<le> MaxInt64" by blast
  from tx obtain replayed where load: "?load = Inr replayed"
    by (auto simp: resolve_tx_def validated ensured revisions(3) Let_def bind_result_Inr_iff)
  note step = resolve_tx_def validated ensured revisions(3) load Let_def
  show thesis
  proof (cases replayed)
    case (Some x)
    with tx have "x = (as, revision)" "s' = s" by (auto simp: step split: prod.splits if_splits)
    with replay batch load Some show thesis by simp
  next
    case None
    with load have fresh: "list_all (\<lambda>d. decision_operation d \<noteq> (corpusID, operationKey)) (rs_decisions s)"
      by (auto simp: loadRegistryOperation_def Let_def list_ex_iff list_all_iff split: option.splits if_splits)
    from tx None have "resolve_new h draw corpusID operationKey e (registryClaimsHash h ?ordered) ?ordered current
        (s\<lparr>rs_revisions := revisions\<rparr>) = Inr ((as, revision), s')" by (simp add: step)
    then obtain w where w: "writes h draw corpusID operationKey ?ordered current w (s\<lparr>rs_revisions := revisions\<rparr>) s'"
        "revision = w_revision w" "as = map (assignment_for revision (w_resolved w)) ?ordered"
      by (rule resolve_new_Inr) (use batch ok in \<open>simp_all add: batch_ok_def registry_ok_def list_all_iff\<close>)
    from new_op [OF batch revisions fresh w] ensure_registry_corpus_revision [OF ensured] revisions(3) show thesis by simp
  qed
qed

lemma ResolveCanonicalIdentities_rollback:
  "ResolveCanonicalIdentities h draw corpusID operationKey e claims s = (Inl err, s') \<Longrightarrow> s' = s"
  by (auto simp: ResolveCanonicalIdentities_def split: sum.splits prod.splits)

lemma batch_ordered:
  assumes "batch_ok corpusID operationKey e claims"
  shows "list_all claim_ok (sort_key cc_proposal_key claims)" and "sort_key cc_proposal_key claims \<noteq> []"
    and "distinct (map cc_proposal_key (sort_key cc_proposal_key claims))"
    and "sorted (map cc_proposal_key (sort_key cc_proposal_key claims))"
proof -
  let ?o = "sort_key cc_proposal_key claims"
  show "list_all claim_ok ?o" "distinct (map cc_proposal_key ?o)"
    using assms list_all_mset [of ?o claims claim_ok] distinct_map_mset [of ?o claims cc_proposal_key]
    by (simp_all add: batch_ok_def del: distinct_map)
  have "set ?o = set claims" by simp
  then show "?o \<noteq> []" using assms by (metis batch_ok_def set_empty)
qed simp

text \<open>How the registry evolves: rows are only added, and never to an operation that is recorded.\<close>

definition registry_evolves :: "registry_store \<Rightarrow> registry_store \<Rightarrow> bool" where
  "registry_evolves s t \<longleftrightarrow>
     revisions_grow (rs_revisions s) (rs_revisions t) \<and>
     (\<exists>ids. rs_identities t = rs_identities s @ ids) \<and> (\<exists>ops. rs_operations t = rs_operations s @ ops) \<and>
     (\<exists>ds. rs_decisions t = rs_decisions s @ ds \<and>
        (\<forall>d \<in> set ds. decision_operation d \<notin> operation_pk ` set (rs_operations s)))"

lemma writes_evolves:
  assumes "revisions_grow (rs_revisions s) revisions" and "map_of revisions corpusID = Some current"
    and w: "writes h draw corpusID operationKey ordered current w (s\<lparr>rs_revisions := revisions\<rparr>) s'"
  shows "registry_evolves s s'"
proof -
  have "revisions_grow (rs_revisions s) (rs_revisions s')"
    using assms(1) writes_grows(1) [OF w] assms(2) by (auto simp: revisions_grow_def)
  then show ?thesis
    using writesD(2-5) [OF w] by (auto simp: registry_evolves_def)
qed

lemma Resolve_effect:
  assumes ok: "registry_ok h s"
    and run: "ResolveCanonicalIdentities h draw corpusID operationKey e claims s = (result, s')"
  shows "registry_ok h s' \<and> registry_evolves s s'"
proof (cases result)
  case (Inl err)
  with run have "s' = s" using ResolveCanonicalIdentities_rollback by simp
  with ok show ?thesis by (simp add: registry_evolves_def revisions_grow_def)
next
  case (Inr x)
  obtain as revision where "x = (as, revision)" by (cases x)
  with run Inr have "ResolveCanonicalIdentities h draw corpusID operationKey e claims s = (Inr (as, revision), s')" by simp
  from this ok show ?thesis
  proof (cases rule: ResolveCanonicalIdentities_cases)
    case (new_op revisions current w)
    have "registry_ok h s'"
      by (rule writes_ok [OF new_op(8) registry_ok_revisions [OF ok new_op(2,3)]])
        (use new_op batch_ordered [OF new_op(1)] in simp_all)
    with writes_evolves [OF new_op(2,4,8)] show ?thesis by simp
  qed (simp add: ok registry_evolves_def revisions_grow_def)
qed

text \<open>Any number of calls, in any order, for any corpus and with any drawing of identifiers.\<close>

inductive registry_step :: "host \<Rightarrow> registry_store \<Rightarrow> registry_store \<Rightarrow> bool" for h where
  resolve: "ResolveCanonicalIdentities h draw corpusID operationKey e claims s = (result, s') \<Longrightarrow> registry_step h s s'"

inductive_cases registry_stepE: "registry_step h s s'"

lemma registry_evolves_trans:
  assumes "registry_evolves s t" and "registry_evolves t u"
  shows "registry_evolves s u"
proof -
  from assms(1) obtain ids ops ds where st: "rs_identities t = rs_identities s @ ids" "rs_operations t = rs_operations s @ ops"
      "rs_decisions t = rs_decisions s @ ds" "\<forall>d \<in> set ds. decision_operation d \<notin> operation_pk ` set (rs_operations s)"
    by (auto simp: registry_evolves_def)
  from assms(2) obtain ids' ops' ds' where tu: "rs_identities u = rs_identities t @ ids'" "rs_operations u = rs_operations t @ ops'"
      "rs_decisions u = rs_decisions t @ ds'" "\<forall>d \<in> set ds'. decision_operation d \<notin> operation_pk ` set (rs_operations t)"
    by (auto simp: registry_evolves_def)
  have "revisions_grow (rs_revisions s) (rs_revisions u)" using assms by (auto simp: registry_evolves_def revisions_grow_def)
  moreover have "rs_decisions u = rs_decisions s @ (ds @ ds')" by (simp add: st tu)
  moreover have "\<forall>d \<in> set (ds @ ds'). decision_operation d \<notin> operation_pk ` set (rs_operations s)"
    using st(4) tu(4) by (auto simp: st(2))
  ultimately show ?thesis using st tu unfolding registry_evolves_def by (metis append.assoc)
qed

interpretation registry: evolving_system "registry_ok h" "registry_step h" registry_evolves for h
proof
  show "registry_evolves s s" for s by (simp add: registry_evolves_def revisions_grow_def)
  show "registry_ok h s \<Longrightarrow> registry_step h s t \<Longrightarrow> registry_ok h t" for s t
    by (erule registry_stepE) (blast dest: Resolve_effect)
  show "registry_ok h s \<Longrightarrow> registry_step h s t \<Longrightarrow> registry_evolves s t" for s t
    by (erule registry_stepE) (blast dest: Resolve_effect)
qed (rule registry_evolves_trans)

section \<open>Replay of a recorded operation\<close>

lemma filter_key:
  "distinct (map key rows) \<Longrightarrow> filter (\<lambda>r. key r = k) rows = (case row_of key k rows of None \<Rightarrow> [] | Some r \<Rightarrow> [r])"
proof (induction rows)
  case (Cons a rows)
  then have "key a = k \<Longrightarrow> row_of key k rows = None" by (auto simp: row_of_None_image)
  with Cons show ?case by (simp add: row_of_Cons)
qed (simp add: row_of_Nil)

lemma decided_row:
  assumes "registry_ok h s" and "d \<in> set (rs_decisions s)"
  obtains i where "row_of canonical_pk (decision_identity d) (rs_identities s) = Some i" and "decided_by d i"
proof -
  from assms obtain i where i: "i \<in> set (rs_identities s)" "decided_by d i"
    by (auto simp: registry_ok_def list_all_iff decision_ok_def list_ex_iff)
  moreover have "row_of canonical_pk (canonical_pk i) (rs_identities s) = Some i"
    using assms(1) i(1) by (simp add: registry_ok_def row_of_distinct)
  ultimately show thesis using that by (simp add: decided_by_def)
qed

lemma decided_revision:
  assumes "registry_ok h s" and "d \<in> set (rs_decisions s)"
    and "row_of operation_pk (decision_operation d) (rs_operations s) = Some r"
  shows "rd_revision d = ro_revision r"
proof -
  from assms(1,2) obtain r' where r': "r' \<in> set (rs_operations s)" "operation_pk r' = decision_operation d" "ro_revision r' = rd_revision d"
    by (auto simp: registry_ok_def list_all_iff decision_ok_def list_ex_iff)
  have "row_of operation_pk (operation_pk r') (rs_operations s) = Some r'"
    using assms(1) r'(1) by (simp add: registry_ok_def row_of_distinct)
  with assms(3) r' show ?thesis by simp
qed

lemma mem_decisions_of: "d \<in> set (decisions_of s operation) \<longleftrightarrow> d \<in> set (rs_decisions s) \<and> decision_operation d = operation"
  by (auto simp: decisions_of_def)

lemma joined_rows_eq:
  assumes "registry_ok h s"
  shows "joined_rows s corpusID operationKey =
    map (\<lambda>d. (d, the (row_of canonical_pk (decision_identity d) (rs_identities s)))) (decisions_of s (corpusID, operationKey))"
proof -
  have one: "map (Pair d) (filter (\<lambda>i. canonical_pk i = decision_identity d) (rs_identities s)) =
      [(d, the (row_of canonical_pk (decision_identity d) (rs_identities s)))]" if "d \<in> set (rs_decisions s)" for d
  proof -
    note d = that
    obtain i where "row_of canonical_pk (decision_identity d) (rs_identities s) = Some i" by (rule decided_row [OF assms d])
    then show ?thesis using assms filter_key [of canonical_pk "rs_identities s" "decision_identity d"] by (simp add: registry_ok_def)
  qed
  have "joined_rows s corpusID operationKey = concat (map (\<lambda>d. [(d, the (row_of canonical_pk (decision_identity d) (rs_identities s)))])
      (decisions_of s (corpusID, operationKey)))"
    unfolding joined_rows_def decisions_of_def by (rule arg_cong [where f = concat], rule map_cong [OF refl one]) simp
  also have "concat (map (\<lambda>d. [f d]) xs) = map f xs" for f :: "decision_row \<Rightarrow> decision_row \<times> identity_row" and xs
    by (induction xs) simp_all
  finally show ?thesis .
qed

lemma joined_rows_ok:
  assumes ok: "registry_ok h s" and r: "row_of operation_pk (corpusID, operationKey) (rs_operations s) = Some r"
  shows "list_all (joined_ok (ro_revision r)) (joined_rows s corpusID operationKey)"
proof -
  have "joined_ok (ro_revision r) (d, the (row_of canonical_pk (decision_identity d) (rs_identities s)))"
    if "d \<in> set (decisions_of s (corpusID, operationKey))" for d
  proof -
    from that have d: "d \<in> set (rs_decisions s)" "decision_operation d = (corpusID, operationKey)" by (simp_all add: mem_decisions_of)
    obtain i where "row_of canonical_pk (decision_identity d) (rs_identities s) = Some i" "decided_by d i"
      by (rule decided_row [OF ok d(1)])
    moreover have "rd_revision d = ro_revision r" using decided_revision [OF ok d(1)] d(2) r by simp
    ultimately show ?thesis by (simp add: joined_ok_def decided_by_def)
  qed
  then show ?thesis by (simp add: joined_rows_eq [OF ok] list_all_iff)
qed

lemma decision_matches_iff:
  assumes "claim_ok (claim_of d)" and "claim_ok c"
  shows "decision_matches d c \<longleftrightarrow> claim_of d = c"
proof -
  have "payload_text (rd_payload_hash d) (rd_identity_scope d) (rd_identity_key d) (rd_entity_type d) =
      payload_text (cc_payload_hash c) (cc_identity_scope c) (cc_identity_key c) (cc_entity_type c) \<longleftrightarrow>
      rd_payload_hash d = cc_payload_hash c \<and> rd_identity_scope d = cc_identity_scope c \<and>
      rd_identity_key d = cc_identity_key c \<and> nat (rd_entity_type d) = nat (cc_entity_type c)"
    by (rule payload_text_eq_iff) (use assms in \<open>simp_all add: claim_ok_def claim_of_def\<close>)
  with assms show ?thesis by (cases c) (auto simp: decision_matches_def claim_ok_def claim_of_def)
qed

text \<open>
  What the replay of an operation that has a header does in a registry that satisfies the
  invariant: it returns the recorded assignments exactly when the claims are the recorded ones.
\<close>

lemma load_recorded:
  assumes ok: "registry_ok h s" and r: "row_of operation_pk (corpusID, operationKey) (rs_operations s) = Some r"
    and claims: "list_all claim_ok claims"
  shows "loadRegistryOperation s corpusID operationKey (registryClaimsHash h claims) claims =
    (if recorded s (corpusID, operationKey) = claims
     then Inr (Some (map (replayed_assignment (ro_revision r)) (decisions_of s (corpusID, operationKey)), ro_revision r))
     else if length (recorded s (corpusID, operationKey)) \<noteq> length claims \<or>
       registryClaimsHash h (recorded s (corpusID, operationKey)) \<noteq> registryClaimsHash h claims
     then Inl (Wrap ''operation key reused with different claims'' ErrConflict)
     else Inl (Wrap ''stored registry decision differs from its operation header'' ErrPersistentIntegrity))"
proof -
  let ?ds = "decisions_of s (corpusID, operationKey)" and ?rec = "recorded s (corpusID, operationKey)"
  have pk: "operation_pk r = (corpusID, operationKey)" "r \<in> set (rs_operations s)" using row_of_Some [OF r] by simp_all
  then have header: "ro_revision r > 0" "?rec \<noteq> []" "ro_claim_count r = length ?rec"
      "ro_claims_hash r = registryClaimsHash h ?rec"
    using ok by (auto simp: registry_ok_def list_all_iff operation_ok_def)
  have "list_all (\<lambda>d. claim_ok (claim_of d)) ?ds"
    using ok by (auto simp: registry_ok_def list_all_iff decision_ok_def mem_decisions_of)
  then have matches: "list_all2 decision_matches ?ds claims \<longleftrightarrow> ?rec = claims"
    using claims decision_matches_iff
    by (auto simp: recorded_def list_all2_conv_all_nth list_eq_iff_nth_eq list_all_length)
  have "map fst (joined_rows s corpusID operationKey) = ?ds" "length (joined_rows s corpusID operationKey) = length ?rec"
    by (simp_all add: joined_rows_eq [OF ok] comp_def recorded_def)
  moreover from this header(2) have "joined_rows s corpusID operationKey \<noteq> []" by auto
  ultimately show ?thesis
    using header joined_rows_ok [OF ok r] matches r
    by (auto simp: loadRegistryOperation_def Let_def map_map [symmetric] simp del: map_map)
qed

lemma load_absent:
  assumes "registry_ok h s" and "row_of operation_pk (corpusID, operationKey) (rs_operations s) = None"
  shows "loadRegistryOperation s corpusID operationKey hash claims = Inr None"
proof -
  have "decision_operation d \<noteq> (corpusID, operationKey)" if "d \<in> set (rs_decisions s)" for d
    using assms that row_of_None_iff [of operation_pk "(corpusID, operationKey)" "rs_operations s"]
    by (fastforce simp: registry_ok_def list_all_iff decision_ok_def list_ex_iff)
  with assms(2) show ?thesis by (simp add: loadRegistryOperation_def list_ex_iff)
qed

lemma replayed_decision_for [simp]:
  "replayed_assignment revision (decision_for h corpusID operationKey revision m c) = assignment_for revision m c"
  by (simp add: replayed_assignment_def decision_for_def assignment_for_def Let_def)

text \<open>The state after a call that succeeded holds the operation: its claims and its assignments.\<close>

definition holds_operation ::
    "registry_store \<Rightarrow> string \<Rightarrow> string \<Rightarrow> CanonicalIdentityClaim list \<Rightarrow> CanonicalIdentityAssignment list \<Rightarrow> nat \<Rightarrow> bool" where
  "holds_operation s corpusID operationKey claims as revision \<longleftrightarrow>
     recorded s (corpusID, operationKey) = sort_key cc_proposal_key claims \<and>
     as = map (replayed_assignment revision) (decisions_of s (corpusID, operationKey)) \<and>
     (\<exists>r. row_of operation_pk (corpusID, operationKey) (rs_operations s) = Some r \<and> ro_revision r = revision)"

lemma Resolve_holds:
  assumes run: "ResolveCanonicalIdentities h draw corpusID operationKey e claims s = (Inr (as, revision), s')"
    and ok: "registry_ok h s"
  shows "holds_operation s' corpusID operationKey claims as revision"
  using run ok
proof (cases rule: ResolveCanonicalIdentities_cases)
  case replay
  show ?thesis
  proof (cases "row_of operation_pk (corpusID, operationKey) (rs_operations s)")
    case None
    with replay(2) show ?thesis by (simp add: load_absent [OF ok])
  next
    case (Some r)
    with replay show ?thesis
      by (auto simp: load_recorded [OF ok Some batch_ordered(1)] holds_operation_def split: if_splits)
  qed
next
  case (new_op revisions current w)
  note ordered = batch_ordered [OF new_op(1)]
  have "decisions_of s' (corpusID, operationKey) =
      map (decision_for h corpusID operationKey revision (w_resolved w)) (sort_key cc_proposal_key claims)"
    using decisions_of_writes [OF new_op(8) ordered(4)] new_op(7,9) by simp
  moreover have "row_of operation_pk (corpusID, operationKey) (rs_operations s) = None"
    using writesD(5) [OF new_op(8)] by (simp add: row_of_None_image)
  ultimately show ?thesis
    using writesD(4) [OF new_op(8)] new_op(9,10)
    by (simp add: holds_operation_def recorded_def comp_def row_of_append row_of_Cons operation_pk_def)
qed

lemma evolves_holds:
  assumes "registry_evolves s t" and "holds_operation s corpusID operationKey claims as revision"
  shows "holds_operation t corpusID operationKey claims as revision"
proof -
  from assms(2) obtain r where r: "row_of operation_pk (corpusID, operationKey) (rs_operations s) = Some r" "ro_revision r = revision"
    by (auto simp: holds_operation_def)
  from assms(1) obtain ops ds where t: "rs_operations t = rs_operations s @ ops" "rs_decisions t = rs_decisions s @ ds"
      "\<forall>d \<in> set ds. decision_operation d \<notin> operation_pk ` set (rs_operations s)"
    by (auto simp: registry_evolves_def)
  have "(corpusID, operationKey) \<in> operation_pk ` set (rs_operations s)" using row_of_Some [OF r(1)] by (metis imageI)
  with t(3) have "filter (\<lambda>d. decision_operation d = (corpusID, operationKey)) ds = []" by (auto simp: filter_empty_conv)
  then have "decisions_of t (corpusID, operationKey) = decisions_of s (corpusID, operationKey)"
    by (simp add: decisions_of_def t(2))
  with assms(2) r t(1) show ?thesis by (auto simp: holds_operation_def recorded_def row_of_append)
qed

lemma replay_held:
  assumes ok: "registry_ok h t" and held: "holds_operation t corpusID operationKey claims as revision"
    and batch: "batch_ok corpusID operationKey e claims'" and same: "mset claims' = mset claims" and short: "length corpusID \<le> 128"
  shows "ResolveCanonicalIdentities h draw corpusID operationKey e claims' t = (Inr (as, revision), t)"
proof -
  let ?o = "sort_key cc_proposal_key claims"
  have distinct: "distinct (map cc_proposal_key claims')" using batch by (simp add: batch_ok_def)
  have ordered: "sort_key cc_proposal_key claims' = ?o" by (rule sort_claims_perm [OF same distinct])
  with batch have validated: "validateRegistryClaims corpusID operationKey e claims' = Inr ?o"
    by (simp add: validateRegistryClaims_iff)
  from held obtain r where r: "row_of operation_pk (corpusID, operationKey) (rs_operations t) = Some r" "ro_revision r = revision"
    by (auto simp: holds_operation_def)
  have "operation_pk r = (corpusID, operationKey)" "r \<in> set (rs_operations t)" using row_of_Some [OF r(1)] by simp_all
  then have "revision_covers (rs_revisions t) corpusID revision"
    using ok r(2) by (auto simp: registry_ok_def list_all_iff operation_ok_def operation_pk_def)
  then obtain current where current: "map_of (rs_revisions t) corpusID = Some current" "revision \<le> current"
    by (auto simp: revision_covers_def split: option.splits)
  have "loadRegistryOperation t corpusID operationKey (registryClaimsHash h ?o) ?o = Inr (Some (as, revision))"
    using load_recorded [OF ok r(1)] batch_ordered(1) [OF batch] held r(2) by (simp add: holds_operation_def ordered)
  with validated current short show ?thesis
    by (simp add: ResolveCanonicalIdentities_def resolve_tx_def ensure_registry_corpus_def Let_def)
qed

lemma Resolve_batch:
  assumes run: "ResolveCanonicalIdentities h draw corpusID operationKey e claims s = (Inr (as, revision), s')"
    and ok: "registry_ok h s"
  shows "batch_ok corpusID operationKey e claims \<and> length corpusID \<le> 128"
proof -
  from run have tx: "resolve_tx h draw corpusID operationKey e claims s = Inr ((as, revision), s')"
    by (auto simp: ResolveCanonicalIdentities_def split: sum.splits)
  then have "length corpusID \<le> 128" by (auto simp: resolve_tx_def ensure_registry_corpus_def bind_result_Inr_iff split: if_splits)
  with run ok show ?thesis by (cases rule: ResolveCanonicalIdentities_cases) simp_all
qed

section \<open>Exactness\<close>

text \<open>The abstract registry: a partial function from identity keys to canonical identifiers and types.\<close>

definition canonical_of :: "registry_store \<Rightarrow> string \<times> string \<times> string \<rightharpoonup> string \<times> int" where
  "canonical_of s k = map_option (\<lambda>i. (ci_canonical_id i, ci_entity_type i)) (row_of identity_uk k (rs_identities s))"

lemma canonical_of_row:
  assumes "distinct (map identity_uk (rs_identities s))" and "i \<in> set (rs_identities s)"
  shows "canonical_of s (identity_uk i) = Some (ci_canonical_id i, ci_entity_type i)"
  using row_of_distinct [OF assms] by (simp add: canonical_of_def)

lemma canonical_of_evolves: "registry_evolves s t \<Longrightarrow> canonical_of s \<subseteq>\<^sub>m canonical_of t"
  by (auto simp: map_le_def canonical_of_def registry_evolves_def row_of_append)

lemma canonical_of_inj:
  assumes "registry_ok h s"
    and "canonical_of s (corpusID, scope, key) = Some (c, t)" and "canonical_of s (corpusID, scope', key') = Some (c, t')"
  shows "scope = scope' \<and> key = key'"
proof -
  from assms(2,3) obtain i j where i: "row_of identity_uk (corpusID, scope, key) (rs_identities s) = Some i" "ci_canonical_id i = c"
      and j: "row_of identity_uk (corpusID, scope', key') (rs_identities s) = Some j" "ci_canonical_id j = c"
    by (auto simp: canonical_of_def)
  have ui: "identity_uk i = (corpusID, scope, key)" "i \<in> set (rs_identities s)"
    and uj: "identity_uk j = (corpusID, scope', key')" "j \<in> set (rs_identities s)"
    using row_of_Some [OF i(1)] row_of_Some [OF j(1)] by simp_all
  have "canonical_pk i = canonical_pk j" using ui uj i(2) j(2) by (simp add: canonical_pk_def identity_uk_def)
  moreover have "inj_on canonical_pk (set (rs_identities s))" using assms(1) by (simp add: registry_ok_def distinct_map)
  ultimately have "i = j" using ui(2) uj(2) by (auto dest: inj_onD)
  with ui uj show ?thesis by simp
qed

text \<open>Every assignment names what the abstract registry binds to the key of its claim.\<close>

definition assigns :: "registry_store \<Rightarrow> string \<Rightarrow> CanonicalIdentityClaim \<Rightarrow> CanonicalIdentityAssignment \<Rightarrow> bool" where
  "assigns s corpusID c a \<longleftrightarrow> ca_proposal_key a = cc_proposal_key c \<and>
     canonical_of s (claim_uk corpusID c) = Some (ca_canonical_id a, cc_entity_type c)"

lemma decision_assigns:
  assumes ok: "registry_ok h s" and d: "d \<in> set (rs_decisions s)"
  shows "assigns s (rd_corpus_id d) (claim_of d) (replayed_assignment revision d)"
proof -
  obtain i where i: "row_of canonical_pk (decision_identity d) (rs_identities s) = Some i" "decided_by d i"
    by (rule decided_row [OF ok d])
  then have "i \<in> set (rs_identities s)" by (simp add: row_of_mem)
  moreover have "identity_uk i = claim_uk (rd_corpus_id d) (claim_of d)"
    using i(2) by (simp add: decided_by_def identity_uk_def claim_uk_def claim_of_def canonical_pk_def decision_identity_def)
  ultimately show ?thesis
    using canonical_of_row [of s i] ok i(2)
    by (simp add: assigns_def registry_ok_def replayed_assignment_def claim_of_def decided_by_def canonical_pk_def decision_identity_def)
qed

lemma held_assigns:
  assumes ok: "registry_ok h s" and held: "holds_operation s corpusID operationKey claims as revision"
  shows "list_all2 (assigns s corpusID) (sort_key cc_proposal_key claims) as"
proof -
  have "assigns s corpusID (claim_of d) (replayed_assignment revision d)" if "d \<in> set (decisions_of s (corpusID, operationKey))" for d
    using decision_assigns [OF ok, of d revision] that by (auto simp: mem_decisions_of decision_operation_def)
  then have "list_all2 (assigns s corpusID) (map claim_of (decisions_of s (corpusID, operationKey)))
      (map (replayed_assignment revision) (decisions_of s (corpusID, operationKey)))"
    by (simp add: list_all2_conv_all_nth)
  with held show ?thesis by (simp add: holds_operation_def recorded_def)
qed

lemma Resolve_assigns:
  assumes ok: "registry_ok h s"
    and run: "ResolveCanonicalIdentities h draw corpusID operationKey e claims s = (Inr (as, revision), s')"
    and c: "c \<in> set claims" and a: "a \<in> set as" and proposal: "ca_proposal_key a = cc_proposal_key c"
  shows "assigns s' corpusID c a"
proof -
  let ?o = "sort_key cc_proposal_key claims"
  have ok': "registry_ok h s'" using Resolve_effect [OF ok run] by simp
  have all: "list_all2 (assigns s' corpusID) ?o as" by (rule held_assigns [OF ok' Resolve_holds [OF run ok]])
  then obtain n where n: "n < length as" "as ! n = a" "assigns s' corpusID (?o ! n) a"
    using a by (auto simp: list_all2_conv_all_nth in_set_conv_nth)
  then have "cc_proposal_key (?o ! n) = cc_proposal_key c" using proposal by (simp add: assigns_def)
  moreover have "?o ! n \<in> set claims"
    using n(1) list_all2_lengthD [OF all] nth_mem [of n ?o] by simp
  moreover have "inj_on cc_proposal_key (set claims)"
    using Resolve_batch [OF run ok] by (simp add: batch_ok_def distinct_map)
  ultimately have "?o ! n = c" using c by (auto dest: inj_onD)
  with n(3) show ?thesis by simp
qed

lemma registry_run_ok: "(registry_step h)\<^sup>*\<^sup>* empty_registry s \<Longrightarrow> registry_ok h s"
  by (rule registry.inv_run [OF _ empty_registry_ok])

lemma registry_run_resolve:
  assumes "(registry_step h)\<^sup>*\<^sup>* empty_registry s" and "ResolveCanonicalIdentities h draw corpusID operationKey e claims s = (result, s')"
  shows "registry_ok h s \<and> registry_ok h s'"
  using registry_run_ok [OF assms(1)] Resolve_effect [OF _ assms(2)] by blast

lemma Resolve_again:
  assumes ok: "registry_ok h s"
    and run: "ResolveCanonicalIdentities h draw corpusID operationKey e claims s = (Inr (as, revision), s')"
    and later: "(registry_step h)\<^sup>*\<^sup>* s' t" and same: "mset claims' = mset claims" and "e' \<le> MaxInt64"
  shows "ResolveCanonicalIdentities h draw' corpusID operationKey e' claims' t = (Inr (as, revision), t)"
proof (rule replay_held)
  have ok': "registry_ok h s'" using Resolve_effect [OF ok run] by simp
  show "registry_ok h t" by (rule registry.inv_run [OF later ok'])
  show "holds_operation t corpusID operationKey claims as revision"
    by (rule evolves_holds [OF registry.evolves_run [OF later ok'] Resolve_holds [OF run ok]])
  show "batch_ok corpusID operationKey e' claims'" "length corpusID \<le> 128"
    using Resolve_batch [OF run ok] batch_ok_perm [OF same [symmetric] _ \<open>e' \<le> MaxInt64\<close>] by blast+
qed (rule same)


text \<open>
  Claim C3. No false merge and no false split. Take two claims that calls on one corpus have resolved, in
  one operation or in two with any number of operations between them: they got the same canonical
  identifier if and only if they name the same identity key in the same scope.
\<close>

theorem canonical_ids_exact:
  assumes "(registry_step h)\<^sup>*\<^sup>* empty_registry s"
    and "ResolveCanonicalIdentities h draw corpusID op e claims s = (Inr (as, revision), s')"
    and "(registry_step h)\<^sup>*\<^sup>* s' t"
    and "ResolveCanonicalIdentities h draw' corpusID op' e' claims' t = (Inr (as', revision'), t')"
    and "c \<in> set claims" and "a \<in> set as" and "ca_proposal_key a = cc_proposal_key c"
    and "c' \<in> set claims'" and "a' \<in> set as'" and "ca_proposal_key a' = cc_proposal_key c'"
  shows "ca_canonical_id a = ca_canonical_id a' \<longleftrightarrow>
    cc_identity_scope c = cc_identity_scope c' \<and> cc_identity_key c = cc_identity_key c'"
proof -
  have ok: "registry_ok h s" "registry_ok h s'" using registry_run_resolve [OF assms(1,2)] by simp_all
  have "registry_ok h t" by (rule registry.inv_run [OF assms(3) ok(2)])
  then have ok': "registry_ok h t'" "registry_evolves t t'" using Resolve_effect [OF _ assms(4)] by simp_all
  have "canonical_of s' \<subseteq>\<^sub>m canonical_of t'"
    using registry.evolves_run [OF assms(3) ok(2)] ok'(2) canonical_of_evolves registry_evolves_trans by blast
  moreover have "canonical_of s' (claim_uk corpusID c) = Some (ca_canonical_id a, cc_entity_type c)"
    using Resolve_assigns [OF ok(1) assms(2,5-7)] by (simp add: assigns_def)
  ultimately have first: "canonical_of t' (claim_uk corpusID c) = Some (ca_canonical_id a, cc_entity_type c)"
    by (metis domI map_le_def)
  have second: "canonical_of t' (claim_uk corpusID c') = Some (ca_canonical_id a', cc_entity_type c')"
    using Resolve_assigns [OF \<open>registry_ok h t\<close> assms(4,8-10)] by (simp add: assigns_def)
  show ?thesis
  proof
    assume "ca_canonical_id a = ca_canonical_id a'"
    with second have "canonical_of t' (claim_uk corpusID c') = Some (ca_canonical_id a, cc_entity_type c')" by simp
    with first show "cc_identity_scope c = cc_identity_scope c' \<and> cc_identity_key c = cc_identity_key c'"
      unfolding claim_uk_def by (rule canonical_of_inj [OF ok'(1)])
  next
    assume "cc_identity_scope c = cc_identity_scope c' \<and> cc_identity_key c = cc_identity_key c'"
    then have "claim_uk corpusID c = claim_uk corpusID c'" by (simp add: claim_uk_def)
    with first second show "ca_canonical_id a = ca_canonical_id a'" by simp
  qed
qed

lemma dom_canonical_of: "dom (canonical_of s) = identity_uk ` set (rs_identities s)"
  using row_of_None_image [of identity_uk _ "rs_identities s"] by (auto simp: canonical_of_def dom_def)

lemma granted_bound: "granted old rows corpusID revision m c \<Longrightarrow> claim_uk corpusID c \<in> identity_uk ` set rows"
  unfolding granted_def by (metis imageI)

lemma writes_bindings:
  assumes w: "writes h draw corpusID operationKey ordered current w s s'"
  shows "dom (canonical_of s') = dom (canonical_of s) \<union> claim_uk corpusID ` set ordered"
    and "claim_uk corpusID ` set ordered \<subseteq> dom (canonical_of s) \<longleftrightarrow> w_identities w = []"
proof -
  have ids: "rs_identities s' = rs_identities s @ w_identities w" by (rule writesD [OF w])
  have new: "identity_uk i \<in> claim_uk corpusID ` set ordered \<and> identity_uk i \<notin> identity_uk ` set (rs_identities s)"
    if "i \<in> set (w_identities w)" for i
    using writesD(6) [OF w that] writesD(9) [OF w] that by (auto simp: new_identity_def ids)
  have bound: "claim_uk corpusID ` set ordered \<subseteq> identity_uk ` set (rs_identities s')"
    using granted_bound [OF writesD(7) [OF w]] by blast
  show "dom (canonical_of s') = dom (canonical_of s) \<union> claim_uk corpusID ` set ordered"
    using new bound by (auto simp: dom_canonical_of ids)
  show "claim_uk corpusID ` set ordered \<subseteq> dom (canonical_of s) \<longleftrightarrow> w_identities w = []"
  proof
    assume "claim_uk corpusID ` set ordered \<subseteq> dom (canonical_of s)"
    then have "i \<notin> set (w_identities w)" for i using new [of i] by (auto simp: dom_canonical_of)
    then show "w_identities w = []" by (metis list.set_intros(1) neq_Nil_conv)
  qed (use bound in \<open>simp add: dom_canonical_of ids\<close>)
qed

text \<open>
  Claim C13. A new operation refines the abstract registry. The keys of the claims are added to the
  partial function and nothing else changes; every assignment names the identifier that the key is
  bound to afterwards and says that it was created exactly when the key was not bound before; the
  revision of the corpus revisions_grow by one exactly when a key is new.
\<close>

theorem ResolveCanonicalIdentities_refines:
  assumes reach: "(registry_step h)\<^sup>*\<^sup>* empty_registry s"
    and run: "ResolveCanonicalIdentities h draw corpusID operationKey e claims s = (Inr (as, revision), s')"
    and fresh: "row_of operation_pk (corpusID, operationKey) (rs_operations s) = None"
  shows "canonical_of s \<subseteq>\<^sub>m canonical_of s' \<and>
    dom (canonical_of s') = dom (canonical_of s) \<union> claim_uk corpusID ` set claims \<and>
    list_all2 (\<lambda>c a. assigns s' corpusID c a \<and> ca_revision a = revision \<and>
        (ca_created a \<longleftrightarrow> claim_uk corpusID c \<notin> dom (canonical_of s))) (sort_key cc_proposal_key claims) as \<and>
    revision = revision_of s corpusID + (if claim_uk corpusID ` set claims \<subseteq> dom (canonical_of s) then 0 else 1) \<and>
    revision_of s' corpusID = revision"
proof -
  have ok: "registry_ok h s" "registry_ok h s'" using registry_run_resolve [OF reach run] by simp_all
  from run ok(1) obtain revisions current w where w: "map_of revisions corpusID = Some current"
      "writes h draw corpusID operationKey (sort_key cc_proposal_key claims) current w (s\<lparr>rs_revisions := revisions\<rparr>) s'"
      "revision = w_revision w" "as = map (assignment_for revision (w_resolved w)) (sort_key cc_proposal_key claims)"
      "current = revision_of s corpusID" "batch_ok corpusID operationKey e claims"
    by (cases rule: ResolveCanonicalIdentities_cases) (auto simp: load_absent [OF ok(1) fresh])
  have same: "canonical_of (s\<lparr>rs_revisions := revisions\<rparr>) = canonical_of s" by (rule ext) (simp add: canonical_of_def)
  note bindings = writes_bindings [OF w(2), unfolded same set_sort]
  have created: "ri_created (resolved_at (w_resolved w) (lookup_key c)) \<longleftrightarrow> claim_uk corpusID c \<notin> dom (canonical_of s)"
    if "c \<in> set claims" for c
    using writesD(7) [OF w(2)] that by (simp add: granted_def dom_canonical_of)
  have "canonical_of s \<subseteq>\<^sub>m canonical_of s'" using Resolve_effect [OF ok(1) run] canonical_of_evolves by blast
  moreover have "revision_of s' corpusID = revision"
    using w(2) w(1,3) by (auto simp: writes_def revision_of_def map_of_update_values)
  moreover have "revision = current + (if w_identities w = [] then 0 else 1)"
    using writesD(1) [OF w(2)] by (simp add: w(3))
  moreover have "list_all2 (\<lambda>c a. assigns s' corpusID c a \<and> ca_revision a = revision \<and>
        (ca_created a \<longleftrightarrow> claim_uk corpusID c \<notin> dom (canonical_of s))) (sort_key cc_proposal_key claims) as"
    using held_assigns [OF ok(2) Resolve_holds [OF run ok(1)]] created
    by (simp add: w(4) list_all2_map2 list_all2_same assignment_for_def Let_def)
  ultimately show ?thesis by (simp add: bindings w(5))
qed

section \<open>Integrity errors\<close>

lemma storageIDPattern_utf8: "storageIDPattern s \<Longrightarrow> utf8_valid s"
proof (rule utf8_valid_ascii)
  assume "storageIDPattern s"
  then have "list_all is_id_tail s" by (cases s) (auto simp: is_id_tail_def)
  moreover have "is_id_tail c \<Longrightarrow> byte c < 128" for c
    by (auto simp: is_id_tail_def is_alnum_def is_digit_def less_eq_char_def)
  ultimately show "list_all (\<lambda>c. byte c < 128) s" by (auto simp: list_all_iff)
qed

lemma sha256Pattern_utf8: "sha256Pattern s \<Longrightarrow> utf8_valid s"
proof (rule utf8_valid_ascii)
  assume "sha256Pattern s"
  moreover have "is_lower_hex c \<Longrightarrow> byte c < 128" for c
    by (auto simp: is_lower_hex_def is_digit_def less_eq_char_def)
  ultimately show "list_all (\<lambda>c. byte c < 128) s" by (auto simp: sha256Pattern_def list_all_iff)
qed

definition claims_text :: "CanonicalIdentityClaim list \<Rightarrow> string" where
  "claims_text claims = render (JArr (map claim_json claims))"

text \<open>The rendering of a batch covers every field of every claim.\<close>

lemma claims_text_eq_iff:
  assumes "list_all claim_ok xs" and "list_all claim_ok ys"
    and "list_all (\<lambda>c. utf8_valid (cc_identity_scope c)) xs" and "list_all (\<lambda>c. utf8_valid (cc_identity_scope c)) ys"
  shows "claims_text xs = claims_text ys \<longleftrightarrow> xs = ys"
proof -
  have fields: "utf8_valid ''ProposalKey''" "utf8_valid ''EntityType''" "utf8_valid ''IdentityScope''"
      "utf8_valid ''IdentityKey''" "utf8_valid ''PayloadHash''" by code_simp+
  have valid: "json_valid (JArr (map claim_json cs))"
    if "list_all claim_ok cs" "list_all (\<lambda>c. utf8_valid (cc_identity_scope c)) cs" for cs
    using that by (auto simp: list_all_iff claim_json_def claim_ok_def storageIDPattern_utf8 sha256Pattern_utf8 fields)
  have "claim_json c = claim_json d \<Longrightarrow> claim_ok c \<Longrightarrow> claim_ok d \<Longrightarrow> c = d" for c d
    by (cases c; cases d) (auto simp: claim_json_def claim_ok_def)
  then have "inj_on claim_json (set xs \<union> set ys)" using assms(1,2) by (auto simp: list_all_iff intro!: inj_onI)
  then have "map claim_json xs = map claim_json ys \<longleftrightarrow> xs = ys" by (rule inj_on_map_eq_map)
  then show ?thesis
    using render_eq_iff [OF valid [OF assms(1,3)] valid [OF assms(2,4)]] by (simp add: claims_text_def)
qed

lemma lookup_claims_error:
  assumes "lookup_claims rows corpusID current m new cs = Inl err"
    and "\<And>i. i \<in> set rows \<Longrightarrow> ci_corpus_id i = corpusID \<Longrightarrow> ci_valid_from i \<le> current"
  shows "\<not> errors_is err ErrPersistentIntegrity"
  using assms
proof (induction cs arbitrary: m new)
  case (Cons c cs)
  have early: "\<not> current < ci_valid_from i" if "row_of identity_uk (claim_uk corpusID c) rows = Some i" for i
    using row_of_Some [OF that] Cons.prems(2) by (auto simp: identity_uk_def claim_uk_def not_less)
  note IH = Cons.IH [OF _ Cons.prems(2)]
  show ?case
  proof (cases "m (lookup_key c)")
    case (Some r)
    with Cons.prems(1) IH show ?thesis by (auto split: if_splits)
  next
    case None
    show ?thesis
    proof (cases "row_of identity_uk (claim_uk corpusID c) rows")
      case None
      with Cons.prems(1) \<open>m (lookup_key c) = None\<close> IH show ?thesis by (auto split: if_splits)
    next
      case (Some i)
      with Cons.prems(1) \<open>m (lookup_key c) = None\<close> IH early show ?thesis by (auto split: if_splits)
    qed
  qed
qed simp

lemma insert_identities_error:
  "insert_identities draw corpusID current n m rows keys = Inl err \<Longrightarrow> \<not> errors_is err ErrPersistentIntegrity"
  by (induction keys arbitrary: n m rows)
    (auto simp: Let_def bind_result_Inl_iff allocateCanonicalID_def insert_identity_def split: option.splits if_splits)

lemma record_decisions_error:
  "record_decisions h corpusID operationKey revision m ids rows as cs = Inl err \<Longrightarrow> \<not> errors_is err ErrPersistentIntegrity"
  by (induction cs arbitrary: rows as) (auto simp: bind_result_Inl_iff insert_decision_def split: if_splits)

lemma resolve_new_error:
  assumes "resolve_new h draw corpusID operationKey e hash ordered current s = Inl err"
    and "\<And>i. i \<in> set (rs_identities s) \<Longrightarrow> ci_corpus_id i = corpusID \<Longrightarrow> ci_valid_from i \<le> current"
  shows "\<not> errors_is err ErrPersistentIntegrity"
  using assms(1) lookup_claims_error [OF _ assms(2)]
  by (auto simp: resolve_new_def Let_def bind_result_Inl_iff insert_operation_def
      dest: insert_identities_error record_decisions_error split: if_splits)

lemma check_registry_claims_error: "check_registry_claims previous cs = Inl err \<Longrightarrow> \<not> errors_is err ErrPersistentIntegrity"
  by (induction cs arbitrary: previous) (auto split: if_splits)

lemma validate_error:
  "validateRegistryClaims corpusID operationKey e claims = Inl err \<Longrightarrow> \<not> errors_is err ErrPersistentIntegrity"
  by (auto simp: validateRegistryClaims_def Let_def bind_result_Inl_iff dest: check_registry_claims_error split: if_splits)

lemma load_error:
  assumes ok: "registry_ok h s" and claims: "list_all claim_ok claims" "list_all (\<lambda>c. utf8_valid (cc_identity_scope c)) claims"
    and load: "loadRegistryOperation s corpusID operationKey (registryClaimsHash h claims) claims = Inl err"
    and integrity: "errors_is err ErrPersistentIntegrity"
  shows "sha_collision h (claims_text (recorded s (corpusID, operationKey))) (claims_text claims)"
proof (cases "row_of operation_pk (corpusID, operationKey) (rs_operations s)")
  case None
  with load show ?thesis by (simp add: load_absent [OF ok])
next
  case (Some r)
  let ?rec = "recorded s (corpusID, operationKey)"
  from load integrity have differ: "?rec \<noteq> claims" "registryClaimsHash h ?rec = registryClaimsHash h claims"
    by (auto simp: load_recorded [OF ok Some claims(1)] split: if_splits)
  have "list_all claim_ok ?rec" "list_all (\<lambda>c. utf8_valid (cc_identity_scope c)) ?rec"
    using ok by (auto simp: registry_ok_def list_all_iff recorded_def mem_decisions_of decision_ok_def pg_text_def claim_of_def)
  with differ(1) claims claims_text_eq_iff have "claims_text ?rec \<noteq> claims_text claims" by blast
  with differ(2) show ?thesis by (simp add: sha_collision_def registryClaimsHash_def claims_text_def)
qed


section \<open>A worked registry\<close>

definition cx_host :: host where
  "cx_host = bx_host\<lparr>sha256hex := (\<lambda>s. take 64 (hex_EncodeToString s @ replicate 64 CHR ''0''))\<rparr>"

definition cx_claim :: "string \<Rightarrow> char \<Rightarrow> CanonicalIdentityClaim" where
  "cx_claim proposal k =
     \<lparr>cc_proposal_key = proposal, cc_entity_type = 3, cc_identity_scope = ''scope'',
      cc_identity_key = replicate 64 k, cc_payload_hash = replicate 64 k\<rparr>"

definition cx_claims :: "CanonicalIdentityClaim list" where
  "cx_claims = [cx_claim ''p2'' CHR ''a'', cx_claim ''p1'' CHR ''b'', cx_claim ''p3'' CHR ''a'']"

definition cx_draw :: "nat \<Rightarrow> (nat \<Rightarrow> char) option" where
  "cx_draw n = Some (\<lambda>_. if n = 0 then CHR ''x'' else CHR ''y'')"

definition cx_resolve :: "host \<Rightarrow> CanonicalIdentityClaim list \<Rightarrow> registry_store \<Rightarrow>
    (CanonicalIdentityAssignment list \<times> nat) result \<times> registry_store" where
  "cx_resolve h = ResolveCanonicalIdentities h cx_draw ''corpus'' ''operation'' 0"

definition cx_store :: registry_store where
  "cx_store = snd (cx_resolve cx_host cx_claims empty_registry)"

definition cx_assignment :: "string \<Rightarrow> char \<Rightarrow> CanonicalIdentityAssignment" where
  "cx_assignment proposal k =
     \<lparr>ca_proposal_key = proposal, ca_canonical_id = ''canonical:entity:'' @ hex_EncodeToString (replicate 16 k),
      ca_revision = 2, ca_created = True\<rparr>"

definition cx_assignments :: "CanonicalIdentityAssignment list" where
  "cx_assignments = [cx_assignment ''p1'' CHR ''y'', cx_assignment ''p2'' CHR ''x'', cx_assignment ''p3'' CHR ''x'']"

lemma cx_resolved: "cx_resolve cx_host cx_claims empty_registry = (Inr (cx_assignments, 2), cx_store)"
proof -
  have "fst (cx_resolve cx_host cx_claims empty_registry) = Inr (cx_assignments, 2)" by code_simp
  then show ?thesis unfolding cx_store_def by (metis prod.collapse)
qed


theorem canonical_ids_exact_witness:
  "ca_canonical_id (cx_assignment ''p2'' CHR ''x'') = ca_canonical_id (cx_assignment ''p3'' CHR ''x'') \<longleftrightarrow>
   cc_identity_scope (cx_claim ''p2'' CHR ''a'') = cc_identity_scope (cx_claim ''p3'' CHR ''a'') \<and>
   cc_identity_key (cx_claim ''p2'' CHR ''a'') = cc_identity_key (cx_claim ''p3'' CHR ''a'')"
proof (rule canonical_ids_exact [OF _ cx_resolved [unfolded cx_resolve_def] rtranclp.rtrancl_refl])
  show "ResolveCanonicalIdentities cx_host cx_draw ''corpus'' ''operation'' 0 cx_claims cx_store = (Inr (cx_assignments, 2), cx_store)"
    by code_simp
qed (simp_all add: cx_claims_def cx_claim_def cx_assignments_def cx_assignment_def)

theorem ResolveCanonicalIdentities_refines_witness:
  "dom (canonical_of cx_store) = claim_uk ''corpus'' ` set cx_claims \<and> revision_of cx_store ''corpus'' = 2"
  using ResolveCanonicalIdentities_refines [OF rtranclp.rtrancl_refl cx_resolved [unfolded cx_resolve_def]]
  by (simp add: empty_registry_def canonical_of_def table_simps dom_def)

text \<open>With a digest that maps everything to one string, another batch for the same operation is found out.\<close>

definition cx_flat :: host where
  "cx_flat = bx_host\<lparr>sha256hex := (\<lambda>_. replicate 64 CHR ''0'')\<rparr>"

definition cx_flat_store :: registry_store where
  "cx_flat_store = snd (cx_resolve cx_flat [cx_claim ''p'' CHR ''a''] empty_registry)"

lemma cx_flat_reached: "(registry_step cx_flat)\<^sup>*\<^sup>* empty_registry cx_flat_store"
proof -
  have "ResolveCanonicalIdentities cx_flat cx_draw ''corpus'' ''operation'' 0 [cx_claim ''p'' CHR ''a''] empty_registry =
      (fst (cx_resolve cx_flat [cx_claim ''p'' CHR ''a''] empty_registry), cx_flat_store)"
    by (simp add: cx_flat_store_def cx_resolve_def)
  then have "registry_step cx_flat empty_registry cx_flat_store" by (rule registry_step.resolve)
  then show ?thesis by (rule r_into_rtranclp)
qed


end
