(* ===== verification/Binding.thy ===== *)
theory Binding
  imports Documents Canonical
begin

text \<open>
  The core of the BIND stage, \<open>workflows/bind.go\<close>: the configuration of the executor, the delay
  between attempts, and \<open>bind\<close>, which plans the identities of a document batch, resolves the
  claims of issuers, regulations and provisions through the canonical registry in bounded batches
  and materialises the bound batch. It composes the theories Registry, Documents and Canonical.

  Between two calls of the registry other sessions may change the tables: \<open>others k s\<close> is what they
  have made of the tables \<open>s\<close> when the operation with the key \<open>k\<close> starts. \<open>draw k\<close> is the drawing of
  random identifiers of that operation. The text that \<open>permanentBindingError\<close> appends for the
  cause (\<open>%v\<close>) is left out of the message.

  The locale \<open>retrying\<close> is the contract of a stage that can be repeated: whatever it has returned, it
  returns again from every later state, and it then changes nothing. Its rules for sequential
  composition carry the proof that the whole stage can be repeated after a crash.
\<close>

section \<open>Configuration\<close>

definition maximumRegistryBatchClaims :: int where
  "maximumRegistryBatchClaims = 10000"

text \<open>Durations are counted in nanoseconds.\<close>

record BindingExecutorConfig =
  be_owner_id :: string
  be_jurisdiction :: string
  be_software :: string
  be_build :: string
  be_language :: string
  be_document_kind :: document_kind
  be_lease :: int
  be_retry_base :: int
  be_retry_max :: int
  be_maximum_bytes :: nat
  be_maximum_records :: int
  be_registry_batch_size :: int
  be_wire_limits :: WireLimits

text \<open>\<open>stores\<close>: the two stores are present (not nil).\<close>

definition NewBindingExecutor :: "bool \<Rightarrow> BindingExecutorConfig \<Rightarrow> BindingExecutorConfig result" where
  "NewBindingExecutor stores config =
     (if \<not> stores \<or> TrimSpace (be_owner_id config) = [] \<or> TrimSpace (be_jurisdiction config) = [] \<or>
         TrimSpace (be_software config) = [] \<or> TrimSpace (be_build config) = [] \<or> TrimSpace (be_language config) = [] \<or>
         be_document_kind config = DOCUMENT_KIND_UNSPECIFIED \<or> be_lease config \<le> 0 \<or> be_maximum_bytes config = 0 \<or>
         be_maximum_records config \<le> 0 \<or> MaxBytes (be_wire_limits config) \<le> 0 \<or>
         MaxDepth (be_wire_limits config) \<le> 0 \<or> MaxItems (be_wire_limits config) \<le> 0
      then Inl (Err ''binding executor requires complete bounded configuration'')
      else let base = (if be_retry_base config \<le> 0 then 10 ^ 9 else be_retry_base config);
               limit = (if be_retry_max config \<le> 0 then 60 * 10 ^ 9 else be_retry_max config);
               batchSize = (if be_registry_batch_size config \<le> 0 then maximumRegistryBatchClaims else be_registry_batch_size config) in
        if limit < base then Inl (Err ''binding retry maximum must not be shorter than retry base'')
        else if batchSize > maximumRegistryBatchClaims then Inl (Err ''binding registry batch size exceeds registry contract'')
        else Inr (config\<lparr>be_retry_base := base, be_retry_max := limit, be_registry_batch_size := batchSize\<rparr>))"

section \<open>The delay between attempts\<close>

text \<open>The loop from line 421, with the number of rounds that remain.\<close>

fun retry_rounds :: "nat \<Rightarrow> int \<Rightarrow> int \<Rightarrow> int" where
  "retry_rounds 0 delay limit = (if delay > limit then limit else delay)"
| "retry_rounds (Suc n) delay limit =
     (if delay < limit
      then (if delay > limit div 2 then limit else retry_rounds n (delay * 2) limit)
      else (if delay > limit then limit else delay))"

definition retryDelay :: "BindingExecutorConfig \<Rightarrow> nat \<Rightarrow> int" where
  "retryDelay config attempt = retry_rounds (attempt - 1) (be_retry_base config) (be_retry_max config)"

section \<open>Registry operations in batches\<close>

definition permanentBindingError :: "string \<Rightarrow> error" where
  "permanentBindingError message = Wrap message ErrPersistentIntegrity"

definition and_then :: "'a result \<times> 's \<Rightarrow> ('a \<Rightarrow> 's \<Rightarrow> 'b result \<times> 's) \<Rightarrow> 'b result \<times> 's" where
  "and_then x f = (case x of (Inl e, s) \<Rightarrow> (Inl e, s) | (Inr a, s) \<Rightarrow> f a s)"

text \<open>A step that does not touch the tables; its error is permanent.\<close>

definition plan_step :: "string \<Rightarrow> 'a result \<Rightarrow> 's \<Rightarrow> 'a result \<times> 's" where
  "plan_step message r s = (case r of Inl e \<Rightarrow> (Inl (permanentBindingError message), s) | Inr a \<Rightarrow> (Inr a, s))"

text \<open>An error of the registry, wrapped.\<close>

definition wrapping :: "string \<Rightarrow> 'a result \<times> 's \<Rightarrow> 'a result \<times> 's" where
  "wrapping message x = (case x of (Inl e, s) \<Rightarrow> (Inl (Wrap message e), s) | (Inr a, s) \<Rightarrow> (Inr a, s))"

definition pad6 :: "nat \<Rightarrow> string" where
  "pad6 n = replicate (6 - length (Itoa n)) CHR ''0'' @ Itoa n"

definition bindingOperationKey :: "host \<Rightarrow> string \<Rightarrow> string \<Rightarrow> string \<Rightarrow> string" where
  "bindingOperationKey h jobID inputHash phase =
     ''registry:bind:'' @ phase @ '':'' @ sha256hex h (Join NUL [''bind-v1'', jobID, inputHash, phase])"

definition operationPhase :: "host \<Rightarrow> string \<Rightarrow> nat \<Rightarrow> nat \<Rightarrow> CanonicalIdentityClaim list \<Rightarrow> string" where
  "operationPhase h phase batchSize index claims =
     phase @ '':batch-size:'' @ pad6 batchSize @ '':index:'' @ pad6 index @ '':claims:'' @ registryClaimsHash h claims"

type_synonym drawing = "string \<Rightarrow> nat \<Rightarrow> (nat \<Rightarrow> char) option"

type_synonym others = "string \<Rightarrow> registry_store \<Rightarrow> registry_store"

text \<open>The claim that a job makes: its corpus, its identifier and the digest of its input.\<close>

record bind_job =
  bj_corpus_id :: string
  bj_job_id :: string
  bj_input_hash :: string

text \<open>
  The loop over the batches. A batch size of zero, which \<open>NewBindingExecutor\<close> rules out, would not
  advance; the model stops there.
\<close>

function resolve_batches ::
    "host \<Rightarrow> drawing \<Rightarrow> others \<Rightarrow> bind_job \<Rightarrow> string \<Rightarrow> nat \<Rightarrow> nat \<Rightarrow> CanonicalIdentityAssignment list \<Rightarrow> nat \<Rightarrow>
     CanonicalIdentityClaim list \<Rightarrow> registry_store \<Rightarrow> (CanonicalIdentityAssignment list \<times> nat) result \<times> registry_store" where
  "resolve_batches h draw others job phase batchSize index assignments revision claims s =
     (if claims = [] then (Inr (assignments, revision), s)
      else if batchSize = 0 then (Inl (Err ''registry batch size must be positive''), s)
      else let batch = take batchSize claims;
               operationKey = bindingOperationKey h (bj_job_id job) (bj_input_hash job) (operationPhase h phase batchSize index batch) in
        and_then (ResolveCanonicalIdentities h (draw operationKey) (bj_corpus_id job) operationKey 0 batch (others operationKey s))
          (\<lambda>(resolved, batchRevision) s'.
             resolve_batches h draw others job phase batchSize (index + 1) (assignments @ resolved) (max revision batchRevision)
               (drop batchSize claims) s'))"
  by pat_completeness auto
termination
  by (relation "measure (\<lambda>(h, draw, others, job, phase, batchSize, index, assignments, revision, claims, s). length claims)") auto

declare resolve_batches.simps [simp del]

definition resolveClaims ::
    "host \<Rightarrow> drawing \<Rightarrow> others \<Rightarrow> BindingExecutorConfig \<Rightarrow> bind_job \<Rightarrow> string \<Rightarrow> CanonicalIdentityClaim list \<Rightarrow> registry_store \<Rightarrow>
     (CanonicalIdentityAssignment list \<times> nat) result \<times> registry_store" where
  "resolveClaims h draw others config job phase claims s =
     resolve_batches h draw others job phase (nat (be_registry_batch_size config)) 0 [] 0 (sort_key cc_proposal_key claims) s"

section \<open>Binding\<close>

text \<open>Lines 225 to 258: issuers, then the regulations that name them.\<close>

definition bind_candidates ::
    "host \<Rightarrow> drawing \<Rightarrow> others \<Rightarrow> BindingExecutorConfig \<Rightarrow> bind_job \<Rightarrow> RegulationIdentityCandidate list \<Rightarrow> registry_store \<Rightarrow>
     (RegulationDocumentBinding list \<times> nat) result \<times> registry_store" where
  "bind_candidates h draw others config job candidates s =
     and_then (plan_step ''build issuer claim'' (map_result (CanonicalIssuerClaim h) candidates) s) (\<lambda>issuerClaims s.
     and_then (wrapping ''resolve canonical issuers'' (resolveClaims h draw others config job ''issuer'' issuerClaims s))
       (\<lambda>(issuerAssignments, registryRevision) s.
     and_then (plan_step ''plan canonical regulations'' (PlanCanonicalRegulationClaims h candidates issuerAssignments) s) (\<lambda>canonical s.
     and_then (wrapping ''resolve canonical regulations''
         (resolveClaims h draw others config job ''regulation'' (map cr_claim canonical) s)) (\<lambda>(regulationAssignments, revision) s.
     and_then (plan_step ''build regulation bindings''
         (BuildRegulationDocumentBindings h canonical issuerAssignments regulationAssignments) s) (\<lambda>bindings s.
     (Inr (bindings, max registryRevision revision), s))))))"

text \<open>Lines 263 to 281: the provisions.\<close>

definition bind_provision_claims ::
    "host \<Rightarrow> drawing \<Rightarrow> others \<Rightarrow> BindingExecutorConfig \<Rightarrow> bind_job \<Rightarrow> ProvisionIdentityCandidate list \<Rightarrow> nat \<Rightarrow> registry_store \<Rightarrow>
     (CanonicalIdentityAssignment list \<times> nat) result \<times> registry_store" where
  "bind_provision_claims h draw others config job provisions registryRevision s =
     (if provisions = [] then (Inr ([], registryRevision), s)
      else and_then (plan_step ''build provision claim'' (map_result (ProvisionClaim h) provisions) s) (\<lambda>claims s.
        and_then (wrapping ''resolve canonical provisions'' (resolveClaims h draw others config job ''provision'' claims s))
          (\<lambda>(assignments, revision) s. (Inr (assignments, max registryRevision revision), s))))"

definition binding_config :: "BindingExecutorConfig \<Rightarrow> nat \<Rightarrow> DocumentBindingConfig" where
  "binding_config config registryRevision =
     \<lparr>bc_software = be_software config, bc_build = be_build config, bc_language = be_language config,
      bc_jurisdiction = be_jurisdiction config, bc_registry_batch_size = be_registry_batch_size config,
      bc_document_kind = be_document_kind config, bc_registry_revision = registryRevision,
      bc_maximum_records = be_maximum_records config, bc_wire_limits = be_wire_limits config\<rparr>"

definition bind_batch ::
    "host \<Rightarrow> document_batch codec \<Rightarrow> BindingExecutorConfig \<Rightarrow> bind_job \<Rightarrow> document_batch \<Rightarrow> drawing \<Rightarrow> others \<Rightarrow> registry_store \<Rightarrow>
     (document_batch \<times> nat) result \<times> registry_store" where
  "bind_batch h c config job batch draw others s =
     and_then (plan_step ''plan regulation identities'' (PlanRegulationIdentities h c (Some batch)
         \<lparr>ip_jurisdiction = be_jurisdiction config, ip_maximum_items = be_maximum_records config\<rparr>) s) (\<lambda>plan s.
     and_then (if pl_candidates plan = [] then (Inr ([], 0), s)
               else bind_candidates h draw others config job (pl_candidates plan) s) (\<lambda>(bindings, registryRevision) s.
     and_then (plan_step ''plan provision identities''
         (PlanProvisionIdentities h c (Some batch) bindings (be_maximum_records config)) s) (\<lambda>provisions s.
     and_then (bind_provision_claims h draw others config job provisions registryRevision s) (\<lambda>(assignments, revision) s.
     and_then (plan_step ''materialize bound DocumentBatch''
         (BindDocumentBatch h c (Some batch) bindings provisions assignments (binding_config config revision)) s) (\<lambda>bound s.
     (Inr (bound, revision), s))))))"

section \<open>Stages that can be repeated\<close>

lemma and_then_Inl [simp]: "and_then (Inl e, s) f = (Inl e, s)"
  by (simp add: and_then_def)

lemma and_then_Inr [simp]: "and_then (Inr a, s) f = f a s"
  by (simp add: and_then_def)

text \<open>
  A program takes a drawing, the interference of others and a state. \<open>repeats f x s\<close>: from every
  state after \<open>s\<close> the program \<open>f\<close> returns \<open>x\<close> and changes nothing on its own account.
\<close>

locale retrying = invariant_system inv step
  for inv :: "'s \<Rightarrow> bool" and step :: "'s \<Rightarrow> 's \<Rightarrow> bool"
begin

definition calm :: "('k \<Rightarrow> 's \<Rightarrow> 's) \<Rightarrow> bool" where
  "calm others \<longleftrightarrow> (\<forall>k s. step\<^sup>*\<^sup>* s (others k s))"

definition repeats :: "('d \<Rightarrow> ('k \<Rightarrow> 's \<Rightarrow> 's) \<Rightarrow> 's \<Rightarrow> 'a result \<times> 's) \<Rightarrow> 'a \<Rightarrow> 's \<Rightarrow> bool" where
  "repeats f x s \<longleftrightarrow>
     (\<forall>d others t. step\<^sup>*\<^sup>* s t \<longrightarrow> calm others \<longrightarrow>
        (\<exists>t'. f d others t = (Inr x, t') \<and> step\<^sup>*\<^sup>* t t' \<and> (others = (\<lambda>_ s. s) \<longrightarrow> t' = t)))"

definition settles :: "('d \<Rightarrow> ('k \<Rightarrow> 's \<Rightarrow> 's) \<Rightarrow> 's \<Rightarrow> 'a result \<times> 's) \<Rightarrow> bool" where
  "settles f \<longleftrightarrow>
     (\<forall>d others s r s'. inv s \<longrightarrow> calm others \<longrightarrow> f d others s = (r, s') \<longrightarrow>
        step\<^sup>*\<^sup>* s s' \<and> (\<forall>x. r = Inr x \<longrightarrow> repeats f x s'))"

lemma settlesD:
  assumes "settles f" and "inv s" and "calm others" and "f d others s = (r, s')"
  shows "step\<^sup>*\<^sup>* s s'" and "inv s'" and "r = Inr x \<Longrightarrow> repeats f x s'"
proof -
  from assms show run: "step\<^sup>*\<^sup>* s s'" and "r = Inr x \<Longrightarrow> repeats f x s'" unfolding settles_def by blast+
  from inv_run [OF run assms(2)] show "inv s'" .
qed

lemma repeatsD:
  assumes "repeats f x s" and "step\<^sup>*\<^sup>* s t" and "calm others"
  obtains t' where "f d others t = (Inr x, t')" and "step\<^sup>*\<^sup>* t t'" and "others = (\<lambda>_ s. s) \<Longrightarrow> t' = t"
  using assms unfolding repeats_def by blast

lemma settles_pure: "settles (\<lambda>d others s. (r, s))"
  by (auto simp: settles_def repeats_def)

lemma repeats_and_then:
  fixes f :: "'d \<Rightarrow> ('k \<Rightarrow> 's \<Rightarrow> 's) \<Rightarrow> 's \<Rightarrow> 'a result \<times> 's"
  assumes f: "repeats f a s" and g: "repeats (g a) x s'" and run: "step\<^sup>*\<^sup>* s s'"
  shows "repeats (\<lambda>d others s. and_then (f d others s) (\<lambda>a. g a d others)) x s'"
  unfolding repeats_def
proof (intro allI impI)
  fix d and others :: "'k \<Rightarrow> 's \<Rightarrow> 's" and t
  assume t: "step\<^sup>*\<^sup>* s' t" and calm: "calm others"
  from run t have "step\<^sup>*\<^sup>* s t" by (rule rtranclp_trans)
  with f calm obtain t1 where 1: "f d others t = (Inr a, t1)" "step\<^sup>*\<^sup>* t t1" "others = (\<lambda>_ s. s) \<Longrightarrow> t1 = t"
    by (blast elim: repeatsD)
  from t 1(2) have "step\<^sup>*\<^sup>* s' t1" by (rule rtranclp_trans)
  with g calm obtain t2 where 2: "g a d others t1 = (Inr x, t2)" "step\<^sup>*\<^sup>* t1 t2" "others = (\<lambda>_ s. s) \<Longrightarrow> t2 = t1"
    by (blast elim: repeatsD)
  have "step\<^sup>*\<^sup>* t t2" using 1(2) 2(2) by (rule rtranclp_trans)
  with 1 2 show "\<exists>t'. and_then (f d others t) (\<lambda>a. g a d others) = (Inr x, t') \<and> step\<^sup>*\<^sup>* t t' \<and> (others = (\<lambda>_ s. s) \<longrightarrow> t' = t)"
    by auto
qed

lemma settles_and_then:
  fixes f :: "'d \<Rightarrow> ('k \<Rightarrow> 's \<Rightarrow> 's) \<Rightarrow> 's \<Rightarrow> 'a result \<times> 's"
  assumes f: "settles f" and g: "\<And>a. settles (g a)"
  shows "settles (\<lambda>d others s. and_then (f d others s) (\<lambda>a. g a d others))"
  unfolding settles_def
proof (intro allI impI)
  fix d and others :: "'k \<Rightarrow> 's \<Rightarrow> 's" and s r s'
  assume inv: "inv s" and calm: "calm others" and run: "and_then (f d others s) (\<lambda>a. g a d others) = (r, s')"
  obtain r1 s1 where first: "f d others s = (r1, s1)" by fastforce
  note 1 = settlesD [of f s others d r1 s1, OF f inv calm first]
  show "step\<^sup>*\<^sup>* s s' \<and> (\<forall>x. r = Inr x \<longrightarrow> repeats (\<lambda>d others s. and_then (f d others s) (\<lambda>a. g a d others)) x s')"
  proof (cases r1)
    case (Inl e)
    with run first 1(1) show ?thesis by auto
  next
    case (Inr a)
    with run first have second: "g a d others s1 = (r, s')" by simp
    note 2 = settlesD [of "g a" s1 others d r s', OF g 1(2) calm second]
    have "repeats (\<lambda>d others s. and_then (f d others s) (\<lambda>a. g a d others)) x s'" if "r = Inr x" for x
      by (rule repeats_and_then [of f a s1 g x s', OF 1(3) [OF Inr] 2(3) [OF that] 2(1)])
    moreover from 1(1) 2(1) have "step\<^sup>*\<^sup>* s s'" by (rule rtranclp_trans)
    ultimately show ?thesis by simp
  qed
qed

text \<open>A call of the shared state, which others may change before it.\<close>

lemma settles_call:
  fixes k :: 'k
  assumes step: "\<And>d s r s'. inv s \<Longrightarrow> call d s = (r, s') \<Longrightarrow> step s s'"
    and again: "\<And>d d' s x s' t. inv s \<Longrightarrow> call d s = (Inr x, s') \<Longrightarrow> step\<^sup>*\<^sup>* s' t \<Longrightarrow> call d' t = (Inr x, t)"
  shows "settles (\<lambda>d others s. call d (others k s))"
  unfolding settles_def
proof (intro allI impI)
  fix d and others :: "'k \<Rightarrow> 's \<Rightarrow> 's" and s r s'
  assume inv: "inv s" and calm: "calm others" and run: "call d (others k s) = (r, s')"
  from calm have before: "step\<^sup>*\<^sup>* s (others k s)" by (simp add: calm_def)
  from inv_run [OF before inv] have inv': "inv (others k s)" .
  from before step [OF inv' run] have "step\<^sup>*\<^sup>* s s'" by (rule rtranclp.rtrancl_into_rtrancl)
  moreover have "repeats (\<lambda>d others s. call d (others k s)) x s'" if "r = Inr x" for x
    unfolding repeats_def
  proof (intro allI impI)
    fix d' and others' :: "'k \<Rightarrow> 's \<Rightarrow> 's" and t
    assume "step\<^sup>*\<^sup>* s' t" and "calm others'"
    then have "step\<^sup>*\<^sup>* t (others' k t)" "step\<^sup>*\<^sup>* s' (others' k t)" by (auto simp: calm_def intro: rtranclp_trans)
    with again [OF inv' run [unfolded that]]
    show "\<exists>t'. call d' (others' k t) = (Inr x, t') \<and> step\<^sup>*\<^sup>* t t' \<and> (others' = (\<lambda>_ s. s) \<longrightarrow> t' = t)" by auto
  qed
  ultimately show "step\<^sup>*\<^sup>* s s' \<and> (\<forall>x. r = Inr x \<longrightarrow> repeats (\<lambda>d others s. call d (others k s)) x s')" by blast
qed

end

interpretation retry: retrying "registry_ok h" "registry_step h" for h ..

text \<open>The programs over the registry that can be repeated, and the interference that is allowed.\<close>

abbreviation repeatable :: "host \<Rightarrow> (drawing \<Rightarrow> others \<Rightarrow> registry_store \<Rightarrow> 'a result \<times> registry_store) \<Rightarrow> bool" where
  "repeatable h f \<equiv> retrying.settles (registry_ok h) (registry_step h) f"

definition interferes :: "host \<Rightarrow> others \<Rightarrow> bool" where
  "interferes h others \<longleftrightarrow> (\<forall>k s. (registry_step h)\<^sup>*\<^sup>* s (others k s))"

lemma calm_interferes: "retrying.calm (registry_step h) others \<longleftrightarrow> interferes h others"
  by (simp add: retry.calm_def interferes_def)

lemma repeatable_resolve:
  "repeatable h (\<lambda>draw others s. ResolveCanonicalIdentities h (draw k) corpusID k 0 claims (others k s))"
proof (rule retry.settles_call)
  fix draw :: drawing and s r s'
  assume "ResolveCanonicalIdentities h (draw k) corpusID k 0 claims s = (r, s')"
  then show "registry_step h s s'" by (rule registry_step.resolve)
next
  fix draw draw' :: drawing and s x s' t
  assume ok: "registry_ok h s" and run: "ResolveCanonicalIdentities h (draw k) corpusID k 0 claims s = (Inr x, s')"
    and later: "(registry_step h)\<^sup>*\<^sup>* s' t"
  obtain as revision where x: "x = (as, revision)" by (cases x)
  from Resolve_again [OF ok run [unfolded x] later refl]
  show "ResolveCanonicalIdentities h (draw' k) corpusID k 0 claims t = (Inr x, t)" by (simp add: x)
qed

lemma repeatable_plan_step: "repeatable h (\<lambda>draw others. plan_step message r)"
proof -
  have "plan_step message r = (\<lambda>s. (case r of Inl e \<Rightarrow> Inl (permanentBindingError message) | Inr a \<Rightarrow> Inr a, s))"
    by (rule ext) (simp add: plan_step_def split: sum.splits)
  then show ?thesis using retry.settles_pure by metis
qed

lemma repeatable_wrapping:
  assumes "repeatable h f"
  shows "repeatable h (\<lambda>draw others s. wrapping message (f draw others s))"
proof -
  have *: "wrapping message x = (Inr a, t) \<longleftrightarrow> x = (Inr a, t)" and **: "snd (wrapping message x) = snd x"
    for x :: "'a result \<times> registry_store" and a t
    by (auto simp: wrapping_def split: prod.splits sum.splits)
  show ?thesis
    unfolding retry.settles_def retry.repeats_def *
  proof (intro allI impI)
    fix draw :: drawing and others :: others and s r s'
    assume ok: "registry_ok h s" and calm: "retrying.calm (registry_step h) others"
      and run: "wrapping message (f draw others s) = (r, s')"
    obtain r1 where f: "f draw others s = (r1, s')" using ** [of "f draw others s"] run by (metis prod.collapse snd_conv)
    note settled = retry.settlesD [of h f s others draw r1 s', OF assms ok calm f]
    have "r = Inr x \<Longrightarrow> r1 = Inr x" for x using run f * by auto
    with settled(1,3) show "(registry_step h)\<^sup>*\<^sup>* s s' \<and> (\<forall>x. r = Inr x \<longrightarrow>
        (\<forall>d others t. (registry_step h)\<^sup>*\<^sup>* s' t \<longrightarrow> retrying.calm (registry_step h) others \<longrightarrow>
          (\<exists>t'. f d others t = (Inr x, t') \<and> (registry_step h)\<^sup>*\<^sup>* t t' \<and> (others = (\<lambda>_ s. s) \<longrightarrow> t' = t))))"
      unfolding retry.repeats_def by blast
  qed
qed

lemma repeatable_batches:
  "repeatable h (\<lambda>draw others. resolve_batches h draw others job phase batchSize index assignments revision claims)"
proof (induction claims arbitrary: index assignments revision rule: length_induct)
  case (1 claims)
  let ?key = "bindingOperationKey h (bj_job_id job) (bj_input_hash job) (operationPhase h phase batchSize index (take batchSize claims))"
  show ?case
  proof (cases "claims = [] \<or> batchSize = 0")
    case True
    then have "resolve_batches h draw others job phase batchSize index assignments revision claims s =
        (if claims = [] then Inr (assignments, revision) else Inl (Err ''registry batch size must be positive''), s)" for draw others s
      by (auto simp: resolve_batches.simps [of h draw others job phase batchSize index])
    then show ?thesis by (simp add: retry.settles_pure)
  next
    case False
    then have shorter: "length (drop batchSize claims) < length claims" by simp
    have "repeatable h (\<lambda>draw others s. and_then
        (ResolveCanonicalIdentities h (draw ?key) (bj_corpus_id job) ?key 0 (take batchSize claims) (others ?key s))
        (\<lambda>x. case x of (resolved, batchRevision) \<Rightarrow> resolve_batches h draw others job phase batchSize (index + 1)
           (assignments @ resolved) (max revision batchRevision) (drop batchSize claims)))"
    proof (rule retry.settles_and_then [OF repeatable_resolve])
      fix x :: "CanonicalIdentityAssignment list \<times> nat"
      from 1 shorter show "repeatable h (\<lambda>draw others. case x of (resolved, batchRevision) \<Rightarrow>
          resolve_batches h draw others job phase batchSize (index + 1) (assignments @ resolved) (max revision batchRevision) (drop batchSize claims))"
        by (cases x) simp
    qed
    moreover have "resolve_batches h draw others job phase batchSize index assignments revision claims s = and_then
        (ResolveCanonicalIdentities h (draw ?key) (bj_corpus_id job) ?key 0 (take batchSize claims) (others ?key s))
        (\<lambda>x. case x of (resolved, batchRevision) \<Rightarrow> resolve_batches h draw others job phase batchSize (index + 1)
           (assignments @ resolved) (max revision batchRevision) (drop batchSize claims))" for draw others s
      using False by (simp add: resolve_batches.simps [of h draw others job phase batchSize index] Let_def)
    ultimately show ?thesis by simp
  qed
qed

lemma repeatable_claims: "repeatable h (\<lambda>draw others. resolveClaims h draw others config job phase claims)"
  unfolding resolveClaims_def by (rule repeatable_batches)

lemma repeatable_if:
  assumes "repeatable h f" and "repeatable h g"
  shows "repeatable h (\<lambda>draw others s. if P then f draw others s else g draw others s)"
  using assms by (cases P) simp_all

lemmas repeatable_steps = retry.settles_pure repeatable_plan_step repeatable_wrapping repeatable_claims

lemma repeatable_candidates: "repeatable h (\<lambda>draw others. bind_candidates h draw others config job candidates)"
  unfolding bind_candidates_def case_prod_beta
  by (intro retry.settles_and_then repeatable_steps)

lemma repeatable_provisions: "repeatable h (\<lambda>draw others. bind_provision_claims h draw others config job provisions registryRevision)"
  unfolding bind_provision_claims_def case_prod_beta
  by (intro repeatable_if retry.settles_and_then repeatable_steps)

lemma repeatable_bind: "repeatable h (bind_batch h c config job batch)"
  unfolding bind_batch_def [abs_def] case_prod_beta
  by (intro repeatable_if retry.settles_and_then repeatable_steps repeatable_candidates repeatable_provisions)

section \<open>What the registry stage hands on\<close>

lemma storageID_document: "storageIDPattern s \<Longrightarrow> validDocumentID s"
proof (rule ascii_document_id)
  assume s: "storageIDPattern s"
  then show "s \<noteq> []" "length s \<le> 256" by (cases s; simp)+
  from s have "list_all is_id_tail s" by (cases s) (auto simp: is_id_tail_def)
  moreover have "is_id_tail c \<Longrightarrow> 33 \<le> byte c \<and> byte c \<le> 126" for c
    by (auto simp: is_id_tail_def is_alnum_def is_digit_def less_eq_char_def)
  ultimately show "list_all (\<lambda>c. 33 \<le> byte c \<and> byte c \<le> 126) s" by (auto simp: list_all_iff)
qed

lemma assigns_valid:
  assumes ok: "registry_ok h s" and a: "assigns s corpusID c a"
  shows "validDocumentID (ca_canonical_id a)"
proof -
  from a obtain i where "row_of identity_uk (claim_uk corpusID c) (rs_identities s) = Some i" "ci_canonical_id i = ca_canonical_id a"
    by (auto simp: assigns_def canonical_of_def)
  moreover from this(1) ok have "validDocumentID (ci_canonical_id i)"
    using row_of_mem by (fastforce simp: registry_ok_def list_all_iff identity_ok_def)
  ultimately show ?thesis by simp
qed

lemma Resolve_assignments:
  assumes ok: "registry_ok h s"
    and run: "ResolveCanonicalIdentities h draw corpusID operationKey e claims s = (Inr (as, revision), s')"
  shows "map ca_proposal_key as = map cc_proposal_key (sort_key cc_proposal_key claims) \<and> list_all assignment_ok as"
proof -
  let ?o = "sort_key cc_proposal_key claims"
  have ok': "registry_ok h s'" using Resolve_effect [OF ok run] by simp
  have held: "holds_operation s' corpusID operationKey claims as revision" by (rule Resolve_holds [OF run ok])
  have all: "list_all2 (assigns s' corpusID) ?o as" by (rule held_assigns [OF ok' held])
  from held obtain r where r: "row_of operation_pk (corpusID, operationKey) (rs_operations s') = Some r" "ro_revision r = revision"
    and as: "as = map (replayed_assignment revision) (decisions_of s' (corpusID, operationKey))"
    by (auto simp: holds_operation_def)
  have "revision > 0" using ok' row_of_mem [OF r(1)] r(2) by (auto simp: registry_ok_def list_all_iff operation_ok_def)
  then have revisions: "ca_revision a \<noteq> 0" if "a \<in> set as" for a using that by (auto simp: as replayed_assignment_def)
  have keys: "map ca_proposal_key as = map cc_proposal_key ?o"
    using all by (auto simp: list_all2_conv_all_nth assigns_def intro: nth_equalityI)
  have "storageIDPattern (ca_proposal_key a)" if "a \<in> set as" for a
  proof -
    from that have "ca_proposal_key a \<in> set (map cc_proposal_key ?o)" using keys by (metis in_set_conv_nth length_map nth_map)
    then show ?thesis
      using Resolve_batch [OF run ok] by (auto simp: batch_ok_def list_all_iff claim_ok_def)
  qed
  moreover have "validDocumentID (ca_canonical_id a)" if "a \<in> set as" for a
    using all that assigns_valid [OF ok'] by (auto simp: list_all2_conv_all_nth in_set_conv_nth)
  ultimately show ?thesis
    using keys revisions by (auto simp: list_all_iff assignment_ok_def intro: storageID_document)
qed

lemma resolve_batches_assignments:
  assumes "resolve_batches h draw others job phase batchSize index as revision claims s = (Inr (as', revision'), s')"
    and "registry_ok h s" and "interferes h others" and "sorted (map cc_proposal_key claims)"
  shows "\<exists>new. as' = as @ new \<and> map ca_proposal_key new = map cc_proposal_key claims \<and> list_all assignment_ok new"
  using assms
proof (induction claims arbitrary: index as revision s rule: length_induct)
  case (1 claims)
  note step = resolve_batches.simps [of h draw others job phase batchSize index as revision claims s]
  show ?case
  proof (cases "claims = []")
    case True
    with 1(2) [unfolded step] show ?thesis by simp
  next
    case False
    define key where "key = bindingOperationKey h (bj_job_id job) (bj_input_hash job) (operationPhase h phase batchSize index (take batchSize claims))"
    from 1(2) False have positive: "batchSize \<noteq> 0" unfolding step by (auto split: if_splits)
    from 1(4) have before: "(registry_step h)\<^sup>*\<^sup>* s (others key s)" by (simp add: interferes_def)
    have ok: "registry_ok h (others key s)" by (rule registry.inv_run [OF before 1(3)])
    obtain r s1 where call: "ResolveCanonicalIdentities h (draw key) (bj_corpus_id job) key 0 (take batchSize claims) (others key s) = (r, s1)"
      by fastforce
    with 1(2) False positive obtain resolved n where r: "r = Inr (resolved, n)"
      by (cases r) (auto simp: step Let_def key_def)
    with 1(2) False positive call have rest: "resolve_batches h draw others job phase batchSize (index + 1) (as @ resolved)
        (max revision n) (drop batchSize claims) s1 = (Inr (as', revision'), s')"
      by (simp add: step Let_def key_def)
    have ok': "registry_ok h s1" using Resolve_effect [OF ok call] by simp
    have sorted: "sorted (map cc_proposal_key (take batchSize claims))" "sorted (map cc_proposal_key (drop batchSize claims))"
      using 1(5) by (simp_all add: sorted_wrt_take sorted_wrt_drop take_map [symmetric] drop_map [symmetric])
    have "length (drop batchSize claims) < length claims" using False positive by simp
    with 1(1) rest ok' 1(4) sorted(2) obtain new where new: "as' = (as @ resolved) @ new"
        "map ca_proposal_key new = map cc_proposal_key (drop batchSize claims)" "list_all assignment_ok new" by blast
    have "map ca_proposal_key resolved = map cc_proposal_key (take batchSize claims) \<and> list_all assignment_ok resolved"
      using Resolve_assignments [OF ok call [unfolded r]] sort_key_id_if_sorted [OF sorted(1)] by simp
    moreover from this new(2) have "map ca_proposal_key (resolved @ new) = map cc_proposal_key claims"
      by (metis append_take_drop_id map_append)
    ultimately show ?thesis using new by (intro exI [of _ "resolved @ new"]) simp
  qed
qed

lemma resolveClaims_assignments:
  assumes "resolveClaims h draw others config job phase claims s = (Inr (as, revision), s')"
    and "registry_ok h s" and "interferes h others"
  shows "map ca_proposal_key as = map cc_proposal_key (sort_key cc_proposal_key claims) \<and> list_all assignment_ok as"
  using resolve_batches_assignments [OF assms(1) [unfolded resolveClaims_def] assms(2,3)] by auto

lemma index_assignments_distinct:
  assumes "list_all ok as" and "distinct (map ca_proposal_key as)" and "set (map ca_proposal_key as) \<inter> fst ` set index = {}"
  shows "index_assignments what ok index as = Inr (rev (map (\<lambda>a. (ca_proposal_key a, a)) as) @ index)"
  using assms
proof (induction as arbitrary: index)
  case (Cons a as)
  then have "map_of index (ca_proposal_key a) = None" by (auto simp: map_of_eq_None_iff)
  with Cons show ?case by auto
qed simp

text \<open>The index over the assignments of resolved claims finds every claim.\<close>

lemma resolved_index:
  assumes run: "resolveClaims h draw others config job phase claims s = (Inr (as, revision), s')"
    and "registry_ok h s" and "interferes h others" and distinct: "distinct (map cc_proposal_key claims)"
  obtains index where "index_assignments what assignment_ok [] as = Inr index" and "length index = length claims"
    and "\<And>c. c \<in> set claims \<Longrightarrow> \<exists>a. map_of index (cc_proposal_key c) = Some a \<and> validDocumentID (ca_canonical_id a)"
proof -
  let ?o = "sort_key cc_proposal_key claims" and ?index = "rev (map (\<lambda>a. (ca_proposal_key a, a)) as)"
  from resolveClaims_assignments [OF assms(1-3)]
  have as: "map ca_proposal_key as = map cc_proposal_key ?o" "list_all assignment_ok as" by simp_all
  have "distinct (map cc_proposal_key ?o)" using distinct distinct_map_mset [of ?o claims cc_proposal_key] by (simp del: distinct_map)
  with as have built: "index_assignments what assignment_ok [] as = Inr ?index"
    using index_assignments_distinct [of assignment_ok as "[]" what] by simp
  have "\<exists>a. map_of ?index (cc_proposal_key c) = Some a \<and> validDocumentID (ca_canonical_id a)" if "c \<in> set claims" for c
  proof -
    from that have "cc_proposal_key c \<in> set (map ca_proposal_key as)" by (simp add: as(1))
    then have "cc_proposal_key c \<in> fst ` set ?index" by (simp add: image_image)
    then obtain a where a: "map_of ?index (cc_proposal_key c) = Some a" by (metis map_of_eq_None_iff not_None_eq)
    then have "a \<in> set as" by (auto dest: map_of_SomeD)
    with as(2) a show ?thesis by (auto simp: list_all_iff assignment_ok_def)
  qed
  moreover have "length ?index = length claims" using arg_cong [OF as(1), of length] by simp
  ultimately show thesis using that built by blast
qed

text \<open>An item of a plan: its claims are those of its candidate, with the issuer that the index holds.\<close>

definition plan_item :: "host \<Rightarrow> assignment_index \<Rightarrow> RegulationCanonicalCandidate \<Rightarrow> bool" where
  "plan_item h issuers item \<longleftrightarrow>
     CanonicalIssuerClaim h (cr_candidate item) = Inr (cr_issuer_claim item) \<and>
     canonicalRegulationClaim h (cr_candidate item) (cr_issuer_id item) = Inr (cr_claim item) \<and>
     (\<exists>a. map_of issuers (cc_proposal_key (cr_issuer_claim item)) = Some a \<and> ca_canonical_id a = cr_issuer_id item)"

lemma plan_claims_items: "plan_claims h issuers seen cs = Inr planned \<Longrightarrow> list_all (plan_item h issuers) planned"
  by (induction cs arbitrary: seen planned)
    (auto simp: bind_result_Inr_iff plan_item_def split: if_splits option.splits)

lemma issuer_claim_complete:
  "CanonicalIssuerClaim h c = Inr claim \<Longrightarrow> validDocumentID i \<Longrightarrow> \<exists>claim'. canonicalRegulationClaim h c i = Inr claim'"
  by (auto simp: CanonicalIssuerClaim_def canonicalRegulationClaim_def bind_result_Inr_iff Let_def)

lemma plan_claims_total:
  assumes "distinct (map rc_source_blob_id cs)" and "set (map rc_source_blob_id cs) \<inter> set seen = {}"
    and "\<And>c. c \<in> set cs \<Longrightarrow> \<exists>claim a. CanonicalIssuerClaim h c = Inr claim \<and>
      map_of issuers (cc_proposal_key claim) = Some a \<and> validDocumentID (ca_canonical_id a)"
  shows "\<exists>planned. plan_claims h issuers seen cs = Inr planned"
  using assms
proof (induction cs arbitrary: seen)
  case (Cons c cs)
  from Cons.prems(3) [of c] obtain claim a where c: "CanonicalIssuerClaim h c = Inr claim"
      "map_of issuers (cc_proposal_key claim) = Some a" "validDocumentID (ca_canonical_id a)" by auto
  from issuer_claim_complete [OF c(1,3)] obtain claim' where "canonicalRegulationClaim h c (ca_canonical_id a) = Inr claim'" ..
  moreover from Cons obtain rest where "plan_claims h issuers (rc_source_blob_id c # seen) cs = Inr rest" by fastforce
  ultimately show ?case using c Cons.prems(2) by simp
qed simp

lemma issuers_planned:
  assumes claims: "map_result (CanonicalIssuerClaim h) candidates = Inr issuerClaims"
    and sources: "distinct (map rc_source_blob_id candidates)" and distinct: "distinct (map cc_proposal_key issuerClaims)"
    and "registry_ok h s" and "interferes h others"
    and run: "resolveClaims h draw others config job phase issuerClaims s = (Inr (issuers, revision), s')"
  obtains index planned where "index_assignments ''issuer'' assignment_ok [] issuers = Inr index"
    and "PlanCanonicalRegulationClaims h candidates issuers = Inr planned"
    and "list_all (plan_item h index) planned" and "length index = length planned"
proof -
  obtain index where index: "index_assignments ''issuer'' assignment_ok [] issuers = Inr index" "length index = length issuerClaims"
    "\<And>c. c \<in> set issuerClaims \<Longrightarrow> \<exists>a. map_of index (cc_proposal_key c) = Some a \<and> validDocumentID (ca_canonical_id a)"
    using resolved_index [OF run assms(4,5) distinct] by metis
  let ?cs = "sort_by (\<lambda>a b. rc_source_blob_id a < rc_source_blob_id b) candidates"
  from claims have each: "list_all2 (\<lambda>x y. CanonicalIssuerClaim h x = Inr y) candidates issuerClaims" by (simp add: map_result_Inr)
  have "\<exists>claim a. CanonicalIssuerClaim h c = Inr claim \<and> map_of index (cc_proposal_key claim) = Some a \<and>
      validDocumentID (ca_canonical_id a)" if "c \<in> set ?cs" for c
  proof -
    from that each obtain claim where "claim \<in> set issuerClaims" "CanonicalIssuerClaim h c = Inr claim"
      unfolding list_all2_conv_all_nth set_sort_by in_set_conv_nth by metis
    with index(3) show ?thesis by blast
  qed
  moreover have "distinct (map rc_source_blob_id ?cs)"
    using sources distinct_map_mset [of ?cs candidates rc_source_blob_id] by (simp del: distinct_map)
  ultimately obtain planned where planned: "plan_claims h index [] ?cs = Inr planned"
    using plan_claims_total [of ?cs "[]" h index] by auto
  have lengths: "length index = length candidates" using index(2) list_all2_lengthD [OF each] by simp
  with planned index(1) have "PlanCanonicalRegulationClaims h candidates issuers = Inr planned"
    by (simp add: PlanCanonicalRegulationClaims_def)
  moreover have "length planned = length candidates"
    using arg_cong [OF plan_claims_candidates [OF planned], of length] by simp
  ultimately show thesis using that index(1) plan_claims_items [OF planned] lengths by simp
qed

lemma regulations_bound:
  assumes index: "index_assignments ''issuer'' assignment_ok [] issuers = Inr index"
    and items: "list_all (plan_item h index) planned" and lengths: "length index = length planned"
    and distinct: "distinct (map cc_proposal_key (map cr_claim planned))"
    and "registry_ok h s" and "interferes h others"
    and run: "resolveClaims h draw others config job phase (map cr_claim planned) s = (Inr (regulations, revision), s')"
  shows "\<exists>bindings. BuildRegulationDocumentBindings h planned issuers regulations = Inr bindings"
proof -
  obtain rs where rs: "index_assignments ''regulation'' assignment_ok [] regulations = Inr rs" "length rs = length (map cr_claim planned)"
    "\<And>c. c \<in> set (map cr_claim planned) \<Longrightarrow> \<exists>a. map_of rs (cc_proposal_key c) = Some a \<and> validDocumentID (ca_canonical_id a)"
    using resolved_index [OF run assms(5,6) distinct] by metis
  have "\<exists>b. binding_of h index rs item = Inr b" if "item \<in> set planned" for item
  proof -
    from that items obtain a where "map_of index (cc_proposal_key (cr_issuer_claim item)) = Some a" "ca_canonical_id a = cr_issuer_id item"
      "plan_item h index item" by (auto simp: list_all_iff plan_item_def)
    moreover from that rs(3) [of "cr_claim item"] obtain b where "map_of rs (cc_proposal_key (cr_claim item)) = Some b" by auto
    ultimately show ?thesis by (simp add: binding_of_def plan_item_def)
  qed
  then have "\<exists>bs. map_result (binding_of h index rs) planned = Inr bs" by (induction planned) fastforce+
  with index rs(1,2) lengths show ?thesis by (simp add: BuildRegulationDocumentBindings_def)
qed

section \<open>Claims about the BIND stage\<close>

text \<open>
  Claim C4. The BIND stage can be repeated after a crash. When \<open>bind\<close> has returned a bound batch and a
  registry revision, it returns the same batch and revision from every later state of the registry,
  whatever it draws and whatever other sessions do in between; without other sessions it leaves the
  registry as it is.
\<close>

theorem bind_repeatable:
  assumes "(registry_step h)\<^sup>*\<^sup>* empty_registry s" and "interferes h others"
    and "bind_batch h c config job batch draw others s = (Inr (bound, revision), s')"
    and "(registry_step h)\<^sup>*\<^sup>* s' t" and "interferes h others'"
  shows "\<exists>t'. bind_batch h c config job batch draw' others' t = (Inr (bound, revision), t') \<and>
    (registry_step h)\<^sup>*\<^sup>* t t' \<and> (others' = (\<lambda>_ s. s) \<longrightarrow> t' = t)"
proof -
  have ok: "registry_ok h s" by (rule registry_run_ok [OF assms(1)])
  have "retrying.repeats (registry_step h) (bind_batch h c config job batch) (bound, revision) s'"
    using retry.settlesD(3) [of h "bind_batch h c config job batch" s others draw "Inr (bound, revision)" s' "(bound, revision)"]
      repeatable_bind ok assms(2,3) by (simp add: calm_interferes)
  then show ?thesis using assms(4,5) by (auto simp: retry.repeats_def calm_interferes)
qed

text \<open>
  Claim C12. The stages fit the registry. Once the registry has resolved the issuer claims of a plan,
  the regulation claims can be planned; once it has resolved those, the bindings can be built. The
  only requirement is that the proposal keys, which are digests, do not collide.
\<close>

theorem registry_stages_succeed:
  assumes plan: "PlanRegulationIdentities h c (Some b) policy = Inr plan"
    and claims: "map_result (CanonicalIssuerClaim h) (pl_candidates plan) = Inr issuerClaims"
    and distinct: "distinct (map cc_proposal_key issuerClaims)"
    and s: "(registry_step h)\<^sup>*\<^sup>* empty_registry s" and others: "interferes h others"
    and run: "resolveClaims h draw others config job ''issuer'' issuerClaims s = (Inr (issuers, revision), s')"
  shows "\<exists>canonical. PlanCanonicalRegulationClaims h (pl_candidates plan) issuers = Inr canonical \<and>
    (\<forall>draw' regulations revision' t. distinct (map cc_proposal_key (map cr_claim canonical)) \<longrightarrow>
       resolveClaims h draw' others config job ''regulation'' (map cr_claim canonical) s' = (Inr (regulations, revision'), t) \<longrightarrow>
       (\<exists>bindings. BuildRegulationDocumentBindings h canonical issuers regulations = Inr bindings))"
proof -
  have ok: "registry_ok h s" by (rule registry_run_ok [OF s])
  have ok': "registry_ok h s'"
    using retry.settlesD(2) [of h "\<lambda>draw others. resolveClaims h draw others config job ''issuer'' issuerClaims" s others draw
        "Inr (issuers, revision)" s'] repeatable_claims ok others run by (simp add: calm_interferes)
  obtain index canonical where i: "index_assignments ''issuer'' assignment_ok [] issuers = Inr index"
    "PlanCanonicalRegulationClaims h (pl_candidates plan) issuers = Inr canonical"
    "list_all (plan_item h index) canonical" "length index = length canonical"
    using issuers_planned [OF claims plan_partition(3) [OF plan] distinct ok others run] by metis
  with regulations_bound [OF i(1,3,4) _ ok' others] show ?thesis by blast
qed

lemma retry_rounds_eq:
  "0 < delay \<Longrightarrow> retry_rounds n delay limit = min limit (delay * 2 ^ n)"
proof (induction n arbitrary: delay)
  case (Suc n)
  have big: "limit \<le> delay * 2 ^ Suc n" if "limit \<le> delay * 2"
  proof -
    have "delay * 2 * 1 \<le> delay * 2 * 2 ^ n" using Suc.prems by (intro mult_left_mono) simp_all
    with that show ?thesis by (simp add: mult.assoc)
  qed
  consider "delay \<ge> limit" | "delay < limit" "delay > limit div 2" | "delay < limit" "delay \<le> limit div 2" by linarith
  then show ?case
  proof cases
    case 1
    with big Suc.prems show ?thesis by (auto simp: min_def)
  next
    case 2
    with big show ?thesis by (auto simp: min_def)
  next
    case 3
    with Suc show ?thesis by (simp add: mult.assoc)
  qed
qed simp

text \<open>
  The delay before the next attempt doubles from the configured base and is capped by the
  configured maximum: the loop that stops before it could overflow computes exactly the capped
  power, for every executor that the constructor accepts.
\<close>

theorem retryDelay_capped:
  assumes "NewBindingExecutor stores config = Inr executor"
  shows "retryDelay executor attempt = min (be_retry_max executor) (be_retry_base executor * 2 ^ (attempt - 1)) \<and>
    0 < retryDelay executor attempt \<and> retryDelay executor attempt \<le> be_retry_max executor"
proof -
  from assms have "0 < be_retry_base executor" "be_retry_base executor \<le> be_retry_max executor"
    by (auto simp: NewBindingExecutor_def Let_def split: if_splits)
  then show ?thesis by (simp add: retryDelay_def retry_rounds_eq)
qed

section \<open>A worked attempt\<close>

definition qx_host :: host where
  "qx_host = bx_host\<lparr>sha256hex := (\<lambda>s. hex_EncodeToString (take 32 (rev s @ replicate 32 CHR 0x00)))\<rparr>"

definition qx_config :: BindingExecutorConfig where
  "qx_config = \<lparr>be_owner_id = ''owner'', be_jurisdiction = ''ID'', be_software = ''binder'', be_build = ''1'', be_language = ''id'',
     be_document_kind = DOCUMENT_KIND_REGULATION, be_lease = 1, be_retry_base = 0, be_retry_max = 0, be_maximum_bytes = 1,
     be_maximum_records = 100, be_registry_batch_size = 100, be_wire_limits = DefaultWireLimits\<rparr>"

definition qx_job :: bind_job where
  "qx_job = \<lparr>bj_corpus_id = ''c'', bj_job_id = ''job'', bj_input_hash = ''input''\<rparr>"

definition qx_draw :: "char \<Rightarrow> drawing" where
  "qx_draw b key n = Some (\<lambda>_. if take 20 key = ''registry:bind:issuer'' then b else if take 24 key = ''registry:bind:regulation''
     then CHR ''r'' else if n = 0 then CHR ''p'' else CHR ''q'')"

definition qx_batch :: document_batch where
  "qx_batch = dx_batch\<lparr>db_structures := [dx_node ''d'' STRUCTURE_KIND_DOCUMENT ''UU'' None [] (dx_span 0 9)]\<rparr>"

abbreviation qx_quiet :: others where
  "qx_quiet \<equiv> \<lambda>_ s. s"

definition qx_run :: "(document_batch \<times> nat) result \<times> registry_store" where
  "qx_run = bind_batch qx_host (bx_codec qx_batch) qx_config qx_job qx_batch (qx_draw CHR ''i'') qx_quiet empty_registry"

lemma qx_bound: "\<not> isl (fst qx_run)"
  by code_simp

lemma quiet_interferes: "interferes h qx_quiet"
  by (simp add: interferes_def)

theorem bind_repeatable_witness:
  "bind_batch qx_host (bx_codec qx_batch) qx_config qx_job qx_batch (qx_draw CHR ''z'') qx_quiet (snd qx_run) = qx_run"
proof -
  obtain bound revision where "fst qx_run = Inr (bound, revision)" using qx_bound by (cases "fst qx_run") auto
  then have run: "qx_run = (Inr (bound, revision), snd qx_run)" by (metis prod.collapse)
  have first: "bind_batch qx_host (bx_codec qx_batch) qx_config qx_job qx_batch (qx_draw CHR ''i'') qx_quiet empty_registry =
      (Inr (bound, revision), snd qx_run)" unfolding qx_run_def [symmetric] by (rule run)
  have "bind_batch qx_host (bx_codec qx_batch) qx_config qx_job qx_batch (qx_draw CHR ''z'') qx_quiet (snd qx_run) =
      (Inr (bound, revision), snd qx_run)"
    using bind_repeatable [OF rtranclp.rtrancl_refl quiet_interferes first rtranclp.rtrancl_refl quiet_interferes, of "qx_draw CHR ''z''"]
    by blast
  then show ?thesis by (simp only: run [symmetric])
qed

definition qx_plan :: RegulationIdentityPlan where
  "qx_plan = projr (PlanRegulationIdentities qx_host (bx_codec qx_batch) (Some qx_batch) rx_policy)"

definition qx_claims :: "CanonicalIdentityClaim list" where
  "qx_claims = projr (map_result (CanonicalIssuerClaim qx_host) (pl_candidates qx_plan))"

definition qx_resolved :: "(CanonicalIdentityAssignment list \<times> nat) result \<times> registry_store" where
  "qx_resolved = resolveClaims qx_host (qx_draw CHR ''i'') qx_quiet qx_config qx_job ''issuer'' qx_claims empty_registry"

lemma qx_stages:
  "\<not> isl (PlanRegulationIdentities qx_host (bx_codec qx_batch) (Some qx_batch) rx_policy)"
  "\<not> isl (map_result (CanonicalIssuerClaim qx_host) (pl_candidates qx_plan))"
  "distinct (map cc_proposal_key qx_claims)" "length qx_claims = 1" "\<not> isl (fst qx_resolved)"
  by code_simp+

theorem registry_stages_succeed_witness:
  "\<exists>canonical. PlanCanonicalRegulationClaims qx_host (pl_candidates qx_plan) (fst (projr (fst qx_resolved))) = Inr canonical"
proof -
  have plan: "PlanRegulationIdentities qx_host (bx_codec qx_batch) (Some qx_batch) rx_policy = Inr qx_plan"
    and claims: "map_result (CanonicalIssuerClaim qx_host) (pl_candidates qx_plan) = Inr qx_claims"
    using qx_stages(1,2) by (auto intro!: not_isl_Inr simp: qx_plan_def qx_claims_def)
  obtain issuers revision where r: "fst qx_resolved = Inr (issuers, revision)" using qx_stages(5) by (cases "fst qx_resolved") auto
  then have "qx_resolved = (Inr (issuers, revision), snd qx_resolved)" by (metis prod.collapse)
  from registry_stages_succeed [OF plan claims qx_stages(3) rtranclp.rtrancl_refl quiet_interferes this [unfolded qx_resolved_def]]
  show ?thesis by (auto simp: r)
qed

theorem retryDelay_capped_witness:
  "retryDelay (projr (NewBindingExecutor True qx_config)) 3 = 4000000000 \<and>
   retryDelay (projr (NewBindingExecutor True qx_config)) 100 = 60000000000"
proof -
  have "\<not> isl (NewBindingExecutor True qx_config)" by code_simp
  then have "NewBindingExecutor True qx_config = Inr (projr (NewBindingExecutor True qx_config))" by (simp add: not_isl_Inr)
  note delay = retryDelay_capped [OF this]
  have "be_retry_base (projr (NewBindingExecutor True qx_config)) = 1000000000"
    "be_retry_max (projr (NewBindingExecutor True qx_config)) = 60000000000" by code_simp+
  with delay [of 3] delay [of 100] show ?thesis by simp
qed

end
