(* ===== verification/Spec2Isabelle.thy ===== *)
theory Spec2Isabelle
  imports Publication Query Reranking Grounding Traversal Ontology Closure Binding
begin

text \<open>
  Verification library for the Go server of RegulaGraph-ID (\<open>src/src/server\<close>).

  The program. RegulaGraph-ID ingests Indonesian regulations, binds their text to registry-owned
  identities, publishes immutable snapshots of indexes and a graph, and answers questions with
  citations into those snapshots. The Go server coordinates: PostgreSQL keeps jobs, leases,
  registry identities and the publication ledger; workers written in Rust produce artifacts that
  the server only accepts after validation; retrieval fuses ranked lists, reranks them, walks the
  pinned graph and builds a context within a token budget; an answer is only released with
  citations that verify and claims that are covered.

  The theories and what they model.

  \<^item> \<open>Prelude\<close>: errors and results, tables as lists of rows with their lookups, identifier patterns, and
    the locales \<open>invariant_system\<close> and \<open>evolving_system\<close> for step relations, which \<open>Jobs\<close>,
    \<open>Publication\<close> and \<open>Canonical\<close> interpret. \<open>Ordering\<close>: \<open>sort_by\<close> for \<open>sort.Slice\<close> and \<open>sort.SliceStable\<close>. \<open>Float64\<close>:
    binary64 values as far as fusion and time arithmetic need them. \<open>Utf8\<close> and \<open>Text\<close>: decoding and
    encoding of runes, \<open>TrimSpace\<close>, \<open>Fields\<close>, \<open>strconv\<close>. \<open>Json\<close>: the rendering of \<open>encoding/json\<close> and
    its injectivity.
  \<^item> \<open>Contract\<close>: the protobuf messages (\<open>gen/regulagraph/v1\<close>). \<open>Wire\<close>: \<open>ValidateWire\<close>
    (\<open>domain/wire.go\<close>) over a reflected message. \<open>Boundaries\<close>: the guards on worker responses,
    embeddings, event streams and publication manifests (\<open>domain/boundaries.go\<close>).
  \<^item> \<open>Store\<close>, \<open>Jobs\<close>: the PostgreSQL tables and every statement of the job repository
    (\<open>adapters/postgres/jobs.go\<close>, \<open>index_job_claim.go\<close>) as operations on one record of tables, with a
    step relation of all operations at arbitrary times. \<open>Publication\<close>: the same for the publication
    ledger (\<open>publication.go\<close>, \<open>index_publication.go\<close>).
  \<^item> \<open>Registry\<close>: regulation identities from source observations and their claims on the registry
    (\<open>domain/registry.go\<close>). \<open>Canonical\<close>: the registry itself, \<open>ResolveCanonicalIdentities\<close>
    (\<open>adapters/postgres/registry.go\<close>) over four tables with the constraints of the migrations, as a
    step relation. \<open>Documents\<close>: planning and materialising provision identities over the
    structure tree (\<open>domain/documents.go\<close>). \<open>Binding\<close>: the BIND stage that composes them,
    with registry calls in batches and other sessions in between (\<open>bind\<close> and \<open>resolveClaims\<close> of
    \<open>workflows/bind.go\<close>); its locale \<open>retrying\<close> is the contract of a stage that can be repeated.
    \<open>Spans\<close> and \<open>Closure\<close>: the interval indexes and the closure check of a document batch
    (\<open>domain/document_validation.go\<close>, the coverage of \<open>domain/extraction_validation.go\<close>). \<open>Ontology\<close>: the vocabulary and the gate for extraction records
    (\<open>domain/ontology.go\<close>).
  \<^item> \<open>Query\<close> (\<open>retrieval/query\<close>: temporal, comparison and lexical analysis), \<open>Fusion\<close>
    (\<open>retrieval/fusion.go\<close>), \<open>Reranking\<close> (\<open>retrieval/reranking.go\<close>), \<open>Traversal\<close>
    (\<open>retrieval/graph/traversal.go\<close>, \<open>neighborhood.go\<close>), \<open>Context\<close> (\<open>answering/context_builder.go\<close>),
    \<open>Citations\<close> (\<open>answering/citations.go\<close>), \<open>Grounding\<close> (\<open>answering/validation.go\<close>).

  What the lemmas show.

  \<^item> State machines. Every state that the operations reach satisfies the invariants of the job tables
    and of the publication ledger; fences only grow, an older fence is refused, stages never go back,
    a committed publication is the only one of its corpus, pins keep their snapshot readable. The
    registry binds a key to one canonical identifier forever and never two keys to one, an operation
    can be replayed at any later time without effect, and its integrity errors imply a collision.
  \<^item> Guards. A validator accepts exactly the messages of a declarative predicate (wire messages,
    citations, rerank batches, publication manifests, structure spans, typed assertions), so that
    both an accepted bad message and a refused good one contradict a theorem. Binary searches over
    sorted ranges are compared with the containment that they stand for, and the search for cycles
    with acyclicity, for every order in which a Go map may be walked.
  \<^item> Composition. A context that \<open>BuildContext\<close> returns passes the checks of the citation builder, the
    citations that are built verify, and a complete answer has every claim supported; the bindings
    that the registry stage produces are accepted when the batch is bound, and a bound batch is
    closed under its references. The BIND stage returns the same result when it is repeated after a
    crash, and after every answer of the registry its next planning step succeeds.
  \<^item> Determinism. Fusion and identity planning do not depend on the order of their input or on the
    iteration order of a Go map; identity keys are exact up to a SHA-256 collision.

  Parameters. Code outside the repository is an argument of the definitions: protobuf encoding and
  reflection (\<open>codec\<close>), SHA-256, \<open>url.Parse\<close> and the Unicode case table (\<open>host\<close>), the time zone
  database, Unicode normalisation and the letter table, \<open>strconv.Quote\<close>, the tokenizer, the lookup of
  document URLs, the graph reader, random bytes, \<open>ctx.Err()\<close> and, where it matters, the iteration
  order of a map or the unstable order of a sort. Hypotheses about them are stated in the theorems that need them.

  Bounds. Machine integers are \<open>int\<close> or \<open>nat\<close> with the range checks of the code written out; sequence
  numbers that wrap are words. Recursion ends by a measure (\<open>structuralPath\<close>: the nodes that are not
  marked yet; \<open>walk_parents\<close>: the records that bound a path; \<open>Itoa\<close>: the
  number; \<open>resolve_batches\<close>: the claims that remain; the traversal: the hops that remain); no definition takes fuel.

  Not modelled. Transport and process glue (\<open>cmd\<close>, \<open>internal/api\<close>, \<open>internal/config\<close>), the adapters
  that only translate calls (\<open>neo4j\<close>, \<open>qdrant\<close>, \<open>inference\<close>, \<open>storage\<close>, \<open>worker\<close>), crawling and
  acquisition (\<open>ingestion\<close>), the workflow drivers (of \<open>bind.go\<close> the driver around \<open>bind\<close>), the
  other PostgreSQL repositories and the domain validators for graphs and indexes; generated code beyond the messages; the Rust worker, the Python
  tools and the frontend. Context switches inside one database transaction are not interleaved: a
  transaction is one step, as row locks and serialisable statements make it.
\<close>

end
